(* ===== verification/Dicey_Prelude.thy ===== *)
theory Dicey_Prelude
  imports Main "HOL-Library.Word"
begin

text \<open>
  Shared vocabulary of the development: the outcome of a C call, bounded C integers, the
  little-endian image of an integer in memory, overwriting a range of a buffer, and the
  generic list lemmas the component theories rely on.
\<close>

section \<open>Outcomes of C calls\<close>

text \<open>
  A C function of the library reports success by a non-negative number (or \<open>DICEY_OK\<close>) and
  failure by a negative error code.  \<open>Ok x\<close> is the former, with everything the call hands
  back in \<open>x\<close>; \<open>Err e\<close> the latter.  \<open>Undef\<close> marks an execution that leaves the defined
  behaviour of C (an access outside an allocation, a \<open>free\<close> of a pointer no allocator
  returned): no property of the library may rest on what happens after it.
\<close>

datatype ('e, 'a) outcome = Ok 'a | Err 'e | Undef

primrec and_then :: "('e, 'a) outcome \<Rightarrow> ('a \<Rightarrow> ('e, 'b) outcome) \<Rightarrow> ('e, 'b) outcome" where
  "and_then (Ok x) f = f x"
| "and_then (Err e) f = Err e"
| "and_then Undef f = Undef"

named_theorems outcome_simps \<open>how the results of composed calls decompose\<close>

lemma and_then_Ok_iff [outcome_simps]:
  "and_then r f = Ok y \<longleftrightarrow> (\<exists>x. r = Ok x \<and> f x = Ok y)"
  by (cases r) auto

lemma and_then_Err_iff [outcome_simps]:
  "and_then r f = Err e \<longleftrightarrow> r = Err e \<or> (\<exists>x. r = Ok x \<and> f x = Err e)"
  by (cases r) auto

lemma and_then_Undef_iff [outcome_simps]:
  "and_then r f = Undef \<longleftrightarrow> r = Undef \<or> (\<exists>x. r = Ok x \<and> f x = Undef)"
  by (cases r) auto

lemma and_then_Ok_right [simp]: "and_then r Ok = r"
  by (cases r) auto

lemma and_then_cong [fundef_cong]:
  "r = r' \<Longrightarrow> (\<And>x. r' = Ok x \<Longrightarrow> f x = g x) \<Longrightarrow> and_then r f = and_then r' g"
  by (cases r') auto

lemma if_Err_Ok_iff [outcome_simps]:
  "(if b then Err e else r) = Ok y \<longleftrightarrow> \<not> b \<and> r = Ok y"
  "(if b then r else Err e) = Ok y \<longleftrightarrow> b \<and> r = Ok y"
  "(if b then Undef else r) = Ok y \<longleftrightarrow> \<not> b \<and> r = Ok y"
  by auto

section \<open>Bytes, strings and C integers\<close>

type_synonym byte = "8 word"

text \<open>A NUL-terminated string is the list of the bytes before its terminator.\<close>

type_synonym cstring = "byte list"

definition cs :: "string \<Rightarrow> cstring" where
  "cs s = map of_char s"

definition cstring_ok :: "cstring \<Rightarrow> bool" where
  "cstring_ok s \<longleftrightarrow> 0 \<notin> set s"

definition PTRDIFF_MAX :: nat where "PTRDIFF_MAX = 9223372036854775807"
definition UINT32_MAX :: nat where "UINT32_MAX = 4294967295"
definition UINT16_MAX :: nat where "UINT16_MAX = 65535"
definition UINT8_MAX :: nat where "UINT8_MAX = 255"

lemmas c_limits = PTRDIFF_MAX_def UINT32_MAX_def UINT16_MAX_def UINT8_MAX_def

text \<open>
  \<open>dutl_checked_add\<close> into a \<open>ptrdiff_t\<close>, for the non-negative operands it is used with.
\<close>

definition dutl_checked_add :: "nat \<Rightarrow> nat \<Rightarrow> nat option" where
  "dutl_checked_add a b = (if a + b \<le> PTRDIFF_MAX then Some (a + b) else None)"

section \<open>Little-endian images of integers\<close>

primrec le_enc :: "nat \<Rightarrow> nat \<Rightarrow> byte list" where
  "le_enc 0 n = []"
| "le_enc (Suc k) n = word_of_nat n # le_enc k (n div 256)"

primrec le_dec :: "byte list \<Rightarrow> nat" where
  "le_dec [] = 0"
| "le_dec (b # bs) = unat b + 256 * le_dec bs"

lemma length_le_enc [simp]: "length (le_enc k n) = k"
  by (induction k arbitrary: n) auto

lemma unat_word_of_nat_byte: "unat (word_of_nat n :: byte) = n mod 256"
  by (simp add: unat_of_nat)

lemma le_dec_enc: "le_dec (le_enc k n) = n mod 256 ^ k"
proof (induction k arbitrary: n)
  case 0
  then show ?case by simp
next
  case (Suc k)
  have "le_dec (le_enc (Suc k) n) = n mod 256 + 256 * (n div 256 mod 256 ^ k)"
    by (simp add: Suc.IH unat_word_of_nat_byte)
  also have "\<dots> = n mod (256 * 256 ^ k)"
    by (simp add: mod_mult2_eq)
  finally show ?case by simp
qed

lemma le_dec_bound: "le_dec bs < 256 ^ length bs"
proof (induction bs)
  case Nil
  then show ?case by simp
next
  case (Cons b bs)
  have "unat b < 256"
    using unsigned_less [of b] by simp
  with Cons show ?case by simp
qed

lemma le_enc_dec: "le_enc (length bs) (le_dec bs) = bs"
proof (induction bs)
  case Nil
  then show ?case by simp
next
  case (Cons b bs)
  have b: "unat b < 256"
    using unsigned_less [of b] by simp
  then have "(unat b + 256 * le_dec bs) div 256 = le_dec bs"
    by simp
  moreover have "unat (word_of_nat (unat b + 256 * le_dec bs) :: byte) = unat b"
    unfolding unat_word_of_nat_byte using b by simp
  then have "(word_of_nat (unat b + 256 * le_dec bs) :: byte) = b"
    by (rule word_unat_eq_iff [THEN iffD2])
  ultimately show ?case
    using Cons by simp
qed

lemma le_dec_enc_word:
  fixes w :: "'a::len word"
  assumes "LENGTH('a) = 8 * k"
  shows "le_dec (le_enc k (unat w)) = unat w"
proof -
  have "unat w < 2 ^ (8 * k)"
    using unsigned_less [of w] assms by simp
  then have "unat w < 256 ^ k"
    by (simp add: power_mult)
  then show ?thesis
    by (simp add: le_dec_enc)
qed

section \<open>Overwriting part of a buffer\<close>

text \<open>The effect of \<open>memcpy\<close> of \<open>bs\<close> to offset \<open>off\<close> of an allocation.\<close>

definition overwrite :: "byte list \<Rightarrow> nat \<Rightarrow> byte list \<Rightarrow> byte list" where
  "overwrite mem off bs = take off mem @ bs @ drop (off + length bs) mem"

named_theorems buffer_simps \<open>composing writes into one buffer\<close>

lemma length_overwrite [simp]:
  "off + length bs \<le> length mem \<Longrightarrow> length (overwrite mem off bs) = length mem"
  by (simp add: overwrite_def)

lemma overwrite_Nil [simp]: "off \<le> length mem \<Longrightarrow> overwrite mem off [] = mem"
  by (simp add: overwrite_def)

lemma overwrite_append [buffer_simps]:
  assumes "off + length as + length bs \<le> length mem"
  shows "overwrite (overwrite mem off as) (off + length as) bs = overwrite mem off (as @ bs)"
  using assms by (simp add: overwrite_def ac_simps)

lemma overwrite_prefix [buffer_simps]:
  assumes "off + length bs \<le> length mem" and "length as \<le> length bs"
  shows "overwrite (overwrite mem off bs) off as = overwrite mem off (as @ drop (length as) bs)"
  using assms by (simp add: overwrite_def)

lemma overwrite_whole: "length bs = length mem \<Longrightarrow> overwrite mem 0 bs = bs"
  by (simp add: overwrite_def)

section \<open>Lists\<close>

lemma takeWhile_zstring [simp]:
  "0 \<notin> set s \<Longrightarrow> takeWhile (\<lambda>b. b \<noteq> 0) (s @ 0 # rest) = (s :: cstring)"
  by (induction s) auto

lemma zstring_split:
  "length (takeWhile (\<lambda>b. b \<noteq> 0) bs) \<noteq> length bs \<Longrightarrow>
     \<exists>rest. bs = takeWhile (\<lambda>b. b \<noteq> 0) bs @ 0 # (rest :: cstring)"
  by (induction bs) auto

lemma drop_Suc_length_append [simp]: "drop (Suc (length s)) (s @ x # rest) = rest"
  by (induction s) auto

end
