(* ===== verification/Dicey_Errors.thy ===== *)
theory Dicey_Errors
  imports Dicey_Prelude
begin

text \<open>
  The error codes of \<^verbatim>\<open>include/dicey/core/errors.h\<close> and the table of names and messages of
  \<^verbatim>\<open>src/errors.c\<close>.  Every other theory reports failures with these codes.
\<close>

section \<open>The error codes\<close>

datatype (plugins only: code size) dicey_error =
    DICEY_OK | DICEY_EAGAIN | DICEY_ENOENT | DICEY_ENOTDIR
  | DICEY_ENOMEM | DICEY_EINVAL | DICEY_ENODATA | DICEY_EBADMSG
  | DICEY_EOVERFLOW | DICEY_ECONNREFUSED | DICEY_ETIMEDOUT | DICEY_ECANCELLED
  | DICEY_EALREADY | DICEY_EPIPE | DICEY_ECONNRESET | DICEY_EEXIST
  | DICEY_EADDRINUSE | DICEY_EACCES | DICEY_EBADF | DICEY_EPATH_TOO_LONG
  | DICEY_ETUPLE_TOO_LONG | DICEY_EARRAY_TOO_LONG | DICEY_EVALUE_TYPE_MISMATCH | DICEY_ENOT_SUPPORTED
  | DICEY_ECLIENT_TOO_OLD | DICEY_ESERVER_TOO_OLD | DICEY_EPATH_DELETED | DICEY_EPATH_NOT_FOUND
  | DICEY_EPATH_MALFORMED | DICEY_EPATH_NOT_ALIAS | DICEY_ETRAIT_NOT_FOUND | DICEY_EELEMENT_NOT_FOUND
  | DICEY_ESIGNATURE_MALFORMED | DICEY_ESIGNATURE_MISMATCH | DICEY_EPROPERTY_READ_ONLY | DICEY_EPEER_NOT_FOUND
  | DICEY_ESEQNUM_MISMATCH | DICEY_EUUID_NOT_VALID | DICEY_EUV_UNKNOWN | DICEY_EPLUGIN_INVALID_NAME

text \<open>The numeric value of each enumerator.\<close>

primrec errnum :: "dicey_error \<Rightarrow> int" where
  "errnum DICEY_OK = 0"
| "errnum DICEY_EAGAIN = - 257"
| "errnum DICEY_ENOENT = - 258"
| "errnum DICEY_ENOTDIR = - 259"
| "errnum DICEY_ENOMEM = - 260"
| "errnum DICEY_EINVAL = - 261"
| "errnum DICEY_ENODATA = - 262"
| "errnum DICEY_EBADMSG = - 263"
| "errnum DICEY_EOVERFLOW = - 264"
| "errnum DICEY_ECONNREFUSED = - 265"
| "errnum DICEY_ETIMEDOUT = - 266"
| "errnum DICEY_ECANCELLED = - 267"
| "errnum DICEY_EALREADY = - 268"
| "errnum DICEY_EPIPE = - 269"
| "errnum DICEY_ECONNRESET = - 270"
| "errnum DICEY_EEXIST = - 271"
| "errnum DICEY_EADDRINUSE = - 272"
| "errnum DICEY_EACCES = - 273"
| "errnum DICEY_EBADF = - 274"
| "errnum DICEY_EPATH_TOO_LONG = - 531"
| "errnum DICEY_ETUPLE_TOO_LONG = - 532"
| "errnum DICEY_EARRAY_TOO_LONG = - 533"
| "errnum DICEY_EVALUE_TYPE_MISMATCH = - 790"
| "errnum DICEY_ENOT_SUPPORTED = - 1047"
| "errnum DICEY_ECLIENT_TOO_OLD = - 1048"
| "errnum DICEY_ESERVER_TOO_OLD = - 1049"
| "errnum DICEY_EPATH_DELETED = - 1050"
| "errnum DICEY_EPATH_NOT_FOUND = - 1051"
| "errnum DICEY_EPATH_MALFORMED = - 1052"
| "errnum DICEY_EPATH_NOT_ALIAS = - 1053"
| "errnum DICEY_ETRAIT_NOT_FOUND = - 1054"
| "errnum DICEY_EELEMENT_NOT_FOUND = - 1055"
| "errnum DICEY_ESIGNATURE_MALFORMED = - 1056"
| "errnum DICEY_ESIGNATURE_MISMATCH = - 1057"
| "errnum DICEY_EPROPERTY_READ_ONLY = - 1058"
| "errnum DICEY_EPEER_NOT_FOUND = - 1059"
| "errnum DICEY_ESEQNUM_MISMATCH = - 1060"
| "errnum DICEY_EUUID_NOT_VALID = - 1061"
| "errnum DICEY_EUV_UNKNOWN = - 1318"
| "errnum DICEY_EPLUGIN_INVALID_NAME = - 32295"

text \<open>Results of library calls carry these codes.\<close>

type_synonym 'a result = "(dicey_error, 'a) outcome"

section \<open>The table of error descriptions\<close>

record dicey_error_def =
  def_errnum :: dicey_error
  def_name :: string
  def_message :: string

definition error_def :: "dicey_error \<Rightarrow> string \<Rightarrow> string \<Rightarrow> dicey_error_def" where
  "error_def e n m = \<lparr>def_errnum = e, def_name = n, def_message = m\<rparr>"

text \<open>The position of a code in the table: its lowest byte, after negation.\<close>

definition INDEX_OF :: "int \<Rightarrow> nat" where
  "INDEX_OF e = nat ((- e) mod 256)"

text \<open>
  The initialisers of the table, in source order.  Each designates the element
  \<open>INDEX_OF\<close> of its code, and a later initialiser of the same element would win.
\<close>

definition error_info :: "dicey_error_def list" where
  "error_info =
    [error_def DICEY_OK ''OK'' ''success'',
     error_def DICEY_EAGAIN ''TryAgain'' ''not enough data'',
     error_def DICEY_ENOENT ''FileNotFound'' ''no such file or directory'',
     error_def DICEY_ENOMEM ''OutOfMemory'' ''out of memory'',
     error_def DICEY_ENOTDIR ''NotADirectory'' ''not a directory'',
     error_def DICEY_EINVAL ''InvalidData'' ''invalid argument'',
     error_def DICEY_ENODATA ''NoDataAvailable'' ''no data available'',
     error_def DICEY_EBADMSG ''BadMessage'' ''bad message'',
     error_def DICEY_EOVERFLOW ''Overflow'' ''overflow'',
     error_def DICEY_ECONNREFUSED ''ConnectionRefused'' ''connection refused'',
     error_def DICEY_ETIMEDOUT ''TimedOut'' ''timed out'',
     error_def DICEY_ECANCELLED ''Cancelled'' ''operation cancelled'',
     error_def DICEY_EALREADY ''Already'' ''already in progress'',
     error_def DICEY_EPIPE ''BrokenPipe'' ''broken pipe'',
     error_def DICEY_ECONNRESET ''ConnectionReset'' ''connection reset by peer'',
     error_def DICEY_EEXIST ''ObjectExists'' ''objects or file already exists'',
     error_def DICEY_EADDRINUSE ''AddressInUse'' ''address already in use'',
     error_def DICEY_EACCES ''PermissionDenied'' ''permission denied'',
     error_def DICEY_EBADF ''BadFileDescriptor'' ''bad file descriptor'',
     error_def DICEY_EPATH_TOO_LONG ''PathTooLong'' ''path too long'',
     error_def DICEY_ETUPLE_TOO_LONG ''TupleTooLong'' ''tuple too long'',
     error_def DICEY_EARRAY_TOO_LONG ''ArrayTooLong'' ''array too long'',
     error_def DICEY_EVALUE_TYPE_MISMATCH ''ValueTypeMismatch'' ''value type mismatch'',
     error_def DICEY_ENOT_SUPPORTED ''NotSupported'' ''unsupported operation'',
     error_def DICEY_ECLIENT_TOO_OLD ''ClientTooOld'' ''client too old'',
     error_def DICEY_ESERVER_TOO_OLD ''ServerTooOld'' ''server too old'',
     error_def DICEY_EPATH_DELETED ''PathDeleted'' ''path has been deleted'',
     error_def DICEY_EPATH_NOT_FOUND ''PathNotFound'' ''path not found'',
     error_def DICEY_EPATH_MALFORMED ''MalformedPath'' ''malformed path'',
     error_def DICEY_EPATH_NOT_ALIAS ''PathNotAlias'' ''path is not an alias'',
     error_def DICEY_ETRAIT_NOT_FOUND ''TraitNotFound'' ''trait not found'',
     error_def DICEY_EELEMENT_NOT_FOUND ''ElementNotFound'' ''element not found'',
     error_def DICEY_ESIGNATURE_MALFORMED ''MalformedSignature'' ''malformed signature'',
     error_def DICEY_ESIGNATURE_MISMATCH ''SignatureMismatch'' ''signature mismatch'',
     error_def DICEY_EPROPERTY_READ_ONLY ''PropertyReadOnly'' ''property read only'',
     error_def DICEY_EPEER_NOT_FOUND ''PeerNotFound'' ''peer (client or server) not found'',
     error_def DICEY_ESEQNUM_MISMATCH ''SequenceNumberMismatch'' ''sequence number mismatch'',
     error_def DICEY_EUUID_NOT_VALID ''UUIDNotValid'' ''UUID not valid'',
     error_def DICEY_EUV_UNKNOWN ''UnknownUVError'' ''unknown libuv error'',
     error_def DICEY_EPLUGIN_INVALID_NAME ''InvalidPluginName'' ''invalid plugin name'']"

definition error_info_at :: "nat \<Rightarrow> dicey_error_def option" where
  "error_info_at i =
     map_of (rev (map (\<lambda>d. (INDEX_OF (errnum (def_errnum d)), d)) error_info)) i"

text \<open>The enumerators \<open>dicey_error_is_valid\<close> lists; any other number is not a valid code.\<close>

definition all_dicey_errors :: "dicey_error list" where
  "all_dicey_errors =
    [DICEY_OK, DICEY_EAGAIN, DICEY_ENOENT, DICEY_ENOTDIR,
     DICEY_ENOMEM, DICEY_EINVAL, DICEY_ENODATA, DICEY_EBADMSG,
     DICEY_EOVERFLOW, DICEY_ECONNREFUSED, DICEY_ETIMEDOUT, DICEY_ECANCELLED,
     DICEY_EALREADY, DICEY_EPIPE, DICEY_ECONNRESET, DICEY_EEXIST,
     DICEY_EADDRINUSE, DICEY_EACCES, DICEY_EBADF, DICEY_EPATH_TOO_LONG,
     DICEY_ETUPLE_TOO_LONG, DICEY_EARRAY_TOO_LONG, DICEY_EVALUE_TYPE_MISMATCH, DICEY_ENOT_SUPPORTED,
     DICEY_ECLIENT_TOO_OLD, DICEY_ESERVER_TOO_OLD, DICEY_EPATH_DELETED, DICEY_EPATH_NOT_FOUND,
     DICEY_EPATH_MALFORMED, DICEY_EPATH_NOT_ALIAS, DICEY_ETRAIT_NOT_FOUND, DICEY_EELEMENT_NOT_FOUND,
     DICEY_ESIGNATURE_MALFORMED, DICEY_ESIGNATURE_MISMATCH, DICEY_EPROPERTY_READ_ONLY, DICEY_EPEER_NOT_FOUND,
     DICEY_ESEQNUM_MISMATCH, DICEY_EUUID_NOT_VALID, DICEY_EUV_UNKNOWN, DICEY_EPLUGIN_INVALID_NAME]"

definition dicey_error_is_valid :: "int \<Rightarrow> bool" where
  "dicey_error_is_valid n \<longleftrightarrow> n \<in> set (map errnum all_dicey_errors)"

definition dicey_error_info :: "int \<Rightarrow> dicey_error_def option" where
  "dicey_error_info n = (if dicey_error_is_valid n then error_info_at (INDEX_OF n) else None)"

text \<open>The array has as many elements as its last designated one needs; one without initialiser is \<open>None\<close>.\<close>

definition dicey_error_infos :: "dicey_error_def option list \<times> nat" where
  "dicey_error_infos =
     (let count = Suc (foldr max (map (\<lambda>d. INDEX_OF (errnum (def_errnum d))) error_info) 0) in
      (map error_info_at [0..<count], count))"

definition dicey_error_name :: "int \<Rightarrow> string" where
  "dicey_error_name n =
     (case dicey_error_info n of Some d \<Rightarrow> def_name d | None \<Rightarrow> ''Unknown'')"

definition dicey_error_msg :: "int \<Rightarrow> string" where
  "dicey_error_msg n =
     (case dicey_error_info n of Some d \<Rightarrow> def_message d | None \<Rightarrow> ''unknown error'')"

section \<open>Every code has its own description\<close>

lemma all_dicey_errors_complete: "e \<in> set all_dicey_errors"
  by (cases e) (simp_all add: all_dicey_errors_def)

lemma errnum_neg: "e \<noteq> DICEY_OK \<Longrightarrow> errnum e < 0"
  by (cases e) simp_all

lemma errnum_valid [simp]: "dicey_error_is_valid (errnum e)"
  using all_dicey_errors_complete [of e] by (auto simp: dicey_error_is_valid_def)

lemma error_info_errnums: "set (map def_errnum error_info) = set all_dicey_errors"
  by (simp add: error_info_def error_def_def all_dicey_errors_def insert_commute)

lemma error_info_indices_distinct:
  "distinct (map (\<lambda>d. INDEX_OF (errnum (def_errnum d))) error_info)"
  by (simp add: error_info_def error_def_def INDEX_OF_def)

lemma error_info_at_errnum:
  "\<exists>d. error_info_at (INDEX_OF (errnum e)) = Some d \<and> def_errnum d = e"
proof -
  have "e \<in> set (map def_errnum error_info)"
    unfolding error_info_errnums by (rule all_dicey_errors_complete)
  then obtain d where d: "d \<in> set error_info" "def_errnum d = e"
    by auto
  let ?kvs = "rev (map (\<lambda>d. (INDEX_OF (errnum (def_errnum d)), d)) error_info)"
  have "distinct (map fst ?kvs)"
    using error_info_indices_distinct by (simp add: rev_map [symmetric] comp_def)
  moreover have "(INDEX_OF (errnum e), d) \<in> set ?kvs"
    using d by force
  ultimately have "map_of ?kvs (INDEX_OF (errnum e)) = Some d"
    by (rule map_of_is_SomeI)
  with d show ?thesis
    by (auto simp: error_info_at_def)
qed

lemma errnum_inj: "errnum a = errnum b \<Longrightarrow> a = b"
  by (metis error_info_at_errnum option.inject)

lemma error_infos_count: "snd dicey_error_infos = 40"
  by (simp add: dicey_error_infos_def Let_def error_info_def error_def_def INDEX_OF_def)

lemma INDEX_OF_bound: "INDEX_OF (errnum e) < 40"
  by (cases e) (simp_all add: INDEX_OF_def)

lemma error_infos_nth: "i < 40 \<Longrightarrow> fst dicey_error_infos ! i = error_info_at i"
  using error_infos_count by (simp add: dicey_error_infos_def Let_def)

lemma error_info_names_distinct: "distinct (map def_name error_info)"
  by (simp add: error_info_def error_def_def)

lemma error_info_at_mem: "error_info_at i = Some d \<Longrightarrow> d \<in> set error_info"
  by (auto simp: error_info_at_def dest!: map_of_SomeD)

lemma error_info_at_inj:
  assumes "error_info_at i = Some c" and "error_info_at j = Some d" and "def_name c = def_name d"
  shows "c = d"
  using assms error_info_names_distinct error_info_at_mem
  by (metis (no_types, lifting) distinct_map inj_onD)

section \<open>Assertions\<close>

text \<open>
  A failed \<open>assert\<close> aborts unless the build defines \<open>NDEBUG\<close>, in which case it is not evaluated.
\<close>

definition c_assert :: "bool \<Rightarrow> bool \<Rightarrow> 'a result \<Rightarrow> 'a result" where
  "c_assert ndebug b r = (if ndebug \<or> b then r else Undef)"

lemma c_assert_simps [simp]:
  "c_assert True b r = r" "c_assert nd True r = r" "c_assert False False r = Undef"
  by (simp_all add: c_assert_def)

lemma c_assert_Ok_iff [outcome_simps]: "c_assert nd b r = Ok x \<longleftrightarrow> (nd \<or> b) \<and> r = Ok x"
  by (auto simp: c_assert_def)

end
