(* ===== verification/Dicey_Views.thy ===== *)
theory Dicey_Views
  imports Dicey_Errors
begin

text \<open>
  Views over memory: \<^verbatim>\<open>src/sup/view-ops.c\<close>, \<^verbatim>\<open>src/sup/unsafe.c\<close>, \<open>dutl_zstring_size\<close> of
  \<^verbatim>\<open>src/sup/util.c\<close> and the structures of \<^verbatim>\<open>include/dicey/core/views.h\<close>.

  A \<open>struct dicey_view\<close> is what can be read through it: \<open>None\<close> for a \<open>NULL\<close> data pointer,
  otherwise the \<open>len\<close> bytes it spans.  A \<open>struct dicey_view_mut\<close> is a position in the one
  allocation it writes to: the offset of \<open>data\<close> (\<open>None\<close> for \<open>NULL\<close>) and \<open>len\<close>.  The contents of
  that allocation are threaded through the calls, because a writer and its snapshots share
  them.  The addresses of local variables the callers pass are never \<open>NULL\<close>, so the checks of
  those pointers have no counterpart.
\<close>

section \<open>Read-only views\<close>

type_synonym dicey_view = "byte list option"

definition dicey_view_advance :: "dicey_view \<Rightarrow> int \<Rightarrow> (nat \<times> dicey_view) result" where
  "dicey_view_advance view offset =
     (case view of
        None \<Rightarrow> Err DICEY_EINVAL
      | Some bs \<Rightarrow>
          if offset < 0 then Err DICEY_EINVAL
          else if nat offset > length bs then Err DICEY_EOVERFLOW
          else Ok (nat offset, Some (drop (nat offset) bs)))"

definition dicey_view_as_zstring :: "dicey_view \<Rightarrow> (nat \<times> cstring \<times> dicey_view) result" where
  "dicey_view_as_zstring view =
     (case view of
        None \<Rightarrow> Err DICEY_EINVAL
      | Some bs \<Rightarrow>
          (let str = takeWhile (\<lambda>b. b \<noteq> 0) bs; size = length str in
           if size = length bs then Err DICEY_EINVAL
           else if size + 1 > PTRDIFF_MAX then Err DICEY_EOVERFLOW
           else and_then (dicey_view_advance view (int (size + 1)))
                  (\<lambda>(n, view'). Ok (n, str, view'))))"

definition dutl_zstring_size :: "cstring \<Rightarrow> nat result" where
  "dutl_zstring_size str =
     (if length str > UINT32_MAX then Err DICEY_EOVERFLOW else Ok (length str + 1))"

text \<open>The view of a string includes its terminator.\<close>

definition dicey_view_from_str :: "cstring \<Rightarrow> dicey_view result" where
  "dicey_view_from_str str =
     (case dutl_zstring_size str of Ok n \<Rightarrow> Ok (Some (take n (str @ [0]))) | _ \<Rightarrow> Undef)"

text \<open>
  \<open>dicey_view_read\<close> copies the first \<open>len\<close> bytes of the view to the destination; the model
  returns the copied bytes.
\<close>

definition dicey_view_read :: "dicey_view \<Rightarrow> nat \<Rightarrow> (nat \<times> byte list \<times> dicey_view) result" where
  "dicey_view_read view len =
     (case view of
        None \<Rightarrow> Err DICEY_EINVAL
      | Some bs \<Rightarrow>
          if len > length bs then Err DICEY_EAGAIN
          else if len > PTRDIFF_MAX then Err DICEY_EOVERFLOW
          else and_then (dicey_view_advance view (int len))
                 (\<lambda>(n, view'). Ok (n, take len bs, view')))"

definition dicey_view_read_ptr :: "dicey_view \<Rightarrow> nat \<Rightarrow> (nat \<times> byte list \<times> dicey_view) result" where
  "dicey_view_read_ptr view nbytes = dicey_view_read view nbytes"

definition dicey_view_take :: "dicey_view \<Rightarrow> int \<Rightarrow> (nat \<times> dicey_view \<times> dicey_view) result" where
  "dicey_view_take view nbytes =
     (case view of
        None \<Rightarrow> Err DICEY_EINVAL
      | Some bs \<Rightarrow>
          if nbytes < 0 then Err DICEY_EINVAL
          else if nat nbytes > length bs then Err DICEY_EAGAIN
          else and_then (dicey_view_advance view nbytes)
                 (\<lambda>(n, view'). Ok (n, Some (take (nat nbytes) bs), view')))"

section \<open>Writable views\<close>

type_synonym mem = "byte list"

record dicey_view_mut =
  vm_data :: "nat option"
  vm_len :: nat

text \<open>\<open>DICEY_NULL\<close>, the view that asks the callee to allocate.\<close>

definition DICEY_NULL :: dicey_view_mut where
  "DICEY_NULL = \<lparr>vm_data = None, vm_len = 0\<rparr>"

definition dicey_view_mut_advance :: "dicey_view_mut \<Rightarrow> int \<Rightarrow> (nat \<times> dicey_view_mut) result" where
  "dicey_view_mut_advance view offset =
     (case vm_data view of
        None \<Rightarrow> Err DICEY_EINVAL
      | Some off \<Rightarrow>
          if offset < 0 then Err DICEY_EINVAL
          else if nat offset > vm_len view then Err DICEY_EOVERFLOW
          else Ok (nat offset,
                   \<lparr>vm_data = Some (off + nat offset), vm_len = vm_len view - nat offset\<rparr>))"

text \<open>
  \<open>alloc n\<close> says whether the allocator can provide \<open>n\<close> bytes.  A fresh allocation is zeroed
  (\<open>calloc\<close>) and becomes the memory the view writes to; the first component of the result is
  the number of bytes allocated, 0 when the view was large enough already.
\<close>

definition dicey_view_mut_ensure_cap ::
  "(nat \<Rightarrow> bool) \<Rightarrow> mem \<Rightarrow> dicey_view_mut \<Rightarrow> nat \<Rightarrow> (nat \<times> mem \<times> dicey_view_mut) result"
where
  "dicey_view_mut_ensure_cap alloc m dest required =
     (if vm_len dest < required then
        case vm_data dest of
          Some _ \<Rightarrow> Err DICEY_EAGAIN
        | None \<Rightarrow>
            if required > PTRDIFF_MAX then Err DICEY_EOVERFLOW
            else if \<not> alloc required then Err DICEY_ENOMEM
            else Ok (required, replicate required 0, \<lparr>vm_data = Some 0, vm_len = required\<rparr>)
      else Ok (0, m, dest))"

definition dicey_view_mut_write ::
  "mem \<Rightarrow> dicey_view_mut \<Rightarrow> dicey_view \<Rightarrow> (nat \<times> mem \<times> dicey_view_mut) result"
where
  "dicey_view_mut_write m dest view =
     (case (vm_data dest, view) of
        (Some off, Some bs) \<Rightarrow>
          if vm_len dest < length bs then Err DICEY_EOVERFLOW
          else if off + length bs > length m then Undef
          else and_then (dicey_view_mut_advance dest (int (length bs)))
                 (\<lambda>(n, dest'). Ok (n, overwrite m off bs, dest'))
      | _ \<Rightarrow> Err DICEY_EINVAL)"

definition dicey_view_mut_write_ptr ::
  "mem \<Rightarrow> dicey_view_mut \<Rightarrow> dicey_view \<Rightarrow> (nat \<times> mem \<times> dicey_view_mut) result"
where
  "dicey_view_mut_write_ptr m dest view = dicey_view_mut_write m dest view"

fun dicey_view_mut_write_chunks ::
  "mem \<Rightarrow> dicey_view_mut \<Rightarrow> dicey_view list \<Rightarrow> (mem \<times> dicey_view_mut) result"
where
  "dicey_view_mut_write_chunks m dest [] =
     (if vm_data dest = None then Err DICEY_EINVAL else Ok (m, dest))"
| "dicey_view_mut_write_chunks m dest (chunk # chunks) =
     (if vm_data dest = None then Err DICEY_EINVAL
      else and_then (dicey_view_mut_write m dest chunk)
             (\<lambda>(n, m', dest'). dicey_view_mut_write_chunks m' dest' chunks))"

text \<open>The size is cast to \<open>uint32_t\<close> before the copy.\<close>

definition dicey_view_mut_write_zstring ::
  "mem \<Rightarrow> dicey_view_mut \<Rightarrow> cstring \<Rightarrow> (nat \<times> mem \<times> dicey_view_mut) result"
where
  "dicey_view_mut_write_zstring m dest str =
     and_then (dutl_zstring_size str)
       (\<lambda>size. dicey_view_mut_write_ptr m dest
                 (Some (take (size mod (UINT32_MAX + 1)) (str @ [0]))))"

section \<open>Behaviour on each branch\<close>

named_theorems view_simps \<open>successful operations on views\<close>

lemma dicey_view_read_Ok [view_simps]:
  "n \<le> length bs \<Longrightarrow> n \<le> PTRDIFF_MAX \<Longrightarrow>
     dicey_view_read (Some bs) n = Ok (n, take n bs, Some (drop n bs))"
  by (simp add: dicey_view_read_def dicey_view_advance_def)

lemma dicey_view_read_Ok_iff:
  "dicey_view_read v n = Ok (k, bs, v') \<longleftrightarrow>
     (\<exists>xs. v = Some xs \<and> n \<le> length xs \<and> n \<le> PTRDIFF_MAX \<and> k = n \<and> bs = take n xs
           \<and> v' = Some (drop n xs))"
  by (auto simp: dicey_view_read_def dicey_view_advance_def split: option.splits if_splits)

lemma dicey_view_read_append [view_simps]:
  "n = length h \<Longrightarrow> length h \<le> PTRDIFF_MAX \<Longrightarrow>
     dicey_view_read (Some (h @ rest)) n = Ok (n, h, Some rest)"
  by (simp add: dicey_view_read_Ok)

lemma dicey_view_take_append [view_simps]:
  "dicey_view_take (Some (h @ rest)) (int (length h)) = Ok (length h, Some h, Some rest)"
  by (simp add: dicey_view_take_def dicey_view_advance_def)

lemma dicey_view_take_Ok_iff:
  "dicey_view_take v n = Ok (k, s, v') \<longleftrightarrow>
     (\<exists>xs. v = Some xs \<and> 0 \<le> n \<and> nat n \<le> length xs \<and> k = nat n \<and> s = Some (take (nat n) xs)
           \<and> v' = Some (drop (nat n) xs))"
  by (auto simp: dicey_view_take_def dicey_view_advance_def split: option.splits if_splits)

lemma dicey_view_as_zstring_append [view_simps]:
  "cstring_ok s \<Longrightarrow> length s < PTRDIFF_MAX \<Longrightarrow>
     dicey_view_as_zstring (Some (s @ 0 # rest)) = Ok (length s + 1, s, Some rest)"
  by (simp add: dicey_view_as_zstring_def dicey_view_advance_def cstring_ok_def Let_def
      nat_add_distrib)

lemma dicey_view_as_zstring_OkD:
  assumes "dicey_view_as_zstring v = Ok (n, s, v')"
  shows "\<exists>rest. v = Some (s @ 0 # rest) \<and> cstring_ok s \<and> n = length s + 1 \<and> v' = Some rest"
proof -
  from assms obtain bs where v: "v = Some bs" and s: "s = takeWhile (\<lambda>b. b \<noteq> 0) bs"
    and ne: "length s \<noteq> length bs" and n: "n = length s + 1"
    and v': "v' = Some (drop (length s + 1) bs)"
    by (auto simp: dicey_view_as_zstring_def dicey_view_advance_def Let_def nat_add_distrib
        split: option.splits if_splits)
  obtain rest where bs: "bs = s @ 0 # rest"
    using zstring_split [OF ne [unfolded s]] s by blast
  have "cstring_ok s"
    unfolding cstring_ok_def s by (auto dest: set_takeWhileD)
  then show ?thesis
    using v n v' bs by simp
qed

lemma dutl_zstring_size_Ok_iff:
  "dutl_zstring_size s = Ok n \<longleftrightarrow> length s \<le> UINT32_MAX \<and> n = length s + 1"
  by (auto simp: dutl_zstring_size_def)

section \<open>Writes stay inside the allocation\<close>

definition view_mut_ok :: "mem \<Rightarrow> dicey_view_mut \<Rightarrow> bool" where
  "view_mut_ok m v \<longleftrightarrow>
     (case vm_data v of None \<Rightarrow> True | Some off \<Rightarrow> off + vm_len v \<le> length m)"

lemma dicey_view_mut_write_spec:
  assumes "view_mut_ok m dest" and "vm_data dest = Some off"
  shows "dicey_view_mut_write m dest (Some bs) =
     (if vm_len dest < length bs then Err DICEY_EOVERFLOW
      else Ok (length bs, overwrite m off bs,
               \<lparr>vm_data = Some (off + length bs), vm_len = vm_len dest - length bs\<rparr>))"
  using assms
  by (auto simp: dicey_view_mut_write_def dicey_view_mut_advance_def view_mut_ok_def)

lemma dicey_view_mut_write_defined:
  assumes "view_mut_ok m dest"
  shows "dicey_view_mut_write m dest view \<noteq> Undef"
  using assms
  by (auto simp: dicey_view_mut_write_def dicey_view_mut_advance_def view_mut_ok_def
      split: option.splits)

lemma dicey_view_mut_write_ok:
  assumes "view_mut_ok m dest" and "dicey_view_mut_write m dest view = Ok (n, m', dest')"
  shows "view_mut_ok m' dest' \<and> length m' = length m"
proof (cases "vm_data dest")
  case None
  with assms show ?thesis by (simp add: dicey_view_mut_write_def split: option.splits)
next
  case (Some off)
  from assms(2) Some obtain bs where bs: "view = Some bs"
    by (cases view) (auto simp: dicey_view_mut_write_def)
  with assms Some have ok: "length bs \<le> vm_len dest" "m' = overwrite m off bs"
    "dest' = \<lparr>vm_data = Some (off + length bs), vm_len = vm_len dest - length bs\<rparr>"
    by (auto simp: dicey_view_mut_write_spec [OF assms(1) Some] split: if_splits)
  with assms(1) Some show ?thesis
    by (simp add: view_mut_ok_def)
qed

lemma dicey_view_mut_ensure_cap_ok:
  assumes "view_mut_ok m dest" and "dicey_view_mut_ensure_cap alloc m dest n = Ok (k, m', dest')"
    and "vm_data dest = None \<Longrightarrow> vm_len dest = 0"
  shows "view_mut_ok m' dest' \<and> n \<le> vm_len dest' \<and> (n > 0 \<longrightarrow> vm_data dest' \<noteq> None)"
  using assms
  by (auto simp: dicey_view_mut_ensure_cap_def view_mut_ok_def split: if_splits option.splits)

end
