(* ===== verification/Dicey_Types.thy ===== *)
theory Dicey_Types
  imports Dicey_Views
begin

text \<open>
  The data model of the wire format: \<^verbatim>\<open>include/dicey/core/type.h\<close> (type identifiers,
  selectors), \<^verbatim>\<open>include/dicey/core/builders.h\<close> (arguments, the trees the writer serialises),
  the type and selector helpers of \<^verbatim>\<open>src/wirefmt/value.c\<close>, and \<^verbatim>\<open>src/version.c\<close>.
\<close>

section \<open>Type identifiers\<close>

text \<open>
  \<open>enum dicey_type\<close>.  A number read from the wire that no enumerator has is
  \<open>DICEY_TYPE_INVALID\<close> in the model: the code does nothing with such a number but ask
  \<open>dicey_type_is_valid\<close>, which rejects both.
\<close>

datatype (plugins only: code size) dicey_type =
  DICEY_TYPE_INVALID
| DICEY_TYPE_UNIT
| DICEY_TYPE_BOOL
| DICEY_TYPE_BYTE
| DICEY_TYPE_FLOAT
| DICEY_TYPE_INT16
| DICEY_TYPE_INT32
| DICEY_TYPE_INT64
| DICEY_TYPE_UINT16
| DICEY_TYPE_UINT32
| DICEY_TYPE_UINT64
| DICEY_TYPE_ARRAY
| DICEY_TYPE_TUPLE
| DICEY_TYPE_PAIR
| DICEY_TYPE_BYTES
| DICEY_TYPE_STR
| DICEY_TYPE_UUID
| DICEY_TYPE_PATH
| DICEY_TYPE_SELECTOR
| DICEY_TYPE_ERROR

fun type_char :: "dicey_type \<Rightarrow> char" where
  "type_char DICEY_TYPE_INVALID = CHR 0x00"
| "type_char DICEY_TYPE_UNIT = CHR ''$''"
| "type_char DICEY_TYPE_BOOL = CHR ''b''"
| "type_char DICEY_TYPE_BYTE = CHR ''c''"
| "type_char DICEY_TYPE_FLOAT = CHR ''f''"
| "type_char DICEY_TYPE_INT16 = CHR ''n''"
| "type_char DICEY_TYPE_INT32 = CHR ''i''"
| "type_char DICEY_TYPE_INT64 = CHR ''x''"
| "type_char DICEY_TYPE_UINT16 = CHR ''q''"
| "type_char DICEY_TYPE_UINT32 = CHR ''u''"
| "type_char DICEY_TYPE_UINT64 = CHR ''t''"
| "type_char DICEY_TYPE_ARRAY = CHR ''[''"
| "type_char DICEY_TYPE_TUPLE = CHR ''(''"
| "type_char DICEY_TYPE_PAIR = CHR ''{''"
| "type_char DICEY_TYPE_BYTES = CHR ''y''"
| "type_char DICEY_TYPE_STR = CHR ''s''"
| "type_char DICEY_TYPE_UUID = CHR ''#''"
| "type_char DICEY_TYPE_PATH = CHR ''@''"
| "type_char DICEY_TYPE_SELECTOR = CHR ''%''"
| "type_char DICEY_TYPE_ERROR = CHR ''e''"

definition type_id :: "dicey_type \<Rightarrow> byte" where
  "type_id t = of_char (type_char t)"

definition DICEY_VARIANT_ID :: byte where
  "DICEY_VARIANT_ID = of_char (CHR ''v'')"

definition valid_types :: "dicey_type list" where
  "valid_types =
     [DICEY_TYPE_UNIT, DICEY_TYPE_BOOL, DICEY_TYPE_BYTE, DICEY_TYPE_FLOAT, DICEY_TYPE_INT16,
      DICEY_TYPE_INT32, DICEY_TYPE_INT64, DICEY_TYPE_UINT16, DICEY_TYPE_UINT32, DICEY_TYPE_UINT64,
      DICEY_TYPE_ARRAY, DICEY_TYPE_TUPLE, DICEY_TYPE_PAIR, DICEY_TYPE_BYTES, DICEY_TYPE_STR,
      DICEY_TYPE_UUID, DICEY_TYPE_PATH, DICEY_TYPE_SELECTOR, DICEY_TYPE_ERROR]"

definition type_of_id :: "byte \<Rightarrow> dicey_type" where
  "type_of_id b =
     (case find (\<lambda>t. type_id t = b) valid_types of Some t \<Rightarrow> t | None \<Rightarrow> DICEY_TYPE_INVALID)"

definition dicey_type_is_container :: "dicey_type \<Rightarrow> bool" where
  "dicey_type_is_container t =
     (case t of
        DICEY_TYPE_ARRAY \<Rightarrow> True
      | DICEY_TYPE_PAIR \<Rightarrow> True
      | DICEY_TYPE_TUPLE \<Rightarrow> True
      | _ \<Rightarrow> False)"

definition dicey_type_is_valid :: "dicey_type \<Rightarrow> bool" where
  "dicey_type_is_valid t = (case t of DICEY_TYPE_INVALID \<Rightarrow> False | _ \<Rightarrow> True)"

fun dicey_type_name :: "dicey_type \<Rightarrow> string" where
  "dicey_type_name DICEY_TYPE_INVALID = ''invalid''"
| "dicey_type_name DICEY_TYPE_UNIT = ''unit''"
| "dicey_type_name DICEY_TYPE_BOOL = ''bool''"
| "dicey_type_name DICEY_TYPE_BYTE = ''byte''"
| "dicey_type_name DICEY_TYPE_FLOAT = ''float''"
| "dicey_type_name DICEY_TYPE_INT16 = ''i16''"
| "dicey_type_name DICEY_TYPE_INT32 = ''i32''"
| "dicey_type_name DICEY_TYPE_INT64 = ''i64''"
| "dicey_type_name DICEY_TYPE_UINT16 = ''u16''"
| "dicey_type_name DICEY_TYPE_UINT32 = ''u32''"
| "dicey_type_name DICEY_TYPE_UINT64 = ''u64''"
| "dicey_type_name DICEY_TYPE_ARRAY = ''array''"
| "dicey_type_name DICEY_TYPE_TUPLE = ''tuple''"
| "dicey_type_name DICEY_TYPE_PAIR = ''pair''"
| "dicey_type_name DICEY_TYPE_BYTES = ''bytes''"
| "dicey_type_name DICEY_TYPE_STR = ''str''"
| "dicey_type_name DICEY_TYPE_UUID = ''uuid''"
| "dicey_type_name DICEY_TYPE_PATH = ''path''"
| "dicey_type_name DICEY_TYPE_SELECTOR = ''selector''"
| "dicey_type_name DICEY_TYPE_ERROR = ''error''"

section \<open>Selectors\<close>

text \<open>The members of a selector may be \<open>NULL\<close>.\<close>

record dicey_selector =
  sel_trait :: "cstring option"
  sel_elem :: "cstring option"

definition dicey_selector_is_valid :: "dicey_selector \<Rightarrow> bool" where
  "dicey_selector_is_valid selector \<longleftrightarrow> sel_trait selector \<noteq> None \<and> sel_elem selector \<noteq> None"

text \<open>\<open>strcmp\<close> compares bytes as unsigned characters; only the sign of its result is specified.\<close>

fun strcmp :: "cstring \<Rightarrow> cstring \<Rightarrow> int" where
  "strcmp [] [] = 0"
| "strcmp [] (b # bs) = -1"
| "strcmp (a # as) [] = 1"
| "strcmp (a # as) (b # bs) = (if a < b then -1 else if b < a then 1 else strcmp as bs)"

text \<open>Comparing or measuring a selector with a \<open>NULL\<close> member dereferences it.\<close>

definition dicey_selector_cmp :: "dicey_selector \<Rightarrow> dicey_selector \<Rightarrow> int result" where
  "dicey_selector_cmp a b =
     (case (sel_trait a, sel_trait b, sel_elem a, sel_elem b) of
        (Some ta, Some tb, Some ea, Some eb) \<Rightarrow>
          (let res = strcmp ta tb in Ok (if res \<noteq> 0 then res else strcmp ea eb))
      | _ \<Rightarrow> Undef)"

definition dicey_selector_size :: "dicey_selector \<Rightarrow> nat result" where
  "dicey_selector_size selector =
     (case (sel_trait selector, sel_elem selector) of
        (Some tr, Some el) \<Rightarrow>
          and_then (dutl_zstring_size tr) (\<lambda>trait_len.
          and_then (dutl_zstring_size el) (\<lambda>elem_len.
            case dutl_checked_add trait_len elem_len of
              None \<Rightarrow> Err DICEY_EOVERFLOW
            | Some n \<Rightarrow> Ok n))
      | _ \<Rightarrow> Undef)"

section \<open>Protocol versions\<close>

record dicey_version =
  major :: "16 word"
  revision :: "16 word"

definition CMP :: "'a::linorder \<Rightarrow> 'a \<Rightarrow> int" where
  "CMP a b = of_bool (a < b) - of_bool (a > b)"

definition dicey_version_cmp :: "dicey_version \<Rightarrow> dicey_version \<Rightarrow> int" where
  "dicey_version_cmp a b =
     (let res = CMP (major a) (major b) in
      if res \<noteq> 0 then res else CMP (revision a) (revision b))"

definition DICEY_PROTO_VERSION_CURRENT :: dicey_version where
  "DICEY_PROTO_VERSION_CURRENT = \<lparr>major = 2, revision = 0\<rparr>"

section \<open>Arguments\<close>

text \<open>
  \<open>struct dicey_arg\<close>: the type tag and the union member it selects.  \<open>ArgInvalid\<close> is an argument
  whose tag is no enumerator.  A floating-point number is its 64-bit image.  A \<open>NULL\<close> bytes
  pointer (\<open>ArgBytes None\<close>) has length 0.
\<close>

datatype (plugins only: code size) dicey_arg =
  ArgInvalid
| ArgUnit
| ArgBool byte
| ArgByte byte
| ArgFloat "64 word"
| ArgI16 "16 word"
| ArgI32 "32 word"
| ArgI64 "64 word"
| ArgU16 "16 word"
| ArgU32 "32 word"
| ArgU64 "64 word"
| ArgArray dicey_type "dicey_arg list"
| ArgTuple "dicey_arg list"
| ArgPair dicey_arg dicey_arg
| ArgBytes "byte list option"
| ArgStr "cstring option"
| ArgUuid "byte list"
| ArgPath cstring
| ArgSelector dicey_selector
| ArgError "16 word" "cstring option"

fun arg_type :: "dicey_arg \<Rightarrow> dicey_type" where
  "arg_type ArgInvalid = DICEY_TYPE_INVALID"
| "arg_type ArgUnit = DICEY_TYPE_UNIT"
| "arg_type (ArgBool _) = DICEY_TYPE_BOOL"
| "arg_type (ArgByte _) = DICEY_TYPE_BYTE"
| "arg_type (ArgFloat _) = DICEY_TYPE_FLOAT"
| "arg_type (ArgI16 _) = DICEY_TYPE_INT16"
| "arg_type (ArgI32 _) = DICEY_TYPE_INT32"
| "arg_type (ArgI64 _) = DICEY_TYPE_INT64"
| "arg_type (ArgU16 _) = DICEY_TYPE_UINT16"
| "arg_type (ArgU32 _) = DICEY_TYPE_UINT32"
| "arg_type (ArgU64 _) = DICEY_TYPE_UINT64"
| "arg_type (ArgArray _ _) = DICEY_TYPE_ARRAY"
| "arg_type (ArgTuple _) = DICEY_TYPE_TUPLE"
| "arg_type (ArgPair _ _) = DICEY_TYPE_PAIR"
| "arg_type (ArgBytes _) = DICEY_TYPE_BYTES"
| "arg_type (ArgStr _) = DICEY_TYPE_STR"
| "arg_type (ArgUuid _) = DICEY_TYPE_UUID"
| "arg_type (ArgPath _) = DICEY_TYPE_PATH"
| "arg_type (ArgSelector _) = DICEY_TYPE_SELECTOR"
| "arg_type (ArgError _ _) = DICEY_TYPE_ERROR"

definition DICEY_UUID_SIZE :: nat where "DICEY_UUID_SIZE = 16"

section \<open>Lemmas\<close>

lemma dicey_type_is_valid_iff [simp]: "dicey_type_is_valid t \<longleftrightarrow> t \<noteq> DICEY_TYPE_INVALID"
  by (cases t) (simp_all add: dicey_type_is_valid_def)

lemma valid_types_complete: "dicey_type_is_valid t \<longleftrightarrow> t \<in> set valid_types"
  by (cases t) (simp_all add: valid_types_def)

lemma type_of_id_id [simp]: "type_of_id (type_id t) = t"
  by (cases t) (simp_all add: type_of_id_def type_id_def valid_types_def)

lemma type_id_inj [simp]: "type_id s = type_id t \<longleftrightarrow> s = t"
  using type_of_id_id by metis

lemma type_id_of_id: "type_of_id b \<noteq> DICEY_TYPE_INVALID \<Longrightarrow> type_id (type_of_id b) = b"
proof (cases "find (\<lambda>t. type_id t = b) valid_types")
  case (Some t)
  then have "type_id t = b"
    unfolding find_Some_iff by blast
  with Some show ?thesis
    by (simp only: type_of_id_def option.case)
qed (simp add: type_of_id_def)

lemma type_id_variant [simp]: "type_id t \<noteq> DICEY_VARIANT_ID" "DICEY_VARIANT_ID \<noteq> type_id t"
  by (cases t; simp add: type_id_def DICEY_VARIANT_ID_def)+

lemma type_id_0_iff [simp]: "type_id t = 0 \<longleftrightarrow> t = DICEY_TYPE_INVALID"
  by (cases t) (simp_all add: type_id_def)

lemma type_name_inj: "dicey_type_name s = dicey_type_name t \<longleftrightarrow> s = t"
  by (cases s; cases t) simp_all

lemma strcmp_0_iff: "strcmp a b = 0 \<longleftrightarrow> a = b"
  by (induction a b rule: strcmp.induct) auto

lemma strcmp_anti: "strcmp b a = - strcmp a b"
  by (induction a b rule: strcmp.induct) auto

end
