(* ===== verification/Dtf_Writer.thy ===== *)
theory Dtf_Writer
  imports Dicey_Types
begin

text \<open>
  Serialisation of values: \<^verbatim>\<open>src/wirefmt/dtf/writer.c\<close> and \<^verbatim>\<open>src/wirefmt/dtf/value-write.c\<close>.

  A writer either copies bytes into a buffer or only counts them.  The allocation a buffer
  writer points into is threaded through the calls, so that the clone \<open>list_write\<close> takes to
  patch the size of a list into its header writes to the same bytes, as in the code.
  The reference definition \<open>enc_item\<close> gives the bytes of a value as a pure function; the lemmas
  show that both writers produce exactly these bytes, or run out of room.
\<close>

section \<open>Writers\<close>

datatype dtf_bytes_writer =
  WriterInvalid
| WriterBuffer dicey_view_mut
| WriterSizer nat

type_synonym 'w written = "(nat \<times> mem \<times> 'w) result"

definition dtf_bytes_writer_is_valid :: "dtf_bytes_writer \<Rightarrow> bool" where
  "dtf_bytes_writer_is_valid writer =
     (case writer of
        WriterBuffer buffer \<Rightarrow> vm_data buffer \<noteq> None
      | WriterSizer _ \<Rightarrow> True
      | WriterInvalid \<Rightarrow> False)"

definition dtf_bytes_writer_new :: "dicey_view_mut \<Rightarrow> dtf_bytes_writer" where
  "dtf_bytes_writer_new buffer = WriterBuffer buffer"

definition dtf_bytes_writer_new_sizer :: dtf_bytes_writer where
  "dtf_bytes_writer_new_sizer = WriterSizer 0"

definition dtf_bytes_writer_snapshot :: "dtf_bytes_writer \<Rightarrow> dtf_bytes_writer" where
  "dtf_bytes_writer_snapshot writer = writer"

definition buffer_write :: "mem \<Rightarrow> dicey_view_mut \<Rightarrow> dicey_view \<Rightarrow> dicey_view_mut written" where
  "buffer_write m dest data = dicey_view_mut_write m dest data"

definition view_len :: "dicey_view \<Rightarrow> nat" where
  "view_len v = (case v of None \<Rightarrow> 0 | Some bs \<Rightarrow> length bs)"

text \<open>The sizer succeeds with \<open>DICEY_OK\<close>, which is 0; the bytes are counted in its state.\<close>

definition sizer_write :: "nat \<Rightarrow> dicey_view \<Rightarrow> nat result" where
  "sizer_write sz data =
     (case dutl_checked_add sz (view_len data) of
        None \<Rightarrow> Err DICEY_EOVERFLOW
      | Some n \<Rightarrow> Ok n)"

definition dtf_bytes_writer_write ::
  "mem \<Rightarrow> dtf_bytes_writer \<Rightarrow> dicey_view \<Rightarrow> dtf_bytes_writer written"
where
  "dtf_bytes_writer_write m writer data =
     (case writer of
        WriterBuffer buffer \<Rightarrow>
          and_then (buffer_write m buffer data) (\<lambda>(n, m', buffer'). Ok (n, m', WriterBuffer buffer'))
      | WriterSizer sz \<Rightarrow>
          and_then (sizer_write sz data) (\<lambda>sz'. Ok (0, m, WriterSizer sz'))
      | WriterInvalid \<Rightarrow> Err DICEY_EINVAL)"

text \<open>
  The idiom with which every function below adds the bytes of one more write to those written
  already: return its error, else \<open>dutl_checked_add\<close> the two counts.
\<close>

definition add_written :: "nat \<Rightarrow> 'w written \<Rightarrow> 'w written" where
  "add_written n r =
     and_then r (\<lambda>(k, m, w).
       case dutl_checked_add n k of None \<Rightarrow> Err DICEY_EOVERFLOW | Some s \<Rightarrow> Ok (s, m, w))"

fun write_chunks_loop ::
  "mem \<Rightarrow> dtf_bytes_writer \<Rightarrow> dicey_view list \<Rightarrow> nat \<Rightarrow> dtf_bytes_writer written"
where
  "write_chunks_loop m writer [] written_bytes = Ok (written_bytes, m, writer)"
| "write_chunks_loop m writer (chunk # chunks) written_bytes =
     and_then (add_written written_bytes (dtf_bytes_writer_write m writer chunk))
       (\<lambda>(n, m', writer'). write_chunks_loop m' writer' chunks n)"

definition dtf_bytes_writer_write_chunks ::
  "mem \<Rightarrow> dtf_bytes_writer \<Rightarrow> dicey_view list \<Rightarrow> dtf_bytes_writer written"
where
  "dtf_bytes_writer_write_chunks m writer chunks =
     (if \<not> dtf_bytes_writer_is_valid writer then Err DICEY_EINVAL
      else write_chunks_loop m writer chunks 0)"

definition dtf_bytes_writer_write_selector ::
  "mem \<Rightarrow> dtf_bytes_writer \<Rightarrow> dicey_selector \<Rightarrow> dtf_bytes_writer written"
where
  "dtf_bytes_writer_write_selector m writer sel =
     (case (sel_trait sel, sel_elem sel) of
        (Some tr, Some el) \<Rightarrow>
          if \<not> dtf_bytes_writer_is_valid writer then Err DICEY_EINVAL
          else
            and_then (dutl_zstring_size tr) (\<lambda>trait_len.
            and_then (dutl_zstring_size el) (\<lambda>elem_len.
              dtf_bytes_writer_write_chunks m writer
                [Some (take trait_len (tr @ [0])), Some (take elem_len (el @ [0]))]))
      | _ \<Rightarrow> Err DICEY_EINVAL)"

text \<open>The size is cast to \<open>uint32_t\<close>.\<close>

definition dtf_bytes_writer_write_zstring ::
  "mem \<Rightarrow> dtf_bytes_writer \<Rightarrow> cstring \<Rightarrow> dtf_bytes_writer written"
where
  "dtf_bytes_writer_write_zstring m writer str =
     and_then (dutl_zstring_size str) (\<lambda>size.
       dtf_bytes_writer_write m writer (Some (take (size mod (UINT32_MAX + 1)) (str @ [0]))))"

section \<open>Writing values\<close>

datatype item_policy = ITEM_POLICY_EXACT | ITEM_POLICY_VARIANT

definition blob_write :: "mem \<Rightarrow> dtf_bytes_writer \<Rightarrow> dicey_view \<Rightarrow> dtf_bytes_writer written" where
  "blob_write m dest data = dtf_bytes_writer_write m dest data"

text \<open>\<open>(dtf_size) slen\<close> is the length modulo \<open>2 ^ 32\<close>, on both sides of the comparison.\<close>

definition len_write :: "mem \<Rightarrow> dtf_bytes_writer \<Rightarrow> nat \<Rightarrow> dtf_bytes_writer written" where
  "len_write m dest slen =
     (if slen mod (UINT32_MAX + 1) > UINT32_MAX then Err DICEY_EOVERFLOW
      else blob_write m dest (Some (le_enc 4 (slen mod (UINT32_MAX + 1)))))"

text \<open>
  \<open>list_write\<close> and its callers take the call \<open>items_write(dest, elems, nitems, policy)\<close> as an
  argument, the function of the state it is.
\<close>

type_synonym write_elems = "mem \<Rightarrow> dtf_bytes_writer \<Rightarrow> dtf_bytes_writer written"

definition list_write ::
  "mem \<Rightarrow> dtf_bytes_writer \<Rightarrow> byte list \<Rightarrow> write_elems \<Rightarrow> dtf_bytes_writer written"
where
  "list_write m dest header write_elems =
     (let clone_at_nbytes = dtf_bytes_writer_snapshot dest in
      and_then (dtf_bytes_writer_write m dest (Some header)) (\<lambda>(header_nbytes, m1, dest1).
      and_then (write_elems m1 dest1) (\<lambda>(content_nbytes, m2, dest2).
      and_then (len_write m2 clone_at_nbytes content_nbytes) (\<lambda>(_, m3, _).
        add_written header_nbytes (Ok (content_nbytes, m3, dest2))))))"

definition array_write ::
  "mem \<Rightarrow> dtf_bytes_writer \<Rightarrow> dicey_type \<Rightarrow> nat \<Rightarrow> write_elems \<Rightarrow> dtf_bytes_writer written"
where
  "array_write m dest ty nitems write_elems =
     (if \<not> dicey_type_is_valid ty then Err DICEY_EINVAL
      else list_write m dest (le_enc 4 0 @ le_enc 2 nitems @ [type_id ty]) write_elems)"

definition bool_write :: "mem \<Rightarrow> dtf_bytes_writer \<Rightarrow> byte \<Rightarrow> dtf_bytes_writer written" where
  "bool_write m dest b = blob_write m dest (Some [b])"

definition byte_write :: "mem \<Rightarrow> dtf_bytes_writer \<Rightarrow> byte \<Rightarrow> dtf_bytes_writer written" where
  "byte_write m dest b = blob_write m dest (Some [b])"

definition bytes_write ::
  "mem \<Rightarrow> dtf_bytes_writer \<Rightarrow> byte list option \<Rightarrow> dtf_bytes_writer written"
where
  "bytes_write m dest bytes =
     and_then (blob_write m dest (Some (le_enc 4 (view_len bytes)))) (\<lambda>(header_nbytes, m', dest').
       add_written header_nbytes (blob_write m' dest' bytes))"

definition str_write ::
  "mem \<Rightarrow> dtf_bytes_writer \<Rightarrow> cstring option \<Rightarrow> dtf_bytes_writer written"
where
  "str_write m dest str =
     dtf_bytes_writer_write_zstring m dest (case str of Some s \<Rightarrow> s | None \<Rightarrow> [])"

definition error_write ::
  "mem \<Rightarrow> dtf_bytes_writer \<Rightarrow> 16 word \<Rightarrow> cstring option \<Rightarrow> dtf_bytes_writer written"
where
  "error_write m dest code msg =
     and_then (blob_write m dest (Some (le_enc 2 (unat code)))) (\<lambda>(header_nbytes, m', dest').
       add_written header_nbytes (str_write m' dest' msg))"

definition float_write :: "mem \<Rightarrow> dtf_bytes_writer \<Rightarrow> 64 word \<Rightarrow> dtf_bytes_writer written" where
  "float_write m dest f = blob_write m dest (Some (le_enc 8 (unat f)))"

text \<open>The macro \<open>int_write\<close>, for an integer of \<open>sz\<close> bytes.\<close>

definition int_write ::
  "nat \<Rightarrow> mem \<Rightarrow> dtf_bytes_writer \<Rightarrow> 'a::len word \<Rightarrow> dtf_bytes_writer written"
where
  "int_write sz m dest i = blob_write m dest (Some (le_enc sz (unat i)))"

definition pair_write :: "mem \<Rightarrow> dtf_bytes_writer \<Rightarrow> write_elems \<Rightarrow> dtf_bytes_writer written" where
  "pair_write m dest write_elems = list_write m dest (le_enc 4 0) write_elems"

definition tuple_write ::
  "mem \<Rightarrow> dtf_bytes_writer \<Rightarrow> nat \<Rightarrow> write_elems \<Rightarrow> dtf_bytes_writer written"
where
  "tuple_write m dest nitems write_elems =
     list_write m dest (le_enc 4 0 @ le_enc 2 nitems) write_elems"

definition uuid_write :: "mem \<Rightarrow> dtf_bytes_writer \<Rightarrow> byte list \<Rightarrow> dtf_bytes_writer written" where
  "uuid_write m dest bytes = blob_write m dest (Some bytes)"

definition value_header_write ::
  "mem \<Rightarrow> dtf_bytes_writer \<Rightarrow> dicey_arg \<Rightarrow> dtf_bytes_writer written"
where
  "value_header_write m dest arg = blob_write m dest (Some [type_id (arg_type arg)])"

primrec arg_weight :: "dicey_arg \<Rightarrow> nat" where
  "arg_weight ArgInvalid = 1"
| "arg_weight ArgUnit = 1"
| "arg_weight (ArgBool b) = 1"
| "arg_weight (ArgByte b) = 1"
| "arg_weight (ArgFloat f) = 1"
| "arg_weight (ArgI16 i) = 1"
| "arg_weight (ArgI32 i) = 1"
| "arg_weight (ArgI64 i) = 1"
| "arg_weight (ArgU16 i) = 1"
| "arg_weight (ArgU32 i) = 1"
| "arg_weight (ArgU64 i) = 1"
| "arg_weight (ArgArray t es) = 1 + sum_list (map (\<lambda>e. 1 + arg_weight e) es)"
| "arg_weight (ArgTuple es) = 1 + sum_list (map (\<lambda>e. 1 + arg_weight e) es)"
| "arg_weight (ArgPair a b) = 3 + arg_weight a + arg_weight b"
| "arg_weight (ArgBytes bs) = 1"
| "arg_weight (ArgStr s) = 1"
| "arg_weight (ArgUuid bs) = 1"
| "arg_weight (ArgPath p) = 1"
| "arg_weight (ArgSelector s) = 1"
| "arg_weight (ArgError c s) = 1"

text \<open>
  \<open>item_write\<close> and \<open>items_write\<close>.  The switch of \<open>item_write\<close> on the type is \<open>content_write\<close>.
\<close>

function (sequential)
  content_write :: "mem \<Rightarrow> dtf_bytes_writer \<Rightarrow> dicey_arg \<Rightarrow> dtf_bytes_writer written" and
  item_write :: "mem \<Rightarrow> dtf_bytes_writer \<Rightarrow> dicey_arg \<Rightarrow> item_policy \<Rightarrow> dtf_bytes_writer written" and
  items_write ::
    "mem \<Rightarrow> dtf_bytes_writer \<Rightarrow> dicey_arg list \<Rightarrow> item_policy \<Rightarrow> nat \<Rightarrow> dtf_bytes_writer written"
where
  "content_write m dest ArgInvalid = Ok (0, m, dest)"
| "content_write m dest ArgUnit = Ok (0, m, dest)"
| "content_write m dest (ArgBool b) = bool_write m dest b"
| "content_write m dest (ArgByte b) = byte_write m dest b"
| "content_write m dest (ArgFloat f) = float_write m dest f"
| "content_write m dest (ArgI16 i) = int_write 2 m dest i"
| "content_write m dest (ArgI32 i) = int_write 4 m dest i"
| "content_write m dest (ArgI64 i) = int_write 8 m dest i"
| "content_write m dest (ArgU16 i) = int_write 2 m dest i"
| "content_write m dest (ArgU32 i) = int_write 4 m dest i"
| "content_write m dest (ArgU64 i) = int_write 8 m dest i"
| "content_write m dest (ArgArray t es) =
     array_write m dest t (length es) (\<lambda>m' dest'. items_write m' dest' es ITEM_POLICY_EXACT 0)"
| "content_write m dest (ArgTuple es) =
     tuple_write m dest (length es) (\<lambda>m' dest'. items_write m' dest' es ITEM_POLICY_VARIANT 0)"
| "content_write m dest (ArgPair a b) =
     pair_write m dest (\<lambda>m' dest'. items_write m' dest' [a, b] ITEM_POLICY_VARIANT 0)"
| "content_write m dest (ArgBytes bs) = bytes_write m dest bs"
| "content_write m dest (ArgStr s) = str_write m dest s"
| "content_write m dest (ArgUuid bs) = uuid_write m dest bs"
| "content_write m dest (ArgPath p) = dtf_bytes_writer_write_zstring m dest p"
| "content_write m dest (ArgSelector s) = dtf_bytes_writer_write_selector m dest s"
| "content_write m dest (ArgError c s) = error_write m dest c s"
| "item_write m dest item policy =
     (if \<not> dicey_type_is_valid (arg_type item) then Err DICEY_EINVAL
      else case policy of
        ITEM_POLICY_VARIANT \<Rightarrow>
          and_then (value_header_write m dest item)
            (\<lambda>(written_bytes, m', dest'). add_written written_bytes (content_write m' dest' item))
      | ITEM_POLICY_EXACT \<Rightarrow> add_written 0 (content_write m dest item))"
| "items_write m dest [] policy written_bytes = Ok (written_bytes, m, dest)"
| "items_write m dest (item # items) policy written_bytes =
     and_then (add_written written_bytes (item_write m dest item policy))
       (\<lambda>(n, m', dest'). items_write m' dest' items policy n)"
  by pat_completeness auto
termination
  by (relation "measure (\<lambda>x. case x of
        Inl (m, w, a) \<Rightarrow> 2 * arg_weight a
      | Inr (Inl (m, w, a, p)) \<Rightarrow> 2 * arg_weight a + 1
      | Inr (Inr (m, w, as, p, n)) \<Rightarrow> 2 * sum_list (map (\<lambda>a. 1 + arg_weight a) as) + 1)") auto

definition dtf_selector_write ::
  "mem \<Rightarrow> dicey_view_mut \<Rightarrow> dicey_selector \<Rightarrow> (mem \<times> dicey_view_mut) result"
where
  "dtf_selector_write m dest sel =
     (case (vm_data dest, sel_trait sel, sel_elem sel) of
        (Some _, Some tr, Some el) \<Rightarrow>
          and_then (dutl_zstring_size tr) (\<lambda>trait_len.
          and_then (dutl_zstring_size el) (\<lambda>elem_len.
            dicey_view_mut_write_chunks m dest
              [Some (take trait_len (tr @ [0])), Some (take elem_len (el @ [0]))]))
      | _ \<Rightarrow> Err DICEY_EINVAL)"

definition dtf_value_write_to ::
  "mem \<Rightarrow> dtf_bytes_writer \<Rightarrow> dicey_arg \<Rightarrow> dtf_bytes_writer written"
where
  "dtf_value_write_to m writer item = item_write m writer item ITEM_POLICY_VARIANT"

definition dtf_value_estimate_size :: "dicey_arg \<Rightarrow> nat result" where
  "dtf_value_estimate_size item =
     and_then (item_write [] dtf_bytes_writer_new_sizer item ITEM_POLICY_VARIANT)
       (\<lambda>(_, _, sizer). case sizer of WriterSizer sz \<Rightarrow> Ok sz | _ \<Rightarrow> Undef)"

text \<open>
  On success \<open>struct dtf_valueres\<close> holds what was allocated (0 if the destination was the
  caller's), the size and the position of the value; the memory comes with it.  When the write
  fails, the code frees the destination if it was \<^emph>\<open>not\<close> allocated here: the caller's memory, or a
  position inside it, which is undefined behaviour.
\<close>

record dtf_valueres =
  vres_result :: nat
  vres_size :: nat
  vres_value :: "nat option"

definition dtf_value_write ::
  "(nat \<Rightarrow> bool) \<Rightarrow> mem \<Rightarrow> dicey_view_mut \<Rightarrow> dicey_arg \<Rightarrow> (dtf_valueres \<times> mem) result"
where
  "dtf_value_write alloc m dest item =
     and_then (dtf_value_estimate_size item) (\<lambda>size.
     and_then (dicey_view_mut_ensure_cap alloc m dest size) (\<lambda>(alloc_res, m', dest').
       case dtf_value_write_to m' (dtf_bytes_writer_new dest') item of
         Ok (_, m'', _) \<Rightarrow>
           Ok (\<lparr>vres_result = alloc_res, vres_size = size, vres_value = vm_data dest'\<rparr>, m'')
       | Err e \<Rightarrow> (if alloc_res = 0 then Undef else Err e)
       | Undef \<Rightarrow> Undef))"

section \<open>What a sink of bytes promises\<close>

text \<open>
  The buffers and the writers share one contract: writing in two steps is writing the
  concatenation, whether it succeeds or fails, and the reported count is what the room shrinks by.
\<close>

locale byte_sink =
  fixes sink_write :: "mem \<Rightarrow> 'w \<Rightarrow> byte list \<Rightarrow> 'w written"
    and room :: "'w \<Rightarrow> nat"
    and sink_ok :: "mem \<Rightarrow> 'w \<Rightarrow> bool"
  assumes room_bound: "sink_ok m w \<Longrightarrow> room w \<le> PTRDIFF_MAX"
    and write_Nil: "sink_ok m w \<Longrightarrow> sink_write m w [] = Ok (0, m, w)"
    and write_step: "sink_ok m w \<Longrightarrow> sink_write m w bs = Ok (n, m', w') \<Longrightarrow>
      sink_ok m' w' \<and> n + room w' = room w"
    and write_append: "sink_ok m w \<Longrightarrow> sink_write m w (as @ bs) =
      and_then (sink_write m w as) (\<lambda>(n, m', w').
      and_then (sink_write m' w' bs) (\<lambda>(k, m'', w''). Ok (n + k, m'', w'')))"
begin

lemma add_written_write:
  assumes "sink_ok m w" and "n + room w \<le> PTRDIFF_MAX"
  shows "add_written n (sink_write m w bs) =
    and_then (sink_write m w bs) (\<lambda>(k, m', w'). Ok (n + k, m', w'))"
  using assms write_step [OF assms(1), of bs]
  by (cases "sink_write m w bs") (auto simp: add_written_def dutl_checked_add_def)

lemma add_written_0:
  assumes "sink_ok m w"
  shows "add_written 0 (sink_write m w bs) = sink_write m w bs"
  using add_written_write [OF assms, of 0 bs] room_bound [OF assms]
  by (cases "sink_write m w bs") auto

lemma write_loop_step:
  assumes "sink_ok m w" and "n + room w \<le> PTRDIFF_MAX"
  shows "and_then (add_written n (sink_write m w as))
           (\<lambda>(s, m', w'). add_written s (sink_write m' w' bs)) =
         add_written n (sink_write m w (as @ bs))"
proof (cases "sink_write m w as")
  case (Ok x)
  obtain k m' w' where x: "x = (k, m', w')"
    by (cases x)
  have ok: "sink_ok m' w'" "k + room w' = room w"
    using write_step [OF assms(1)] Ok x by blast+
  have "j + room w'' = room w'" if "sink_write m' w' bs = Ok (j, m'', w'')" for j m'' w''
    using write_step [OF ok(1)] that by blast
  then show ?thesis
    using Ok x assms ok(2)
    by (cases "sink_write m' w' bs") (auto simp: add_written_def write_append dutl_checked_add_def)
qed (use assms in \<open>simp_all add: add_written_def write_append\<close>)

lemma write_two:
  assumes "sink_ok m w"
  shows "and_then (sink_write m w as) (\<lambda>(n, m', w'). add_written n (sink_write m' w' bs)) =
         sink_write m w (as @ bs)"
  using write_loop_step [OF assms, of 0 as bs] add_written_0 [OF assms] room_bound [OF assms]
  by simp

end

section \<open>The sinks of the library\<close>

definition buffer_ok :: "mem \<Rightarrow> dicey_view_mut \<Rightarrow> bool" where
  "buffer_ok m v \<longleftrightarrow> view_mut_ok m v \<and> vm_data v \<noteq> None \<and> vm_len v \<le> PTRDIFF_MAX"

lemma buffer_okE:
  assumes "buffer_ok m v"
  obtains off len where "v = \<lparr>vm_data = Some off, vm_len = len\<rparr>" "off + len \<le> length m"
    "len \<le> PTRDIFF_MAX"
  using assms by (cases v) (auto simp: buffer_ok_def view_mut_ok_def)

lemma buffer_ok_iff [simp]:
  "buffer_ok m \<lparr>vm_data = Some off, vm_len = len\<rparr> \<longleftrightarrow>
     off + len \<le> length m \<and> len \<le> PTRDIFF_MAX"
  by (auto simp: buffer_ok_def view_mut_ok_def)

lemma view_write_eq:
  "off + len \<le> length m \<Longrightarrow>
   dicey_view_mut_write m \<lparr>vm_data = Some off, vm_len = len\<rparr> (Some bs) =
     (if len < length bs then Err DICEY_EOVERFLOW
      else Ok (length bs, overwrite m off bs,
               \<lparr>vm_data = Some (off + length bs), vm_len = len - length bs\<rparr>))"
  using dicey_view_mut_write_spec [of m "\<lparr>vm_data = Some off, vm_len = len\<rparr>" off bs]
  by (simp add: view_mut_ok_def)

interpretation buf: byte_sink "\<lambda>m v bs. dicey_view_mut_write m v (Some bs)" vm_len buffer_ok
proof
  fix m :: mem and v :: dicey_view_mut and as bs :: "byte list"
  assume "buffer_ok m v"
  then show "dicey_view_mut_write m v (Some (as @ bs)) =
    and_then (dicey_view_mut_write m v (Some as)) (\<lambda>(n, m', v').
    and_then (dicey_view_mut_write m' v' (Some bs)) (\<lambda>(k, m'', v''). Ok (n + k, m'', v'')))"
    by (auto elim!: buffer_okE simp: view_write_eq overwrite_append)
next
  fix m m' :: mem and v v' :: dicey_view_mut and bs :: "byte list" and n :: nat
  assume "buffer_ok m v" and "dicey_view_mut_write m v (Some bs) = Ok (n, m', v')"
  then show "buffer_ok m' v' \<and> n + vm_len v' = vm_len v"
    by (auto elim!: buffer_okE simp: view_write_eq split: if_splits)
qed (auto elim!: buffer_okE simp: view_write_eq)

fun writer_room :: "dtf_bytes_writer \<Rightarrow> nat" where
  "writer_room (WriterBuffer v) = vm_len v"
| "writer_room (WriterSizer n) = 0"
| "writer_room WriterInvalid = 0"

fun writer_ok :: "mem \<Rightarrow> dtf_bytes_writer \<Rightarrow> bool" where
  "writer_ok m (WriterBuffer v) = buffer_ok m v"
| "writer_ok m (WriterSizer n) = (n \<le> PTRDIFF_MAX)"
| "writer_ok m WriterInvalid = False"

lemma writer_write_sizer:
  "dtf_bytes_writer_write m (WriterSizer n) (Some bs) =
     (if n + length bs \<le> PTRDIFF_MAX then Ok (0, m, WriterSizer (n + length bs))
      else Err DICEY_EOVERFLOW)"
  by (simp add: dtf_bytes_writer_write_def sizer_write_def view_len_def dutl_checked_add_def)

lemma writer_write_buffer:
  "dtf_bytes_writer_write m (WriterBuffer v) (Some bs) =
     and_then (dicey_view_mut_write m v (Some bs)) (\<lambda>(n, m', v'). Ok (n, m', WriterBuffer v'))"
  by (simp add: dtf_bytes_writer_write_def buffer_write_def)

lemma writer_write_append:
  assumes "writer_ok m w"
  shows "dtf_bytes_writer_write m w (Some (as @ bs)) =
    and_then (dtf_bytes_writer_write m w (Some as)) (\<lambda>(n, m', w').
    and_then (dtf_bytes_writer_write m' w' (Some bs)) (\<lambda>(k, m'', w''). Ok (n + k, m'', w'')))"
proof (cases w)
  case (WriterBuffer v)
  with assms have "buffer_ok m v" by simp
  then show ?thesis
    by (auto elim!: buffer_okE simp: WriterBuffer writer_write_buffer view_write_eq
        overwrite_append)
qed (use assms in \<open>auto simp: writer_write_sizer\<close>)

lemma writer_write_step:
  assumes "writer_ok m w" and "dtf_bytes_writer_write m w (Some bs) = Ok (n, m', w')"
  shows "writer_ok m' w' \<and> n + writer_room w' = writer_room w"
proof (cases w)
  case (WriterBuffer v)
  with assms obtain v' where "dicey_view_mut_write m v (Some bs) = Ok (n, m', v')"
    "w' = WriterBuffer v'"
    by (auto simp: writer_write_buffer outcome_simps)
  with assms WriterBuffer show ?thesis
    using buf.write_step [of m v bs n m' v'] by simp
qed (use assms in \<open>auto simp: writer_write_sizer outcome_simps\<close>)

interpretation wr: byte_sink "\<lambda>m w bs. dtf_bytes_writer_write m w (Some bs)" writer_room writer_ok
proof
  fix m :: mem and w :: dtf_bytes_writer
  assume ok: "writer_ok m w"
  show "writer_room w \<le> PTRDIFF_MAX"
    using ok by (cases w) (auto simp: buffer_ok_def)
  show "dtf_bytes_writer_write m w (Some []) = Ok (0, m, w)"
    using ok by (cases w) (auto simp: writer_write_sizer writer_write_buffer buf.write_Nil)
qed (fact writer_write_step writer_write_append)+

end
