(* ===== verification/Dtf_Encoding.thy ===== *)
theory Dtf_Encoding
  imports Dtf_Writer
begin

text \<open>
  The encoding of a value as a pure function, and the proof that the writers of
  \<open>Dtf_Writer\<close> implement it: what the buffer writer leaves in memory, what the sizer counts,
  and in which cases they fail.
\<close>

section \<open>Reference encoding\<close>

definition zstring :: "cstring \<Rightarrow> byte list" where
  "zstring s = s @ [0]"

definition opt_str :: "cstring option \<Rightarrow> cstring" where
  "opt_str s = (case s of Some t \<Rightarrow> t | None \<Rightarrow> [])"

text \<open>\<open>enc_content\<close> is an item without its type byte, \<open>enc_variant\<close> the item with it.\<close>

fun enc_content :: "dicey_arg \<Rightarrow> byte list" where
  "enc_content (ArgBool b) = [b]"
| "enc_content (ArgByte b) = [b]"
| "enc_content (ArgFloat f) = le_enc 8 (unat f)"
| "enc_content (ArgI16 i) = le_enc 2 (unat i)"
| "enc_content (ArgI32 i) = le_enc 4 (unat i)"
| "enc_content (ArgI64 i) = le_enc 8 (unat i)"
| "enc_content (ArgU16 i) = le_enc 2 (unat i)"
| "enc_content (ArgU32 i) = le_enc 4 (unat i)"
| "enc_content (ArgU64 i) = le_enc 8 (unat i)"
| "enc_content (ArgArray t es) =
     (let c = concat (map enc_content es) in
      le_enc 4 (length c) @ le_enc 2 (length es) @ type_id t # c)"
| "enc_content (ArgTuple es) =
     (let c = concat (map (\<lambda>e. type_id (arg_type e) # enc_content e) es) in
      le_enc 4 (length c) @ le_enc 2 (length es) @ c)"
| "enc_content (ArgPair a b) =
     (let c = (type_id (arg_type a) # enc_content a) @ (type_id (arg_type b) # enc_content b) in
      le_enc 4 (length c) @ c)"
| "enc_content (ArgBytes bs) = le_enc 4 (view_len bs) @ (case bs of Some d \<Rightarrow> d | None \<Rightarrow> [])"
| "enc_content (ArgStr s) = zstring (opt_str s)"
| "enc_content (ArgUuid bs) = bs"
| "enc_content (ArgPath p) = zstring p"
| "enc_content (ArgSelector s) = zstring (opt_str (sel_trait s)) @ zstring (opt_str (sel_elem s))"
| "enc_content (ArgError c s) = le_enc 2 (unat c) @ zstring (opt_str s)"
| "enc_content _ = []"

definition enc_variant :: "dicey_arg \<Rightarrow> byte list" where
  "enc_variant a = type_id (arg_type a) # enc_content a"

fun enc_item :: "item_policy \<Rightarrow> dicey_arg \<Rightarrow> byte list" where
  "enc_item ITEM_POLICY_EXACT a = enc_content a"
| "enc_item ITEM_POLICY_VARIANT a = enc_variant a"

lemma enc_item_policy [simp]:
  "enc_item ITEM_POLICY_EXACT = enc_content" "enc_item ITEM_POLICY_VARIANT = enc_variant"
  by auto

text \<open>
  The arguments a caller may hand to the writer: pointers that are not \<open>NULL\<close> where the type needs
  one, array types that exist, strings shorter than \<open>UINT32_MAX\<close>.
\<close>

definition str_ok :: "cstring \<Rightarrow> bool" where
  "str_ok s \<longleftrightarrow> cstring_ok s \<and> length s < UINT32_MAX"

fun arg_writable :: "dicey_arg \<Rightarrow> bool" where
  "arg_writable ArgInvalid = False"
| "arg_writable (ArgArray t es) =
     (dicey_type_is_valid t \<and> length es \<le> UINT16_MAX \<and> list_all arg_writable es)"
| "arg_writable (ArgTuple es) = (length es \<le> UINT16_MAX \<and> list_all arg_writable es)"
| "arg_writable (ArgPair a b) = (arg_writable a \<and> arg_writable b)"
| "arg_writable (ArgBytes bs) = (bs \<noteq> None \<and> view_len bs \<le> UINT32_MAX)"
| "arg_writable (ArgStr s) = str_ok (opt_str s)"
| "arg_writable (ArgUuid bs) = (length bs = DICEY_UUID_SIZE)"
| "arg_writable (ArgPath p) = str_ok p"
| "arg_writable (ArgSelector s) =
     (dicey_selector_is_valid s \<and> str_ok (opt_str (sel_trait s)) \<and> str_ok (opt_str (sel_elem s)))"
| "arg_writable (ArgError c s) = str_ok (opt_str s)"
| "arg_writable _ = True"

section \<open>The pieces of the writer\<close>

lemma writer_valid [simp]: "writer_ok m w \<Longrightarrow> dtf_bytes_writer_is_valid w"
  by (cases w) (auto simp: dtf_bytes_writer_is_valid_def buffer_ok_def)

lemma len_write_eq: "len_write m w n = dtf_bytes_writer_write m w (Some (le_enc 4 n))"
proof -
  have "le_enc 4 (n mod 4294967296) = le_enc 4 n"
  proof -
    have "le_dec (le_enc 4 n) = n mod 4294967296"
      by (simp add: le_dec_enc)
    then show ?thesis
      using le_enc_dec [of "le_enc 4 n"] by simp
  qed
  moreover have "n mod 4294967296 < 4294967296"
    by simp
  ultimately show ?thesis
    by (auto simp: len_write_def blob_write_def c_limits)
qed

lemma list_write_eq:
  assumes "writer_ok m w" and "4 \<le> length h"
    and elems: "\<And>m' w'. writer_ok m' w' \<Longrightarrow> ws m' w' = dtf_bytes_writer_write m' w' (Some c)"
  shows "list_write m w h ws =
    dtf_bytes_writer_write m w (Some (le_enc 4 (length c) @ drop 4 h @ c))"
proof (cases w)
  case (WriterBuffer v)
  with assms(1) have "buffer_ok m v" by simp
  then obtain off len where v: "v = \<lparr>vm_data = Some off, vm_len = len\<rparr>"
    and room: "off + len \<le> length m" and len: "len \<le> PTRDIFF_MAX"
    by (rule buffer_okE)
  have "overwrite m off (le_enc 4 (length c) @ drop 4 h @ c) =
      overwrite (overwrite m off (h @ c)) off (le_enc 4 (length c))"
    if "length h + length c \<le> len"
    using that room assms(2) by (simp add: overwrite_prefix)
  moreover have "overwrite (overwrite m off h) (off + length h) c = overwrite m off (h @ c)"
    if "length h + length c \<le> len"
    using that room by (simp add: overwrite_append)
  ultimately show ?thesis
    using room len assms(2)
    by (auto simp: list_write_def WriterBuffer v dtf_bytes_writer_snapshot_def Let_def elems
        writer_write_buffer view_write_eq len_write_eq add_written_def dutl_checked_add_def)
qed (use assms in \<open>auto simp: list_write_def dtf_bytes_writer_snapshot_def Let_def elems
      writer_write_sizer len_write_eq add_written_def dutl_checked_add_def\<close>)

lemma write_zstring_eq:
  assumes "str_ok s"
  shows "dtf_bytes_writer_write_zstring m w s = dtf_bytes_writer_write m w (Some (zstring s))"
proof -
  have "(length s + 1) mod (UINT32_MAX + 1) = length s + 1"
    using assms by (simp add: str_ok_def)
  then show ?thesis
    using assms by (simp add: dtf_bytes_writer_write_zstring_def dutl_zstring_size_def str_ok_def
        zstring_def)
qed

lemma write_selector_eq:
  assumes "writer_ok m w" and "arg_writable (ArgSelector s)"
  shows "dtf_bytes_writer_write_selector m w s =
    dtf_bytes_writer_write m w (Some (enc_content (ArgSelector s)))"
proof -
  obtain tr el where s: "sel_trait s = Some tr" "sel_elem s = Some el"
    and ok: "str_ok tr" "str_ok el"
    using assms(2) by (auto simp: dicey_selector_is_valid_def opt_str_def)
  have "write_chunks_loop m w [Some (zstring tr), Some (zstring el)] 0 =
    and_then (add_written 0 (dtf_bytes_writer_write m w (Some (zstring tr))))
      (\<lambda>(n, m', w'). add_written n (dtf_bytes_writer_write m' w' (Some (zstring el))))"
    by (simp add: case_prod_unfold)
  also have "\<dots> = dtf_bytes_writer_write m w (Some (zstring tr @ zstring el))"
    using wr.write_two [OF assms(1)] wr.add_written_0 [OF assms(1)] by simp
  finally show ?thesis
    using assms(1) s ok
    by (simp add: dtf_bytes_writer_write_selector_def dtf_bytes_writer_write_chunks_def
        dutl_zstring_size_def str_ok_def zstring_def opt_str_def)
qed

declare item_write.simps [simp del]

lemma items_write_Cons_eq:
  assumes "writer_ok m w" and "n + writer_room w \<le> PTRDIFF_MAX"
    and item: "item_write m w a p = dtf_bytes_writer_write m w (Some x)"
    and items: "\<And>m' w' k. writer_ok m' w' \<Longrightarrow> k + writer_room w' \<le> PTRDIFF_MAX \<Longrightarrow>
      items_write m' w' as p k = add_written k (dtf_bytes_writer_write m' w' (Some xs))"
  shows "items_write m w (a # as) p n = add_written n (dtf_bytes_writer_write m w (Some (x @ xs)))"
proof -
  let ?first = "add_written n (dtf_bytes_writer_write m w (Some x))"
  have "items_write m w (a # as) p n =
      and_then ?first (\<lambda>(k, m', w'). items_write m' w' as p k)"
    by (simp add: item)
  also have "\<dots> = and_then ?first
      (\<lambda>(k, m', w'). add_written k (dtf_bytes_writer_write m' w' (Some xs)))"
  proof (rule and_then_cong [OF refl])
    fix r assume "?first = Ok r"
    then obtain j k m' w' where r: "r = (k, m', w')" "k = n + j"
      and ok: "dtf_bytes_writer_write m w (Some x) = Ok (j, m', w')"
      by (auto simp: wr.add_written_write [OF assms(1,2)] outcome_simps)
    then have "writer_ok m' w'" "k + writer_room w' \<le> PTRDIFF_MAX"
      using writer_write_step [OF assms(1) ok] assms(2) by simp_all
    then show "(case r of (k, m', w') \<Rightarrow> items_write m' w' as p k) =
        (case r of (k, m', w') \<Rightarrow> add_written k (dtf_bytes_writer_write m' w' (Some xs)))"
      using r items by simp
  qed
  finally show ?thesis
    using wr.write_loop_step [OF assms(1,2)] by simp
qed

lemma array_write_eq:
  assumes "writer_ok m w" and "dicey_type_is_valid t"
    and "\<And>m' w'. writer_ok m' w' \<Longrightarrow> ws m' w' = dtf_bytes_writer_write m' w' (Some c)"
  shows "array_write m w t n ws =
    dtf_bytes_writer_write m w (Some (le_enc 4 (length c) @ le_enc 2 n @ type_id t # c))"
  using list_write_eq [OF assms(1), of "le_enc 4 0 @ le_enc 2 n @ [type_id t]" ws c] assms
  by (simp add: array_write_def)

lemma tuple_write_eq:
  assumes "writer_ok m w"
    and "\<And>m' w'. writer_ok m' w' \<Longrightarrow> ws m' w' = dtf_bytes_writer_write m' w' (Some c)"
  shows "tuple_write m w n ws =
    dtf_bytes_writer_write m w (Some (le_enc 4 (length c) @ le_enc 2 n @ c))"
  using list_write_eq [OF assms(1), of "le_enc 4 0 @ le_enc 2 n" ws c] assms
  by (simp add: tuple_write_def)

lemma pair_write_eq:
  assumes "writer_ok m w"
    and "\<And>m' w'. writer_ok m' w' \<Longrightarrow> ws m' w' = dtf_bytes_writer_write m' w' (Some c)"
  shows "pair_write m w ws = dtf_bytes_writer_write m w (Some (le_enc 4 (length c) @ c))"
  using list_write_eq [OF assms(1), of "le_enc 4 0" ws c] assms
  by (simp add: pair_write_def)

lemma bytes_write_eq:
  assumes "writer_ok m w"
  shows "bytes_write m w (Some d) = dtf_bytes_writer_write m w (Some (le_enc 4 (length d) @ d))"
  using wr.write_two [OF assms] by (simp add: bytes_write_def blob_write_def view_len_def)

lemma str_write_eq:
  "str_ok (opt_str s) \<Longrightarrow>
     str_write m w s = dtf_bytes_writer_write m w (Some (zstring (opt_str s)))"
  by (cases s) (simp_all add: str_write_def write_zstring_eq opt_str_def)

lemma error_write_eq:
  assumes "writer_ok m w" and "str_ok (opt_str s)"
  shows "error_write m w c s =
    dtf_bytes_writer_write m w (Some (le_enc 2 (unat c) @ zstring (opt_str s)))"
  using wr.write_two [OF assms(1)] assms(2) by (simp add: error_write_def blob_write_def str_write_eq)

lemmas scalar_write_defs =
  bool_write_def byte_write_def float_write_def int_write_def uuid_write_def blob_write_def

lemma arg_writable_type: "arg_writable a \<Longrightarrow> arg_type a \<noteq> DICEY_TYPE_INVALID"
  by (cases a) auto

lemma item_write_eq:
  assumes "writer_ok m w" and "arg_type a \<noteq> DICEY_TYPE_INVALID"
    and content: "\<And>m' w'. writer_ok m' w' \<Longrightarrow>
      content_write m' w' a = dtf_bytes_writer_write m' w' (Some (enc_content a))"
  shows "item_write m w a p = dtf_bytes_writer_write m w (Some (enc_item p a))"
proof (cases p)
  case ITEM_POLICY_EXACT
  then show ?thesis
    using assms by (simp add: item_write.simps wr.add_written_0)
next
  case ITEM_POLICY_VARIANT
  let ?head = "dtf_bytes_writer_write m w (Some [type_id (arg_type a)])"
  have "and_then ?head (\<lambda>(n, m', w'). add_written n (content_write m' w' a)) =
      and_then ?head
        (\<lambda>(n, m', w'). add_written n (dtf_bytes_writer_write m' w' (Some (enc_content a))))"
    using writer_write_step [OF assms(1)] content by (intro and_then_cong) auto
  then show ?thesis
    using assms ITEM_POLICY_VARIANT wr.write_two [OF assms(1), of "[type_id (arg_type a)]"]
    by (simp add: item_write.simps value_header_write_def blob_write_def enc_variant_def)
qed

lemma items_write_eq:
  assumes "\<And>m w a. a \<in> set as \<Longrightarrow> writer_ok m w \<Longrightarrow>
      item_write m w a p = dtf_bytes_writer_write m w (Some (enc_item p a))"
  shows "writer_ok m w \<Longrightarrow> n + writer_room w \<le> PTRDIFF_MAX \<Longrightarrow> items_write m w as p n =
       add_written n (dtf_bytes_writer_write m w (Some (concat (map (enc_item p) as))))"
  using assms
proof (induction as arbitrary: m w n)
  case Nil
  then show ?case
    by (simp add: wr.write_Nil add_written_def dutl_checked_add_def)
next
  case (Cons a as)
  then show ?case
    using items_write_Cons_eq [of m w n a p "enc_item p a" as "concat (map (enc_item p) as)"]
    by simp
qed

lemma elems_write_eq:
  assumes "\<And>m w a. a \<in> set as \<Longrightarrow> writer_ok m w \<Longrightarrow>
      content_write m w a = dtf_bytes_writer_write m w (Some (enc_content a))"
    and "list_all arg_writable as" and "writer_ok m w"
  shows "items_write m w as p 0 =
    dtf_bytes_writer_write m w (Some (concat (map (enc_item p) as)))"
proof -
  have "item_write m' w' a p = dtf_bytes_writer_write m' w' (Some (enc_item p a))"
    if "a \<in> set as" "writer_ok m' w'" for m' w' a
    using that assms(1,2) by (intro item_write_eq) (auto simp: list_all_iff dest: arg_writable_type)
  then show ?thesis
    using items_write_eq [of as p m w 0] assms(3) wr.room_bound [OF assms(3)]
    by (simp add: wr.add_written_0)
qed

lemma content_write_eq:
  "writer_ok m w \<Longrightarrow> arg_writable a \<Longrightarrow>
     content_write m w a = dtf_bytes_writer_write m w (Some (enc_content a))"
proof (induction a arbitrary: m w)
  case (ArgArray t es)
  then have "items_write m' w' es ITEM_POLICY_EXACT 0 =
      dtf_bytes_writer_write m' w' (Some (concat (map enc_content es)))" if "writer_ok m' w'" for m' w'
    using elems_write_eq [of es m' w' ITEM_POLICY_EXACT] that by (simp add: list_all_iff)
  then show ?case
    using array_write_eq [OF ArgArray(2)] ArgArray(3) by (simp add: Let_def)
next
  case (ArgTuple es)
  then have "items_write m' w' es ITEM_POLICY_VARIANT 0 =
      dtf_bytes_writer_write m' w' (Some (concat (map enc_variant es)))" if "writer_ok m' w'" for m' w'
    using elems_write_eq [of es m' w' ITEM_POLICY_VARIANT] that by (simp add: list_all_iff)
  then show ?case
    using tuple_write_eq [OF ArgTuple(2)] by (simp add: Let_def enc_variant_def [abs_def])
next
  case (ArgPair a b)
  then have "items_write m' w' [a, b] ITEM_POLICY_VARIANT 0 =
      dtf_bytes_writer_write m' w' (Some (enc_variant a @ enc_variant b))" if "writer_ok m' w'" for m' w'
    using elems_write_eq [of "[a, b]" m' w' ITEM_POLICY_VARIANT] that
    by (auto simp del: items_write.simps)
  then show ?case
    using pair_write_eq [OF ArgPair(3)] by (simp add: Let_def enc_variant_def)
next
  case (ArgBytes bs)
  then show ?case by (auto simp: bytes_write_eq view_len_def)
qed (simp_all add: scalar_write_defs wr.write_Nil str_write_eq write_zstring_eq write_selector_eq
    error_write_eq)

lemma item_write_enc:
  assumes "writer_ok m w" and "arg_writable a"
  shows "item_write m w a p = dtf_bytes_writer_write m w (Some (enc_item p a))"
  using assms by (intro item_write_eq content_write_eq) (simp_all add: arg_writable_type)

section \<open>What the library writes\<close>

lemma item_write_buffer:
  assumes "off + len \<le> length m" and "len \<le> PTRDIFF_MAX" and "arg_writable a"
  shows "item_write m (WriterBuffer \<lparr>vm_data = Some off, vm_len = len\<rparr>) a p =
    (if len < length (enc_item p a) then Err DICEY_EOVERFLOW
     else Ok (length (enc_item p a), overwrite m off (enc_item p a),
       WriterBuffer \<lparr>vm_data = Some (off + length (enc_item p a)),
                     vm_len = len - length (enc_item p a)\<rparr>))"
  using assms item_write_enc [of m "WriterBuffer \<lparr>vm_data = Some off, vm_len = len\<rparr>" a p]
  by (simp add: writer_write_buffer view_write_eq)

lemma estimate_size_eq:
  assumes "arg_writable a"
  shows "dtf_value_estimate_size a =
    (if length (enc_variant a) \<le> PTRDIFF_MAX then Ok (length (enc_variant a))
     else Err DICEY_EOVERFLOW)"
  using item_write_enc [of "[]" "WriterSizer 0" a ITEM_POLICY_VARIANT] assms
  by (simp add: dtf_value_estimate_size_def dtf_bytes_writer_new_sizer_def writer_write_sizer)

lemma value_write_into:
  assumes "off + len \<le> length m" and "len \<le> PTRDIFF_MAX" and "arg_writable a"
  shows "dtf_value_write alloc m \<lparr>vm_data = Some off, vm_len = len\<rparr> a =
    (if length (enc_variant a) > PTRDIFF_MAX then Err DICEY_EOVERFLOW
     else if len < length (enc_variant a) then Err DICEY_EAGAIN
     else Ok (\<lparr>vres_result = 0, vres_size = length (enc_variant a), vres_value = Some off\<rparr>,
              overwrite m off (enc_variant a)))"
  using assms
  by (simp add: dtf_value_write_def estimate_size_eq dicey_view_mut_ensure_cap_def
      dtf_value_write_to_def dtf_bytes_writer_new_def item_write_buffer)

lemma value_write_alloc:
  assumes "arg_writable a" and "length (enc_variant a) \<le> PTRDIFF_MAX"
    and "alloc (length (enc_variant a))"
  shows "dtf_value_write alloc m DICEY_NULL a =
    Ok (\<lparr>vres_result = length (enc_variant a), vres_size = length (enc_variant a),
         vres_value = Some 0\<rparr>, enc_variant a)"
proof -
  have "0 < length (enc_variant a)"
    by (simp add: enc_variant_def)
  then show ?thesis
    using assms
    by (simp add: dtf_value_write_def estimate_size_eq dicey_view_mut_ensure_cap_def DICEY_NULL_def
        dtf_value_write_to_def dtf_bytes_writer_new_def item_write_buffer overwrite_whole)
qed

text \<open>
  A \<open>NULL\<close> bytes argument passes the sizer and fails in the buffer, so \<open>dtf_value_write\<close> frees the
  caller's buffer.
\<close>

lemma null_bytes_estimate: "dtf_value_estimate_size (ArgBytes None) = Ok 5"
  by (simp add: dtf_value_estimate_size_def item_write.simps dtf_bytes_writer_new_sizer_def
      value_header_write_def blob_write_def writer_write_sizer bytes_write_def add_written_def
      dutl_checked_add_def dtf_bytes_writer_write_def sizer_write_def view_len_def c_limits)

lemma value_write_null_bytes:
  assumes "off + len \<le> length m" and "5 \<le> len" and "len \<le> PTRDIFF_MAX"
  shows "dtf_value_write alloc m \<lparr>vm_data = Some off, vm_len = len\<rparr> (ArgBytes None) = Undef"
  using assms
  by (simp add: null_bytes_estimate dtf_value_write_def dicey_view_mut_ensure_cap_def
      dtf_value_write_to_def dtf_bytes_writer_new_def item_write.simps value_header_write_def
      blob_write_def writer_write_buffer view_write_eq bytes_write_def add_written_def
      dutl_checked_add_def)
     (simp add: dtf_bytes_writer_write_def buffer_write_def dicey_view_mut_write_def)

end
