(* ===== verification/Dtf_Probe.thy ===== *)
theory Dtf_Probe
  imports Dtf_Encoding
begin

text \<open>
  Reading values: \<^verbatim>\<open>src/wirefmt/dtf/value-probe.c\<close>, \<open>dtf_selector_from\<close> of
  \<^verbatim>\<open>src/wirefmt/dtf/value-write.c\<close>, and the iterators and getters of \<^verbatim>\<open>src/wirefmt/value.c\<close>.

  Probing is shallow: a container is probed into a view of its undecoded elements, which an
  iterator probes one at a time.  Every function returns the number of bytes read, what it
  read, and the source view after the read.
\<close>

section \<open>Probed values\<close>

text \<open>
  \<open>union _dicey_data_info\<close>, with the member that was set; \<open>DataNone\<close> is the zeroed union of a unit.
\<close>

datatype (plugins only: code size) dicey_data_info =
  DataNone
| DataBoolean byte
| DataByte byte
| DataFloating "64 word"
| DataI16 "16 word"
| DataI32 "32 word"
| DataI64 "64 word"
| DataU16 "16 word"
| DataU32 "32 word"
| DataU64 "64 word"
| DataList byte nat dicey_view
| DataBytes "byte list"
| DataStr cstring
| DataUuid "byte list"
| DataSelector dicey_selector
| DataError "16 word" "cstring option"

record dicey_value =
  val_type :: dicey_type
  val_data :: dicey_data_info

type_synonym dtf_probed_value = dicey_value

type_synonym 'a probed = "(nat \<times> 'a \<times> dicey_view) result"

text \<open>The counts of the header and of the content are added with \<open>dutl_checked_add\<close>.\<close>

definition add_read :: "nat \<Rightarrow> 'a probed \<Rightarrow> 'a probed" where
  "add_read n r =
     and_then r (\<lambda>(k, x, src).
       case dutl_checked_add n k of None \<Rightarrow> Err DICEY_EOVERFLOW | Some s \<Rightarrow> Ok (s, x, src))"

section \<open>Probing\<close>

definition list_probe :: "dicey_view \<Rightarrow> nat \<Rightarrow> dicey_view probed" where
  "list_probe src nbytes = dicey_view_take src (int nbytes)"

record dtf_array_header =
  arr_nbytes :: nat
  arr_nitems :: nat
  arr_type :: byte

definition array_header_read :: "dicey_view \<Rightarrow> dtf_array_header probed" where
  "array_header_read src =
     and_then (dicey_view_read_ptr src 7) (\<lambda>(read_bytes, h, src').
       let header = \<lparr>arr_nbytes = le_dec (take 4 h), arr_nitems = le_dec (take 2 (drop 4 h)),
                     arr_type = h ! 6\<rparr> in
       if \<not> dicey_type_is_valid (type_of_id (arr_type header)) then Err DICEY_EBADMSG
       else Ok (read_bytes, header, src'))"

definition array_probe :: "dicey_view \<Rightarrow> dicey_data_info probed" where
  "array_probe src =
     and_then (array_header_read src) (\<lambda>(header_read_res, header, src').
       add_read header_read_res
         (and_then (list_probe src' (arr_nbytes header)) (\<lambda>(n, elems, src'').
           Ok (n, DataList (arr_type header) (arr_nitems header) elems, src''))))"

definition bytes_header_read :: "dicey_view \<Rightarrow> nat probed" where
  "bytes_header_read src =
     and_then (dicey_view_read_ptr src 4) (\<lambda>(n, h, src'). Ok (n, le_dec h, src'))"

definition bytes_probe :: "dicey_view \<Rightarrow> dicey_data_info probed" where
  "bytes_probe src =
     and_then (bytes_header_read src) (\<lambda>(header_read_res, len, src').
       if len > view_len src' then Err DICEY_EBADMSG
       else
         add_read header_read_res
           (and_then (dicey_view_advance src' (int len)) (\<lambda>(n, src'').
             Ok (n, DataBytes (case src' of Some bs \<Rightarrow> take len bs | None \<Rightarrow> []), src''))))"

definition error_header_read :: "dicey_view \<Rightarrow> 16 word probed" where
  "error_header_read src =
     and_then (dicey_view_read_ptr src 2) (\<lambda>(n, h, src'). Ok (n, word_of_nat (le_dec h), src'))"

text \<open>An empty message is read as \<open>NULL\<close>.\<close>

definition error_probe :: "dicey_view \<Rightarrow> dicey_data_info probed" where
  "error_probe src =
     and_then (error_header_read src) (\<lambda>(header_read_res, code, src').
       add_read header_read_res
         (and_then (dicey_view_as_zstring src') (\<lambda>(n, msg, src'').
           Ok (n, DataError code (if n > 1 then Some msg else None), src''))))"

definition pair_header_read :: "dicey_view \<Rightarrow> nat probed" where
  "pair_header_read src =
     and_then (dicey_view_read_ptr src 4) (\<lambda>(n, h, src'). Ok (n, le_dec h, src'))"

definition pair_probe :: "dicey_view \<Rightarrow> dicey_data_info probed" where
  "pair_probe src =
     and_then (pair_header_read src) (\<lambda>(header_read_res, nbytes, src').
       add_read header_read_res
         (and_then (list_probe src' nbytes) (\<lambda>(n, elems, src'').
           Ok (n, DataList DICEY_VARIANT_ID 2 elems, src''))))"

definition tuple_header_read :: "dicey_view \<Rightarrow> (nat \<times> nat) probed" where
  "tuple_header_read src =
     and_then (dicey_view_read_ptr src 6) (\<lambda>(n, h, src').
       Ok (n, (le_dec (take 4 h), le_dec (drop 4 h)), src'))"

definition tuple_probe :: "dicey_view \<Rightarrow> dicey_data_info probed" where
  "tuple_probe src =
     and_then (tuple_header_read src) (\<lambda>(header_read_res, (nbytes, nitems), src').
       add_read header_read_res
         (and_then (list_probe src' nbytes) (\<lambda>(n, elems, src'').
           Ok (n, DataList DICEY_VARIANT_ID nitems elems, src''))))"

definition DTF_SIZE_DYNAMIC :: nat where "DTF_SIZE_DYNAMIC = PTRDIFF_MAX"

fun type_size :: "dicey_type \<Rightarrow> nat result" where
  "type_size DICEY_TYPE_INVALID = Err DICEY_EINVAL"
| "type_size DICEY_TYPE_UNIT = Ok 0"
| "type_size DICEY_TYPE_BOOL = Ok 1"
| "type_size DICEY_TYPE_BYTE = Ok 1"
| "type_size DICEY_TYPE_FLOAT = Ok 8"
| "type_size DICEY_TYPE_INT16 = Ok 2"
| "type_size DICEY_TYPE_INT32 = Ok 4"
| "type_size DICEY_TYPE_INT64 = Ok 8"
| "type_size DICEY_TYPE_UINT16 = Ok 2"
| "type_size DICEY_TYPE_UINT32 = Ok 4"
| "type_size DICEY_TYPE_UINT64 = Ok 8"
| "type_size DICEY_TYPE_UUID = Ok DICEY_UUID_SIZE"
| "type_size _ = Ok DTF_SIZE_DYNAMIC"

definition value_header_read :: "dicey_view \<Rightarrow> dicey_type probed" where
  "value_header_read src =
     and_then (dicey_view_read_ptr src 1) (\<lambda>(n, h, src').
       let t = type_of_id (h ! 0) in
       if \<not> dicey_type_is_valid t then Err DICEY_EBADMSG else Ok (n, t, src'))"

definition value_probe_container :: "dicey_type \<Rightarrow> dicey_view \<Rightarrow> dicey_data_info probed" where
  "value_probe_container t src =
     (case t of
        DICEY_TYPE_ARRAY \<Rightarrow> array_probe src
      | DICEY_TYPE_TUPLE \<Rightarrow> tuple_probe src
      | DICEY_TYPE_PAIR \<Rightarrow> pair_probe src
      | _ \<Rightarrow> Err DICEY_EINVAL)"

definition dtf_selector_from :: "dicey_view \<Rightarrow> dicey_selector probed" where
  "dtf_selector_from src =
     and_then (dicey_view_as_zstring src) (\<lambda>(trait_len, tr, src').
       add_read trait_len
         (and_then (dicey_view_as_zstring src') (\<lambda>(elem_len, el, src'').
           Ok (elem_len, \<lparr>sel_trait = Some tr, sel_elem = Some el\<rparr>, src''))))"

definition value_probe_dynamic :: "dicey_type \<Rightarrow> dicey_view \<Rightarrow> dicey_data_info probed" where
  "value_probe_dynamic t src =
     (if t \<in> {DICEY_TYPE_ARRAY, DICEY_TYPE_TUPLE, DICEY_TYPE_PAIR} then value_probe_container t src
      else case t of
        DICEY_TYPE_BYTES \<Rightarrow> bytes_probe src
      | DICEY_TYPE_STR \<Rightarrow>
          and_then (dicey_view_as_zstring src) (\<lambda>(n, s, src'). Ok (n, DataStr s, src'))
      | DICEY_TYPE_PATH \<Rightarrow>
          and_then (dicey_view_as_zstring src) (\<lambda>(n, s, src'). Ok (n, DataStr s, src'))
      | DICEY_TYPE_SELECTOR \<Rightarrow>
          and_then (dtf_selector_from src) (\<lambda>(n, s, src'). Ok (n, DataSelector s, src'))
      | DICEY_TYPE_ERROR \<Rightarrow> error_probe src
      | _ \<Rightarrow> Err DICEY_EINVAL)"

text \<open>The member of the union whose image in memory the given bytes are.\<close>

fun fixed_data :: "dicey_type \<Rightarrow> byte list \<Rightarrow> dicey_data_info" where
  "fixed_data DICEY_TYPE_BOOL bs = DataBoolean (bs ! 0)"
| "fixed_data DICEY_TYPE_BYTE bs = DataByte (bs ! 0)"
| "fixed_data DICEY_TYPE_FLOAT bs = DataFloating (word_of_nat (le_dec bs))"
| "fixed_data DICEY_TYPE_INT16 bs = DataI16 (word_of_nat (le_dec bs))"
| "fixed_data DICEY_TYPE_INT32 bs = DataI32 (word_of_nat (le_dec bs))"
| "fixed_data DICEY_TYPE_INT64 bs = DataI64 (word_of_nat (le_dec bs))"
| "fixed_data DICEY_TYPE_UINT16 bs = DataU16 (word_of_nat (le_dec bs))"
| "fixed_data DICEY_TYPE_UINT32 bs = DataU32 (word_of_nat (le_dec bs))"
| "fixed_data DICEY_TYPE_UINT64 bs = DataU64 (word_of_nat (le_dec bs))"
| "fixed_data DICEY_TYPE_UUID bs = DataUuid bs"
| "fixed_data _ bs = DataNone"

definition dtf_value_probe_as :: "dicey_type \<Rightarrow> dicey_view \<Rightarrow> dicey_data_info probed" where
  "dtf_value_probe_as t src =
     (if \<not> dicey_type_is_valid t then Err DICEY_EINVAL
      else and_then (type_size t) (\<lambda>sz.
        if sz = DTF_SIZE_DYNAMIC then value_probe_dynamic t src
        else and_then (dicey_view_read_ptr src sz) (\<lambda>(n, bs, src'). Ok (n, fixed_data t bs, src'))))"

definition dtf_value_probe :: "dicey_view \<Rightarrow> dtf_probed_value probed" where
  "dtf_value_probe src =
     and_then (value_header_read src) (\<lambda>(header_read_res, t, src').
       add_read header_read_res
         (and_then (dtf_value_probe_as t src') (\<lambda>(n, data, src'').
           Ok (n, \<lparr>val_type = t, val_data = data\<rparr>, src''))))"

section \<open>Iterators, lists and getters\<close>

record dicey_iterator =
  it_type :: byte
  it_data :: dicey_view

definition dicey_iterator_has_next :: "dicey_iterator \<Rightarrow> bool" where
  "dicey_iterator_has_next iter \<longleftrightarrow> view_len (it_data iter) > 0"

definition dicey_iterator_next :: "dicey_iterator \<Rightarrow> (dicey_value \<times> dicey_iterator) result" where
  "dicey_iterator_next iter =
     (if \<not> dicey_iterator_has_next iter then Err DICEY_ENODATA
      else
        and_then
          (if it_type iter = DICEY_VARIANT_ID then dtf_value_probe (it_data iter)
           else and_then (dtf_value_probe_as (type_of_id (it_type iter)) (it_data iter))
                  (\<lambda>(n, data, view).
                     Ok (n, \<lparr>val_type = type_of_id (it_type iter), val_data = data\<rparr>, view)))
          (\<lambda>(_, dest, view). Ok (dest, iter\<lparr>it_data := view\<rparr>)))"

text \<open>\<open>struct dicey_list\<close> has the members of an iterator.\<close>

type_synonym dicey_list = dicey_iterator

definition dicey_list_iter :: "dicey_list \<Rightarrow> dicey_iterator" where
  "dicey_list_iter l = \<lparr>it_type = it_type l, it_data = it_data l\<rparr>"

definition dicey_list_type :: "dicey_list \<Rightarrow> byte" where
  "dicey_list_type l = it_type l"

definition dicey_value_is :: "dicey_value \<Rightarrow> dicey_type \<Rightarrow> bool" where
  "dicey_value_is v t \<longleftrightarrow> val_type v = t"

definition dicey_value_is_unit :: "dicey_value \<Rightarrow> bool" where
  "dicey_value_is_unit v \<longleftrightarrow> dicey_value_is v DICEY_TYPE_UNIT"

definition dicey_value_is_valid :: "dicey_value \<Rightarrow> bool" where
  "dicey_value_is_valid v \<longleftrightarrow> dicey_type_is_valid (val_type v)"

text \<open>
  \<open>DICEY_VALUE_GET_IMPL_TRIVIAL\<close>: the type is checked, then the member of the union is read.
  Reading a member that was not the one set is undefined.
\<close>

definition dicey_value_get_trivial ::
  "dicey_type \<Rightarrow> (dicey_data_info \<Rightarrow> 'a option) \<Rightarrow> dicey_value \<Rightarrow> 'a result"
where
  "dicey_value_get_trivial t field v =
     (if val_type v \<noteq> t then Err DICEY_EVALUE_TYPE_MISMATCH
      else case field (val_data v) of Some x \<Rightarrow> Ok x | None \<Rightarrow> Undef)"

definition dicey_value_get_list :: "dicey_value \<Rightarrow> dicey_list result" where
  "dicey_value_get_list v =
     (if val_type v \<noteq> DICEY_TYPE_ARRAY \<and> val_type v \<noteq> DICEY_TYPE_TUPLE
      then Err DICEY_EVALUE_TYPE_MISMATCH
      else case val_data v of
        DataList inner_type nitems data \<Rightarrow> Ok \<lparr>it_type = inner_type, it_data = data\<rparr>
      | _ \<Rightarrow> Undef)"

definition dicey_value_get_array :: "dicey_value \<Rightarrow> dicey_list result" where
  "dicey_value_get_array v =
     (if val_type v \<noteq> DICEY_TYPE_ARRAY then Err DICEY_EVALUE_TYPE_MISMATCH
      else dicey_value_get_list v)"

definition dicey_value_get_tuple :: "dicey_value \<Rightarrow> dicey_list result" where
  "dicey_value_get_tuple v =
     (if val_type v \<noteq> DICEY_TYPE_TUPLE then Err DICEY_EVALUE_TYPE_MISMATCH
      else dicey_value_get_list v)"

text \<open>The loop over the two destinations, with every error turned into \<open>EBADMSG\<close>.\<close>

definition as_bad_msg :: "'a result \<Rightarrow> 'a result" where
  "as_bad_msg r = (case r of Err e \<Rightarrow> Err DICEY_EBADMSG | _ \<Rightarrow> r)"

definition dicey_value_get_pair :: "dicey_value \<Rightarrow> (dicey_value \<times> dicey_value) result" where
  "dicey_value_get_pair v =
     (if val_type v \<noteq> DICEY_TYPE_PAIR then Err DICEY_EVALUE_TYPE_MISMATCH
      else case val_data v of
        DataList inner_type nitems data \<Rightarrow>
          (let iter = dicey_list_iter \<lparr>it_type = DICEY_VARIANT_ID, it_data = data\<rparr> in
           and_then (as_bad_msg (dicey_iterator_next iter)) (\<lambda>(first, iter').
           and_then (as_bad_msg (dicey_iterator_next iter')) (\<lambda>(second, iter'').
             Ok (first, second))))
      | _ \<Rightarrow> Undef)"

fun data_boolean :: "dicey_data_info \<Rightarrow> bool option" where
  "data_boolean (DataBoolean b) = Some (b \<noteq> 0)" | "data_boolean _ = None"

fun data_byte :: "dicey_data_info \<Rightarrow> byte option" where
  "data_byte (DataByte b) = Some b" | "data_byte _ = None"

fun data_i32 :: "dicey_data_info \<Rightarrow> 32 word option" where
  "data_i32 (DataI32 i) = Some i" | "data_i32 _ = None"

fun data_u64 :: "dicey_data_info \<Rightarrow> 64 word option" where
  "data_u64 (DataU64 i) = Some i" | "data_u64 _ = None"

fun data_bytes :: "dicey_data_info \<Rightarrow> byte list option" where
  "data_bytes (DataBytes bs) = Some bs" | "data_bytes _ = None"

fun data_str :: "dicey_data_info \<Rightarrow> cstring option" where
  "data_str (DataStr s) = Some s" | "data_str _ = None"

fun data_uuid :: "dicey_data_info \<Rightarrow> byte list option" where
  "data_uuid (DataUuid bs) = Some bs" | "data_uuid _ = None"

fun data_selector :: "dicey_data_info \<Rightarrow> dicey_selector option" where
  "data_selector (DataSelector s) = Some s" | "data_selector _ = None"

fun data_error :: "dicey_data_info \<Rightarrow> (16 word \<times> cstring option) option" where
  "data_error (DataError c s) = Some (c, s)" | "data_error _ = None"

fun data_floating :: "dicey_data_info \<Rightarrow> 64 word option" where
  "data_floating (DataFloating x) = Some x" | "data_floating _ = None"

fun data_i16 :: "dicey_data_info \<Rightarrow> 16 word option" where
  "data_i16 (DataI16 x) = Some x" | "data_i16 _ = None"

fun data_i64 :: "dicey_data_info \<Rightarrow> 64 word option" where
  "data_i64 (DataI64 x) = Some x" | "data_i64 _ = None"

fun data_u16 :: "dicey_data_info \<Rightarrow> 16 word option" where
  "data_u16 (DataU16 x) = Some x" | "data_u16 _ = None"

fun data_u32 :: "dicey_data_info \<Rightarrow> 32 word option" where
  "data_u32 (DataU32 x) = Some x" | "data_u32 _ = None"

definition dicey_value_get_bool :: "dicey_value \<Rightarrow> bool result" where
  "dicey_value_get_bool = dicey_value_get_trivial DICEY_TYPE_BOOL data_boolean"

definition dicey_value_get_byte :: "dicey_value \<Rightarrow> byte result" where
  "dicey_value_get_byte = dicey_value_get_trivial DICEY_TYPE_BYTE data_byte"

definition dicey_value_get_bytes :: "dicey_value \<Rightarrow> byte list result" where
  "dicey_value_get_bytes = dicey_value_get_trivial DICEY_TYPE_BYTES data_bytes"

definition dicey_value_get_error :: "dicey_value \<Rightarrow> (16 word \<times> cstring option) result" where
  "dicey_value_get_error = dicey_value_get_trivial DICEY_TYPE_ERROR data_error"

definition dicey_value_get_i32 :: "dicey_value \<Rightarrow> 32 word result" where
  "dicey_value_get_i32 = dicey_value_get_trivial DICEY_TYPE_INT32 data_i32"

definition dicey_value_get_float :: "dicey_value \<Rightarrow> 64 word result" where
  "dicey_value_get_float = dicey_value_get_trivial DICEY_TYPE_FLOAT data_floating"

definition dicey_value_get_i16 :: "dicey_value \<Rightarrow> 16 word result" where
  "dicey_value_get_i16 = dicey_value_get_trivial DICEY_TYPE_INT16 data_i16"

definition dicey_value_get_i64 :: "dicey_value \<Rightarrow> 64 word result" where
  "dicey_value_get_i64 = dicey_value_get_trivial DICEY_TYPE_INT64 data_i64"

definition dicey_value_get_u16 :: "dicey_value \<Rightarrow> 16 word result" where
  "dicey_value_get_u16 = dicey_value_get_trivial DICEY_TYPE_UINT16 data_u16"

definition dicey_value_get_u32 :: "dicey_value \<Rightarrow> 32 word result" where
  "dicey_value_get_u32 = dicey_value_get_trivial DICEY_TYPE_UINT32 data_u32"

definition dicey_value_get_u64 :: "dicey_value \<Rightarrow> 64 word result" where
  "dicey_value_get_u64 = dicey_value_get_trivial DICEY_TYPE_UINT64 data_u64"

definition dicey_value_get_path :: "dicey_value \<Rightarrow> cstring result" where
  "dicey_value_get_path = dicey_value_get_trivial DICEY_TYPE_PATH data_str"

definition dicey_value_get_str :: "dicey_value \<Rightarrow> cstring result" where
  "dicey_value_get_str = dicey_value_get_trivial DICEY_TYPE_STR data_str"

definition dicey_value_get_selector :: "dicey_value \<Rightarrow> dicey_selector result" where
  "dicey_value_get_selector = dicey_value_get_trivial DICEY_TYPE_SELECTOR data_selector"

definition dicey_value_get_uuid :: "dicey_value \<Rightarrow> byte list result" where
  "dicey_value_get_uuid = dicey_value_get_trivial DICEY_TYPE_UUID data_uuid"

section \<open>Reading is local to the bytes consumed\<close>

text \<open>
  A reader that succeeds has looked at nothing but the bytes it reports as read: it leaves the
  rest of the view, and gives the same result whatever follows those bytes.
\<close>

definition reads_prefix :: "(dicey_view \<Rightarrow> 'a probed) \<Rightarrow> bool" where
  "reads_prefix f \<longleftrightarrow> (\<forall>v n x v'. f v = Ok (n, x, v') \<longrightarrow>
     (\<exists>xs. v = Some xs \<and> n \<le> length xs \<and> v' = Some (drop n xs) \<and>
       (\<forall>ys. f (Some (take n xs @ ys)) = Ok (n, x, Some ys))))"

named_theorems reader_intros \<open>readers built from readers\<close>

lemma reads_prefixD:
  assumes "reads_prefix f" and "f v = Ok (n, x, v')"
  obtains xs where "v = Some xs" "n \<le> length xs" "v' = Some (drop n xs)"
    "\<And>ys. f (Some (take n xs @ ys)) = Ok (n, x, Some ys)"
  using assms unfolding reads_prefix_def by blast

lemma reads_prefix_read [reader_intros]: "reads_prefix (\<lambda>v. dicey_view_read_ptr v n)"
  by (auto simp: reads_prefix_def dicey_view_read_ptr_def dicey_view_read_Ok_iff)

lemma reads_prefix_take [reader_intros]: "reads_prefix (\<lambda>v. dicey_view_take v n)"
  by (auto simp: reads_prefix_def dicey_view_take_Ok_iff)

lemma reads_prefix_zstring [reader_intros]: "reads_prefix dicey_view_as_zstring"
  unfolding reads_prefix_def
proof (intro allI impI)
  fix v n s v'
  assume read: "dicey_view_as_zstring v = Ok (n, s, v')"
  then obtain rest where v: "v = Some (s @ 0 # rest)" "cstring_ok s" "n = length s + 1"
    "v' = Some rest"
    using dicey_view_as_zstring_OkD by blast
  have "length s < PTRDIFF_MAX"
    using read v by (simp add: dicey_view_as_zstring_def Let_def cstring_ok_def split: if_splits)
  then have "dicey_view_as_zstring (Some (s @ 0 # ys)) = Ok (n, s, Some ys)" for ys
    using v dicey_view_as_zstring_append by simp
  then show "\<exists>xs. v = Some xs \<and> n \<le> length xs \<and> v' = Some (drop n xs) \<and>
      (\<forall>ys. dicey_view_as_zstring (Some (take n xs @ ys)) = Ok (n, s, Some ys))"
    using v by (intro exI [of _ "s @ 0 # rest"]) simp
qed

lemma reads_prefix_map [reader_intros]:
  assumes "reads_prefix f"
  shows "reads_prefix (\<lambda>v. and_then (f v) (\<lambda>(n, x, v'). Ok (n, h x, v')))"
  unfolding reads_prefix_def by (auto simp: outcome_simps elim!: reads_prefixD [OF assms])

lemma reads_prefix_map_count:
  assumes "reads_prefix f"
  shows "reads_prefix (\<lambda>v. and_then (f v) (\<lambda>(n, x, v'). Ok (n, h n x, v')))"
  unfolding reads_prefix_def by (auto simp: outcome_simps elim!: reads_prefixD [OF assms])

lemma reads_prefix_guard:
  assumes "reads_prefix f"
  shows "reads_prefix (\<lambda>v. and_then (f v) (\<lambda>(n, x, v'). if c x then Err e else Ok (n, h x, v')))"
  unfolding reads_prefix_def
  by (auto simp: outcome_simps split: if_splits elim!: reads_prefixD [OF assms])

lemma reads_prefix_seq [reader_intros]:
  assumes f: "reads_prefix f" and g: "\<And>x. reads_prefix (g x)"
  shows "reads_prefix (\<lambda>v. and_then (f v) (\<lambda>(n, x, v'). add_read n (g x v')))"
  unfolding reads_prefix_def
proof (intro allI impI)
  fix v n y v'
  assume "and_then (f v) (\<lambda>(n, x, v'). add_read n (g x v')) = Ok (n, y, v')"
  then obtain i x u j where fv: "f v = Ok (i, x, u)" and gu: "g x u = Ok (j, y, v')"
    and n: "n = i + j" "i + j \<le> PTRDIFF_MAX"
    by (auto simp: outcome_simps add_read_def dutl_checked_add_def split: if_splits)
  obtain xs where xs: "v = Some xs" "i \<le> length xs" "u = Some (drop i xs)"
    "\<And>ys. f (Some (take i xs @ ys)) = Ok (i, x, Some ys)"
    using reads_prefixD [OF f fv] by blast
  have gx: "j \<le> length xs - i" "v' = Some (drop (i + j) xs)"
    "g x (Some (take j (drop i xs) @ ys)) = Ok (j, y, Some ys)" for ys
    using reads_prefixD [OF g gu] xs(3) by (auto simp: ac_simps)
  have "take n xs = take i xs @ take j (drop i xs)"
    by (simp add: n take_add)
  then have "and_then (f (Some (take n xs @ ys))) (\<lambda>(n, x, v'). add_read n (g x v'))
      = Ok (n, y, Some ys)" for ys
    using xs(4) gx(3) n by (simp add: add_read_def dutl_checked_add_def)
  then show "\<exists>xs. v = Some xs \<and> n \<le> length xs \<and> v' = Some (drop n xs) \<and>
      (\<forall>ys. and_then (f (Some (take n xs @ ys))) (\<lambda>(n, x, v'). add_read n (g x v'))
        = Ok (n, y, Some ys))"
    using xs gx n by auto
qed

lemma reads_prefix_Err [reader_intros]: "reads_prefix (\<lambda>v. Err e)"
  by (simp add: reads_prefix_def)

lemma array_header_read_local [reader_intros]: "reads_prefix array_header_read"
  unfolding array_header_read_def Let_def by (rule reads_prefix_guard) (rule reader_intros)

lemma value_header_read_local [reader_intros]: "reads_prefix value_header_read"
  unfolding value_header_read_def Let_def by (rule reads_prefix_guard) (rule reader_intros)

lemma array_probe_local [reader_intros]: "reads_prefix array_probe"
  unfolding array_probe_def list_probe_def by (intro reader_intros)

lemma pair_probe_local [reader_intros]: "reads_prefix pair_probe"
  unfolding pair_probe_def pair_header_read_def list_probe_def by (intro reader_intros)

lemma tuple_probe_local [reader_intros]: "reads_prefix tuple_probe"
proof -
  have "reads_prefix tuple_header_read"
    unfolding tuple_header_read_def by (rule reader_intros)+
  moreover have "reads_prefix (\<lambda>src. and_then (list_probe src nbytes)
      (\<lambda>(n, elems, src'). Ok (n, DataList DICEY_VARIANT_ID nitems elems, src')))" for nbytes nitems
    unfolding list_probe_def by (intro reader_intros)
  ultimately show ?thesis
    unfolding tuple_probe_def
    using reads_prefix_seq [of tuple_header_read "\<lambda>(nbytes, nitems) src.
      and_then (list_probe src nbytes)
        (\<lambda>(n, elems, src'). Ok (n, DataList DICEY_VARIANT_ID nitems elems, src'))"]
    by (auto simp: case_prod_unfold)
qed

lemma error_probe_local [reader_intros]: "reads_prefix error_probe"
  unfolding error_probe_def error_header_read_def
  by (intro reads_prefix_seq reads_prefix_map_count reader_intros)

lemma selector_from_local [reader_intros]: "reads_prefix dtf_selector_from"
  unfolding dtf_selector_from_def by (intro reader_intros)

lemma view_advance_take:
  "len \<le> view_len v \<Longrightarrow>
   and_then (dicey_view_advance v (int len))
     (\<lambda>(n, v'). Ok (n, DataBytes (case v of Some bs \<Rightarrow> take len bs | None \<Rightarrow> []), v')) =
   and_then (dicey_view_take v (int len)) (\<lambda>(k, d, v'). Ok (k, DataBytes (the d), v'))"
  by (cases v) (simp_all add: dicey_view_take_def dicey_view_advance_def view_len_def)

lemma bytes_probe_local [reader_intros]: "reads_prefix bytes_probe"
proof -
  let ?content = "\<lambda>len v. if len > view_len v then Err DICEY_EBADMSG
    else and_then (dicey_view_take v (int len)) (\<lambda>(k, d, v'). Ok (k, DataBytes (the d), v'))"
  have "bytes_probe v =
      and_then (bytes_header_read v) (\<lambda>(n, len, v'). add_read n (?content len v'))" for v
    unfolding bytes_probe_def
    by (rule and_then_cong [OF refl])
      (simp add: view_advance_take split: prod.split, simp add: add_read_def)
  then have eq: "bytes_probe =
      (\<lambda>v. and_then (bytes_header_read v) (\<lambda>(n, len, v'). add_read n (?content len v')))"
    by (rule ext)
  have content: "reads_prefix (?content len)" for len
    by (auto simp: reads_prefix_def view_len_def dicey_view_take_Ok_iff outcome_simps
        split: option.splits if_splits)
  have "reads_prefix bytes_header_read"
    unfolding bytes_header_read_def by (intro reader_intros)
  then show ?thesis
    unfolding eq by (rule reads_prefix_seq) (rule content)
qed

lemma probe_as_local [reader_intros]: "reads_prefix (dtf_value_probe_as t)"
  unfolding dtf_value_probe_as_def value_probe_dynamic_def value_probe_container_def
  by (cases t; simp add: DTF_SIZE_DYNAMIC_def c_limits DICEY_UUID_SIZE_def; intro reader_intros)

lemma probe_local: "reads_prefix dtf_value_probe"
  unfolding dtf_value_probe_def by (intro reader_intros)

end
