(* ===== verification/Dtf_Roundtrip.thy ===== *)
theory Dtf_Roundtrip
  imports Dtf_Probe
begin

text \<open>
  Reading back what was written, and what can be said of a probe of arbitrary bytes: it never
  leaves the defined behaviour, it consumes at least the type byte, and the member of the union
  it sets is the one the type selects, so that the getters are defined on probed values.
\<close>

section \<open>Probing arbitrary bytes\<close>

lemma view_read_defined [simp]: "dicey_view_read v n \<noteq> Undef" "dicey_view_read_ptr v n \<noteq> Undef"
  by (auto simp: dicey_view_read_def dicey_view_read_ptr_def dicey_view_advance_def
      split: option.splits)

lemma view_take_defined [simp]: "dicey_view_take v n \<noteq> Undef"
  by (auto simp: dicey_view_take_def dicey_view_advance_def split: option.splits)

lemma view_advance_defined [simp]: "dicey_view_advance v n \<noteq> Undef"
  by (auto simp: dicey_view_advance_def split: option.splits)

lemma view_zstring_defined [simp]: "dicey_view_as_zstring v \<noteq> Undef"
  by (auto simp: dicey_view_as_zstring_def Let_def outcome_simps split: option.splits)

lemma add_read_Undef [simp]: "add_read n r = Undef \<longleftrightarrow> r = Undef"
  by (auto simp: add_read_def outcome_simps split: option.splits)

lemma container_probe_defined [simp]:
  "array_probe v \<noteq> Undef" "pair_probe v \<noteq> Undef" "tuple_probe v \<noteq> Undef"
  by (auto simp: array_probe_def array_header_read_def pair_probe_def pair_header_read_def
      tuple_probe_def tuple_header_read_def list_probe_def Let_def outcome_simps split: if_splits)

lemma leaf_probe_defined [simp]:
  "bytes_probe v \<noteq> Undef" "error_probe v \<noteq> Undef" "dtf_selector_from v \<noteq> Undef"
  by (auto simp: bytes_probe_def bytes_header_read_def error_probe_def error_header_read_def
      dtf_selector_from_def outcome_simps split: if_splits)

lemma probe_as_defined [simp]: "dtf_value_probe_as t v \<noteq> Undef"
  unfolding dtf_value_probe_as_def value_probe_dynamic_def value_probe_container_def
  by (cases t) (auto simp: DTF_SIZE_DYNAMIC_def c_limits DICEY_UUID_SIZE_def outcome_simps)

lemma probe_defined [simp]: "dtf_value_probe v \<noteq> Undef"
  by (auto simp: dtf_value_probe_def value_header_read_def Let_def outcome_simps split: if_splits)

lemma probe_consumes:
  assumes "dtf_value_probe v = Ok (n, x, v')"
  shows "0 < n"
  using assms
  by (auto simp: dtf_value_probe_def value_header_read_def Let_def outcome_simps add_read_def
      dutl_checked_add_def dicey_view_read_ptr_def dicey_view_read_Ok_iff
      split: if_splits option.splits)

section \<open>The member the type selects\<close>

fun member_ok :: "dicey_type \<Rightarrow> dicey_data_info \<Rightarrow> bool" where
  "member_ok DICEY_TYPE_UNIT d = (d = DataNone)"
| "member_ok DICEY_TYPE_BOOL d = (\<exists>b. d = DataBoolean b)"
| "member_ok DICEY_TYPE_BYTE d = (\<exists>b. d = DataByte b)"
| "member_ok DICEY_TYPE_FLOAT d = (\<exists>f. d = DataFloating f)"
| "member_ok DICEY_TYPE_INT16 d = (\<exists>i. d = DataI16 i)"
| "member_ok DICEY_TYPE_INT32 d = (\<exists>i. d = DataI32 i)"
| "member_ok DICEY_TYPE_INT64 d = (\<exists>i. d = DataI64 i)"
| "member_ok DICEY_TYPE_UINT16 d = (\<exists>i. d = DataU16 i)"
| "member_ok DICEY_TYPE_UINT32 d = (\<exists>i. d = DataU32 i)"
| "member_ok DICEY_TYPE_UINT64 d = (\<exists>i. d = DataU64 i)"
| "member_ok DICEY_TYPE_ARRAY d = (\<exists>t n bs. d = DataList (type_id t) n (Some bs) \<and> dicey_type_is_valid t)"
| "member_ok DICEY_TYPE_TUPLE d = (\<exists>n bs. d = DataList DICEY_VARIANT_ID n (Some bs))"
| "member_ok DICEY_TYPE_PAIR d = (\<exists>bs. d = DataList DICEY_VARIANT_ID 2 (Some bs))"
| "member_ok DICEY_TYPE_BYTES d = (\<exists>bs. d = DataBytes bs)"
| "member_ok DICEY_TYPE_STR d = (\<exists>s. d = DataStr s \<and> cstring_ok s)"
| "member_ok DICEY_TYPE_UUID d = (\<exists>bs. d = DataUuid bs \<and> length bs = DICEY_UUID_SIZE)"
| "member_ok DICEY_TYPE_PATH d = (\<exists>s. d = DataStr s \<and> cstring_ok s)"
| "member_ok DICEY_TYPE_SELECTOR d =
     (\<exists>tr el. d = DataSelector \<lparr>sel_trait = Some tr, sel_elem = Some el\<rparr> \<and> cstring_ok tr \<and> cstring_ok el)"
| "member_ok DICEY_TYPE_ERROR d =
     (\<exists>c s. d = DataError c s \<and> (\<forall>m. s = Some m \<longrightarrow> m \<noteq> [] \<and> cstring_ok m))"
| "member_ok DICEY_TYPE_INVALID d = False"

definition value_ok :: "dicey_value \<Rightarrow> bool" where
  "value_ok v \<longleftrightarrow> member_ok (val_type v) (val_data v)"

lemma add_read_OkD: "add_read n r = Ok (k, x, v) \<Longrightarrow> \<exists>j. r = Ok (j, x, v) \<and> k = n + j"
  by (auto simp: add_read_def outcome_simps dutl_checked_add_def split: option.splits if_splits)

lemma list_probe_OkD: "list_probe v n = Ok (k, e, v') \<Longrightarrow> \<exists>bs. e = Some bs"
  by (auto simp: list_probe_def dicey_view_take_Ok_iff)

lemma array_probe_member: "array_probe v = Ok (n, d, v') \<Longrightarrow> member_ok DICEY_TYPE_ARRAY d"
  by (auto simp: array_probe_def array_header_read_def Let_def outcome_simps
      dest!: add_read_OkD list_probe_OkD split: if_splits)
     (metis type_id_of_id)

lemma tuple_probe_member: "tuple_probe v = Ok (n, d, v') \<Longrightarrow> member_ok DICEY_TYPE_TUPLE d"
  by (auto simp: tuple_probe_def outcome_simps dest!: add_read_OkD list_probe_OkD)

lemma pair_probe_member: "pair_probe v = Ok (n, d, v') \<Longrightarrow> member_ok DICEY_TYPE_PAIR d"
  by (auto simp: pair_probe_def outcome_simps dest!: add_read_OkD list_probe_OkD)

lemma bytes_probe_member: "bytes_probe v = Ok (n, d, v') \<Longrightarrow> member_ok DICEY_TYPE_BYTES d"
  by (auto simp: bytes_probe_def outcome_simps dest!: add_read_OkD split: if_splits)

lemma error_probe_member: "error_probe v = Ok (n, d, v') \<Longrightarrow> member_ok DICEY_TYPE_ERROR d"
  by (auto simp: error_probe_def outcome_simps dest!: add_read_OkD dicey_view_as_zstring_OkD)

lemma selector_probe_member:
  "dtf_selector_from v = Ok (n, s, v') \<Longrightarrow> member_ok DICEY_TYPE_SELECTOR (DataSelector s)"
  by (auto simp: dtf_selector_from_def outcome_simps dest!: add_read_OkD dicey_view_as_zstring_OkD)

lemmas probe_members =
  array_probe_member tuple_probe_member pair_probe_member bytes_probe_member error_probe_member
  selector_probe_member

lemma probe_as_member:
  assumes "dtf_value_probe_as t v = Ok (n, d, v')"
  shows "member_ok t d"
  using assms unfolding dtf_value_probe_as_def value_probe_dynamic_def value_probe_container_def
  by (cases t; simp add: DTF_SIZE_DYNAMIC_def c_limits DICEY_UUID_SIZE_def)
     (auto simp: outcome_simps dicey_view_read_ptr_def dicey_view_read_Ok_iff DICEY_UUID_SIZE_def
       dest!: probe_members [simplified] dicey_view_as_zstring_OkD)

lemma probe_value_ok:
  assumes "dtf_value_probe v = Ok (n, x, v')"
  shows "value_ok x"
proof -
  obtain t u j d where "dtf_value_probe_as t u = Ok (j, d, v')" "x = \<lparr>val_type = t, val_data = d\<rparr>"
    using assms by (auto simp: dtf_value_probe_def outcome_simps dest!: add_read_OkD)
  then show ?thesis
    using probe_as_member by (simp add: value_ok_def)
qed

section \<open>Reading back an encoding\<close>

text \<open>
  The arguments whose encoding determines them: writable, arrays with elements of the declared
  type, and containers whose content fits the 32-bit size field.
\<close>

fun arg_wf :: "dicey_arg \<Rightarrow> bool" where
  "arg_wf (ArgArray t es) =
     (dicey_type_is_valid t \<and> length es \<le> UINT16_MAX \<and> list_all arg_wf es \<and>
      list_all (\<lambda>e. arg_type e = t) es \<and> length (concat (map enc_content es)) \<le> UINT32_MAX)"
| "arg_wf (ArgTuple es) =
     (length es \<le> UINT16_MAX \<and> list_all arg_wf es \<and>
      length (concat (map enc_variant es)) \<le> UINT32_MAX)"
| "arg_wf (ArgPair a b) =
     (arg_wf a \<and> arg_wf b \<and> length (enc_variant a @ enc_variant b) \<le> UINT32_MAX)"
| "arg_wf a = arg_writable a"

fun data_of_arg :: "dicey_arg \<Rightarrow> dicey_data_info" where
  "data_of_arg (ArgBool b) = DataBoolean b"
| "data_of_arg (ArgByte b) = DataByte b"
| "data_of_arg (ArgFloat f) = DataFloating f"
| "data_of_arg (ArgI16 i) = DataI16 i"
| "data_of_arg (ArgI32 i) = DataI32 i"
| "data_of_arg (ArgI64 i) = DataI64 i"
| "data_of_arg (ArgU16 i) = DataU16 i"
| "data_of_arg (ArgU32 i) = DataU32 i"
| "data_of_arg (ArgU64 i) = DataU64 i"
| "data_of_arg (ArgArray t es) =
     DataList (type_id t) (length es) (Some (concat (map enc_content es)))"
| "data_of_arg (ArgTuple es) =
     DataList DICEY_VARIANT_ID (length es) (Some (concat (map enc_variant es)))"
| "data_of_arg (ArgPair a b) = DataList DICEY_VARIANT_ID 2 (Some (enc_variant a @ enc_variant b))"
| "data_of_arg (ArgBytes bs) = DataBytes (case bs of Some d \<Rightarrow> d | None \<Rightarrow> [])"
| "data_of_arg (ArgStr s) = DataStr (opt_str s)"
| "data_of_arg (ArgUuid bs) = DataUuid bs"
| "data_of_arg (ArgPath p) = DataStr p"
| "data_of_arg (ArgSelector s) = DataSelector s"
| "data_of_arg (ArgError c s) = DataError c (if opt_str s = [] then None else s)"
| "data_of_arg _ = DataNone"

definition value_of_arg :: "dicey_arg \<Rightarrow> dicey_value" where
  "value_of_arg a = \<lparr>val_type = arg_type a, val_data = data_of_arg a\<rparr>"

lemma arg_wf_writable: "arg_wf a \<Longrightarrow> arg_writable a"
  by (induction a) (auto simp: list_all_iff)

lemma arg_wf_type: "arg_wf a \<Longrightarrow> arg_type a \<noteq> DICEY_TYPE_INVALID"
  using arg_wf_writable arg_writable_type by blast

lemma word_le_dec [simp]:
  "word_of_nat (le_dec (le_enc 2 (unat w2))) = (w2 :: 16 word)"
  "word_of_nat (le_dec (le_enc 4 (unat w4))) = (w4 :: 32 word)"
  "word_of_nat (le_dec (le_enc 8 (unat w8))) = (w8 :: 64 word)"
  by (simp_all add: le_dec_enc_word)

lemma le_dec_u32 [simp]: "n \<le> UINT32_MAX \<Longrightarrow> le_dec (le_enc 4 n) = n"
  by (simp add: le_dec_enc c_limits)

lemma le_dec_u16 [simp]: "n \<le> UINT16_MAX \<Longrightarrow> le_dec (le_enc 2 n) = n"
  by (simp add: le_dec_enc c_limits)

lemma read_ptr_append [view_simps]:
  "length h = n \<Longrightarrow> n \<le> PTRDIFF_MAX \<Longrightarrow>
     dicey_view_read_ptr (Some (h @ rest)) n = Ok (n, h, Some rest)"
  by (simp add: dicey_view_read_ptr_def dicey_view_read_append)

lemma add_read_Ok [view_simps]:
  "n + k \<le> PTRDIFF_MAX \<Longrightarrow> add_read n (Ok (k, x, v)) = Ok (n + k, x, v)"
  by (simp add: add_read_def dutl_checked_add_def)

lemma list_probe_append [view_simps]:
  "list_probe (Some (c @ rest)) (length c) = Ok (length c, Some c, Some rest)"
  by (simp add: list_probe_def dicey_view_take_append)

lemma u32_ptrdiff: "n \<le> UINT32_MAX \<Longrightarrow> k \<le> 16 \<Longrightarrow> k + n \<le> PTRDIFF_MAX"
  by (simp add: c_limits)

lemma array_probe_enc [view_simps]:
  assumes "n \<le> UINT16_MAX" and "dicey_type_is_valid t" and "length c \<le> UINT32_MAX"
  shows "array_probe (Some (le_enc 4 (length c) @ le_enc 2 n @ type_id t # c @ rest)) =
    Ok (7 + length c, DataList (type_id t) n (Some c), Some rest)"
proof -
  let ?h = "le_enc 4 (length c) @ le_enc 2 n @ [type_id t]"
  have "dicey_view_read_ptr (Some (?h @ c @ rest)) 7 = Ok (7, ?h, Some (c @ rest))"
    by (rule read_ptr_append) (simp_all add: c_limits)
  moreover have "?h ! 6 = type_id t"
    using nth_append_length [of "le_enc 4 (length c) @ le_enc 2 n" "type_id t" "[]"] by simp
  ultimately show ?thesis
    using assms u32_ptrdiff [OF assms(3), of 7]
    by (simp add: array_probe_def array_header_read_def list_probe_append add_read_Ok)
qed

lemma tuple_probe_enc [view_simps]:
  assumes "n \<le> UINT16_MAX" and "length c \<le> UINT32_MAX"
  shows "tuple_probe (Some (le_enc 4 (length c) @ le_enc 2 n @ c @ rest)) =
    Ok (6 + length c, DataList DICEY_VARIANT_ID n (Some c), Some rest)"
proof -
  let ?h = "le_enc 4 (length c) @ le_enc 2 n"
  have "dicey_view_read_ptr (Some (?h @ c @ rest)) 6 = Ok (6, ?h, Some (c @ rest))"
    by (rule read_ptr_append) (simp_all add: c_limits)
  then show ?thesis
    using assms u32_ptrdiff [OF assms(2), of 6]
    by (simp add: tuple_probe_def tuple_header_read_def list_probe_append add_read_Ok)
qed

lemma pair_probe_enc [view_simps]:
  assumes "length c \<le> UINT32_MAX"
  shows "pair_probe (Some (le_enc 4 (length c) @ c @ rest)) =
    Ok (4 + length c, DataList DICEY_VARIANT_ID 2 (Some c), Some rest)"
  using assms u32_ptrdiff [OF assms, of 4]
  by (simp add: pair_probe_def pair_header_read_def list_probe_append add_read_Ok read_ptr_append
      c_limits)

lemma pair_probe_enc2 [view_simps]:
  "length a + length b \<le> UINT32_MAX \<Longrightarrow>
   pair_probe (Some (le_enc 4 (length a + length b) @ a @ b @ rest)) =
    Ok (4 + (length a + length b), DataList DICEY_VARIANT_ID 2 (Some (a @ b)), Some rest)"
  using pair_probe_enc [of "a @ b" rest] by simp

lemma length_zstring [simp]: "length (zstring s) = Suc (length s)"
  by (simp add: zstring_def)

lemma bytes_probe_enc [view_simps]:
  assumes "length d \<le> UINT32_MAX"
  shows "bytes_probe (Some (le_enc 4 (length d) @ d @ rest)) =
    Ok (4 + length d, DataBytes d, Some rest)"
  using assms u32_ptrdiff [OF assms, of 4]
  by (simp add: bytes_probe_def bytes_header_read_def add_read_Ok read_ptr_append
      dicey_view_advance_def view_len_def c_limits)

lemma zstring_read [view_simps]:
  assumes "str_ok s"
  shows "dicey_view_as_zstring (Some (zstring s @ rest)) = Ok (length s + 1, s, Some rest)"
proof -
  have "length s < PTRDIFF_MAX"
    using assms by (simp add: str_ok_def c_limits)
  then show ?thesis
    using assms dicey_view_as_zstring_append [of s rest] by (simp add: zstring_def str_ok_def)
qed

lemma error_probe_enc [view_simps]:
  assumes "str_ok (opt_str s)"
  shows "error_probe (Some (le_enc 2 (unat c) @ zstring (opt_str s) @ rest)) =
    Ok (3 + length (opt_str s), DataError c (if opt_str s = [] then None else s), Some rest)"
  using assms
  by (auto simp: error_probe_def error_header_read_def read_ptr_append zstring_read add_read_Ok
      c_limits str_ok_def opt_str_def split: option.splits)

lemma selector_enc [view_simps]:
  assumes "dicey_selector_is_valid s" "str_ok (opt_str (sel_trait s))" "str_ok (opt_str (sel_elem s))"
  shows "dtf_selector_from
      (Some (zstring (opt_str (sel_trait s)) @ zstring (opt_str (sel_elem s)) @ rest)) =
    Ok (length (opt_str (sel_trait s)) + length (opt_str (sel_elem s)) + 2, s, Some rest)"
  using assms
  by (cases s) (auto simp: dtf_selector_from_def zstring_read add_read_Ok
      c_limits str_ok_def opt_str_def dicey_selector_is_valid_def)

lemma type_of_fixed_read:
  "dtf_value_probe_as t (Some (bs @ rest)) = Ok (length bs, fixed_data t bs, Some rest)"
  if "type_size t = Ok (length bs)" "length bs \<le> 16"
proof -
  have "t \<noteq> DICEY_TYPE_INVALID"
    using that by auto
  moreover have "length bs \<noteq> DTF_SIZE_DYNAMIC" "length bs \<le> PTRDIFF_MAX"
    using that(2) by (auto simp: DTF_SIZE_DYNAMIC_def c_limits)
  ultimately show ?thesis
    using that by (simp add: dtf_value_probe_as_def read_ptr_append)
qed

lemma probe_as_enc:
  assumes "arg_wf a"
  shows "dtf_value_probe_as (arg_type a) (Some (enc_content a @ rest)) =
    Ok (length (enc_content a), data_of_arg a, Some rest)"
proof (cases "type_size (arg_type a) = Ok DTF_SIZE_DYNAMIC")
  case True
  then show ?thesis
    using assms
    by (cases a) (auto simp: dtf_value_probe_as_def value_probe_dynamic_def Let_def
        value_probe_container_def view_simps zstring_def [symmetric] enc_variant_def [symmetric]
        view_len_def DTF_SIZE_DYNAMIC_def PTRDIFF_MAX_def DICEY_UUID_SIZE_def)
next
  case False
  have "type_size (arg_type a) = Ok (length (enc_content a))" "length (enc_content a) \<le> 16"
    "fixed_data (arg_type a) (enc_content a) = data_of_arg a"
    using assms False by (cases a; simp add: DICEY_UUID_SIZE_def)+
  then show ?thesis
    using type_of_fixed_read by metis
qed

lemma probe_enc:
  assumes "arg_wf a" and "length (enc_variant a) \<le> PTRDIFF_MAX"
  shows "dtf_value_probe (Some (enc_variant a @ rest)) =
    Ok (length (enc_variant a), value_of_arg a, Some rest)"
proof -
  have "dicey_view_read_ptr (Some ([type_id (arg_type a)] @ enc_content a @ rest)) 1 =
      Ok (1, [type_id (arg_type a)], Some (enc_content a @ rest))"
    by (rule read_ptr_append) (simp_all add: c_limits)
  then show ?thesis
    using assms probe_as_enc [OF assms(1)] arg_wf_type [OF assms(1)]
    by (simp add: dtf_value_probe_def value_header_read_def enc_variant_def value_of_arg_def
        add_read_Ok)
qed

section \<open>Iterating over the elements of a list\<close>

text \<open>\<open>iterates it vs\<close>: the loop \<open>while (has_next) next\<close> from \<open>it\<close> succeeds and yields \<open>vs\<close>.\<close>

inductive iterates :: "dicey_iterator \<Rightarrow> dicey_value list \<Rightarrow> bool" where
  iterates_done: "\<not> dicey_iterator_has_next it \<Longrightarrow> iterates it []"
| iterates_step: "dicey_iterator_has_next it \<Longrightarrow> dicey_iterator_next it = Ok (v, it') \<Longrightarrow>
    iterates it' vs \<Longrightarrow> iterates it (v # vs)"

inductive_cases iterates_NilE: "iterates it []"
inductive_cases iterates_ConsE: "iterates it (v # vs)"

lemma iterates_unique: "iterates it vs \<Longrightarrow> iterates it ws \<Longrightarrow> vs = ws"
proof (induction arbitrary: ws rule: iterates.induct)
  case (iterates_done it)
  from iterates_done(2,1) show ?case
    by cases auto
next
  case (iterates_step it v it' vs)
  note step = iterates_step.hyps(1,2) and IH = iterates_step.IH
  from iterates_step.prems show ?case
  proof cases
    case iterates_done
    with step show ?thesis by simp
  next
    case (iterates_step w it'' ws')
    with step have "w = v" "iterates it' ws'" by simp_all
    with IH iterates_step show ?thesis by simp
  qed
qed

definition elem_bytes :: "byte \<Rightarrow> dicey_arg \<Rightarrow> byte list" where
  "elem_bytes t e = (if t = DICEY_VARIANT_ID then enc_variant e else enc_content e)"

lemma elem_bytes_simps [simp]:
  "elem_bytes DICEY_VARIANT_ID = enc_variant" "elem_bytes (type_id t) = enc_content"
  by (auto simp: elem_bytes_def)

lemma iterator_next_enc:
  assumes "arg_wf e" and "t = DICEY_VARIANT_ID \<or> t = type_id (arg_type e)"
    and "elem_bytes t e \<noteq> []" and "length (elem_bytes t e) \<le> PTRDIFF_MAX"
  shows "dicey_iterator_next \<lparr>it_type = t, it_data = Some (elem_bytes t e @ rest)\<rparr> =
    Ok (value_of_arg e, \<lparr>it_type = t, it_data = Some rest\<rparr>)"
  using assms probe_enc [OF assms(1)] probe_as_enc [OF assms(1)]
  by (auto simp: dicey_iterator_next_def dicey_iterator_has_next_def view_len_def elem_bytes_def
      value_of_arg_def)

lemma iterates_enc:
  assumes "list_all arg_wf es"
    and "\<And>e. e \<in> set es \<Longrightarrow> t = DICEY_VARIANT_ID \<or> t = type_id (arg_type e)"
    and "\<And>e. e \<in> set es \<Longrightarrow> elem_bytes t e \<noteq> []"
    and "length (concat (map (elem_bytes t) es)) \<le> PTRDIFF_MAX"
  shows "iterates \<lparr>it_type = t, it_data = Some (concat (map (elem_bytes t) es))\<rparr>
    (map value_of_arg es)"
  using assms
proof (induction es)
  case Nil
  then show ?case
    by (simp add: iterates_done dicey_iterator_has_next_def view_len_def)
next
  case (Cons e es)
  then have "dicey_iterator_next \<lparr>it_type = t, it_data = Some (concat (map (elem_bytes t) (e # es)))\<rparr>
      = Ok (value_of_arg e, \<lparr>it_type = t, it_data = Some (concat (map (elem_bytes t) es))\<rparr>)"
    using iterator_next_enc [of e t "concat (map (elem_bytes t) es)"] by simp
  moreover have "iterates \<lparr>it_type = t, it_data = Some (concat (map (elem_bytes t) es))\<rparr>
      (map value_of_arg es)"
    using Cons by simp
  ultimately show ?case
    using Cons.prems(3) [of e]
    by (auto intro!: iterates_step simp: dicey_iterator_has_next_def view_len_def)
qed

lemma enc_content_empty_iff:
  "arg_wf a \<Longrightarrow> enc_content a = [] \<longleftrightarrow> a = ArgUnit"
proof -
  have "le_enc n k = [] \<longleftrightarrow> n = 0" for n k
    using length_le_enc [of n k] by (metis length_0_conv)
  then show "arg_wf a \<Longrightarrow> ?thesis"
    by (cases a) (auto simp: Let_def zstring_def DICEY_UUID_SIZE_def)
qed

lemma get_pair_enc:
  assumes "arg_wf (ArgPair a b)"
  shows "dicey_value_get_pair (value_of_arg (ArgPair a b)) = Ok (value_of_arg a, value_of_arg b)"
proof -
  have len: "length (enc_variant a) \<le> PTRDIFF_MAX" "length (enc_variant b) \<le> PTRDIFF_MAX"
    using assms by (auto simp: c_limits)
  have "dicey_iterator_next
      \<lparr>it_type = DICEY_VARIANT_ID, it_data = Some (enc_variant a @ enc_variant b)\<rparr> =
      Ok (value_of_arg a, \<lparr>it_type = DICEY_VARIANT_ID, it_data = Some (enc_variant b @ [])\<rparr>)"
    using iterator_next_enc [of a DICEY_VARIANT_ID "enc_variant b"] assms len
    by (simp add: elem_bytes_def enc_variant_def)
  moreover have "dicey_iterator_next
      \<lparr>it_type = DICEY_VARIANT_ID, it_data = Some (enc_variant b @ [])\<rparr> =
      Ok (value_of_arg b, \<lparr>it_type = DICEY_VARIANT_ID, it_data = Some []\<rparr>)"
    using iterator_next_enc [of b DICEY_VARIANT_ID "[]"] assms len
    by (simp add: elem_bytes_def enc_variant_def)
  ultimately show ?thesis
    by (simp add: value_of_arg_def dicey_value_get_pair_def dicey_list_iter_def as_bad_msg_def)
qed

lemma get_list_enc:
  "dicey_value_get_list (value_of_arg (ArgArray t es)) =
     Ok \<lparr>it_type = type_id t, it_data = Some (concat (map (elem_bytes (type_id t)) es))\<rparr>"
  "dicey_value_get_list (value_of_arg (ArgTuple es)) =
     Ok \<lparr>it_type = DICEY_VARIANT_ID, it_data = Some (concat (map (elem_bytes DICEY_VARIANT_ID) es))\<rparr>"
  by (simp_all add: dicey_value_get_list_def value_of_arg_def)

section \<open>The getters on probed values\<close>

lemmas getter_defs =
  dicey_value_get_bool_def dicey_value_get_byte_def
  dicey_value_get_bytes_def dicey_value_get_error_def dicey_value_get_float_def
  dicey_value_get_i16_def dicey_value_get_i32_def dicey_value_get_i64_def dicey_value_get_u16_def
  dicey_value_get_u32_def dicey_value_get_u64_def dicey_value_get_path_def dicey_value_get_str_def
  dicey_value_get_selector_def dicey_value_get_uuid_def

lemma iterator_next_defined [simp]: "dicey_iterator_next it \<noteq> Undef"
  by (auto simp: dicey_iterator_next_def outcome_simps split: if_splits)

lemma iterator_next_value_ok:
  assumes "dicey_iterator_next it = Ok (v, it')"
  shows "value_ok v"
proof -
  consider n view where "dtf_value_probe (it_data it) = Ok (n, v, view)"
    | t n data view where "dtf_value_probe_as t (it_data it) = Ok (n, data, view)"
      "v = \<lparr>val_type = t, val_data = data\<rparr>"
    using assms by (auto simp: dicey_iterator_next_def outcome_simps split: if_splits)
  then show ?thesis
  proof cases
    case 1
    then show ?thesis by (rule probe_value_ok)
  next
    case 2
    then show ?thesis using probe_as_member by (simp add: value_ok_def)
  qed
qed

lemma get_trivial_Undef:
  "dicey_value_get_trivial t field v = Undef \<longleftrightarrow> val_type v = t \<and> field (val_data v) = None"
  by (auto simp: dicey_value_get_trivial_def split: option.splits)

lemma scalar_getters_defined:
  assumes "value_ok v"
  shows "dicey_value_get_bool v \<noteq> Undef" "dicey_value_get_byte v \<noteq> Undef"
    "dicey_value_get_float v \<noteq> Undef" "dicey_value_get_i16 v \<noteq> Undef"
    "dicey_value_get_i32 v \<noteq> Undef" "dicey_value_get_i64 v \<noteq> Undef"
    "dicey_value_get_u16 v \<noteq> Undef" "dicey_value_get_u32 v \<noteq> Undef"
    "dicey_value_get_u64 v \<noteq> Undef"
  using assms by (auto simp: value_ok_def getter_defs get_trivial_Undef)

lemma other_getters_defined:
  assumes "value_ok v"
  shows "dicey_value_get_bytes v \<noteq> Undef" "dicey_value_get_str v \<noteq> Undef"
    "dicey_value_get_path v \<noteq> Undef" "dicey_value_get_selector v \<noteq> Undef"
    "dicey_value_get_uuid v \<noteq> Undef" "dicey_value_get_error v \<noteq> Undef"
  using assms by (auto simp: value_ok_def getter_defs get_trivial_Undef)

lemma get_list_defined:
  assumes "value_ok v"
  shows "dicey_value_get_list v \<noteq> Undef" "dicey_value_get_array v \<noteq> Undef"
    "dicey_value_get_tuple v \<noteq> Undef"
  using assms
  by (auto simp: value_ok_def dicey_value_get_list_def dicey_value_get_array_def
      dicey_value_get_tuple_def)

lemma as_bad_msg_Undef [simp]: "as_bad_msg r = Undef \<longleftrightarrow> r = Undef"
  by (cases r) (simp_all add: as_bad_msg_def)

lemma get_pair_defined: "value_ok v \<Longrightarrow> dicey_value_get_pair v \<noteq> Undef"
  by (auto simp: value_ok_def dicey_value_get_pair_def Let_def outcome_simps)

end
