(* ===== verification/Dtf_Payload.thy ===== *)
theory Dtf_Payload
  imports Dtf_Roundtrip
begin

text \<open>
  Payloads: \<^verbatim>\<open>src/wirefmt/dtf/payload.c\<close>, \<^verbatim>\<open>src/wirefmt/dtf/payload.h\<close> and the headers of
  \<^verbatim>\<open>src/wirefmt/dtf/to.h\<close>.

  A payload is the contents of the allocation it lives in.  Reading a header member that lies
  outside of it is undefined, and so is forming a view that reaches past its end.  Sequence
  numbers, versions and reasons are 32-bit words.
\<close>

section \<open>Kinds\<close>

datatype dtf_payload_kind =
  DTF_PAYLOAD_INVALID
| DTF_PAYLOAD_HELLO
| DTF_PAYLOAD_BYE
| DTF_PAYLOAD_GET
| DTF_PAYLOAD_SET
| DTF_PAYLOAD_EXEC
| DTF_PAYLOAD_EVENT
| DTF_PAYLOAD_RESPONSE

text \<open>The numbers of the enumerators; the operations are the characters \<open>< > ? ! :\<close>.\<close>

fun kind_id :: "dtf_payload_kind \<Rightarrow> nat" where
  "kind_id DTF_PAYLOAD_INVALID = 0"
| "kind_id DTF_PAYLOAD_HELLO = 1"
| "kind_id DTF_PAYLOAD_BYE = 2"
| "kind_id DTF_PAYLOAD_GET = 60"
| "kind_id DTF_PAYLOAD_SET = 62"
| "kind_id DTF_PAYLOAD_EXEC = 63"
| "kind_id DTF_PAYLOAD_EVENT = 33"
| "kind_id DTF_PAYLOAD_RESPONSE = 58"

text \<open>A number that no enumerator has is treated as \<open>DTF_PAYLOAD_INVALID\<close> by every switch.\<close>

definition kind_of_id :: "nat \<Rightarrow> dtf_payload_kind" where
  "kind_of_id n =
     (if n = 1 then DTF_PAYLOAD_HELLO
      else if n = 2 then DTF_PAYLOAD_BYE
      else if n = 60 then DTF_PAYLOAD_GET
      else if n = 62 then DTF_PAYLOAD_SET
      else if n = 63 then DTF_PAYLOAD_EXEC
      else if n = 33 then DTF_PAYLOAD_EVENT
      else if n = 58 then DTF_PAYLOAD_RESPONSE
      else DTF_PAYLOAD_INVALID)"

definition is_kind_invalid :: "dtf_payload_kind \<Rightarrow> bool" where
  "is_kind_invalid kind = (case kind of DTF_PAYLOAD_INVALID \<Rightarrow> True | _ \<Rightarrow> False)"

definition is_message :: "dtf_payload_kind \<Rightarrow> bool" where
  "is_message kind =
     (case kind of
        DTF_PAYLOAD_GET \<Rightarrow> True
      | DTF_PAYLOAD_SET \<Rightarrow> True
      | DTF_PAYLOAD_EXEC \<Rightarrow> True
      | DTF_PAYLOAD_EVENT \<Rightarrow> True
      | DTF_PAYLOAD_RESPONSE \<Rightarrow> True
      | _ \<Rightarrow> False)"

definition dtf_payload_kind_is_message :: "dtf_payload_kind \<Rightarrow> bool" where
  "dtf_payload_kind_is_message kind = is_message kind"

definition payload_kind_is_valid :: "dtf_payload_kind \<Rightarrow> bool" where
  "payload_kind_is_valid kind = (case kind of DTF_PAYLOAD_INVALID \<Rightarrow> False | _ \<Rightarrow> True)"

definition message_fixed_size :: "dtf_payload_kind \<Rightarrow> nat result" where
  "message_fixed_size kind =
     (case kind of
        DTF_PAYLOAD_INVALID \<Rightarrow> Err DICEY_EBADMSG
      | DTF_PAYLOAD_HELLO \<Rightarrow> Ok 12
      | DTF_PAYLOAD_BYE \<Rightarrow> Ok 12
      | _ \<Rightarrow> Ok 12)"

section \<open>Headers\<close>

record dtf_payload_head =
  head_kind :: nat
  head_seq :: "32 word"

record dtf_message_head = dtf_payload_head +
  head_data_len :: nat

definition payload_header_read :: "dicey_view \<Rightarrow> dtf_payload_head probed" where
  "payload_header_read src =
     and_then (dicey_view_read_ptr src 8) (\<lambda>(n, h, src').
       Ok (n, \<lparr>head_kind = le_dec (take 4 h), head_seq = word_of_nat (le_dec (drop 4 h))\<rparr>, src'))"

definition message_header_read :: "dicey_view \<Rightarrow> dtf_message_head probed" where
  "message_header_read src =
     and_then (dicey_view_read_ptr src 12) (\<lambda>(n, h, src').
       Ok (n, \<lparr>head_kind = le_dec (take 4 h), head_seq = word_of_nat (le_dec (take 4 (drop 4 h))),
               head_data_len = le_dec (drop 8 h)\<rparr>, src'))"

definition message_header :: "dtf_payload_kind \<Rightarrow> 32 word \<Rightarrow> nat \<Rightarrow> byte list" where
  "message_header kind seq trailer_size =
     le_enc 4 (kind_id kind) @ le_enc 4 (unat seq) @ le_enc 4 trailer_size"

definition message_header_write ::
  "mem \<Rightarrow> dicey_view_mut \<Rightarrow> dtf_payload_kind \<Rightarrow> 32 word \<Rightarrow> nat \<Rightarrow> dicey_view_mut written"
where
  "message_header_write m dest kind seq trailer_size =
     dicey_view_mut_write_ptr m dest (Some (message_header kind seq trailer_size))"

definition trailer_read_size :: "dicey_view \<Rightarrow> dtf_payload_kind \<Rightarrow> nat result" where
  "trailer_read_size src kind =
     (if is_message kind
      then and_then (message_header_read src) (\<lambda>(_, head, _). Ok (head_data_len head))
      else Ok 0)"

section \<open>Greetings and farewells\<close>

record dtf_result =
  res_result :: nat
  res_size :: nat
  res_data :: "nat option"

text \<open>The view has advanced past the bytes written when its position is returned.\<close>

definition dtf_head_write ::
  "dtf_payload_kind \<Rightarrow> (nat \<Rightarrow> bool) \<Rightarrow> mem \<Rightarrow> dicey_view_mut \<Rightarrow> 32 word \<Rightarrow> 32 word
     \<Rightarrow> (dtf_result \<times> mem) result"
where
  "dtf_head_write kind alloc m dest seq field =
     and_then (dicey_view_mut_ensure_cap alloc m dest 12) (\<lambda>(_, m', dest').
       case dicey_view_mut_write_ptr m' dest' (Some (message_header kind seq (unat field))) of
         Ok (_, m'', dest'') \<Rightarrow>
           Ok (\<lparr>res_result = 0, res_size = 12, res_data = vm_data dest''\<rparr>, m'')
       | _ \<Rightarrow> Undef)"

definition dtf_bye_write ::
  "(nat \<Rightarrow> bool) \<Rightarrow> mem \<Rightarrow> dicey_view_mut \<Rightarrow> 32 word \<Rightarrow> 32 word \<Rightarrow> (dtf_result \<times> mem) result"
where
  "dtf_bye_write = dtf_head_write DTF_PAYLOAD_BYE"

definition dtf_hello_write ::
  "(nat \<Rightarrow> bool) \<Rightarrow> mem \<Rightarrow> dicey_view_mut \<Rightarrow> 32 word \<Rightarrow> 32 word \<Rightarrow> (dtf_result \<times> mem) result"
where
  "dtf_hello_write = dtf_head_write DTF_PAYLOAD_HELLO"

section \<open>Messages\<close>

text \<open>\<open>dutl_checked_add\<close> into a \<open>uint32_t\<close>.\<close>

definition checked_add_u32 :: "nat \<Rightarrow> nat \<Rightarrow> nat option" where
  "checked_add_u32 a b = (if a + b \<le> UINT32_MAX then Some (a + b) else None)"

fun sum_sizes :: "nat \<Rightarrow> nat result list \<Rightarrow> nat result" where
  "sum_sizes total_size [] = Ok total_size"
| "sum_sizes total_size (sz # sizes) =
     and_then sz (\<lambda>n.
       case checked_add_u32 total_size (n mod (UINT32_MAX + 1)) of
         None \<Rightarrow> Err DICEY_EOVERFLOW
       | Some s \<Rightarrow> sum_sizes s sizes)"

definition dtf_message_estimate_header_size ::
  "dtf_payload_kind \<Rightarrow> cstring \<Rightarrow> dicey_selector \<Rightarrow> nat result"
where
  "dtf_message_estimate_header_size kind path selector =
     (if \<not> is_message kind \<or> sel_trait selector = None \<or> sel_elem selector = None
      then Err DICEY_EINVAL
      else and_then (message_fixed_size kind) (\<lambda>fixed.
        sum_sizes fixed [dutl_zstring_size path, dicey_selector_size selector]))"

definition dtf_message_estimate_size ::
  "dtf_payload_kind \<Rightarrow> cstring \<Rightarrow> dicey_selector \<Rightarrow> dicey_arg option \<Rightarrow> nat result"
where
  "dtf_message_estimate_size kind path selector arg =
     (if (kind \<noteq> DTF_PAYLOAD_GET) \<noteq> (arg \<noteq> None) then Err DICEY_EBADMSG
      else and_then (dtf_message_estimate_header_size kind path selector) (\<lambda>size.
           and_then (case arg of Some a \<Rightarrow> dtf_value_estimate_size a | None \<Rightarrow> Ok 0) (\<lambda>value_size.
             case dutl_checked_add size value_size of
               None \<Rightarrow> Err DICEY_EOVERFLOW
             | Some n \<Rightarrow> if n > UINT32_MAX then Err DICEY_EOVERFLOW else Ok n)))"

text \<open>The parts of \<open>dtf_message_write\<close> before the value, shared with the raw variant.\<close>

definition write_path_and_selector ::
  "mem \<Rightarrow> dicey_view_mut \<Rightarrow> dtf_payload_kind \<Rightarrow> 32 word \<Rightarrow> nat \<Rightarrow> cstring \<Rightarrow> dicey_selector
     \<Rightarrow> (mem \<times> dicey_view_mut) result"
where
  "write_path_and_selector m dest kind seq trailer_size path selector =
     and_then (message_header_write m dest kind seq trailer_size) (\<lambda>(_, m1, dest1).
     and_then (dicey_view_mut_write_zstring m1 dest1 path) (\<lambda>(_, m2, dest2).
       dtf_selector_write m2 dest2 selector))"

text \<open>\<open>(uint32_t) needed_len - (uint32_t) sizeof(struct dtf_message_head)\<close>\<close>

definition trailer_size_of :: "nat \<Rightarrow> nat" where
  "trailer_size_of needed_len = (needed_len mod 2 ^ 32 + 2 ^ 32 - 12) mod 2 ^ 32"

definition dtf_message_write ::
  "(nat \<Rightarrow> bool) \<Rightarrow> mem \<Rightarrow> dicey_view_mut \<Rightarrow> dtf_payload_kind \<Rightarrow> 32 word \<Rightarrow> cstring
     \<Rightarrow> dicey_selector \<Rightarrow> dicey_arg option \<Rightarrow> (dtf_result \<times> mem) result"
where
  "dtf_message_write alloc m dest kind seq path selector arg =
     (if dutl_zstring_size path = Err DICEY_EOVERFLOW then Err DICEY_EPATH_TOO_LONG
      else
        and_then (dtf_message_estimate_size kind path selector arg) (\<lambda>needed_len.
        and_then (dicey_view_mut_ensure_cap alloc m dest needed_len) (\<lambda>(alloc_res, m0, dest0).
        and_then (write_path_and_selector m0 dest0 kind seq (trailer_size_of needed_len) path selector)
          (\<lambda>(m1, dest1).
        and_then (case arg of
                    Some a \<Rightarrow> and_then (dtf_value_write alloc m1 dest1 a) (\<lambda>(_, m2). Ok m2)
                  | None \<Rightarrow> Ok m1)
          (\<lambda>m2. Ok (\<lparr>res_result = alloc_res, res_size = needed_len, res_data = vm_data dest0\<rparr>, m2))))))"

definition dtf_message_write_with_raw_value ::
  "(nat \<Rightarrow> bool) \<Rightarrow> mem \<Rightarrow> dicey_view_mut \<Rightarrow> dtf_payload_kind \<Rightarrow> 32 word \<Rightarrow> cstring
     \<Rightarrow> dicey_selector \<Rightarrow> dicey_view \<Rightarrow> (dtf_result \<times> mem) result"
where
  "dtf_message_write_with_raw_value alloc m dest kind seq path selector raw =
     (if dutl_zstring_size path = Err DICEY_EOVERFLOW then Err DICEY_EPATH_TOO_LONG
      else if view_len raw > PTRDIFF_MAX then Err DICEY_EOVERFLOW
      else
        and_then (dtf_message_estimate_header_size kind path selector) (\<lambda>header_size.
        case dutl_checked_add header_size (view_len raw) of
          None \<Rightarrow> Err DICEY_EOVERFLOW
        | Some needed_len \<Rightarrow>
            and_then (dicey_view_mut_ensure_cap alloc m dest needed_len) (\<lambda>(alloc_res, m0, dest0).
            and_then
              (write_path_and_selector m0 dest0 kind seq (trailer_size_of needed_len) path selector)
              (\<lambda>(m1, dest1).
            and_then (dicey_view_mut_write m1 dest1 raw) (\<lambda>(_, m2, _).
              Ok (\<lparr>res_result = alloc_res, res_size = needed_len, res_data = vm_data dest0\<rparr>, m2))))))"

record dtf_message_content =
  content_path :: cstring
  content_selector :: dicey_selector
  content_value :: dicey_view

text \<open>\<open>msg->head.data_len\<close>\<close>

definition message_get_trailer_size :: "byte list \<Rightarrow> nat result" where
  "message_get_trailer_size msg =
     (if length msg < 12 then Undef else Ok (le_dec (take 4 (drop 8 msg))))"

definition dtf_message_get_content :: "byte list \<Rightarrow> nat \<Rightarrow> dtf_message_content result" where
  "dtf_message_get_content msg alloc_size =
     (if alloc_size \<le> 12 then Err DICEY_EOVERFLOW
      else
        and_then (message_get_trailer_size msg) (\<lambda>trailer_size.
        if alloc_size < trailer_size then Err DICEY_EOVERFLOW
        else if length msg < 12 + trailer_size then Undef
        else
          and_then (dicey_view_as_zstring (Some (take trailer_size (drop 12 msg))))
            (\<lambda>(path_len, path, cursor).
          and_then (dtf_selector_from cursor) (\<lambda>(selector_len, selector, cursor').
            Ok \<lparr>content_path = path, content_selector = selector,
                content_value = (if view_len cursor' > 0 then cursor' else None)\<rparr>))))"

section \<open>Payloads\<close>

definition dtf_payload_get_kind :: "byte list \<Rightarrow> dtf_payload_kind result" where
  "dtf_payload_get_kind payload =
     (if length payload < 8 then Undef
      else let kind = kind_of_id (le_dec (take 4 payload)) in
           Ok (if is_kind_invalid kind then DTF_PAYLOAD_INVALID else kind))"

definition dtf_payload_get_seq :: "byte list \<Rightarrow> 32 word result" where
  "dtf_payload_get_seq payload =
     (if length payload < 8 then Undef else Ok (word_of_nat (le_dec (take 4 (drop 4 payload)))))"

definition dtf_payload_set_seq :: "byte list \<Rightarrow> 32 word \<Rightarrow> byte list result" where
  "dtf_payload_set_seq payload seq =
     and_then (dicey_view_mut_write_ptr payload \<lparr>vm_data = Some 4, vm_len = 4\<rparr>
                 (Some (le_enc 4 (unat seq))))
       (\<lambda>(_, payload', _). Ok payload')"

text \<open>Loading copies one payload out of the source and advances it.\<close>

definition dtf_payload_load :: "(nat \<Rightarrow> bool) \<Rightarrow> dicey_view \<Rightarrow> (byte list \<times> dicey_view) result" where
  "dtf_payload_load alloc src =
     (case src of
        None \<Rightarrow> Err DICEY_EAGAIN
      | Some bs \<Rightarrow>
          if length bs < 8 then Err DICEY_EAGAIN
          else
            and_then (payload_header_read (Some (take 8 bs))) (\<lambda>(_, head, _).
            let kind = kind_of_id (head_kind head) in
            case message_fixed_size kind of
              Ok needed_len \<Rightarrow>
                if needed_len > length bs then Err DICEY_EAGAIN
                else
                  and_then (trailer_read_size src kind) (\<lambda>trailer_size.
                  if \<not> payload_kind_is_valid kind then Err DICEY_EBADMSG
                  else case dutl_checked_add needed_len trailer_size of
                    None \<Rightarrow> Err DICEY_EOVERFLOW
                  | Some total_len \<Rightarrow>
                      if total_len > length bs then Err DICEY_EAGAIN
                      else if \<not> alloc total_len then Err DICEY_ENOMEM
                      else and_then (dicey_view_read_ptr src total_len)
                             (\<lambda>(_, data, remainder). Ok (data, remainder)))
            | _ \<Rightarrow> Err DICEY_EBADMSG))"

section \<open>Reference encoding of messages\<close>

definition selector_bytes :: "dicey_selector \<Rightarrow> byte list" where
  "selector_bytes sel = zstring (opt_str (sel_trait sel)) @ zstring (opt_str (sel_elem sel))"

definition message_trailer :: "cstring \<Rightarrow> dicey_selector \<Rightarrow> byte list \<Rightarrow> byte list" where
  "message_trailer path sel body = zstring path @ selector_bytes sel @ body"

definition enc_message ::
  "dtf_payload_kind \<Rightarrow> 32 word \<Rightarrow> cstring \<Rightarrow> dicey_selector \<Rightarrow> byte list \<Rightarrow> byte list"
where
  "enc_message kind seq path sel body =
     message_header kind seq (length (message_trailer path sel body)) @ message_trailer path sel body"

definition selector_ok :: "dicey_selector \<Rightarrow> bool" where
  "selector_ok sel \<longleftrightarrow> dicey_selector_is_valid sel \<and>
     str_ok (opt_str (sel_trait sel)) \<and> str_ok (opt_str (sel_elem sel))"

definition address_ok :: "cstring \<Rightarrow> dicey_selector \<Rightarrow> nat \<Rightarrow> bool" where
  "address_ok path sel n \<longleftrightarrow> str_ok path \<and> selector_ok sel \<and>
     12 + length (zstring path) + length (selector_bytes sel) + n \<le> UINT32_MAX"

definition body_of :: "dicey_arg option \<Rightarrow> byte list" where
  "body_of arg = (case arg of Some a \<Rightarrow> enc_variant a | None \<Rightarrow> [])"

lemma kind_of_id_id [simp]: "kind_of_id (kind_id k) = k"
  by (cases k) (simp_all add: kind_of_id_def)

lemma kind_id_bound [simp]: "kind_id k \<le> UINT32_MAX"
  by (cases k) (simp_all add: c_limits)

lemma length_message_header [simp]: "length (message_header kind seq n) = 12"
  by (simp add: message_header_def)

lemma length_enc_message:
  "length (enc_message kind seq path sel body) =
     12 + length (zstring path) + length (selector_bytes sel) + length body"
  by (simp add: enc_message_def message_trailer_def)

lemma selector_okE:
  assumes "selector_ok sel"
  obtains tr el where "sel = \<lparr>sel_trait = Some tr, sel_elem = Some el\<rparr>" "str_ok tr" "str_ok el"
  using assms by (cases sel) (auto simp: selector_ok_def dicey_selector_is_valid_def opt_str_def)

section \<open>Sizes\<close>

lemma message_fixed_size_is_message: "is_message kind \<Longrightarrow> message_fixed_size kind = Ok 12"
  by (cases kind) (simp_all add: is_message_def message_fixed_size_def)

lemma zstring_size_ok: "str_ok s \<Longrightarrow> dutl_zstring_size s = Ok (length (zstring s))"
  by (simp add: dutl_zstring_size_def str_ok_def)

lemma selector_size_ok:
  "selector_ok sel \<Longrightarrow> dicey_selector_size sel = Ok (length (selector_bytes sel))"
  by (auto elim!: selector_okE simp: dicey_selector_size_def dutl_zstring_size_def str_ok_def
      dutl_checked_add_def selector_bytes_def opt_str_def c_limits)

lemma estimate_header_size_eq:
  assumes "is_message kind" and "address_ok path sel n"
  shows "dtf_message_estimate_header_size kind path sel =
    Ok (12 + length (zstring path) + length (selector_bytes sel))"
proof -
  have "sel_trait sel \<noteq> None" "sel_elem sel \<noteq> None"
    using assms(2) by (auto simp: address_ok_def selector_ok_def dicey_selector_is_valid_def)
  then show ?thesis
    using assms
    by (auto simp: dtf_message_estimate_header_size_def message_fixed_size_is_message
        zstring_size_ok selector_size_ok address_ok_def checked_add_u32_def)
qed

lemma estimate_message_size_eq:
  assumes "is_message kind" and "(kind \<noteq> DTF_PAYLOAD_GET) = (arg \<noteq> None)"
    and "address_ok path sel (length (body_of arg))"
    and "\<And>a. arg = Some a \<Longrightarrow> arg_writable a"
  shows "dtf_message_estimate_size kind path sel arg =
    Ok (12 + length (zstring path) + length (selector_bytes sel) + length (body_of arg))"
proof -
  have "(case arg of Some a \<Rightarrow> dtf_value_estimate_size a | None \<Rightarrow> Ok 0) =
      Ok (length (body_of arg))"
    using assms(3,4)
    by (auto simp: body_of_def estimate_size_eq address_ok_def c_limits split: option.splits)
  then show ?thesis
    using assms(2,3) estimate_header_size_eq [OF assms(1,3)]
    by (auto simp: dtf_message_estimate_size_def address_ok_def dutl_checked_add_def c_limits)
qed

section \<open>What is written\<close>

lemma write_ptr_eq [simp]: "dicey_view_mut_write_ptr m v d = dicey_view_mut_write m v d"
  by (simp add: dicey_view_mut_write_ptr_def)

lemma view_write_zstring_eq:
  "str_ok s \<Longrightarrow> dicey_view_mut_write_zstring m v s = dicey_view_mut_write m v (Some (zstring s))"
  by (simp add: dicey_view_mut_write_zstring_def zstring_size_ok str_ok_def zstring_def)

lemma selector_write_eq:
  assumes "selector_ok sel" and "off + len \<le> length m" and "length (selector_bytes sel) \<le> len"
  shows "dtf_selector_write m \<lparr>vm_data = Some off, vm_len = len\<rparr> sel =
    Ok (overwrite m off (selector_bytes sel),
        \<lparr>vm_data = Some (off + length (selector_bytes sel)),
         vm_len = len - length (selector_bytes sel)\<rparr>)"
proof -
  obtain tr el where sel: "sel = \<lparr>sel_trait = Some tr, sel_elem = Some el\<rparr>" "str_ok tr" "str_ok el"
    using assms(1) by (rule selector_okE)
  have "overwrite (overwrite m off (zstring tr)) (off + length (zstring tr)) (zstring el) =
      overwrite m off (zstring tr @ zstring el)"
    using assms(2,3) sel(1) by (intro overwrite_append) (simp add: selector_bytes_def opt_str_def)
  then show ?thesis
    using assms(2,3) sel
    by (simp add: dtf_selector_write_def zstring_size_ok view_write_eq selector_bytes_def opt_str_def
        str_ok_def) (simp add: zstring_def view_write_eq)
qed

lemma write_path_and_selector_eq:
  assumes "address_ok path sel n" and "off + len \<le> length m"
    and "12 + length (zstring path) + length (selector_bytes sel) \<le> len"
  shows "write_path_and_selector m \<lparr>vm_data = Some off, vm_len = len\<rparr> kind seq t path sel =
    (let h = message_header kind seq t @ zstring path @ selector_bytes sel in
     Ok (overwrite m off h, \<lparr>vm_data = Some (off + length h), vm_len = len - length h\<rparr>))"
proof -
  let ?a = "message_header kind seq t" and ?b = "zstring path" and ?c = "selector_bytes sel"
  have ok: "str_ok path" "selector_ok sel"
    using assms(1) by (simp_all add: address_ok_def)
  have "overwrite (overwrite m off ?a) (off + length ?a) ?b = overwrite m off (?a @ ?b)"
    using assms by (intro overwrite_append) simp
  moreover have "overwrite (overwrite m off (?a @ ?b)) (off + length (?a @ ?b)) ?c =
      overwrite m off ((?a @ ?b) @ ?c)"
    using assms by (intro overwrite_append) simp
  ultimately show ?thesis
    using assms(2,3) ok
    by (simp add: write_path_and_selector_def message_header_write_def view_write_eq
        view_write_zstring_eq selector_write_eq Let_def) (auto simp: ac_simps)
qed

lemma trailer_size_of_eq: "12 \<le> n \<Longrightarrow> n \<le> UINT32_MAX \<Longrightarrow> trailer_size_of n = n - 12"
proof -
  assume n: "12 \<le> n" "n \<le> UINT32_MAX"
  then have "n mod 2 ^ 32 + 2 ^ 32 - 12 = 2 ^ 32 + (n - 12)"
    by (simp add: c_limits)
  then have "trailer_size_of n = (2 ^ 32 + (n - 12)) mod 2 ^ 32"
    by (simp only: trailer_size_of_def)
  also have "\<dots> = n - 12"
    unfolding mod_add_self1 using n by (simp add: c_limits)
  finally show ?thesis .
qed

lemma message_parts_overwrite:
  assumes "off + length (enc_message kind seq path sel body) \<le> length m"
  shows "overwrite
      (overwrite m off (message_header kind seq t @ zstring path @ selector_bytes sel))
      (off + length (message_header kind seq t @ zstring path @ selector_bytes sel)) body =
    overwrite m off (message_header kind seq t @ message_trailer path sel body)"
  using assms overwrite_append [of off "message_header kind seq t @ zstring path @ selector_bytes sel"
      body m]
  by (simp add: length_enc_message message_trailer_def)

lemma message_write_into_buffer:
  assumes "is_message kind" and "(kind \<noteq> DTF_PAYLOAD_GET) = (arg \<noteq> None)"
    and "address_ok path sel (length (body_of arg))"
    and "\<And>a. arg = Some a \<Longrightarrow> arg_writable a"
    and "off + len \<le> length m" and "len \<le> PTRDIFF_MAX"
    and "length (enc_message kind seq path sel (body_of arg)) \<le> len"
  shows "dtf_message_write alloc m \<lparr>vm_data = Some off, vm_len = len\<rparr> kind seq path sel arg =
    Ok (\<lparr>res_result = 0, res_size = length (enc_message kind seq path sel (body_of arg)),
         res_data = Some off\<rparr>,
        overwrite m off (enc_message kind seq path sel (body_of arg)))"
proof -
  let ?n = "12 + length (zstring path) + length (selector_bytes sel) + length (body_of arg)"
  let ?t = "length (message_trailer path sel (body_of arg))"
  define h where "h = message_header kind seq ?t @ zstring path @ selector_bytes sel"
  have h: "length h = 12 + length (zstring path) + length (selector_bytes sel)"
    by (simp add: h_def)
  have len: "?n \<le> len" "?n \<le> UINT32_MAX"
    using assms(3,7) by (simp_all add: length_enc_message address_ok_def)
  have t: "trailer_size_of ?n = ?t"
    using trailer_size_of_eq [of ?n] len(2) by (simp add: message_trailer_def)
  have path: "dutl_zstring_size path = Ok (length (zstring path))"
    using assms(3) by (simp add: address_ok_def zstring_size_ok)
  have ps: "write_path_and_selector m \<lparr>vm_data = Some off, vm_len = len\<rparr> kind seq ?t path sel =
      Ok (overwrite m off h, \<lparr>vm_data = Some (off + length h), vm_len = len - length h\<rparr>)"
    using write_path_and_selector_eq [OF assms(3,5), of kind seq ?t] len(1)
    by (simp add: Let_def h_def)
  have val: "(case arg of Some a \<Rightarrow> and_then (dtf_value_write alloc (overwrite m off h)
        \<lparr>vm_data = Some (off + length h), vm_len = len - length h\<rparr> a) (\<lambda>(_, m2). Ok m2)
      | None \<Rightarrow> Ok (overwrite m off h)) =
      Ok (overwrite (overwrite m off h) (off + length h) (body_of arg))"
    using value_write_into [of "off + length h" "len - length h" "overwrite m off h"]
      assms(4-6) len h
    by (cases arg) (simp_all add: body_of_def c_limits)
  have "overwrite (overwrite m off h) (off + length h) (body_of arg) =
      overwrite m off (enc_message kind seq path sel (body_of arg))"
    using message_parts_overwrite [of off kind seq path sel "body_of arg" m ?t] assms(5,7)
    by (simp add: h_def enc_message_def)
  moreover have "dicey_view_mut_ensure_cap alloc m \<lparr>vm_data = Some off, vm_len = len\<rparr> ?n =
      Ok (0, m, \<lparr>vm_data = Some off, vm_len = len\<rparr>)"
    using len(1) by (simp add: dicey_view_mut_ensure_cap_def)
  ultimately show ?thesis
    using estimate_message_size_eq [OF assms(1-4)] path t ps val
    by (simp add: dtf_message_write_def length_enc_message del: length_zstring)
qed

text \<open>A fresh allocation behaves like a zeroed buffer of the caller's of exactly the needed size.\<close>

lemma message_write_alloc:
  assumes "is_message kind" and "(kind \<noteq> DTF_PAYLOAD_GET) = (arg \<noteq> None)"
    and "address_ok path sel (length (body_of arg))"
    and "\<And>a. arg = Some a \<Longrightarrow> arg_writable a"
    and "alloc (length (enc_message kind seq path sel (body_of arg)))"
  shows "dtf_message_write alloc m DICEY_NULL kind seq path sel arg =
    Ok (\<lparr>res_result = length (enc_message kind seq path sel (body_of arg)),
         res_size = length (enc_message kind seq path sel (body_of arg)), res_data = Some 0\<rparr>,
        enc_message kind seq path sel (body_of arg))"
proof -
  define n where "n = length (enc_message kind seq path sel (body_of arg))"
  let ?buf = "\<lparr>vm_data = Some 0, vm_len = n\<rparr>" and ?m = "replicate n 0 :: mem"
  have n: "0 < n" "n \<le> UINT32_MAX"
    using assms(3) by (simp_all add: n_def length_enc_message address_ok_def)
  then have ptr: "n \<le> PTRDIFF_MAX"
    by (simp add: c_limits)
  have size: "dtf_message_estimate_size kind path sel arg = Ok n"
    using estimate_message_size_eq [OF assms(1-4)] by (simp add: n_def length_enc_message)
  have alloc: "dicey_view_mut_ensure_cap alloc m DICEY_NULL n = Ok (n, ?m, ?buf)"
    using n ptr assms(5) by (simp add: dicey_view_mut_ensure_cap_def DICEY_NULL_def n_def)
  have keep: "dicey_view_mut_ensure_cap alloc ?m ?buf n = Ok (0, ?m, ?buf)"
    by (simp add: dicey_view_mut_ensure_cap_def)
  have "dtf_message_write alloc ?m ?buf kind seq path sel arg =
      Ok (\<lparr>res_result = 0, res_size = n, res_data = Some 0\<rparr>,
          overwrite ?m 0 (enc_message kind seq path sel (body_of arg)))"
    using message_write_into_buffer [OF assms(1-4), of 0 n ?m seq alloc] ptr by (simp add: n_def)
  moreover have "overwrite ?m 0 (enc_message kind seq path sel (body_of arg)) =
      enc_message kind seq path sel (body_of arg)"
    by (rule overwrite_whole) (simp add: n_def)
  ultimately show ?thesis
    using size alloc keep
    by (auto simp: dtf_message_write_def n_def [symmetric] outcome_simps case_prod_unfold)
qed

lemma message_write_raw_alloc:
  assumes "is_message kind" and "address_ok path sel (length body)"
    and "alloc (length (enc_message kind seq path sel body))"
  shows "dtf_message_write_with_raw_value alloc m DICEY_NULL kind seq path sel (Some body) =
    Ok (\<lparr>res_result = length (enc_message kind seq path sel body),
         res_size = length (enc_message kind seq path sel body), res_data = Some 0\<rparr>,
        enc_message kind seq path sel body)"
proof -
  define n where "n = length (enc_message kind seq path sel body)"
  let ?m = "replicate n 0 :: mem" and ?t = "length (message_trailer path sel body)"
  define h where "h = message_header kind seq ?t @ zstring path @ selector_bytes sel"
  have h: "length h = 12 + length (zstring path) + length (selector_bytes sel)"
    by (simp add: h_def)
  have n: "n = length h + length body" "0 < n" "n \<le> UINT32_MAX" "n \<le> PTRDIFF_MAX"
    using assms(2) by (simp_all add: n_def h length_enc_message address_ok_def c_limits)
  have alloc: "dicey_view_mut_ensure_cap alloc m DICEY_NULL n =
      Ok (n, ?m, \<lparr>vm_data = Some 0, vm_len = n\<rparr>)"
    using n assms(3) by (simp add: dicey_view_mut_ensure_cap_def DICEY_NULL_def n_def)
  have t: "trailer_size_of n = ?t"
    using trailer_size_of_eq [of n] n by (simp add: h message_trailer_def)
  have ps: "write_path_and_selector ?m \<lparr>vm_data = Some 0, vm_len = n\<rparr> kind seq ?t path sel =
      Ok (overwrite ?m 0 h, \<lparr>vm_data = Some (length h), vm_len = n - length h\<rparr>)"
    using write_path_and_selector_eq [OF assms(2), of 0 n ?m kind seq ?t] n(1) h
    by (simp add: Let_def h_def)
  have "dicey_view_mut_write (overwrite ?m 0 h)
      \<lparr>vm_data = Some (length h), vm_len = n - length h\<rparr> (Some body) =
      Ok (length body, overwrite (overwrite ?m 0 h) (length h) body,
          \<lparr>vm_data = Some (length h + length body), vm_len = n - length h - length body\<rparr>)"
    using n(1) by (subst view_write_eq) simp_all
  moreover have "overwrite (overwrite ?m 0 h) (length h) body = enc_message kind seq path sel body"
    using overwrite_append [of 0 h body ?m] overwrite_whole [of "h @ body" ?m] n(1)
    by (simp add: h_def enc_message_def message_trailer_def)
  moreover have "dutl_zstring_size path = Ok (length (zstring path))"
    using assms(2) by (simp add: address_ok_def zstring_size_ok)
  ultimately show ?thesis
    using estimate_header_size_eq [OF assms(1,2)] n alloc t ps
    by (simp add: dtf_message_write_with_raw_value_def view_len_def dutl_checked_add_def
        h [symmetric] n_def [symmetric] del: length_zstring)
qed

section \<open>What is read\<close>

lemma header_fields:
  "take 4 (message_header kind seq t) = le_enc 4 (kind_id kind)"
  "take 4 (drop 4 (message_header kind seq t)) = le_enc 4 (unat seq)"
  "drop 8 (message_header kind seq t) = le_enc 4 t"
  by (simp_all add: message_header_def)

lemma header_kind_seq [simp]:
  "dtf_payload_get_kind (message_header kind seq t @ rest) = Ok kind"
  "dtf_payload_get_seq (message_header kind seq t @ rest) = Ok seq"
  by (simp_all add: dtf_payload_get_kind_def dtf_payload_get_seq_def header_fields Let_def
      is_kind_invalid_def split: dtf_payload_kind.split)

lemma get_content_enc:
  assumes "address_ok path sel (length body)"
  shows "dtf_message_get_content (enc_message kind seq path sel body)
      (length (enc_message kind seq path sel body)) =
    Ok \<lparr>content_path = path, content_selector = sel,
        content_value = (if body = [] then None else Some body)\<rparr>"
proof -
  let ?t = "message_trailer path sel body"
  let ?msg = "enc_message kind seq path sel body"
  have len: "length ?t \<le> UINT32_MAX" "12 < length ?msg" "length ?msg = 12 + length ?t"
    using assms by (simp_all add: address_ok_def message_trailer_def length_enc_message)
  have "take 4 (drop 8 ?msg) = le_enc 4 (length ?t)" "drop 12 ?msg = ?t"
    by (simp_all add: enc_message_def header_fields)
  moreover have "dicey_view_as_zstring (Some ?t) =
      Ok (length path + 1, path, Some (selector_bytes sel @ body))"
    using assms zstring_read [of path "selector_bytes sel @ body"]
    by (simp add: address_ok_def message_trailer_def)
  moreover have "dtf_selector_from (Some (selector_bytes sel @ body)) =
      Ok (length (opt_str (sel_trait sel)) + length (opt_str (sel_elem sel)) + 2, sel, Some body)"
    using assms selector_enc [of sel body]
    by (simp add: address_ok_def selector_ok_def selector_bytes_def)
  ultimately show ?thesis
    using len by (simp add: dtf_message_get_content_def message_get_trailer_size_def view_len_def)
qed

text \<open>
  What loading guarantees of a payload: a known kind, a complete header, and for messages a
  length that agrees with the header.
\<close>

definition payload_size :: "byte list \<Rightarrow> nat" where
  "payload_size bs =
     (if is_message (kind_of_id (le_dec (take 4 bs))) then 12 + le_dec (take 4 (drop 8 bs)) else 12)"

definition payload_ok :: "byte list \<Rightarrow> bool" where
  "payload_ok bs \<longleftrightarrow> 12 \<le> length bs \<and> kind_of_id (le_dec (take 4 bs)) \<noteq> DTF_PAYLOAD_INVALID \<and>
     length bs = payload_size bs"

lemma payload_size_append: "12 \<le> length bs \<Longrightarrow> payload_size (bs @ rest) = payload_size bs"
  by (simp add: payload_size_def)

lemma payload_size_take: "12 \<le> n \<Longrightarrow> payload_size (take n bs) = payload_size bs"
proof -
  assume "12 \<le> n"
  then have "take 4 (take n bs) = take 4 bs" "take 4 (drop 8 (take n bs)) = take 4 (drop 8 bs)"
    by (simp_all add: drop_take min_def)
  then show ?thesis by (simp add: payload_size_def)
qed

lemma payload_size_bound: "payload_size bs \<le> 12 + UINT32_MAX"
  using le_dec_bound [of "take 4 (drop 8 bs)"]
    power_increasing [of "length (take 4 (drop 8 bs))" 4 "256 :: nat"]
  by (simp add: payload_size_def c_limits)

lemma payload_load_cases:
  "dtf_payload_load alloc (Some bs) =
    (if length bs < 8 then Err DICEY_EAGAIN
     else if kind_of_id (le_dec (take 4 bs)) = DTF_PAYLOAD_INVALID then Err DICEY_EBADMSG
     else if length bs < 12 \<or> length bs < payload_size bs then Err DICEY_EAGAIN
     else if \<not> alloc (payload_size bs) then Err DICEY_ENOMEM
     else Ok (take (payload_size bs) bs, Some (drop (payload_size bs) bs)))"
proof (cases "length bs < 8")
  case True
  then show ?thesis by (simp add: dtf_payload_load_def)
next
  case False
  let ?kind = "kind_of_id (le_dec (take 4 bs))"
  have small: "8 \<le> PTRDIFF_MAX" "12 \<le> PTRDIFF_MAX" "payload_size bs \<le> PTRDIFF_MAX"
    using payload_size_bound [of bs] by (simp_all add: c_limits)
  have head: "payload_header_read (Some (take 8 bs)) =
      Ok (8, \<lparr>head_kind = le_dec (take 4 bs), head_seq = word_of_nat (le_dec (take 4 (drop 4 bs)))\<rparr>,
          Some [])"
    using False small
    by (simp add: payload_header_read_def dicey_view_read_ptr_def dicey_view_read_Ok drop_take)
  have fixed: "message_fixed_size ?kind = Ok 12" if "?kind \<noteq> DTF_PAYLOAD_INVALID"
    using that by (cases ?kind) (simp_all add: message_fixed_size_def)
  have trailer: "trailer_read_size (Some bs) ?kind = Ok (payload_size bs - 12)"
    if "12 \<le> length bs"
    using that small
    by (simp add: trailer_read_size_def message_header_read_def dicey_view_read_ptr_def
        dicey_view_read_Ok payload_size_def drop_take)
  have "12 + (payload_size bs - 12) = payload_size bs"
    by (simp add: payload_size_def)
  then show ?thesis
    using False head fixed trailer small
    by (auto simp: dtf_payload_load_def Let_def message_fixed_size_def payload_kind_is_valid_def
        dutl_checked_add_def dicey_view_read_ptr_def dicey_view_read_Ok
        split: dtf_payload_kind.splits)
qed

end
