(* ===== verification/Dicey_Packet.thy ===== *)
theory Dicey_Packet
  imports Dtf_Payload
begin

text \<open>
  Packets and messages: \<^verbatim>\<open>src/wirefmt/packet.c\<close>, \<^verbatim>\<open>src/wirefmt/message.c\<close> and the owning values
  of \<^verbatim>\<open>src/wirefmt/value.c\<close>.

  A \<open>struct dicey_packet\<close> is the contents of its payload, the empty list for the invalid packet.
  Validation recurses over nested values and loops over the elements of lists.  The loop of a
  list does not always end (see \<open>validate_unit_array_diverges\<close>), so both carry fuel: \<open>None\<close> means
  that the fuel did not suffice.
\<close>

section \<open>Kinds, operations and reasons\<close>

datatype dicey_packet_kind =
  DICEY_PACKET_KIND_INVALID | DICEY_PACKET_KIND_HELLO | DICEY_PACKET_KIND_BYE
| DICEY_PACKET_KIND_MESSAGE

datatype dicey_op =
  DICEY_OP_INVALID | DICEY_OP_GET | DICEY_OP_SET | DICEY_OP_EXEC | DICEY_OP_SIGNAL
| DICEY_OP_RESPONSE

datatype dicey_bye_reason =
  DICEY_BYE_REASON_INVALID | DICEY_BYE_REASON_SHUTDOWN | DICEY_BYE_REASON_ERROR
| DICEY_BYE_REASON_KICKED

fun reason_id :: "dicey_bye_reason \<Rightarrow> 32 word" where
  "reason_id DICEY_BYE_REASON_INVALID = 0"
| "reason_id DICEY_BYE_REASON_SHUTDOWN = 1"
| "reason_id DICEY_BYE_REASON_ERROR = 2"
| "reason_id DICEY_BYE_REASON_KICKED = 3"

definition reason_of_id :: "32 word \<Rightarrow> dicey_bye_reason" where
  "reason_of_id n =
     (if n = 1 then DICEY_BYE_REASON_SHUTDOWN
      else if n = 2 then DICEY_BYE_REASON_ERROR
      else if n = 3 then DICEY_BYE_REASON_KICKED
      else DICEY_BYE_REASON_INVALID)"

text \<open>The cast \<open>(enum dtf_payload_kind) type\<close>; the two enumerations share their numbers.\<close>

fun kind_of_op :: "dicey_op \<Rightarrow> dtf_payload_kind" where
  "kind_of_op DICEY_OP_INVALID = DTF_PAYLOAD_INVALID"
| "kind_of_op DICEY_OP_GET = DTF_PAYLOAD_GET"
| "kind_of_op DICEY_OP_SET = DTF_PAYLOAD_SET"
| "kind_of_op DICEY_OP_EXEC = DTF_PAYLOAD_EXEC"
| "kind_of_op DICEY_OP_SIGNAL = DTF_PAYLOAD_EVENT"
| "kind_of_op DICEY_OP_RESPONSE = DTF_PAYLOAD_RESPONSE"

definition is_valid_forward :: "dicey_op \<Rightarrow> dicey_op \<Rightarrow> bool" where
  "is_valid_forward from to \<longleftrightarrow> (from = DICEY_OP_GET) = (to = DICEY_OP_GET)"

fun msgkind_from_dtf :: "dtf_payload_kind \<Rightarrow> dicey_op" where
  "msgkind_from_dtf DTF_PAYLOAD_SET = DICEY_OP_SET"
| "msgkind_from_dtf DTF_PAYLOAD_GET = DICEY_OP_GET"
| "msgkind_from_dtf DTF_PAYLOAD_EXEC = DICEY_OP_EXEC"
| "msgkind_from_dtf DTF_PAYLOAD_EVENT = DICEY_OP_SIGNAL"
| "msgkind_from_dtf DTF_PAYLOAD_RESPONSE = DICEY_OP_RESPONSE"
| "msgkind_from_dtf _ = DICEY_OP_INVALID"

fun pktkind_from_dtf :: "dtf_payload_kind \<Rightarrow> dicey_packet_kind" where
  "pktkind_from_dtf DTF_PAYLOAD_INVALID = DICEY_PACKET_KIND_INVALID"
| "pktkind_from_dtf DTF_PAYLOAD_HELLO = DICEY_PACKET_KIND_HELLO"
| "pktkind_from_dtf DTF_PAYLOAD_BYE = DICEY_PACKET_KIND_BYE"
| "pktkind_from_dtf _ = DICEY_PACKET_KIND_MESSAGE"

definition dicey_bye_reason_is_valid :: "dicey_bye_reason \<Rightarrow> bool" where
  "dicey_bye_reason_is_valid reason =
     (case reason of
        DICEY_BYE_REASON_SHUTDOWN \<Rightarrow> True
      | DICEY_BYE_REASON_ERROR \<Rightarrow> True
      | _ \<Rightarrow> False)"

definition dicey_bye_reason_to_string :: "dicey_bye_reason \<Rightarrow> string" where
  "dicey_bye_reason_to_string reason =
     (case reason of
        DICEY_BYE_REASON_SHUTDOWN \<Rightarrow> ''SHUTDOWN''
      | DICEY_BYE_REASON_ERROR \<Rightarrow> ''ERROR''
      | _ \<Rightarrow> ''>>invalid<<'')"

definition dicey_op_is_valid :: "dicey_op \<Rightarrow> bool" where
  "dicey_op_is_valid op = (case op of DICEY_OP_INVALID \<Rightarrow> False | _ \<Rightarrow> True)"

definition dicey_op_requires_payload :: "dicey_op \<Rightarrow> bool" where
  "dicey_op_requires_payload op =
     (case op of
        DICEY_OP_SET \<Rightarrow> True
      | DICEY_OP_EXEC \<Rightarrow> True
      | DICEY_OP_SIGNAL \<Rightarrow> True
      | DICEY_OP_RESPONSE \<Rightarrow> True
      | _ \<Rightarrow> False)"

fun dicey_op_to_string :: "dicey_op \<Rightarrow> string" where
  "dicey_op_to_string DICEY_OP_INVALID = ''>>invalid<<''"
| "dicey_op_to_string DICEY_OP_GET = ''GET''"
| "dicey_op_to_string DICEY_OP_SET = ''SET''"
| "dicey_op_to_string DICEY_OP_EXEC = ''EXEC''"
| "dicey_op_to_string DICEY_OP_SIGNAL = ''SIGNAL''"
| "dicey_op_to_string DICEY_OP_RESPONSE = ''RESPONSE''"

definition dicey_packet_kind_is_valid :: "dicey_packet_kind \<Rightarrow> bool" where
  "dicey_packet_kind_is_valid kind = (case kind of DICEY_PACKET_KIND_INVALID \<Rightarrow> False | _ \<Rightarrow> True)"

fun dicey_packet_kind_to_string :: "dicey_packet_kind \<Rightarrow> string" where
  "dicey_packet_kind_to_string DICEY_PACKET_KIND_INVALID = ''>>invalid<<''"
| "dicey_packet_kind_to_string DICEY_PACKET_KIND_HELLO = ''HELLO''"
| "dicey_packet_kind_to_string DICEY_PACKET_KIND_BYE = ''BYE''"
| "dicey_packet_kind_to_string DICEY_PACKET_KIND_MESSAGE = ''MESSAGE''"

definition version_from_dtf :: "32 word \<Rightarrow> dicey_version" where
  "version_from_dtf v =
     \<lparr>major = word_of_nat (unat v div 2 ^ 16), revision = word_of_nat (unat v mod 2 ^ 16)\<rparr>"

definition version_to_dtf :: "dicey_version \<Rightarrow> 32 word" where
  "version_to_dtf v = word_of_nat (unat (major v) * 2 ^ 16 + unat (revision v))"

section \<open>Packets\<close>

type_synonym dicey_packet = "byte list"

record dicey_message =
  msg_type :: dicey_op
  msg_path :: cstring
  msg_selector :: dicey_selector
  msg_value :: dicey_value

text \<open>The zeroed value of a message without one.\<close>

definition no_value :: dicey_value where
  "no_value = \<lparr>val_type = DICEY_TYPE_INVALID, val_data = DataNone\<rparr>"

definition dicey_packet_is_valid :: "dicey_packet \<Rightarrow> bool" where
  "dicey_packet_is_valid packet \<longleftrightarrow> packet \<noteq> []"

text \<open>The 32-bit member that follows the payload head in a hello or a bye.\<close>

definition head_field :: "dicey_packet \<Rightarrow> 32 word result" where
  "head_field packet =
     (if length packet < 12 then Undef else Ok (word_of_nat (le_dec (take 4 (drop 8 packet)))))"

definition dicey_packet_as_bye :: "dicey_packet \<Rightarrow> dicey_bye_reason result" where
  "dicey_packet_as_bye packet =
     and_then (dtf_payload_get_kind packet) (\<lambda>kind.
       if kind \<noteq> DTF_PAYLOAD_BYE then Err DICEY_EINVAL
       else and_then (head_field packet) (\<lambda>n.
         if \<not> dicey_bye_reason_is_valid (reason_of_id n) then Err DICEY_EINVAL
         else Ok (reason_of_id n)))"

definition dicey_packet_as_hello :: "dicey_packet \<Rightarrow> dicey_version result" where
  "dicey_packet_as_hello packet =
     and_then (dtf_payload_get_kind packet) (\<lambda>kind.
       if kind \<noteq> DTF_PAYLOAD_HELLO then Err DICEY_EINVAL
       else and_then (head_field packet) (\<lambda>n. Ok (version_from_dtf n)))"

definition dicey_packet_as_message :: "dicey_packet \<Rightarrow> dicey_message result" where
  "dicey_packet_as_message packet =
     and_then (dtf_payload_get_kind packet) (\<lambda>kind.
     if \<not> dtf_payload_kind_is_message kind then Err DICEY_EINVAL
     else
       let op = msgkind_from_dtf kind in
       if op = DICEY_OP_INVALID then Err DICEY_EINVAL
       else
         and_then (dtf_message_get_content packet (length packet)) (\<lambda>content.
         let msg = \<lparr>msg_type = op, msg_path = content_path content,
                    msg_selector = content_selector content, msg_value = no_value\<rparr> in
         if content_value content = None then Ok msg
         else if \<not> dicey_op_requires_payload op then Err DICEY_EBADMSG
         else
           and_then (dtf_value_probe (content_value content)) (\<lambda>(_, v, value_view).
             if view_len value_view > 0 then Err DICEY_EINVAL
             else Ok (msg\<lparr>msg_value := v\<rparr>))))"

definition dicey_packet_get_kind :: "dicey_packet \<Rightarrow> dicey_packet_kind result" where
  "dicey_packet_get_kind packet =
     and_then (dtf_payload_get_kind packet) (\<lambda>kind. Ok (pktkind_from_dtf kind))"

definition dicey_packet_get_seq :: "dicey_packet \<Rightarrow> 32 word result" where
  "dicey_packet_get_seq packet = dtf_payload_get_seq packet"

definition dicey_packet_set_seq :: "dicey_packet \<Rightarrow> 32 word \<Rightarrow> dicey_packet result" where
  "dicey_packet_set_seq packet seq = dtf_payload_set_seq packet seq"

text \<open>
  \<open>dicey_packet_bye\<close> and \<open>dicey_packet_hello\<close> hand a zeroed allocation of their own to the writers.
\<close>

definition packet_with_head ::
  "((nat \<Rightarrow> bool) \<Rightarrow> mem \<Rightarrow> dicey_view_mut \<Rightarrow> 32 word \<Rightarrow> 32 word \<Rightarrow> (dtf_result \<times> mem) result)
     \<Rightarrow> (nat \<Rightarrow> bool) \<Rightarrow> 32 word \<Rightarrow> 32 word \<Rightarrow> dicey_packet result"
where
  "packet_with_head writer alloc seq field =
     (if \<not> alloc 12 then Err DICEY_ENOMEM
      else and_then (writer alloc (replicate 12 0) \<lparr>vm_data = Some 0, vm_len = 12\<rparr> seq field)
             (\<lambda>(_, payload). Ok payload))"

definition dicey_packet_bye ::
  "(nat \<Rightarrow> bool) \<Rightarrow> 32 word \<Rightarrow> dicey_bye_reason \<Rightarrow> dicey_packet result"
where
  "dicey_packet_bye alloc seq reason = packet_with_head dtf_bye_write alloc seq (reason_id reason)"

definition dicey_packet_hello ::
  "(nat \<Rightarrow> bool) \<Rightarrow> 32 word \<Rightarrow> dicey_version \<Rightarrow> dicey_packet result"
where
  "dicey_packet_hello alloc seq version =
     packet_with_head dtf_hello_write alloc seq (version_to_dtf version)"

text \<open>\<open>dicey_packet_dump\<close> copies the packet to the destination and advances it.\<close>

definition dicey_packet_dump ::
  "mem \<Rightarrow> dicey_view_mut \<Rightarrow> dicey_packet \<Rightarrow> (mem \<times> dicey_view_mut) result"
where
  "dicey_packet_dump m dest packet =
     and_then (dicey_view_mut_write_ptr m dest (Some packet)) (\<lambda>(_, m', dest'). Ok (m', dest'))"

definition dicey_packet_forward_message ::
  "(nat \<Rightarrow> bool) \<Rightarrow> dicey_packet \<Rightarrow> 32 word \<Rightarrow> dicey_op \<Rightarrow> cstring \<Rightarrow> dicey_selector
     \<Rightarrow> dicey_packet result"
where
  "dicey_packet_forward_message alloc old seq op path selector =
     (if \<not> (dicey_op_is_valid op \<and> dicey_selector_is_valid selector) then Err DICEY_EINVAL
      else if \<not> dicey_packet_is_valid old then Err DICEY_EBADMSG
      else case dicey_packet_as_message old of
        Ok msg \<Rightarrow>
          if \<not> is_valid_forward (msg_type msg) op then Err DICEY_EINVAL
          else
            let dtf_kind = kind_of_op op in
            and_then (dtf_message_estimate_header_size dtf_kind (msg_path msg) (msg_selector msg))
              (\<lambda>old_header_size.
              if old_header_size > length old then Undef
              else
                and_then
                  (dtf_message_write_with_raw_value alloc [] DICEY_NULL dtf_kind seq path selector
                     (Some (drop old_header_size old)))
                  (\<lambda>(_, payload). Ok payload))
      | Err e \<Rightarrow> Err DICEY_EBADMSG
      | Undef \<Rightarrow> Undef)"

section \<open>Validation\<close>

definition validate_bye :: "dicey_packet \<Rightarrow> unit result" where
  "validate_bye packet = and_then (dicey_packet_as_bye packet) (\<lambda>_. Ok ())"

text \<open>The bodies of the two functions, over the recursive calls they make.\<close>

definition validate_value_body ::
  "(dicey_value \<Rightarrow> unit result option) \<Rightarrow> (dicey_iterator \<Rightarrow> unit result option) \<Rightarrow> dicey_value
     \<Rightarrow> unit result option"
where
  "validate_value_body validate_value validate_value_list v =
     (case val_type v of
        DICEY_TYPE_INVALID \<Rightarrow> Some (Err DICEY_EINVAL)
      | DICEY_TYPE_BYTES \<Rightarrow>
          (case val_data v of
             DataBytes bs \<Rightarrow> Some (if length bs > 0 then Ok () else Err DICEY_EINVAL)
           | _ \<Rightarrow> Some Undef)
      | DICEY_TYPE_ARRAY \<Rightarrow>
          (case dicey_value_get_array v of
             Ok l \<Rightarrow> validate_value_list (dicey_list_iter l)
           | Err e \<Rightarrow> Some (Err e)
           | Undef \<Rightarrow> Some Undef)
      | DICEY_TYPE_TUPLE \<Rightarrow>
          (case dicey_value_get_tuple v of
             Ok l \<Rightarrow> validate_value_list (dicey_list_iter l)
           | Err e \<Rightarrow> Some (Err e)
           | Undef \<Rightarrow> Some Undef)
      | DICEY_TYPE_PAIR \<Rightarrow>
          (case dicey_value_get_pair v of
             Ok (first, second) \<Rightarrow>
               (case validate_value first of
                  Some (Ok _) \<Rightarrow> validate_value second
                | r \<Rightarrow> r)
           | Err e \<Rightarrow> Some (Err e)
           | Undef \<Rightarrow> Some Undef)
      | DICEY_TYPE_PATH \<Rightarrow>
          (case val_data v of DataStr _ \<Rightarrow> Some (Ok ()) | _ \<Rightarrow> Some Undef)
      | DICEY_TYPE_SELECTOR \<Rightarrow>
          (case val_data v of
             DataSelector sel \<Rightarrow>
               Some (if dicey_selector_is_valid sel then Ok () else Err DICEY_EINVAL)
           | _ \<Rightarrow> Some Undef)
      | _ \<Rightarrow> Some (Ok ()))"

definition validate_list_body ::
  "(dicey_value \<Rightarrow> unit result option) \<Rightarrow> (dicey_iterator \<Rightarrow> unit result option) \<Rightarrow> dicey_iterator
     \<Rightarrow> unit result option"
where
  "validate_list_body validate_value loop iter =
     (if \<not> dicey_iterator_has_next iter then Some (Ok ())
      else case dicey_iterator_next iter of
        Ok (v, iter') \<Rightarrow>
          (case validate_value v of
             Some (Ok _) \<Rightarrow> loop iter'
           | r \<Rightarrow> r)
      | Err e \<Rightarrow> Some (Err e)
      | Undef \<Rightarrow> Some Undef)"

fun
  validate_value :: "nat \<Rightarrow> dicey_value \<Rightarrow> unit result option" and
  validate_value_list :: "nat \<Rightarrow> dicey_iterator \<Rightarrow> unit result option"
where
  "validate_value 0 v = None"
| "validate_value (Suc n) v =
     validate_value_body (\<lambda>w. validate_value n w) (\<lambda>iter. validate_value_list n iter) v"
| "validate_value_list 0 iter = None"
| "validate_value_list (Suc n) iter =
     validate_list_body (\<lambda>w. validate_value n w) (\<lambda>iter'. validate_value_list n iter') iter"

definition validate_message :: "nat \<Rightarrow> dicey_packet \<Rightarrow> unit result option" where
  "validate_message fuel packet =
     (case dicey_packet_as_message packet of
        Ok msg \<Rightarrow>
          if dicey_op_requires_payload (msg_type msg) then validate_value fuel (msg_value msg)
          else Some (Ok ())
      | Err e \<Rightarrow> Some (Err e)
      | Undef \<Rightarrow> Some Undef)"

text \<open>Loading copies one packet out of the data and returns the data that follows it.\<close>

definition dicey_packet_load ::
  "nat \<Rightarrow> (nat \<Rightarrow> bool) \<Rightarrow> dicey_view \<Rightarrow> (dicey_packet \<times> dicey_view) result option"
where
  "dicey_packet_load fuel alloc data =
     (if data = None then Some (Err DICEY_EINVAL)
      else case dtf_payload_load alloc data of
        Ok (packet, src) \<Rightarrow>
          (case dicey_packet_get_kind packet of
             Ok kind \<Rightarrow>
               if \<not> dicey_packet_kind_is_valid kind then Some (Err DICEY_EBADMSG)
               else
                 (case (case kind of
                          DICEY_PACKET_KIND_BYE \<Rightarrow> Some (validate_bye packet)
                        | DICEY_PACKET_KIND_MESSAGE \<Rightarrow> validate_message fuel packet
                        | _ \<Rightarrow> Some (Ok ())) of
                    Some (Ok _) \<Rightarrow> Some (Ok (packet, src))
                  | Some (Err e) \<Rightarrow> Some (Err (if e = DICEY_EINVAL then DICEY_EBADMSG else e))
                  | Some Undef \<Rightarrow> Some Undef
                  | None \<Rightarrow> None)
           | Err e \<Rightarrow> Some (Err e)
           | Undef \<Rightarrow> Some Undef)
      | Err e \<Rightarrow> Some (Err e)
      | Undef \<Rightarrow> Some Undef)"

section \<open>Messages and owning values\<close>

definition dicey_message_matches_element ::
  "dicey_message \<Rightarrow> cstring \<Rightarrow> cstring \<Rightarrow> cstring \<Rightarrow> bool"
where
  "dicey_message_matches_element msg path tr el \<longleftrightarrow>
     msg_path msg = path \<and> msg_selector msg = \<lparr>sel_trait = Some tr, sel_elem = Some el\<rparr>"

text \<open>\<open>strncmp\<close> over the length of the root compares prefixes.\<close>

definition dicey_message_matches_element_under_root ::
  "dicey_message \<Rightarrow> cstring \<Rightarrow> cstring \<Rightarrow> cstring \<Rightarrow> bool"
where
  "dicey_message_matches_element_under_root msg root tr el \<longleftrightarrow>
     take (length root) (msg_path msg) = root \<and>
     msg_selector msg = \<lparr>sel_trait = Some tr, sel_elem = Some el\<rparr>"

record dicey_owning_value =
  own_owner :: dicey_packet
  own_value :: dicey_value

definition dicey_owning_value_is_valid :: "dicey_owning_value \<Rightarrow> bool" where
  "dicey_owning_value_is_valid v \<longleftrightarrow> dicey_packet_is_valid (own_owner v)"

definition dicey_owning_value_borrow :: "dicey_owning_value \<Rightarrow> dicey_value option" where
  "dicey_owning_value_borrow v =
     (if dicey_owning_value_is_valid v then Some (own_value v) else None)"

definition dicey_packet_into_value :: "dicey_packet \<Rightarrow> dicey_owning_value result" where
  "dicey_packet_into_value packet =
     (if \<not> dicey_packet_is_valid packet then Err DICEY_EINVAL
      else and_then (dicey_packet_as_message packet)
             (\<lambda>msg. Ok \<lparr>own_owner = packet, own_value = msg_value msg\<rparr>))"

end
