(* ===== verification/Dicey_Validation.thy ===== *)
theory Dicey_Validation
  imports Dicey_Packet
begin

text \<open>
  Validation of received values (\<open>validate_value\<close> and \<open>validate_value_list\<close> of
  \<^verbatim>\<open>src/wirefmt/packet.c\<close>): it is a function of the fuel only until it ends, it ends within a
  number of steps linear in the bytes of the value unless it meets a non-empty array of units,
  it never ends in that case, and it accepts what the writer produces.
\<close>

section \<open>More fuel does not change a result\<close>

text \<open>\<open>rv'\<close> gives every result \<open>rv\<close> gives.\<close>

definition extends :: "('a \<Rightarrow> 'b option) \<Rightarrow> ('a \<Rightarrow> 'b option) \<Rightarrow> bool" where
  "extends rv rv' \<longleftrightarrow> (\<forall>w r. rv w = Some r \<longrightarrow> rv' w = Some r)"

lemma extendsD: "extends rv rv' \<Longrightarrow> rv w = Some r \<Longrightarrow> rv' w = Some r"
  by (simp add: extends_def)

lemma extends_then:
  assumes "extends rv rv'" and "extends rl rl'"
    and "(case rv a of Some (Ok _) \<Rightarrow> rl b | r \<Rightarrow> r) = Some r"
  shows "(case rv' a of Some (Ok _) \<Rightarrow> rl' b | r \<Rightarrow> r) = Some r"
proof (cases "rv a")
  case (Some x)
  then have "rv' a = Some x"
    using extendsD [OF assms(1)] by simp
  moreover have "rl' b = Some r" if "rl b = Some r"
    using extendsD [OF assms(2) that] .
  ultimately show ?thesis
    using Some assms(3) by (cases x) auto
qed (use assms(3) in simp)

lemma validate_value_body_mono:
  assumes ext: "extends rv rv'" "extends rl rl'" and "validate_value_body rv rl v = Some r"
  shows "validate_value_body rv' rl' v = Some r"
proof (cases "val_type v")
  case DICEY_TYPE_PAIR
  show ?thesis
  proof (cases "dicey_value_get_pair v")
    case (Ok p)
    then show ?thesis
      using assms(3) DICEY_TYPE_PAIR extends_then [OF ext(1) ext(1), where a = "fst p" and b = "snd p"]
      by (simp add: validate_value_body_def case_prod_unfold)
  qed (use assms(3) DICEY_TYPE_PAIR in \<open>simp_all add: validate_value_body_def\<close>)
next
  case DICEY_TYPE_ARRAY
  then show ?thesis
    using assms(3) extendsD [OF ext(2)]
    by (cases "dicey_value_get_array v") (simp_all add: validate_value_body_def)
next
  case DICEY_TYPE_TUPLE
  then show ?thesis
    using assms(3) extendsD [OF ext(2)]
    by (cases "dicey_value_get_tuple v") (simp_all add: validate_value_body_def)
qed (use assms(3) in \<open>simp_all add: validate_value_body_def\<close>)

lemma validate_list_body_mono:
  assumes ext: "extends rv rv'" "extends rl rl'" and "validate_list_body rv rl it = Some r"
  shows "validate_list_body rv' rl' it = Some r"
proof (cases "dicey_iterator_next it")
  case (Ok p)
  then show ?thesis
    using assms(3) extends_then [OF ext, where a = "fst p" and b = "snd p"]
    by (auto simp: validate_list_body_def case_prod_unfold split: if_splits)
qed (use assms(3) in \<open>auto simp: validate_list_body_def split: if_splits\<close>)

lemma validate_fuel_Suc:
  "extends (validate_value n) (validate_value (Suc n)) \<and>
   extends (validate_value_list n) (validate_value_list (Suc n))"
proof (induction n)
  case 0
  show ?case by (simp add: extends_def)
next
  case (Suc n)
  then have ext: "extends (validate_value n) (validate_value (Suc n))"
    "extends (validate_value_list n) (validate_value_list (Suc n))"
    by blast+
  show ?case
    unfolding extends_def
  proof (intro conjI allI impI)
    fix v r assume "validate_value (Suc n) v = Some r"
    then have "validate_value_body (validate_value n) (validate_value_list n) v = Some r"
      by (simp only: validate_value.simps)
    from validate_value_body_mono [OF ext this] show "validate_value (Suc (Suc n)) v = Some r"
      by (subst validate_value.simps(2))
  next
    fix it r assume "validate_value_list (Suc n) it = Some r"
    then have "validate_list_body (validate_value n) (validate_value_list n) it = Some r"
      by (simp only: validate_value_list.simps)
    from validate_list_body_mono [OF ext this] show "validate_value_list (Suc (Suc n)) it = Some r"
      by (subst validate_value_list.simps(2))
  qed
qed

lemma validate_fuel_mono:
  assumes "n \<le> k"
  shows "validate_value n v = Some r \<Longrightarrow> validate_value k v = Some r"
    and "validate_value_list n it = Some r \<Longrightarrow> validate_value_list k it = Some r"
proof -
  have "extends (validate_value n) (validate_value k) \<and>
      extends (validate_value_list n) (validate_value_list k)"
    using assms
  proof (induction rule: dec_induct)
    case (step k)
    then show ?case
      using validate_fuel_Suc [of k] unfolding extends_def by blast
  qed (simp add: extends_def)
  then show "validate_value n v = Some r \<Longrightarrow> validate_value k v = Some r"
    and "validate_value_list n it = Some r \<Longrightarrow> validate_value_list k it = Some r"
    by (simp_all add: extends_def)
qed

section \<open>How much validation consumes\<close>

fun data_bytes_len :: "dicey_data_info \<Rightarrow> nat" where
  "data_bytes_len (DataList _ _ e) = view_len e"
| "data_bytes_len _ = 0"

definition value_bytes :: "dicey_value \<Rightarrow> nat" where
  "value_bytes v = data_bytes_len (val_data v)"

lemma container_probe_size:
  "array_probe v = Ok (n, d, v') \<Longrightarrow> data_bytes_len d < n"
  "tuple_probe v = Ok (n, d, v') \<Longrightarrow> data_bytes_len d < n"
  "pair_probe v = Ok (n, d, v') \<Longrightarrow> data_bytes_len d < n"
  by (auto simp: array_probe_def array_header_read_def tuple_probe_def tuple_header_read_def
      pair_probe_def pair_header_read_def list_probe_def Let_def outcome_simps
      dicey_view_read_ptr_def dicey_view_read_Ok_iff dicey_view_take_Ok_iff view_len_def
      dest!: add_read_OkD split: if_splits)

lemma leaf_probe_size:
  "bytes_probe v = Ok (n, d, v') \<Longrightarrow> data_bytes_len d < n"
  "error_probe v = Ok (n, d, v') \<Longrightarrow> data_bytes_len d < n"
  "dtf_selector_from v = Ok (n, s, v') \<Longrightarrow> 0 < n"
  by (auto simp: bytes_probe_def bytes_header_read_def error_probe_def error_header_read_def
      dtf_selector_from_def outcome_simps dicey_view_read_ptr_def
      dicey_view_read_Ok_iff dest!: add_read_OkD dicey_view_as_zstring_OkD split: if_splits)

lemma probe_as_size:
  assumes "dtf_value_probe_as t v = Ok (n, d, v')" and "t \<noteq> DICEY_TYPE_UNIT"
  shows "data_bytes_len d < n"
  using assms unfolding dtf_value_probe_as_def value_probe_dynamic_def value_probe_container_def
  by (cases t; simp add: DTF_SIZE_DYNAMIC_def c_limits DICEY_UUID_SIZE_def)
     (auto simp: outcome_simps dicey_view_read_ptr_def dicey_view_read_Ok_iff
       container_probe_size leaf_probe_size
       dest!: dicey_view_as_zstring_OkD)

lemma probe_value_bytes:
  assumes "dtf_value_probe v = Ok (n, x, v')"
  shows "value_bytes x < n"
proof -
  obtain k t u j d where "value_header_read v = Ok (k, t, u)" "dtf_value_probe_as t u = Ok (j, d, v')"
    and x: "x = \<lparr>val_type = t, val_data = d\<rparr>" and n: "n = k + j"
    using assms by (auto simp: dtf_value_probe_def outcome_simps dest!: add_read_OkD)
  moreover from this have "0 < k"
    by (auto simp: value_header_read_def outcome_simps Let_def dicey_view_read_ptr_def
        dicey_view_read_Ok_iff split: if_splits)
  moreover have "data_bytes_len d \<le> j"
    using calculation(2) probe_as_size [of t u j d v'] probe_as_member [of DICEY_TYPE_UNIT u j d v']
    by (cases "t = DICEY_TYPE_UNIT") auto
  ultimately show ?thesis
    by (simp add: value_bytes_def)
qed

text \<open>Unless it iterates over units, each step of an iterator consumes more than the value holds.\<close>

lemma iterator_next_size:
  assumes "dicey_iterator_next it = Ok (v, it')" and "it_type it \<noteq> type_id DICEY_TYPE_UNIT"
  shows "value_bytes v + view_len (it_data it') < view_len (it_data it)" "it_type it' = it_type it"
proof -
  consider n view where "dtf_value_probe (it_data it) = Ok (n, v, view)"
      "it' = it\<lparr>it_data := view\<rparr>"
    | t n data view where "dtf_value_probe_as t (it_data it) = Ok (n, data, view)"
      "t = type_of_id (it_type it)" "v = \<lparr>val_type = t, val_data = data\<rparr>"
      "it' = it\<lparr>it_data := view\<rparr>"
    using assms by (auto simp: dicey_iterator_next_def outcome_simps split: if_splits)
  then have "value_bytes v + view_len (it_data it') < view_len (it_data it) \<and>
      it_type it' = it_type it"
  proof cases
    case 1
    then obtain xs where "it_data it = Some xs" "n \<le> length xs" "view = Some (drop n xs)"
      using reads_prefixD [OF probe_local] by metis
    then show ?thesis
      using 1 probe_value_bytes [OF 1(1)] by (simp add: view_len_def)
  next
    case 2
    have "t \<noteq> DICEY_TYPE_UNIT"
      using assms(2) 2(2) type_id_of_id [of "it_type it"] by auto
    moreover obtain xs where "it_data it = Some xs" "n \<le> length xs" "view = Some (drop n xs)"
      using reads_prefixD [OF probe_as_local 2(1)] by metis
    ultimately show ?thesis
      using 2 probe_as_size [OF 2(1)] by (simp add: view_len_def value_bytes_def)
  qed
  then show "value_bytes v + view_len (it_data it') < view_len (it_data it)"
    "it_type it' = it_type it"
    by simp_all
qed

section \<open>When validation ends\<close>

text \<open>
  \<open>meets_units v\<close>: validation of \<open>v\<close>, as long as it goes, reaches an iterator over units with
  bytes left.
\<close>

inductive meets_units :: "dicey_value \<Rightarrow> bool" and units_ahead :: "dicey_iterator \<Rightarrow> bool" where
  meets_list: "val_type v = DICEY_TYPE_ARRAY \<or> val_type v = DICEY_TYPE_TUPLE \<Longrightarrow>
    dicey_value_get_list v = Ok l \<Longrightarrow> units_ahead (dicey_list_iter l) \<Longrightarrow> meets_units v"
| meets_first: "dicey_value_get_pair v = Ok (a, b) \<Longrightarrow> meets_units a \<Longrightarrow> meets_units v"
| meets_second: "dicey_value_get_pair v = Ok (a, b) \<Longrightarrow> meets_units b \<Longrightarrow> meets_units v"
| ahead_here: "dicey_iterator_has_next it \<Longrightarrow> it_type it = type_id DICEY_TYPE_UNIT \<Longrightarrow> units_ahead it"
| ahead_elem: "dicey_iterator_next it = Ok (v, it') \<Longrightarrow> meets_units v \<Longrightarrow> units_ahead it"
| ahead_rest: "dicey_iterator_next it = Ok (v, it') \<Longrightarrow> units_ahead it' \<Longrightarrow> units_ahead it"

lemma as_bad_msg_Ok [simp]: "as_bad_msg r = Ok x \<longleftrightarrow> r = Ok x"
  by (cases r) (simp_all add: as_bad_msg_def)

lemma pair_bytes:
  assumes "value_ok v" and "dicey_value_get_pair v = Ok (a, b)"
  shows "value_bytes a < value_bytes v" "value_bytes b < value_bytes v"
proof -
  obtain bs it' it'' where v: "val_data v = DataList DICEY_VARIANT_ID 2 (Some bs)"
    and a: "dicey_iterator_next \<lparr>it_type = DICEY_VARIANT_ID, it_data = Some bs\<rparr> = Ok (a, it')"
    and b: "dicey_iterator_next it' = Ok (b, it'')"
    using assms
    by (auto simp: dicey_value_get_pair_def value_ok_def Let_def outcome_simps dicey_list_iter_def
        split: if_splits)
  have "value_bytes a + view_len (it_data it') < length bs" "it_type it' = DICEY_VARIANT_ID"
    using iterator_next_size [OF a] by (simp_all add: view_len_def)
  moreover have "value_bytes b + view_len (it_data it'') < view_len (it_data it')"
    using iterator_next_size [OF b] calculation(2) by simp
  ultimately show "value_bytes a < value_bytes v" "value_bytes b < value_bytes v"
    using v by (simp_all add: value_bytes_def view_len_def)
qed

lemma pair_value_ok:
  "dicey_value_get_pair v = Ok (a, b) \<Longrightarrow> value_ok a \<and> value_ok b"
  by (auto simp: dicey_value_get_pair_def Let_def outcome_simps iterator_next_value_ok
      split: if_splits dicey_data_info.splits)

lemma get_list_bytes:
  "dicey_value_get_list v = Ok l \<Longrightarrow> view_len (it_data (dicey_list_iter l)) = value_bytes v"
  by (auto simp: dicey_value_get_list_def value_bytes_def dicey_list_iter_def
      split: if_splits dicey_data_info.splits)

lemma get_array_tuple [simp]:
  "val_type v = DICEY_TYPE_ARRAY \<Longrightarrow> dicey_value_get_array v = dicey_value_get_list v"
  "val_type v = DICEY_TYPE_TUPLE \<Longrightarrow> dicey_value_get_tuple v = dicey_value_get_list v"
  by (simp_all add: dicey_value_get_array_def dicey_value_get_tuple_def)

lemma then_ends:
  assumes "\<exists>r. x = Some r" and "\<exists>r. y = Some r"
  shows "\<exists>r. (case x of Some (Ok _) \<Rightarrow> y | r \<Rightarrow> r) = Some r"
proof -
  obtain r where "x = Some r"
    using assms(1) by blast
  then show ?thesis
    using assms(2) by (cases r) simp_all
qed

lemma validate_list_step_ends:
  assumes "\<not> units_ahead it"
    and elem: "\<And>v it'. dicey_iterator_next it = Ok (v, it') \<Longrightarrow>
      value_bytes v + view_len (it_data it') < view_len (it_data it) \<Longrightarrow>
      \<exists>r. rv v = Some r"
    and rest: "\<And>v it'. dicey_iterator_next it = Ok (v, it') \<Longrightarrow>
      value_bytes v + view_len (it_data it') < view_len (it_data it) \<Longrightarrow>
      \<exists>r. rl it' = Some r"
  shows "\<exists>r. validate_list_body rv rl it = Some r"
proof (cases "dicey_iterator_has_next it")
  case True
  then have "it_type it \<noteq> type_id DICEY_TYPE_UNIT"
    using assms(1) ahead_here by blast
  then have "\<exists>r. (case rv (fst p) of Some (Ok _) \<Rightarrow> rl (snd p) | r \<Rightarrow> r) = Some r"
    if "dicey_iterator_next it = Ok p" for p
    using that elem [of "fst p" "snd p"] rest [of "fst p" "snd p"]
      iterator_next_size(1) [of it "fst p" "snd p"] by (intro then_ends) simp_all
  then show ?thesis
    using True
    by (cases "dicey_iterator_next it") (simp_all add: validate_list_body_def case_prod_unfold)
qed (simp add: validate_list_body_def)

lemma validate_value_step_ends:
  assumes "value_ok v"
    and lst: "\<And>l. val_type v = DICEY_TYPE_ARRAY \<or> val_type v = DICEY_TYPE_TUPLE \<Longrightarrow>
      dicey_value_get_list v = Ok l \<Longrightarrow> \<exists>r. rl (dicey_list_iter l) = Some r"
    and pair: "\<And>a b. dicey_value_get_pair v = Ok (a, b) \<Longrightarrow>
      (\<exists>r. rv a = Some r) \<and> (\<exists>r. rv b = Some r)"
  shows "\<exists>r. validate_value_body rv rl v = Some r"
proof (cases "val_type v")
  case DICEY_TYPE_PAIR
  moreover have "\<exists>r. (case rv (fst p) of Some (Ok _) \<Rightarrow> rv (snd p) | r \<Rightarrow> r) = Some r"
    if "dicey_value_get_pair v = Ok p" for p
    using that pair [of "fst p" "snd p"] by (intro then_ends) simp_all
  ultimately show ?thesis
    by (cases "dicey_value_get_pair v") (simp_all add: validate_value_body_def case_prod_unfold)
next
  case DICEY_TYPE_ARRAY
  then show ?thesis
    using lst by (cases "dicey_value_get_list v") (auto simp: validate_value_body_def)
next
  case DICEY_TYPE_TUPLE
  then show ?thesis
    using lst by (cases "dicey_value_get_list v") (auto simp: validate_value_body_def)
qed (use assms(1) in \<open>auto simp: validate_value_body_def value_ok_def split: dicey_data_info.split\<close>)

text \<open>\<open>2 * n + 2\<close> calls are enough for a value of \<open>n\<close> bytes, \<open>2 * n + 1\<close> for the loop over a list.\<close>

definition ends_within :: "nat \<Rightarrow> bool" where
  "ends_within n \<longleftrightarrow>
     (\<forall>v. value_ok v \<longrightarrow> \<not> meets_units v \<longrightarrow> value_bytes v \<le> n \<longrightarrow>
        (\<exists>r. validate_value (2 * n + 2) v = Some r)) \<and>
     (\<forall>it. \<not> units_ahead it \<longrightarrow> view_len (it_data it) \<le> n \<longrightarrow>
        (\<exists>r. validate_value_list (2 * n + 1) it = Some r))"

lemma ends_within_value:
  assumes "ends_within n" "value_ok v" "\<not> meets_units v" "value_bytes v \<le> n" "2 * n + 2 \<le> k"
  shows "\<exists>r. validate_value k v = Some r"
  using assms validate_fuel_mono(1) [OF assms(5)] unfolding ends_within_def by blast

lemma ends_within_list:
  assumes "ends_within n" "\<not> units_ahead it" "view_len (it_data it) \<le> n" "2 * n + 1 \<le> k"
  shows "\<exists>r. validate_value_list k it = Some r"
  using assms validate_fuel_mono(2) [OF assms(4)] unfolding ends_within_def by blast

lemma validate_list_ends_step:
  assumes "\<And>m. m < n \<Longrightarrow> ends_within m" and it: "\<not> units_ahead it" "view_len (it_data it) \<le> n"
  shows "\<exists>r. validate_value_list (Suc (2 * n)) it = Some r"
  unfolding validate_value_list.simps
proof (rule validate_list_step_ends [OF it(1)])
  fix v it'
  assume nx: "dicey_iterator_next it = Ok (v, it')"
    and sz: "value_bytes v + view_len (it_data it') < view_len (it_data it)"
  then have n: "n - 1 < n" "value_bytes v \<le> n - 1" "view_len (it_data it') \<le> n - 1"
    using it(2) by simp_all
  have ok: "value_ok v" "\<not> meets_units v" "\<not> units_ahead it'"
    using iterator_next_value_ok [OF nx] ahead_elem [OF nx] ahead_rest [OF nx] it(1) by blast+
  have fuel: "2 * (n - 1) + 2 \<le> 2 * n" "2 * (n - 1) + 1 \<le> 2 * n"
    using n(1) by arith+
  show "\<exists>r. validate_value (2 * n) v = Some r"
    using ends_within_value [OF assms(1) [OF n(1)] ok(1,2) n(2) fuel(1)] .
  show "\<exists>r. validate_value_list (2 * n) it' = Some r"
    using ends_within_list [OF assms(1) [OF n(1)] ok(3) n(3) fuel(2)] .
qed

lemma validate_value_ends_step:
  assumes "\<And>m. m < n \<Longrightarrow> ends_within m" and v: "value_ok v" "\<not> meets_units v" "value_bytes v \<le> n"
  shows "\<exists>r. validate_value (Suc (Suc (2 * n))) v = Some r"
  unfolding validate_value.simps(2) [of "Suc (2 * n)"]
proof (rule validate_value_step_ends [OF v(1)])
  fix l
  assume "val_type v = DICEY_TYPE_ARRAY \<or> val_type v = DICEY_TYPE_TUPLE"
    and l: "dicey_value_get_list v = Ok l"
  then have "\<not> units_ahead (dicey_list_iter l)"
    using meets_list v(2) by blast
  then show "\<exists>r. validate_value_list (Suc (2 * n)) (dicey_list_iter l) = Some r"
    using validate_list_ends_step [OF assms(1)] get_list_bytes [OF l] v(3) by simp
next
  fix a b
  assume ab: "dicey_value_get_pair v = Ok (a, b)"
  have n: "n - 1 < n" "value_bytes a \<le> n - 1" "value_bytes b \<le> n - 1"
    using pair_bytes [OF v(1) ab] v(3) by simp_all
  have ok: "value_ok a" "value_ok b" "\<not> meets_units a" "\<not> meets_units b"
    using pair_value_ok [OF ab] meets_first [OF ab] meets_second [OF ab] v(2) by blast+
  have fuel: "2 * (n - 1) + 2 \<le> Suc (2 * n)"
    using n(1) by arith
  show "(\<exists>r. validate_value (Suc (2 * n)) a = Some r) \<and>
      (\<exists>r. validate_value (Suc (2 * n)) b = Some r)"
    using ends_within_value [OF assms(1) [OF n(1)] ok(1,3) n(2) fuel]
      ends_within_value [OF assms(1) [OF n(1)] ok(2,4) n(3) fuel] by blast
qed

lemma ends_within_all: "ends_within n"
proof (induction n rule: less_induct)
  case (less n)
  then show ?case
    using validate_list_ends_step [OF less] validate_value_ends_step [OF less]
    unfolding ends_within_def
    by (simp del: validate_value.simps validate_value_list.simps)
qed

lemma validate_ends:
  assumes "value_ok v" and "\<not> meets_units v" and "2 * value_bytes v + 2 \<le> fuel"
  shows "\<exists>r. validate_value fuel v = Some r"
  using ends_within_value [OF ends_within_all assms(1,2) order_refl assms(3)] .

section \<open>When it does not\<close>

lemma unit_iterator_stays:
  assumes "it_type it = type_id DICEY_TYPE_UNIT" and "dicey_iterator_has_next it"
  shows "dicey_iterator_next it = Ok (\<lparr>val_type = DICEY_TYPE_UNIT, val_data = DataNone\<rparr>, it)"
proof -
  obtain bs where "it_data it = Some bs"
    using assms(2) by (cases "it_data it") (auto simp: dicey_iterator_has_next_def view_len_def)
  then show ?thesis
    using assms
    by (cases it) (auto simp: dicey_iterator_next_def dtf_value_probe_as_def DTF_SIZE_DYNAMIC_def
        c_limits dicey_view_read_ptr_def dicey_view_read_def dicey_view_advance_def)
qed

lemma unit_list_diverges:
  assumes "it_type it = type_id DICEY_TYPE_UNIT" and "dicey_iterator_has_next it"
  shows "validate_value_list n it = None"
proof (induction n)
  case (Suc n)
  then show ?case
    using unit_iterator_stays [OF assms] assms(2)
    by (cases n) (simp_all add: validate_list_body_def validate_value_body_def)
qed simp

lemma validate_unit_array_diverges:
  assumes "bs \<noteq> []"
  shows "validate_value n
      \<lparr>val_type = DICEY_TYPE_ARRAY, val_data = DataList (type_id DICEY_TYPE_UNIT) k (Some bs)\<rparr> = None"
proof (cases n)
  case (Suc m)
  have "validate_value_list m \<lparr>it_type = type_id DICEY_TYPE_UNIT, it_data = Some bs\<rparr> = None"
    by (rule unit_list_diverges) (use assms in \<open>simp_all add: dicey_iterator_has_next_def view_len_def\<close>)
  then show ?thesis
    by (simp add: Suc validate_value_body_def dicey_value_get_list_def dicey_list_iter_def)
qed simp

section \<open>Validation accepts what the writer writes\<close>

text \<open>
  Every well-formed argument, that is, but one that holds an empty byte string: those are
  rejected.
\<close>

fun no_empty_bytes :: "dicey_arg \<Rightarrow> bool" where
  "no_empty_bytes (ArgArray t es) = list_all no_empty_bytes es"
| "no_empty_bytes (ArgTuple es) = list_all no_empty_bytes es"
| "no_empty_bytes (ArgPair a b) = (no_empty_bytes a \<and> no_empty_bytes b)"
| "no_empty_bytes (ArgBytes bs) = (view_len bs > 0)"
| "no_empty_bytes _ = True"

lemma value_bytes_enc: "arg_wf a \<Longrightarrow> value_bytes (value_of_arg a) < length (enc_variant a)"
  by (cases a) (auto simp: value_bytes_def value_of_arg_def enc_variant_def view_len_def Let_def
      enc_variant_def [abs_def])

lemma value_bytes_content:
  "arg_wf a \<Longrightarrow> enc_content a \<noteq> [] \<Longrightarrow> value_bytes (value_of_arg a) < length (enc_content a)"
  by (cases a) (auto simp: value_bytes_def value_of_arg_def enc_variant_def view_len_def Let_def
      DICEY_UUID_SIZE_def
      enc_variant_def [abs_def])

lemma value_bytes_elem:
  assumes "arg_wf e" and "t = DICEY_VARIANT_ID \<or> t = type_id (arg_type e)"
    and "elem_bytes t e \<noteq> []"
  shows "value_bytes (value_of_arg e) < length (elem_bytes t e)"
  using assms value_bytes_enc value_bytes_content by auto

text \<open>\<open>accepted n v\<close>: validation of \<open>v\<close> succeeds with any fuel from \<open>2 * n + 2\<close> on.\<close>

definition accepted :: "nat \<Rightarrow> dicey_value \<Rightarrow> bool" where
  "accepted n v \<longleftrightarrow> (\<forall>k \<ge> 2 * n + 2. validate_value k v = Some (Ok ()))"

lemma validate_list_enc:
  assumes "list_all arg_wf es"
    and "\<And>e. e \<in> set es \<Longrightarrow> t = DICEY_VARIANT_ID \<or> t = type_id (arg_type e)"
    and "\<And>e. e \<in> set es \<Longrightarrow> elem_bytes t e \<noteq> []"
    and "length (concat (map (elem_bytes t) es)) \<le> PTRDIFF_MAX"
    and "\<And>e. e \<in> set es \<Longrightarrow> accepted (value_bytes (value_of_arg e)) (value_of_arg e)"
    and "2 * length (concat (map (elem_bytes t) es)) + 1 \<le> k"
  shows "validate_value_list k \<lparr>it_type = t, it_data = Some (concat (map (elem_bytes t) es))\<rparr>
    = Some (Ok ())"
  using assms
proof (induction es arbitrary: k)
  case Nil
  then show ?case
    by (cases k) (simp_all add: validate_list_body_def dicey_iterator_has_next_def view_len_def)
next
  case (Cons e es)
  let ?rest = "concat (map (elem_bytes t) es)"
  obtain n where k: "k = Suc n"
    using Cons.prems(6) by (cases k) simp_all
  have e: "arg_wf e" "t = DICEY_VARIANT_ID \<or> t = type_id (arg_type e)" "elem_bytes t e \<noteq> []"
    "length (elem_bytes t e) \<le> PTRDIFF_MAX"
    "accepted (value_bytes (value_of_arg e)) (value_of_arg e)"
    using Cons.prems by simp_all
  have "0 < length (elem_bytes t e)"
    using e(3) by simp
  then have n: "2 * value_bytes (value_of_arg e) + 2 \<le> n" "2 * length ?rest + 1 \<le> n"
    using Cons.prems(6) value_bytes_elem [OF e(1-3)] k by simp_all
  have "validate_value n (value_of_arg e) = Some (Ok ())"
    using e(5) n(1) unfolding accepted_def by blast
  moreover have "validate_value_list n \<lparr>it_type = t, it_data = Some ?rest\<rparr> = Some (Ok ())"
    using Cons.prems n(2) by (intro Cons.IH) simp_all
  moreover have "dicey_iterator_has_next \<lparr>it_type = t, it_data = Some (elem_bytes t e @ ?rest)\<rparr>"
    using e(3) by (simp add: dicey_iterator_has_next_def view_len_def)
  ultimately show ?case
    using iterator_next_enc [OF e(1-4), of ?rest] by (simp add: k validate_list_body_def)
qed

lemma arg_type_unit_iff [simp]: "arg_type a = DICEY_TYPE_UNIT \<longleftrightarrow> a = ArgUnit"
  by (cases a) simp_all

lemma validate_container:
  assumes "list_all arg_wf es"
    and "\<And>e. e \<in> set es \<Longrightarrow> t = DICEY_VARIANT_ID \<or> t = type_id (arg_type e)"
    and "length (concat (map (elem_bytes t) es)) \<le> UINT32_MAX"
    and "\<And>e. e \<in> set es \<Longrightarrow> accepted (value_bytes (value_of_arg e)) (value_of_arg e)"
    and "val_type v = DICEY_TYPE_ARRAY \<or> val_type v = DICEY_TYPE_TUPLE"
    and "dicey_value_get_list v =
      Ok \<lparr>it_type = t, it_data = Some (concat (map (elem_bytes t) es))\<rparr>"
  shows "accepted (length (concat (map (elem_bytes t) es))) v"
  unfolding accepted_def
proof (intro allI impI)
  fix k assume k: "2 * length (concat (map (elem_bytes t) es)) + 2 \<le> k"
  then obtain n where n: "k = Suc n" "2 * length (concat (map (elem_bytes t) es)) + 1 \<le> n"
    by (cases k) simp_all
  have "validate_value_list n \<lparr>it_type = t, it_data = Some (concat (map (elem_bytes t) es))\<rparr>
      = Some (Ok ())"
  proof (cases "\<forall>e \<in> set es. elem_bytes t e \<noteq> []")
    case True
    have "length (concat (map (elem_bytes t) es)) \<le> PTRDIFF_MAX"
      using assms(3) by (simp add: c_limits)
    then show ?thesis
      using validate_list_enc [OF assms(1,2) _ _ assms(4) n(2)] True by blast
  next
    case False
    then obtain e where e: "e \<in> set es" "elem_bytes t e = []"
      by blast
    moreover have "t \<noteq> DICEY_VARIANT_ID"
      using e(2) by (auto simp: enc_variant_def)
    ultimately have "t = type_id DICEY_TYPE_UNIT"
      using assms(1,2) enc_content_empty_iff by (fastforce simp: list_all_iff)
    then have "\<forall>e \<in> set es. e = ArgUnit"
      using assms(2) arg_type_unit_iff by fastforce
    then have "\<forall>x \<in> set es. elem_bytes t x = []"
      using e by metis
    then have "concat (map (elem_bytes t) es) = []"
      by simp
    then show ?thesis
      using n(2) by (cases n) (simp_all add: validate_list_body_def dicey_iterator_has_next_def
          view_len_def)
  qed
  then show "validate_value k v = Some (Ok ())"
    using assms(5,6) by (auto simp: n(1) validate_value_body_def dicey_list_iter_def)
qed

lemma validate_pair:
  assumes "arg_wf (ArgPair a b)" and "accepted (value_bytes (value_of_arg a)) (value_of_arg a)"
    and "accepted (value_bytes (value_of_arg b)) (value_of_arg b)"
  shows "accepted (value_bytes (value_of_arg (ArgPair a b))) (value_of_arg (ArgPair a b))"
  unfolding accepted_def
proof (intro allI impI)
  let ?v = "value_of_arg (ArgPair a b)"
  fix k assume k: "2 * value_bytes ?v + 2 \<le> k"
  have bytes: "value_bytes ?v = length (enc_variant a) + length (enc_variant b)"
    by (simp add: value_bytes_def value_of_arg_def view_len_def)
  have less: "value_bytes (value_of_arg a) < value_bytes ?v" "value_bytes (value_of_arg b) < value_bytes ?v"
    using value_bytes_enc [of a] value_bytes_enc [of b] assms(1) bytes by auto
  obtain j where j: "k = Suc j" "2 * value_bytes (value_of_arg a) + 2 \<le> j"
    "2 * value_bytes (value_of_arg b) + 2 \<le> j"
    using k less by (cases k) auto
  then have "validate_value j (value_of_arg a) = Some (Ok ())"
    "validate_value j (value_of_arg b) = Some (Ok ())"
    using assms(2,3) unfolding accepted_def by blast+
  then show "validate_value k ?v = Some (Ok ())"
    using get_pair_enc [OF assms(1)]
    by (simp add: j(1) validate_value_body_def value_of_arg_def [of "ArgPair a b"])
qed

lemma leaf_accepted:
  assumes "arg_wf a" and "no_empty_bytes a" and "\<not> dicey_type_is_container (arg_type a)"
  shows "accepted n (value_of_arg a)"
proof -
  have "validate_value (Suc k) (value_of_arg a) = Some (Ok ())" for k
    using assms
    by (cases a) (auto simp: validate_value_body_def value_of_arg_def view_len_def
        dicey_type_is_container_def)
  then show ?thesis
    unfolding accepted_def by (metis Suc_le_D add_2_eq_Suc')
qed

lemma arg_accepted:
  "arg_wf a \<Longrightarrow> no_empty_bytes a \<Longrightarrow> accepted (value_bytes (value_of_arg a)) (value_of_arg a)"
proof (induction a)
  case (ArgArray t es)
  have "accepted (length (concat (map (elem_bytes (type_id t)) es))) (value_of_arg (ArgArray t es))"
    using ArgArray get_list_enc(1) [of t es]
    by (intro validate_container) (auto simp: list_all_iff value_of_arg_def)
  then show ?case
    by (simp add: value_bytes_def value_of_arg_def view_len_def)
next
  case (ArgTuple es)
  have "accepted (length (concat (map (elem_bytes DICEY_VARIANT_ID) es))) (value_of_arg (ArgTuple es))"
    using ArgTuple get_list_enc(2) [of es]
    by (intro validate_container) (auto simp: list_all_iff value_of_arg_def)
  then show ?case
    by (simp add: value_bytes_def value_of_arg_def view_len_def)
next
  case (ArgPair a b)
  then show ?case
    by (intro validate_pair) simp_all
qed (rule leaf_accepted; simp add: dicey_type_is_container_def)+

lemma empty_bytes_rejected:
  "validate_value (Suc k) (value_of_arg (ArgBytes (Some []))) = Some (Err DICEY_EINVAL)"
  by (simp add: validate_value_body_def value_of_arg_def)

end
