(* ===== verification/Dicey_Packet_Facts.thy ===== *)
theory Dicey_Packet_Facts
  imports Dicey_Validation
begin

text \<open>
  What packets guarantee: framing of the byte stream, definedness on whatever was loaded, and
  round trips of messages, greetings and farewells.
\<close>

section \<open>Reading messages\<close>

definition value_of_opt :: "dicey_arg option \<Rightarrow> dicey_value" where
  "value_of_opt arg = (case arg of Some a \<Rightarrow> value_of_arg a | None \<Rightarrow> no_value)"

definition message_of ::
  "dicey_op \<Rightarrow> cstring \<Rightarrow> dicey_selector \<Rightarrow> dicey_arg option \<Rightarrow> dicey_message"
where
  "message_of op path sel arg =
     \<lparr>msg_type = op, msg_path = path, msg_selector = sel, msg_value = value_of_opt arg\<rparr>"

text \<open>A message the library can send: a payload exactly when the operation requires one.\<close>

definition message_ok :: "dicey_op \<Rightarrow> cstring \<Rightarrow> dicey_selector \<Rightarrow> dicey_arg option \<Rightarrow> bool" where
  "message_ok op path sel arg \<longleftrightarrow>
     dicey_op_is_valid op \<and> (arg \<noteq> None) = dicey_op_requires_payload op \<and>
     address_ok path sel (length (body_of arg)) \<and>
     (\<forall>a. arg = Some a \<longrightarrow> arg_wf a)"

lemma kind_of_op_message [simp]:
  "is_message (kind_of_op op) \<longleftrightarrow> dicey_op_is_valid op"
  "msgkind_from_dtf (kind_of_op op) = op"
  "dicey_op_is_valid op \<Longrightarrow> pktkind_from_dtf (kind_of_op op) = DICEY_PACKET_KIND_MESSAGE"
  "dicey_op_is_valid op \<Longrightarrow> (kind_of_op op \<noteq> DTF_PAYLOAD_GET) = dicey_op_requires_payload op"
  by (cases op; simp add: is_message_def dicey_op_is_valid_def dicey_op_requires_payload_def)+

lemma op_invalid [simp]: "\<not> dicey_op_is_valid DICEY_OP_INVALID"
  by (simp add: dicey_op_is_valid_def)

lemma enc_message_kind_seq [simp]:
  "dtf_payload_get_kind (enc_message kind seq path sel body) = Ok kind"
  "dtf_payload_get_seq (enc_message kind seq path sel body) = Ok seq"
  by (simp_all add: enc_message_def)

lemma body_empty_iff [simp]: "body_of arg = [] \<longleftrightarrow> arg = None"
  by (simp add: body_of_def enc_variant_def split: option.split)

lemma as_message_enc:
  assumes "message_ok op path sel arg"
  shows "dicey_packet_as_message (enc_message (kind_of_op op) seq path sel (body_of arg)) =
    Ok (message_of op path sel arg)"
proof -
  have ok: "dicey_op_is_valid op" "op \<noteq> DICEY_OP_INVALID"
    "address_ok path sel (length (body_of arg))"
    using assms by (auto simp: message_ok_def)
  show ?thesis
  proof (cases arg)
    case None
    then show ?thesis
      using ok get_content_enc [OF ok(3)]
      by (simp add: dicey_packet_as_message_def dtf_payload_kind_is_message_def message_of_def
          value_of_opt_def Let_def)
  next
    case (Some a)
    have a: "arg_wf a" "length (enc_variant a) \<le> PTRDIFF_MAX" "dicey_op_requires_payload op"
      using assms Some by (auto simp: message_ok_def address_ok_def body_of_def c_limits)
    then have "dtf_value_probe (Some (body_of arg)) =
        Ok (length (enc_variant a), value_of_arg a, Some [])"
      using probe_enc [of a "[]"] Some by (simp add: body_of_def)
    then show ?thesis
      using ok get_content_enc [OF ok(3)] a(3) Some
      by (simp add: dicey_packet_as_message_def dtf_payload_kind_is_message_def message_of_def
          value_of_opt_def Let_def view_len_def)
  qed
qed

section \<open>Framing\<close>

lemma get_kind_payload:
  "12 \<le> length bs \<Longrightarrow>
     dicey_packet_get_kind bs = Ok (pktkind_from_dtf (kind_of_id (le_dec (take 4 bs))))"
  by (simp add: dicey_packet_get_kind_def dtf_payload_get_kind_def Let_def is_kind_invalid_def
      split: dtf_payload_kind.split)

lemma pktkind_valid [simp]:
  "dicey_packet_kind_is_valid (pktkind_from_dtf k) \<longleftrightarrow> k \<noteq> DTF_PAYLOAD_INVALID"
  by (cases k) (simp_all add: dicey_packet_kind_is_valid_def)

text \<open>The checks of \<open>dicey_packet_load\<close> on the packet it copied.\<close>

definition validate_packet :: "nat \<Rightarrow> dicey_packet \<Rightarrow> unit result option" where
  "validate_packet fuel packet =
     (case pktkind_from_dtf (kind_of_id (le_dec (take 4 packet))) of
        DICEY_PACKET_KIND_BYE \<Rightarrow> Some (validate_bye packet)
      | DICEY_PACKET_KIND_MESSAGE \<Rightarrow> validate_message fuel packet
      | _ \<Rightarrow> Some (Ok ()))"

lemma packet_load_cases:
  "dicey_packet_load fuel alloc (Some bs) =
    (if length bs < 8 then Some (Err DICEY_EAGAIN)
     else if kind_of_id (le_dec (take 4 bs)) = DTF_PAYLOAD_INVALID then Some (Err DICEY_EBADMSG)
     else if length bs < 12 \<or> length bs < payload_size bs then Some (Err DICEY_EAGAIN)
     else if \<not> alloc (payload_size bs) then Some (Err DICEY_ENOMEM)
     else case validate_packet fuel (take (payload_size bs) bs) of
        Some (Ok _) \<Rightarrow> Some (Ok (take (payload_size bs) bs, Some (drop (payload_size bs) bs)))
      | Some (Err e) \<Rightarrow> Some (Err (if e = DICEY_EINVAL then DICEY_EBADMSG else e))
      | Some Undef \<Rightarrow> Some Undef
      | None \<Rightarrow> None)"
proof -
  have "12 \<le> payload_size bs"
    by (simp add: payload_size_def)
  then have "12 \<le> length (take (payload_size bs) bs)" if "12 \<le> length bs" "payload_size bs \<le> length bs"
    using that by simp
  then show ?thesis
    using \<open>12 \<le> payload_size bs\<close>
    by (auto simp: dicey_packet_load_def payload_load_cases get_kind_payload min_def
        validate_packet_def)
qed

lemma packet_load_OkD:
  assumes "dicey_packet_load fuel alloc (Some bs) = Some (Ok (packet, rest))"
  shows "\<exists>ys. bs = packet @ ys \<and> rest = Some ys" "payload_ok packet"
    "validate_packet fuel packet = Some (Ok ())" "alloc (length packet)"
proof -
  let ?n = "payload_size bs"
  have n: "12 \<le> ?n" "?n \<le> length bs" "packet = take ?n bs" "rest = Some (drop ?n bs)"
    and kind: "kind_of_id (le_dec (take 4 bs)) \<noteq> DTF_PAYLOAD_INVALID"
    and ok: "validate_packet fuel (take ?n bs) = Some (Ok ())" "alloc ?n"
    using assms
    by (auto simp: packet_load_cases payload_size_def [of bs]
        split: if_splits option.splits outcome.splits)
  show "\<exists>ys. bs = packet @ ys \<and> rest = Some ys"
    using n by (intro exI [of _ "drop ?n bs"]) simp
  have "payload_size packet = ?n"
    using payload_size_take [OF n(1)] n(3) by simp
  moreover have "take 4 packet = take 4 bs"
    using n(1,3) by (simp add: min_def)
  ultimately show "payload_ok packet"
    using n kind by (simp add: payload_ok_def)
  show "validate_packet fuel packet = Some (Ok ())" "alloc (length packet)"
    using ok n by simp_all
qed

lemma packet_load_validated:
  assumes "payload_ok packet" and "alloc (length packet)"
  shows "dicey_packet_load fuel alloc (Some (packet @ rest)) =
    (case validate_packet fuel packet of
       Some (Ok _) \<Rightarrow> Some (Ok (packet, Some rest))
     | Some (Err e) \<Rightarrow> Some (Err (if e = DICEY_EINVAL then DICEY_EBADMSG else e))
     | Some Undef \<Rightarrow> Some Undef
     | None \<Rightarrow> None)"
proof -
  have p: "12 \<le> length packet" "payload_size (packet @ rest) = length packet"
    "take 4 (packet @ rest) = take 4 packet"
    "kind_of_id (le_dec (take 4 packet)) \<noteq> DTF_PAYLOAD_INVALID"
    using assms(1) payload_size_append [of packet rest] by (auto simp: payload_ok_def)
  then show ?thesis
    unfolding packet_load_cases p(2,3) using assms(2)
    by (simp split: option.split outcome.split)
qed

lemma packet_load_intro:
  assumes "payload_ok packet" and "validate_packet fuel packet = Some (Ok ())" and "alloc (length packet)"
  shows "dicey_packet_load fuel alloc (Some (packet @ rest)) = Some (Ok (packet, Some rest))"
  using packet_load_validated [of packet alloc, OF assms(1,3)] assms(2) by simp

lemma prefix_incomplete:
  assumes "payload_ok packet" and "n < length packet"
  shows "dicey_packet_load fuel alloc (Some (take n packet)) = Some (Err DICEY_EAGAIN)"
proof (cases "n < 12")
  case True
  have "take 4 (take n packet) = take 4 packet" if "8 \<le> n"
    using that by simp
  then show ?thesis
    using True assms by (auto simp: packet_load_cases payload_ok_def not_less)
next
  case False
  then have "payload_size (take n packet) = payload_size packet" "take 4 (take n packet) = take 4 packet"
    by (simp_all add: payload_size_take)
  then show ?thesis
    using False assms by (auto simp: packet_load_cases payload_ok_def)
qed

section \<open>Messages survive the wire\<close>

lemma enc_message_payload_ok:
  assumes "is_message kind" and "address_ok path sel (length body)"
  shows "payload_ok (enc_message kind seq path sel body)"
proof -
  let ?msg = "enc_message kind seq path sel body"
  have "take 4 ?msg = le_enc 4 (kind_id kind)"
    "take 4 (drop 8 ?msg) = le_enc 4 (length (message_trailer path sel body))"
    by (simp_all add: enc_message_def header_fields)
  moreover have "length (message_trailer path sel body) \<le> UINT32_MAX"
    using assms(2) by (simp add: address_ok_def message_trailer_def)
  ultimately show ?thesis
    using assms(1)
    by (auto simp: payload_ok_def payload_size_def length_enc_message message_trailer_def
        is_message_def)
qed

lemma enc_message_validates:
  assumes "message_ok op path sel arg" and "\<And>a. arg = Some a \<Longrightarrow> no_empty_bytes a"
    and "2 * length (enc_message (kind_of_op op) seq path sel (body_of arg)) \<le> fuel"
  shows "validate_packet fuel (enc_message (kind_of_op op) seq path sel (body_of arg)) = Some (Ok ())"
proof -
  let ?msg = "enc_message (kind_of_op op) seq path sel (body_of arg)"
  have op: "dicey_op_is_valid op" "(arg \<noteq> None) = dicey_op_requires_payload op"
    using assms(1) by (simp_all add: message_ok_def)
  have "take 4 ?msg = le_enc 4 (kind_id (kind_of_op op))"
    by (simp add: enc_message_def header_fields)
  then have "validate_packet fuel ?msg = validate_message fuel ?msg"
    using op(1) by (simp add: validate_packet_def)
  moreover have "validate_value fuel (value_of_arg a) = Some (Ok ())" if "arg = Some a" for a
  proof -
    have "value_bytes (value_of_arg a) < length (body_of arg)"
      using assms(1) that value_bytes_enc by (simp add: message_ok_def body_of_def)
    then have "2 * value_bytes (value_of_arg a) + 2 \<le> fuel"
      using assms(3) by (simp add: length_enc_message)
    then show ?thesis
      using arg_accepted [of a] assms(1,2) that by (simp add: message_ok_def accepted_def)
  qed
  ultimately show ?thesis
    using as_message_enc [OF assms(1), of seq] op(2)
    by (cases arg) (auto simp: validate_message_def message_of_def value_of_opt_def)
qed

section \<open>Definedness\<close>

lemma get_content_defined:
  assumes "12 \<le> length bs" and "length bs = 12 + le_dec (take 4 (drop 8 bs))"
  shows "dtf_message_get_content bs (length bs) \<noteq> Undef"
proof -
  obtain t where t: "le_dec (take 4 (drop 8 bs)) = t" "length bs = 12 + t"
    using assms(2) by blast
  then have "message_get_trailer_size bs = Ok t"
    using assms(1) by (simp add: message_get_trailer_size_def)
  then show ?thesis
    using t(2) by (simp add: dtf_message_get_content_def outcome_simps case_prod_unfold)
qed

lemma get_kind_ok:
  "8 \<le> length bs \<Longrightarrow> dtf_payload_get_kind bs = Ok (kind_of_id (le_dec (take 4 bs)))"
  by (simp add: dtf_payload_get_kind_def Let_def is_kind_invalid_def split: dtf_payload_kind.split)

lemma payload_okD:
  assumes "payload_ok bs"
  shows "12 \<le> length bs" "8 \<le> length bs" "dtf_payload_get_kind bs = Ok (kind_of_id (le_dec (take 4 bs)))"
    "kind_of_id (le_dec (take 4 bs)) \<noteq> DTF_PAYLOAD_INVALID"
  using assms by (auto simp: payload_ok_def get_kind_ok)

lemma as_message_defined:
  assumes "payload_ok bs"
  shows "dicey_packet_as_message bs \<noteq> Undef"
proof -
  let ?kind = "kind_of_id (le_dec (take 4 bs))"
  have "dtf_message_get_content bs (length bs) \<noteq> Undef" if "is_message ?kind"
  proof (rule get_content_defined [OF payload_okD(1) [OF assms]])
    have "length bs = payload_size bs"
      using assms unfolding payload_ok_def by blast
    also have "\<dots> = 12 + le_dec (take 4 (drop 8 bs))"
      using that by (simp add: payload_size_def)
    finally show "length bs = 12 + le_dec (take 4 (drop 8 bs))" .
  qed
  then show ?thesis
    using payload_okD(3) [OF assms]
    by (auto simp: dicey_packet_as_message_def Let_def outcome_simps
        dtf_payload_kind_is_message_def split: if_splits)
qed

lemma as_message_value_ok:
  assumes "dicey_packet_as_message bs = Ok msg"
  shows "msg_value msg = no_value \<or> value_ok (msg_value msg)"
  using assms
  by (auto simp: dicey_packet_as_message_def outcome_simps Let_def split: if_splits
      dest: probe_value_ok)

lemma validate_value_body_defined:
  assumes "value_ok v" and "\<And>w. value_ok w \<Longrightarrow> rv w \<noteq> Some Undef" and "\<And>it. rl it \<noteq> Some Undef"
  shows "validate_value_body rv rl v \<noteq> Some Undef"
proof (cases "val_type v")
  case DICEY_TYPE_PAIR
  show ?thesis
  proof (cases "dicey_value_get_pair v")
    case (Ok p)
    then have "rv (fst p) \<noteq> Some Undef" "rv (snd p) \<noteq> Some Undef"
      using pair_value_ok [of v "fst p" "snd p"] assms(2) by simp_all
    then show ?thesis
      using Ok DICEY_TYPE_PAIR
      by (auto simp: validate_value_body_def case_prod_unfold split: option.splits outcome.splits)
  qed (use DICEY_TYPE_PAIR get_pair_defined [OF assms(1)] in \<open>auto simp: validate_value_body_def\<close>)
qed (use assms get_list_defined [OF assms(1)] in
    \<open>auto simp: validate_value_body_def value_ok_def split: outcome.splits if_splits\<close>)

lemma validate_list_body_defined:
  assumes "\<And>w. value_ok w \<Longrightarrow> rv w \<noteq> Some Undef" and "\<And>it. rl it \<noteq> Some Undef"
  shows "validate_list_body rv rl it \<noteq> Some Undef"
proof (cases "dicey_iterator_next it")
  case (Ok p)
  then have "rv (fst p) \<noteq> Some Undef"
    using iterator_next_value_ok [of it "fst p" "snd p"] assms(1) by simp
  then show ?thesis
    using Ok assms(2)
    by (auto simp: validate_list_body_def case_prod_unfold split: option.splits outcome.splits)
qed (auto simp: validate_list_body_def)

lemma validate_defined:
  "(\<forall>v. value_ok v \<longrightarrow> validate_value n v \<noteq> Some Undef) \<and> (\<forall>it. validate_value_list n it \<noteq> Some Undef)"
proof (induction n)
  case (Suc n)
  then show ?case
    using validate_value_body_defined validate_list_body_defined by simp
qed simp

lemma validate_no_value: "validate_value n no_value \<noteq> Some Undef"
  by (cases n) (simp_all add: no_value_def validate_value_body_def)

lemma validate_message_defined:
  assumes "payload_ok bs"
  shows "validate_message fuel bs \<noteq> Some Undef"
proof (cases "dicey_packet_as_message bs")
  case (Ok msg)
  then have "validate_value fuel (msg_value msg) \<noteq> Some Undef"
    using as_message_value_ok [OF Ok] validate_no_value validate_defined by metis
  then show ?thesis
    using Ok by (simp add: validate_message_def)
qed (use as_message_defined [OF assms] in \<open>simp_all add: validate_message_def\<close>)

lemma validate_bye_defined: "payload_ok bs \<Longrightarrow> validate_bye bs \<noteq> Undef"
  using payload_okD [of bs]
  by (auto simp: validate_bye_def dicey_packet_as_bye_def head_field_def outcome_simps split: if_splits)

lemma packet_load_defined: "dicey_packet_load fuel alloc data \<noteq> Some Undef"
proof (cases data)
  case None
  then show ?thesis by (simp add: dicey_packet_load_def)
next
  case (Some bs)
  let ?p = "take (payload_size bs) bs"
  have size: "12 \<le> payload_size bs"
    by (simp add: payload_size_def)
  have "validate_packet fuel ?p \<noteq> Some Undef"
    if "12 \<le> length bs" "payload_size bs \<le> length bs"
      "kind_of_id (le_dec (take 4 bs)) \<noteq> DTF_PAYLOAD_INVALID"
  proof -
    have ok: "payload_ok ?p"
      using that size payload_size_take [OF size, of bs] by (simp add: payload_ok_def min_def)
    show ?thesis
      using validate_message_defined [OF ok] validate_bye_defined [OF ok]
      by (simp add: validate_packet_def split: dicey_packet_kind.split)
  qed
  then show ?thesis
    by (auto simp: Some packet_load_cases split: option.splits outcome.splits) blast
qed

section \<open>Greetings and farewells\<close>

lemma head_write_eq:
  "dtf_head_write kind alloc (replicate 12 0) \<lparr>vm_data = Some 0, vm_len = 12\<rparr> seq field =
     Ok (\<lparr>res_result = 0, res_size = 12, res_data = Some 12\<rparr>, message_header kind seq (unat field))"
  by (simp add: dtf_head_write_def dicey_view_mut_ensure_cap_def view_write_eq overwrite_whole)

lemma packet_bye_eq:
  "alloc 12 \<Longrightarrow> dicey_packet_bye alloc seq reason =
     Ok (message_header DTF_PAYLOAD_BYE seq (unat (reason_id reason)))"
  by (simp add: dicey_packet_bye_def packet_with_head_def dtf_bye_write_def head_write_eq)

lemma packet_hello_eq:
  "alloc 12 \<Longrightarrow> dicey_packet_hello alloc seq version =
     Ok (message_header DTF_PAYLOAD_HELLO seq (unat (version_to_dtf version)))"
  by (simp add: dicey_packet_hello_def packet_with_head_def dtf_hello_write_def head_write_eq)

lemma head_field_header [simp]:
  "head_field (message_header kind seq (unat (f :: 32 word))) = Ok f"
  by (simp add: head_field_def header_fields)

lemma get_kind_header [simp]:
  "dtf_payload_get_kind (message_header kind seq t) = Ok kind"
  "dtf_payload_get_seq (message_header kind seq t) = Ok seq"
  using header_kind_seq [of kind seq t "[]"] by simp_all

lemma header_payload_ok:
  "kind = DTF_PAYLOAD_HELLO \<or> kind = DTF_PAYLOAD_BYE \<Longrightarrow> payload_ok (message_header kind seq t)"
  by (auto simp: payload_ok_def payload_size_def header_fields is_message_def kind_of_id_def)

lemma reason_of_id_id [simp]: "reason_of_id (reason_id r) = r"
  by (cases r) (simp_all add: reason_of_id_def)

lemma version_dtf_roundtrip: "version_from_dtf (version_to_dtf v) = v"
proof -
  have r: "unat (revision v) < 65536" and m: "unat (major v) < 65536"
    using unsigned_less [of "revision v"] unsigned_less [of "major v"] by simp_all
  have "unat (version_to_dtf v) = unat (major v) * 65536 + unat (revision v)"
    unfolding version_to_dtf_def unat_of_nat using r m by simp
  then show ?thesis
    using r by (cases v) (simp add: version_from_dtf_def)
qed

lemma header_kind_id: "kind_of_id (le_dec (take 4 (message_header kind seq t))) = kind"
  by (simp add: header_fields)

section \<open>Sequence numbers\<close>

lemma set_seq_eq:
  assumes "12 \<le> length bs"
  shows "dicey_packet_set_seq bs seq = Ok (take 4 bs @ le_enc 4 (unat seq) @ drop 8 bs)"
proof -
  have "dicey_view_mut_write bs \<lparr>vm_data = Some 4, vm_len = 4\<rparr> (Some (le_enc 4 (unat seq))) =
      Ok (4, overwrite bs 4 (le_enc 4 (unat seq)), \<lparr>vm_data = Some 8, vm_len = 0\<rparr>)"
    using assms by (simp add: view_write_eq)
  then show ?thesis
    by (simp add: dicey_packet_set_seq_def dtf_payload_set_seq_def overwrite_def)
qed

lemma get_set_seq:
  assumes "12 \<le> length bs"
  shows "dicey_packet_get_seq (take 4 bs @ le_enc 4 (unat seq) @ drop 8 bs) = Ok seq"
  using assms by (simp add: dicey_packet_get_seq_def dtf_payload_get_seq_def)

lemma set_seq_same:
  assumes "12 \<le> length bs"
  shows "take 4 (take 4 bs @ le_enc 4 (unat seq) @ drop 8 bs) = take 4 bs"
    "drop 8 (take 4 bs @ le_enc 4 (unat seq) @ drop 8 bs) = drop 8 bs"
    "length (take 4 bs @ le_enc 4 (unat seq) @ drop 8 bs) = length bs"
  using assms by simp_all

lemma as_message_only_kind_and_trailer:
  assumes "12 \<le> length a" and "length a = length b" and "take 4 a = take 4 b" and "drop 8 a = drop 8 b"
  shows "dicey_packet_as_message a = dicey_packet_as_message b"
proof -
  have "drop 12 a = drop 12 b"
    using arg_cong [OF assms(4), of "drop 4"] by simp
  then have content: "dtf_message_get_content a (length a) = dtf_message_get_content b (length b)"
    using assms by (simp add: dtf_message_get_content_def message_get_trailer_size_def)
  have kind: "dtf_payload_get_kind a = dtf_payload_get_kind b"
    using assms by (simp add: dtf_payload_get_kind_def)
  show ?thesis
    unfolding dicey_packet_as_message_def content kind ..
qed

section \<open>The shape of a message\<close>

definition selector_read :: "dicey_selector \<Rightarrow> bool" where
  "selector_read sel \<longleftrightarrow> dicey_selector_is_valid sel \<and>
     cstring_ok (opt_str (sel_trait sel)) \<and> cstring_ok (opt_str (sel_elem sel))"

lemma selector_from_OkD:
  assumes "dtf_selector_from v = Ok (n, sel, v')"
  shows "\<exists>rest. v = Some (selector_bytes sel @ rest) \<and> v' = Some rest \<and> selector_read sel"
  using assms
  by (auto simp: dtf_selector_from_def outcome_simps selector_bytes_def zstring_def opt_str_def
      dicey_selector_is_valid_def selector_read_def dest!: add_read_OkD dicey_view_as_zstring_OkD)

lemma kind_id_of_id: "kind_of_id n \<noteq> DTF_PAYLOAD_INVALID \<Longrightarrow> kind_id (kind_of_id n) = n"
  by (auto simp: kind_of_id_def)

lemma header_shape:
  assumes "12 \<le> length bs" and "kind_of_id (le_dec (take 4 bs)) \<noteq> DTF_PAYLOAD_INVALID"
  shows "bs = message_header (kind_of_id (le_dec (take 4 bs))) (word_of_nat (le_dec (take 4 (drop 4 bs))))
      (le_dec (take 4 (drop 8 bs))) @ drop 12 bs"
proof -
  have "le_enc 4 (le_dec (take 4 bs)) = take 4 bs"
    "le_enc 4 (le_dec (take 4 (drop 4 bs))) = take 4 (drop 4 bs)"
    "le_enc 4 (le_dec (take 4 (drop 8 bs))) = take 4 (drop 8 bs)"
    using assms(1) le_enc_dec [of "take 4 bs"] le_enc_dec [of "take 4 (drop 4 bs)"]
      le_enc_dec [of "take 4 (drop 8 bs)"] by simp_all
  moreover have "unat (word_of_nat (le_dec (take 4 (drop 4 bs))) :: 32 word) = le_dec (take 4 (drop 4 bs))"
    using le_dec_bound [of "take 4 (drop 4 bs)"] assms(1) by (simp add: unat_of_nat)
  moreover have "bs = take 4 bs @ take 4 (drop 4 bs) @ take 4 (drop 8 bs) @ drop 12 bs"
    using append_take_drop_id [of 4 bs] append_take_drop_id [of 4 "drop 4 bs"]
      append_take_drop_id [of 4 "drop 8 bs"] by simp
  ultimately show ?thesis
    using kind_id_of_id [OF assms(2)] by (simp add: message_header_def)
qed

lemma content_shape:
  assumes "dtf_message_get_content bs (length bs) = Ok c"
    and "length bs = 12 + le_dec (take 4 (drop 8 bs))"
  shows "\<exists>body. drop 12 bs = message_trailer (content_path c) (content_selector c) body \<and>
      content_value c = (if body = [] then None else Some body) \<and> cstring_ok (content_path c) \<and>
      selector_read (content_selector c)"
proof -
  obtain t where t: "le_dec (take 4 (drop 8 bs)) = t" "length bs = 12 + t"
    using assms(2) by blast
  then have "message_get_trailer_size bs = Ok t" "take t (drop 12 bs) = drop 12 bs"
    by (simp_all add: message_get_trailer_size_def)
  then obtain n path v k sel v' where
    path: "dicey_view_as_zstring (Some (drop 12 bs)) = Ok (n, path, v)"
    and sel: "dtf_selector_from v = Ok (k, sel, v')"
    and c: "c = \<lparr>content_path = path, content_selector = sel,
      content_value = (if view_len v' > 0 then v' else None)\<rparr>"
    using assms(1) t(2) by (auto simp: dtf_message_get_content_def outcome_simps split: if_splits)
  obtain body where "v = Some (selector_bytes sel @ body)" "v' = Some body" "selector_read sel"
    using selector_from_OkD [OF sel] by blast
  moreover obtain rest where "drop 12 bs = path @ 0 # rest" "v = Some rest" "cstring_ok path"
    using dicey_view_as_zstring_OkD [OF path] by auto
  ultimately show ?thesis
    using c by (intro exI [of _ body]) (simp add: message_trailer_def zstring_def view_len_def)
qed

lemma as_message_shape:
  assumes "payload_ok bs" and "dicey_packet_as_message bs = Ok msg"
  shows "\<exists>seq body. bs = enc_message (kind_of_op (msg_type msg)) seq (msg_path msg) (msg_selector msg) body \<and>
    dicey_op_is_valid (msg_type msg) \<and> cstring_ok (msg_path msg) \<and>
    selector_read (msg_selector msg) \<and>
    (if body = [] then msg_value msg = no_value
     else dicey_op_requires_payload (msg_type msg) \<and>
       dtf_value_probe (Some body) = Ok (length body, msg_value msg, Some []))"
proof -
  let ?kind = "kind_of_id (le_dec (take 4 bs))"
  obtain c where kind: "is_message ?kind" and op: "msg_type msg = msgkind_from_dtf ?kind"
    and c: "dtf_message_get_content bs (length bs) = Ok c" "msg_path msg = content_path c"
      "msg_selector msg = content_selector c"
    and val: "if content_value c = None then msg_value msg = no_value
      else dicey_op_requires_payload (msg_type msg) \<and>
        (\<exists>n v'. dtf_value_probe (content_value c) = Ok (n, msg_value msg, v') \<and> view_len v' = 0)"
    using assms(2) payload_okD(3) [OF assms(1)]
    by (auto simp: dicey_packet_as_message_def outcome_simps Let_def dtf_payload_kind_is_message_def
        split: if_splits)
  have len: "length bs = 12 + le_dec (take 4 (drop 8 bs))"
  proof -
    have "length bs = payload_size bs"
      using assms(1) unfolding payload_ok_def by blast
    also have "\<dots> = 12 + le_dec (take 4 (drop 8 bs))"
      using kind by (simp add: payload_size_def)
    finally show ?thesis .
  qed
  obtain body where body: "drop 12 bs = message_trailer (msg_path msg) (msg_selector msg) body"
    "content_value c = (if body = [] then None else Some body)" "cstring_ok (msg_path msg)"
    "selector_read (msg_selector msg)"
    using content_shape [OF c(1) len] c by metis
  have kop: "kind_of_op (msg_type msg) = ?kind" "dicey_op_is_valid (msg_type msg)"
    using kind op by (cases ?kind; simp add: is_message_def dicey_op_is_valid_def)+
  have "length (drop 12 bs) = le_dec (take 4 (drop 8 bs))"
    unfolding length_drop len by (simp only: add_diff_cancel_left')
  then have shape: "bs = enc_message (kind_of_op (msg_type msg))
      (word_of_nat (le_dec (take 4 (drop 4 bs)))) (msg_path msg) (msg_selector msg) body"
    using header_shape [of bs] payload_okD [OF assms(1)] body(1) kop(1) by (simp add: enc_message_def)
  have "if body = [] then msg_value msg = no_value
     else dicey_op_requires_payload (msg_type msg) \<and>
       dtf_value_probe (Some body) = Ok (length body, msg_value msg, Some [])"
  proof (cases "body = []")
    case False
    then obtain n v' where probe: "dtf_value_probe (Some body) = Ok (n, msg_value msg, v')"
      "view_len v' = 0" "dicey_op_requires_payload (msg_type msg)"
      using val body(2) by auto
    obtain xs where "body = xs" "n \<le> length xs" "v' = Some (drop n xs)"
      using reads_prefixD [OF probe_local probe(1)] by (metis option.inject)
    then show ?thesis
      using False probe by (simp add: view_len_def)
  qed (use val body(2) in simp)
  then show ?thesis
    using shape kop(2) body(3,4) by blast
qed

section \<open>Forwarding\<close>

lemma as_message_raw:
  assumes "dicey_op_is_valid op" and "address_ok path sel (length body)"
    and "if body = [] then v = no_value
      else dicey_op_requires_payload op \<and> dtf_value_probe (Some body) = Ok (length body, v, Some [])"
  shows "dicey_packet_as_message (enc_message (kind_of_op op) seq path sel body) =
    Ok \<lparr>msg_type = op, msg_path = path, msg_selector = sel, msg_value = v\<rparr>"
proof -
  have "op \<noteq> DICEY_OP_INVALID"
    using assms(1) by auto
  then show ?thesis
    using get_content_enc [OF assms(2)] assms(1,3)
    by (cases "body = []") (simp_all add: dicey_packet_as_message_def Let_def
        dtf_payload_kind_is_message_def view_len_def)
qed

lemma address_ok_mono: "address_ok path sel n \<Longrightarrow> k \<le> n \<Longrightarrow> address_ok path sel k"
  by (simp add: address_ok_def)

lemma address_ok_of_message:
  assumes "length (enc_message kind seq path sel body) \<le> UINT32_MAX" and "cstring_ok path"
    and "selector_read sel"
  shows "address_ok path sel (length body)"
  using assms by (simp add: address_ok_def selector_read_def selector_ok_def str_ok_def length_enc_message
      selector_bytes_def)

lemma forward_raw:
  assumes old: "old = enc_message (kind_of_op (msg_type msg)) old_seq (msg_path msg) (msg_selector msg) body"
    and msg: "dicey_packet_as_message old = Ok msg"
    and old_ok: "address_ok (msg_path msg) (msg_selector msg) (length body)"
    and op: "dicey_op_is_valid op" "is_valid_forward (msg_type msg) op"
    and new: "address_ok path sel (length body)"
    and alloc: "alloc (length (enc_message (kind_of_op op) seq path sel body))"
  shows "dicey_packet_forward_message alloc old seq op path sel =
    Ok (enc_message (kind_of_op op) seq path sel body)"
proof -
  let ?h = "12 + length (zstring (msg_path msg)) + length (selector_bytes (msg_selector msg))"
  have "dtf_message_estimate_header_size (kind_of_op op) (msg_path msg) (msg_selector msg) = Ok ?h"
    using estimate_header_size_eq [OF _ old_ok, of "kind_of_op op"] op(1) by simp
  moreover have "drop ?h old = body" "?h \<le> length old"
    using old by (simp_all add: length_enc_message)
      (simp add: enc_message_def message_trailer_def)
  moreover have "dicey_selector_is_valid sel" "old \<noteq> []"
    using new old by (auto simp: address_ok_def selector_ok_def enc_message_def message_header_def
        message_trailer_def zstring_def)
  ultimately show ?thesis
    using op msg alloc message_write_raw_alloc
      [where alloc = alloc and seq = seq and kind = "kind_of_op op" and m = "[]", OF _ new]
    by (simp add: dicey_packet_forward_message_def dicey_packet_is_valid_def Let_def not_less)
qed

section \<open>Validation of a message ends\<close>

lemma message_value_bytes:
  assumes "payload_ok bs" and "dicey_packet_as_message bs = Ok msg" and "msg_value msg \<noteq> no_value"
  shows "value_ok (msg_value msg)" "value_bytes (msg_value msg) < length bs"
proof -
  obtain seq body where
    bs: "bs = enc_message (kind_of_op (msg_type msg)) seq (msg_path msg) (msg_selector msg) body"
    and probe: "dtf_value_probe (Some body) = Ok (length body, msg_value msg, Some [])"
    using as_message_shape [OF assms(1,2)] assms(3) by (metis (full_types))
  show "value_ok (msg_value msg)"
    using probe_value_ok [OF probe] .
  have "length body \<le> length bs"
    unfolding bs by (simp add: length_enc_message)
  then show "value_bytes (msg_value msg) < length bs"
    using probe_value_bytes [OF probe] by simp
qed

lemma validate_message_ends:
  assumes "payload_ok bs" and "2 * length bs + 2 \<le> fuel"
    and "\<And>msg. dicey_packet_as_message bs = Ok msg \<Longrightarrow> \<not> meets_units (msg_value msg)"
  shows "\<exists>r. validate_message fuel bs = Some r"
proof (cases "dicey_packet_as_message bs")
  case (Ok msg)
  have "\<exists>r. validate_value fuel (msg_value msg) = Some r"
  proof (cases "msg_value msg = no_value")
    case True
    then show ?thesis
      using assms(2) by (cases fuel) (simp_all add: no_value_def validate_value_body_def)
  next
    case False
    then have "2 * value_bytes (msg_value msg) + 2 \<le> fuel"
      using message_value_bytes(2) [OF assms(1) Ok] assms(2) by simp
    then show ?thesis
      using validate_ends message_value_bytes(1) [OF assms(1) Ok] False assms(3) [OF Ok] by blast
  qed
  then show ?thesis
    using Ok by (simp add: validate_message_def)
qed (simp_all add: validate_message_def)

end
