(* ===== verification/Wire_Properties.thy ===== *)
theory Wire_Properties
  imports Dicey_Packet_Facts
begin

text \<open>
  The properties of the wire format: writing, framing, validation and reading of values,
  payloads and packets, each with a witness that applies it to concrete data.
\<close>

section \<open>Sample data for the witnesses\<close>

definition sample_path :: cstring where "sample_path = cs ''/a''"

definition sample_selector :: dicey_selector where
  "sample_selector = \<lparr>sel_trait = Some (cs ''t''), sel_elem = Some (cs ''e'')\<rparr>"

definition sample_arg :: dicey_arg where
  "sample_arg = ArgTuple
     [ArgI32 7, ArgArray DICEY_TYPE_BOOL [ArgBool 1, ArgBool 0], ArgPair (ArgStr None) ArgUnit]"

lemmas sample_defs = sample_path_def sample_selector_def sample_arg_def

lemma sample_address [simp]: "n \<le> 1000 \<Longrightarrow> address_ok sample_path sample_selector n"
  by (simp add: sample_defs address_ok_def selector_ok_def str_ok_def cstring_ok_def cs_def
      opt_str_def dicey_selector_is_valid_def selector_bytes_def c_limits)

lemma sample_arg_enc: "length (enc_variant sample_arg) = 30"
  by (simp add: sample_defs enc_variant_def Let_def zstring_def opt_str_def)

lemma sample_arg_wf [simp]: "arg_wf sample_arg" "no_empty_bytes sample_arg"
  by (simp_all add: sample_defs enc_variant_def Let_def zstring_def opt_str_def str_ok_def
      cstring_ok_def c_limits)

lemma sample_message [simp]:
  "message_ok DICEY_OP_SET sample_path sample_selector (Some sample_arg)"
  by (simp add: message_ok_def dicey_op_is_valid_def dicey_op_requires_payload_def body_of_def
      sample_arg_enc)

section \<open>Messages\<close>



text \<open>
  C2: Framing.  When \<open>dicey_packet_load\<close> succeeds on a stream, the packet is a prefix of the stream,
  what is left is the rest of the stream, and the result does not depend on what follows the
  packet: with any other continuation the same packet is loaded and that continuation is left.
\<close>

theorem packet_load_framing:
  assumes "dicey_packet_load fuel alloc (Some bs) = Some (Ok (packet, rest))"
  shows "\<exists>ys. bs = packet @ ys \<and> rest = Some ys \<and>
      (\<forall>zs. dicey_packet_load fuel alloc (Some (packet @ zs)) = Some (Ok (packet, Some zs)))"
  using packet_load_OkD [OF assms] packet_load_intro by blast

theorem packet_load_framing_witness:
  "\<forall>zs. dicey_packet_load 0 (\<lambda>_. True) (Some ([1, 0, 0, 0, 9, 0, 0, 0, 0, 0, 2, 0] @ zs)) =
      Some (Ok ([1, 0, 0, 0, 9, 0, 0, 0, 0, 0, 2, 0], Some zs))"
proof -
  have "dicey_packet_load 0 (\<lambda>_. True) (Some [1, 0, 0, 0, 9, 0, 0, 0, 0, 0, 2, 0, 77]) =
      Some (Ok ([1, 0, 0, 0, 9, 0, 0, 0, 0, 0, 2, 0], Some [77]))"
    by (simp add: packet_load_cases payload_size_def kind_of_id_def is_message_def validate_packet_def)
  from packet_load_framing [OF this] show ?thesis
    by blast
qed

text \<open>
  C13: A stream that holds only part of a packet is not an error: every strict prefix of a packet
  that can be loaded makes \<open>dicey_packet_load\<close> ask for more data with \<open>DICEY_EAGAIN\<close>.
\<close>

theorem packet_load_incomplete:
  assumes "dicey_packet_load fuel alloc (Some (packet @ rest)) = Some (Ok (packet, Some rest))"
    and "n < length packet"
  shows "dicey_packet_load fuel' alloc' (Some (take n packet)) = Some (Err DICEY_EAGAIN)"
  using packet_load_OkD(2) [OF assms(1)] prefix_incomplete assms(2) by blast

theorem packet_load_incomplete_witness:
  "dicey_packet_load 0 (\<lambda>_. True) (Some (take 11 [1, 0, 0, 0, 9, 0, 0, 0, 0, 0, 2, 0])) =
     Some (Err DICEY_EAGAIN)"
proof (rule packet_load_incomplete [where fuel = 0 and alloc = "\<lambda>_. True" and rest = "[]"])
  show "dicey_packet_load 0 (\<lambda>_. True) (Some ([1, 0, 0, 0, 9, 0, 0, 0, 0, 0, 2, 0] @ [])) =
      Some (Ok ([1, 0, 0, 0, 9, 0, 0, 0, 0, 0, 2, 0], Some []))"
    by (simp add: packet_load_cases payload_size_def kind_of_id_def is_message_def validate_packet_def)
qed simp

text \<open>
  C6: Memory safety of reception.  Whatever the peer sends, loading never leaves the defined
  behaviour, and neither does reading a packet that was loaded as a message, a greeting or a
  farewell.
\<close>

theorem reception_is_defined:
  "dicey_packet_load fuel alloc data \<noteq> Some Undef \<and>
   (dicey_packet_load fuel alloc data = Some (Ok (packet, rest)) \<longrightarrow>
      dicey_packet_as_message packet \<noteq> Undef \<and> dicey_packet_as_hello packet \<noteq> Undef \<and>
      dicey_packet_as_bye packet \<noteq> Undef \<and> dicey_packet_get_seq packet \<noteq> Undef)"
proof (cases data)
  case (Some bs)
  have "dicey_packet_as_hello p \<noteq> Undef" "dicey_packet_as_bye p \<noteq> Undef"
    "dicey_packet_get_seq p \<noteq> Undef" if "payload_ok p" for p
    using payload_okD [OF that]
    by (auto simp: dicey_packet_as_hello_def dicey_packet_as_bye_def head_field_def outcome_simps
        dicey_packet_get_seq_def dtf_payload_get_seq_def split: if_splits)
  then show ?thesis
    using packet_load_defined packet_load_OkD(2) as_message_defined Some by blast
qed (simp add: dicey_packet_load_def)

theorem reception_is_defined_witness:
  "dicey_packet_as_message [1, 0, 0, 0, 9, 0, 0, 0, 0, 0, 2, 0] \<noteq> Undef"
proof -
  have "dicey_packet_load 0 (\<lambda>_. True) (Some [1, 0, 0, 0, 9, 0, 0, 0, 0, 0, 2, 0]) =
      Some (Ok ([1, 0, 0, 0, 9, 0, 0, 0, 0, 0, 2, 0], Some []))"
    by (simp add: packet_load_cases payload_size_def kind_of_id_def is_message_def validate_packet_def)
  then show ?thesis
    using reception_is_defined by blast
qed

text \<open>
  C14: Forwarding.  \<open>dicey_packet_forward_message\<close> of a loaded message (a response relayed to
  another client, say) with a new operation, path, selector and sequence number gives a packet
  that reads back as the new address with the value of the old message, unchanged.
\<close>

theorem forward_keeps_value:
  assumes "dicey_packet_load fuel alloc (Some (old @ ys)) = Some (Ok (old, Some ys))"
    and "dicey_packet_as_message old = Ok msg"
    and "dicey_op_is_valid op" and "is_valid_forward (msg_type msg) op"
    and "address_ok path sel (length old)" and "length old \<le> UINT32_MAX" and "\<And>n. alloc n"
  shows "\<exists>new. dicey_packet_forward_message alloc old seq op path sel = Ok new \<and>
      dicey_packet_as_message new =
        Ok (msg\<lparr>msg_type := op, msg_path := path, msg_selector := sel\<rparr>) \<and>
      dicey_packet_get_seq new = Ok seq"
proof -
  obtain old_seq body where
    old: "old = enc_message (kind_of_op (msg_type msg)) old_seq (msg_path msg) (msg_selector msg) body"
    and parts: "cstring_ok (msg_path msg)" "selector_read (msg_selector msg)"
    and val: "if body = [] then msg_value msg = no_value
      else dicey_op_requires_payload (msg_type msg) \<and>
        dtf_value_probe (Some body) = Ok (length body, msg_value msg, Some [])"
    using as_message_shape [OF packet_load_OkD(2) [OF assms(1)] assms(2)] by blast
  have old_ok: "address_ok (msg_path msg) (msg_selector msg) (length body)"
    using address_ok_of_message assms(6) parts old by blast
  have new_ok: "address_ok path sel (length body)"
    using assms(5) by (rule address_ok_mono) (simp add: old length_enc_message)
  have op: "dicey_op_requires_payload op" if "dicey_op_requires_payload (msg_type msg)"
    using that assms(3,4)
    by (cases op; cases "msg_type msg") (simp_all add: is_valid_forward_def dicey_op_requires_payload_def)
  have "dicey_packet_as_message (enc_message (kind_of_op op) seq path sel body) =
      Ok \<lparr>msg_type = op, msg_path = path, msg_selector = sel, msg_value = msg_value msg\<rparr>"
    by (rule as_message_raw) (use assms(3) new_ok val op in auto)
  then show ?thesis
    using forward_raw [OF old assms(2) old_ok assms(3,4) new_ok assms(7)]
    by (cases msg) (simp add: dicey_packet_get_seq_def)
qed

lemma sample_packet_load:
  "dicey_packet_load 1000 (\<lambda>_. True)
     (Some (enc_message DTF_PAYLOAD_SET 4 sample_path sample_selector (enc_variant sample_arg) @ [])) =
   Some (Ok (enc_message DTF_PAYLOAD_SET 4 sample_path sample_selector (enc_variant sample_arg), Some []))"
proof (rule packet_load_intro)
  let ?p = "enc_message DTF_PAYLOAD_SET 4 sample_path sample_selector (enc_variant sample_arg)"
  show "payload_ok ?p"
    by (rule enc_message_payload_ok) (simp_all add: is_message_def sample_arg_enc)
  have "2 * length ?p \<le> 1000"
    by (simp add: length_enc_message sample_arg_enc)
       (simp add: sample_defs cs_def selector_bytes_def opt_str_def)
  then show "validate_packet 1000 ?p = Some (Ok ())"
    using enc_message_validates [of DICEY_OP_SET sample_path sample_selector "Some sample_arg" 4 1000]
    by (simp add: body_of_def)
qed simp

lemma sample_packet_message:
  "dicey_packet_as_message
     (enc_message DTF_PAYLOAD_SET 4 sample_path sample_selector (enc_variant sample_arg)) =
   Ok (message_of DICEY_OP_SET sample_path sample_selector (Some sample_arg))"
  using as_message_enc [of DICEY_OP_SET sample_path sample_selector "Some sample_arg" 4]
  by (simp add: body_of_def)

theorem forward_keeps_value_witness:
  "\<exists>new. dicey_packet_forward_message (\<lambda>_. True)
        (enc_message DTF_PAYLOAD_SET 4 sample_path sample_selector (enc_variant sample_arg))
        9 DICEY_OP_SIGNAL sample_path sample_selector = Ok new \<and>
      dicey_packet_as_message new =
        Ok (message_of DICEY_OP_SIGNAL sample_path sample_selector (Some sample_arg)) \<and>
      dicey_packet_get_seq new = Ok 9"
proof -
  have "length (enc_message DTF_PAYLOAD_SET 4 sample_path sample_selector (enc_variant sample_arg)) = 49"
    by (simp add: length_enc_message sample_arg_enc)
       (simp add: sample_defs cs_def selector_bytes_def opt_str_def)
  then show ?thesis
    using forward_keeps_value [OF sample_packet_load sample_packet_message, of DICEY_OP_SIGNAL
        sample_path sample_selector 9]
    by (simp add: message_of_def dicey_op_is_valid_def is_valid_forward_def c_limits)
qed

text \<open>
  Changing the sequence number of a packet changes nothing else: the packet keeps its length and
  its kind, reads back with the new number, and as the same message.
\<close>

theorem set_seq_only_changes_seq:
  assumes "12 \<le> length packet"
  shows "\<exists>packet'. dicey_packet_set_seq packet seq = Ok packet' \<and> length packet' = length packet \<and>
      dicey_packet_get_seq packet' = Ok seq \<and>
      dicey_packet_get_kind packet' = dicey_packet_get_kind packet \<and>
      dicey_packet_as_message packet' = dicey_packet_as_message packet"
proof -
  let ?p = "take 4 packet @ le_enc 4 (unat seq) @ drop 8 packet"
  have "dicey_packet_as_message ?p = dicey_packet_as_message packet"
    using as_message_only_kind_and_trailer [of ?p packet] set_seq_same [OF assms] assms by simp
  moreover have "dicey_packet_get_kind ?p = dicey_packet_get_kind packet"
    using set_seq_same [OF assms] assms by (simp add: get_kind_payload)
  ultimately show ?thesis
    using set_seq_eq [OF assms] get_set_seq [OF assms] set_seq_same(3) [OF assms] by blast
qed

theorem set_seq_only_changes_seq_witness:
  "\<exists>packet'. dicey_packet_set_seq [1, 0, 0, 0, 9, 0, 0, 0, 0, 0, 2, 0] 5 = Ok packet' \<and>
      dicey_packet_get_seq packet' = Ok 5"
  using set_seq_only_changes_seq [of "[1, 0, 0, 0, 9, 0, 0, 0, 0, 0, 2, 0]" 5] by auto

lemma hello_bye_facts:
  assumes "\<And>n. alloc n"
  shows "\<exists>packet. dicey_packet_hello alloc seq version = Ok packet \<and>
      dicey_packet_load fuel alloc (Some (packet @ rest)) = Some (Ok (packet, Some rest)) \<and>
      dicey_packet_as_hello packet = Ok version \<and> dicey_packet_get_seq packet = Ok seq"
    and "dicey_bye_reason_is_valid reason \<Longrightarrow>
      \<exists>packet. dicey_packet_bye alloc seq reason = Ok packet \<and>
      dicey_packet_load fuel alloc (Some (packet @ rest)) = Some (Ok (packet, Some rest)) \<and>
      dicey_packet_as_bye packet = Ok reason \<and> dicey_packet_get_seq packet = Ok seq"
proof -
  let ?h = "message_header DTF_PAYLOAD_HELLO seq (unat (version_to_dtf version))"
  have "dicey_packet_load fuel alloc (Some (?h @ rest)) = Some (Ok (?h, Some rest))"
    using assms by (intro packet_load_intro header_payload_ok)
      (simp_all add: validate_packet_def header_kind_id)
  then show "\<exists>packet. dicey_packet_hello alloc seq version = Ok packet \<and>
      dicey_packet_load fuel alloc (Some (packet @ rest)) = Some (Ok (packet, Some rest)) \<and>
      dicey_packet_as_hello packet = Ok version \<and> dicey_packet_get_seq packet = Ok seq"
    using packet_hello_eq [of alloc seq version] assms
    by (simp add: dicey_packet_as_hello_def version_dtf_roundtrip dicey_packet_get_seq_def)
next
  let ?b = "message_header DTF_PAYLOAD_BYE seq (unat (reason_id reason))"
  assume valid: "dicey_bye_reason_is_valid reason"
  have as_bye: "dicey_packet_as_bye ?b = Ok reason"
    using valid by (simp add: dicey_packet_as_bye_def)
  have "dicey_packet_load fuel alloc (Some (?b @ rest)) = Some (Ok (?b, Some rest))"
    using assms as_bye by (intro packet_load_intro header_payload_ok)
      (simp_all add: validate_packet_def header_kind_id validate_bye_def)
  then show "\<exists>packet. dicey_packet_bye alloc seq reason = Ok packet \<and>
      dicey_packet_load fuel alloc (Some (packet @ rest)) = Some (Ok (packet, Some rest)) \<and>
      dicey_packet_as_bye packet = Ok reason \<and> dicey_packet_get_seq packet = Ok seq"
    using packet_bye_eq [of alloc seq reason] assms as_bye
    by (simp add: dicey_packet_get_seq_def)
qed



text \<open>
  A farewell with the reason \<open>DICEY_BYE_REASON_KICKED\<close>, which the server sends to clients it
  removes, is refused by the receiver: loading the packet that \<open>dicey_packet_bye\<close> builds fails
  with \<open>DICEY_EBADMSG\<close>.
\<close>

theorem kicked_bye_is_rejected:
  "\<exists>packet. dicey_packet_bye (\<lambda>_. True) seq DICEY_BYE_REASON_KICKED = Ok packet \<and>
     dicey_packet_load fuel (\<lambda>_. True) (Some (packet @ rest)) = Some (Err DICEY_EBADMSG)"
proof -
  let ?b = "message_header DTF_PAYLOAD_BYE seq (unat (reason_id DICEY_BYE_REASON_KICKED))"
  have "payload_ok ?b" "payload_size (?b @ rest) = 12" "take 4 (?b @ rest) = take 4 ?b"
    using header_payload_ok [of DTF_PAYLOAD_BYE seq] payload_size_append [of ?b rest]
    by (auto simp: payload_ok_def)
  moreover have "validate_packet fuel ?b = Some (Err DICEY_EINVAL)"
    by (simp add: validate_packet_def header_kind_id validate_bye_def dicey_packet_as_bye_def
        dicey_bye_reason_is_valid_def del: reason_id.simps)
  ultimately show ?thesis
    using packet_bye_eq [of "\<lambda>_. True" seq DICEY_BYE_REASON_KICKED]
    by (simp add: packet_load_cases header_kind_id del: reason_id.simps)
qed

section \<open>Values\<close>

text \<open>
  C16: \<open>dtf_value_write\<close> into a buffer with enough room writes as many bytes as
  \<open>dtf_value_estimate_size\<close> announced, changes no byte outside of them, and the bytes written probe
  back to the value.  Without enough room it fails with \<open>DICEY_EAGAIN\<close>.
\<close>

theorem value_write_exact:
  assumes "arg_wf a" and "off + len \<le> length m" and "len \<le> PTRDIFF_MAX"
    and "dtf_value_estimate_size a = Ok n"
  shows "if len < n then dtf_value_write alloc m \<lparr>vm_data = Some off, vm_len = len\<rparr> a = Err DICEY_EAGAIN
    else \<exists>res m'. dtf_value_write alloc m \<lparr>vm_data = Some off, vm_len = len\<rparr> a = Ok (res, m') \<and>
      vres_size res = n \<and> length m' = length m \<and> take off m' = take off m \<and>
      drop (off + n) m' = drop (off + n) m \<and>
      dtf_value_probe (Some (drop off m')) = Ok (n, value_of_arg a, Some (drop (off + n) m))"
proof -
  have n: "n = length (enc_variant a)" "n \<le> PTRDIFF_MAX"
    using assms(4) estimate_size_eq [OF arg_wf_writable [OF assms(1)]] by (auto split: if_splits)
  have "drop off (overwrite m off (enc_variant a)) = enc_variant a @ drop (off + n) m"
    if "n \<le> len"
    using that assms(2) n(1) by (simp add: overwrite_def)
  then show ?thesis
    using value_write_into [OF assms(2,3) arg_wf_writable [OF assms(1)], of alloc] n assms(2)
      probe_enc [OF assms(1), of "drop (off + n) m"]
    by (auto simp: overwrite_def)
qed

theorem value_write_exact_witness:
  "\<exists>res m'. dtf_value_write (\<lambda>_. True) (replicate 40 0) \<lparr>vm_data = Some 4, vm_len = 32\<rparr> sample_arg =
        Ok (res, m') \<and> vres_size res = 30 \<and>
      dtf_value_probe (Some (drop 4 m')) = Ok (30, value_of_arg sample_arg, Some (replicate 6 0))"
proof -
  have "dtf_value_estimate_size sample_arg = Ok 30"
    using estimate_size_eq [OF arg_wf_writable [OF sample_arg_wf(1)]] sample_arg_enc
    by (simp add: c_limits)
  from value_write_exact [OF sample_arg_wf(1) _ _ this, of 4 32 "replicate 40 0" "\<lambda>_. True"]
  show ?thesis
    by (auto simp: c_limits drop_replicate)
qed



text \<open>
  C18: Reading arbitrary bytes.  Probing a value never leaves the defined behaviour; when it
  succeeds it consumed at least one byte and a prefix of the input, the result depends on that
  prefix only, and the value holds the member its type selects, so that no getter is undefined
  on it.
\<close>

theorem probe_is_safe:
  "dtf_value_probe src \<noteq> Undef \<and>
   (dtf_value_probe src = Ok (n, v, src') \<longrightarrow>
      (\<exists>xs. src = Some xs \<and> 0 < n \<and> n \<le> length xs \<and> src' = Some (drop n xs) \<and>
        (\<forall>ys. dtf_value_probe (Some (take n xs @ ys)) = Ok (n, v, Some ys))) \<and>
      dicey_value_get_list v \<noteq> Undef \<and> dicey_value_get_pair v \<noteq> Undef \<and>
      dicey_value_get_str v \<noteq> Undef \<and> dicey_value_get_path v \<noteq> Undef \<and>
      dicey_value_get_bytes v \<noteq> Undef \<and> dicey_value_get_selector v \<noteq> Undef \<and>
      dicey_value_get_error v \<noteq> Undef \<and> dicey_value_get_i32 v \<noteq> Undef)"
proof (intro conjI impI)
  assume ok: "dtf_value_probe src = Ok (n, v, src')"
  show "\<exists>xs. src = Some xs \<and> 0 < n \<and> n \<le> length xs \<and> src' = Some (drop n xs) \<and>
        (\<forall>ys. dtf_value_probe (Some (take n xs @ ys)) = Ok (n, v, Some ys))"
    using reads_prefixD [OF probe_local ok] probe_consumes [OF ok] by metis
qed (use probe_value_ok get_list_defined get_pair_defined other_getters_defined
    scalar_getters_defined in auto)

theorem probe_is_safe_witness:
  "dicey_value_get_str \<lparr>val_type = DICEY_TYPE_BOOL, val_data = DataBoolean 1\<rparr> \<noteq> Undef"
proof -
  have "dtf_value_probe (Some [98, 1, 7]) =
      Ok (2, \<lparr>val_type = DICEY_TYPE_BOOL, val_data = DataBoolean 1\<rparr>, Some [7])"
    using probe_enc [of "ArgBool 1" "[7]"]
    by (simp add: enc_variant_def value_of_arg_def type_id_def c_limits)
  then show ?thesis
    using probe_is_safe by blast
qed

section \<open>Validation\<close>



text \<open>
  C32: Reception of a message whose value is an array of units that claims to hold bytes never
  returns: whatever the fuel, loading does not end.  Any peer can send such a message.
\<close>

theorem unit_array_never_validates:
  assumes "dicey_op_requires_payload op" and "bs \<noteq> []" and "length bs \<le> UINT32_MAX" and "k \<le> UINT16_MAX"
    and "address_ok path sel (8 + length bs)" and "\<And>n. alloc n"
  shows "dicey_packet_load fuel alloc
      (Some (enc_message (kind_of_op op) seq path sel
        (type_id DICEY_TYPE_ARRAY # le_enc 4 (length bs) @ le_enc 2 k @ type_id DICEY_TYPE_UNIT # bs)
        @ rest)) = None"
proof -
  let ?body = "type_id DICEY_TYPE_ARRAY # le_enc 4 (length bs) @ le_enc 2 k @ type_id DICEY_TYPE_UNIT # bs"
  let ?v = "\<lparr>val_type = DICEY_TYPE_ARRAY, val_data = DataList (type_id DICEY_TYPE_UNIT) k (Some bs)\<rparr>"
  have op: "dicey_op_is_valid op"
    using assms(1) by (cases op) (simp_all add: dicey_op_requires_payload_def dicey_op_is_valid_def)
  have "array_probe (Some (le_enc 4 (length bs) @ le_enc 2 k @ type_id DICEY_TYPE_UNIT # bs)) =
      Ok (7 + length bs, DataList (type_id DICEY_TYPE_UNIT) k (Some bs), Some [])"
    using array_probe_enc [OF assms(4) _ assms(3), of DICEY_TYPE_UNIT "[]"] by simp
  moreover have "dicey_view_read_ptr (Some ?body) 1 = Ok (1, [type_id DICEY_TYPE_ARRAY], Some (tl ?body))"
    using read_ptr_append [of "[type_id DICEY_TYPE_ARRAY]" 1 "tl ?body"] by (simp add: c_limits)
  ultimately have "dtf_value_probe (Some ?body) = Ok (length ?body, ?v, Some [])"
    using assms(3)
    by (simp add: dtf_value_probe_def value_header_read_def dtf_value_probe_as_def
        value_probe_dynamic_def value_probe_container_def add_read_Ok c_limits)
  then have "dicey_packet_as_message (enc_message (kind_of_op op) seq path sel ?body) =
      Ok \<lparr>msg_type = op, msg_path = path, msg_selector = sel, msg_value = ?v\<rparr>"
    using op assms(1,5) by (intro as_message_raw) simp_all
  then have "validate_packet fuel (enc_message (kind_of_op op) seq path sel ?body) = None"
    using validate_unit_array_diverges [OF assms(2)] assms(1) op
    by (simp add: validate_packet_def validate_message_def enc_message_def header_fields)
  moreover have "payload_ok (enc_message (kind_of_op op) seq path sel ?body)"
    using enc_message_payload_ok op assms(5) by simp
  ultimately show ?thesis
    using packet_load_validated assms(6) by simp
qed

theorem unit_array_never_validates_witness:
  "\<forall>fuel. dicey_packet_load fuel (\<lambda>_. True)
      (Some (enc_message DTF_PAYLOAD_SET 0 sample_path sample_selector
        (type_id DICEY_TYPE_ARRAY # le_enc 4 1 @ le_enc 2 1 @ [type_id DICEY_TYPE_UNIT, 0]) @ [])) = None"
  using unit_array_never_validates [of DICEY_OP_SET "[0]" 1 sample_path sample_selector "\<lambda>_. True" _ 0 "[]"]
  by (simp add: dicey_op_requires_payload_def c_limits)

text \<open>
  A complete message can keep the receiver waiting: when the header of an array inside the
  message claims more bytes than the message holds, loading reports \<open>DICEY_EAGAIN\<close> (more data
  needed) whatever data follows, although the documentation promises \<open>DICEY_EBADMSG\<close> for a malformed
  packet.
\<close>

theorem truncated_array_asks_for_more:
  assumes "dicey_op_requires_payload op" and "dicey_type_is_valid t" and "length bs < n"
    and "n \<le> UINT32_MAX" and "address_ok path sel (8 + length bs)" and "\<And>n. alloc n"
  shows "dicey_packet_load fuel alloc
      (Some (enc_message (kind_of_op op) seq path sel
        (type_id DICEY_TYPE_ARRAY # le_enc 4 n @ le_enc 2 k @ type_id t # bs) @ rest)) =
    Some (Err DICEY_EAGAIN)"
proof -
  let ?content = "le_enc 4 n @ le_enc 2 k @ type_id t # bs"
  let ?body = "type_id DICEY_TYPE_ARRAY # ?content"
  have op: "dicey_op_is_valid op" "op \<noteq> DICEY_OP_INVALID"
    using assms(1) by (cases op; simp add: dicey_op_requires_payload_def dicey_op_is_valid_def)+
  have "dicey_view_read_ptr (Some ((le_enc 4 n @ le_enc 2 k @ [type_id t]) @ bs)) 7 =
      Ok (7, le_enc 4 n @ le_enc 2 k @ [type_id t], Some bs)"
    by (rule read_ptr_append) (simp_all add: c_limits)
  moreover have "(le_enc 4 n @ le_enc 2 k @ [type_id t]) ! 6 = type_id t"
    using nth_append_length [of "le_enc 4 n @ le_enc 2 k" "type_id t" "[]"] by simp
  ultimately have "array_probe (Some ?content) = Err DICEY_EAGAIN"
    using assms(2-4)
    by (simp add: array_probe_def array_header_read_def list_probe_def dicey_view_take_def add_read_def)
  moreover have "dicey_view_read_ptr (Some ?body) 1 = Ok (1, [type_id DICEY_TYPE_ARRAY], Some ?content)"
    using read_ptr_append [of "[type_id DICEY_TYPE_ARRAY]" 1 ?content] by (simp add: c_limits)
  ultimately have "dtf_value_probe (Some ?body) = Err DICEY_EAGAIN"
    by (simp add: dtf_value_probe_def value_header_read_def dtf_value_probe_as_def add_read_def
        value_probe_dynamic_def value_probe_container_def)
  moreover have addr: "address_ok path sel (length ?body)"
    using assms(5) by simp
  ultimately have "dicey_packet_as_message (enc_message (kind_of_op op) seq path sel ?body) = Err DICEY_EAGAIN"
    using get_content_enc [OF addr] op assms(1)
    by (simp add: dicey_packet_as_message_def Let_def dtf_payload_kind_is_message_def)
  then have "validate_packet fuel (enc_message (kind_of_op op) seq path sel ?body) =
      Some (Err DICEY_EAGAIN)"
    using op by (simp add: validate_packet_def validate_message_def enc_message_def header_fields)
  then show ?thesis
    using packet_load_validated [OF enc_message_payload_ok [OF _ addr]] op assms(6) by simp
qed

theorem truncated_array_asks_for_more_witness:
  "\<forall>fuel. dicey_packet_load fuel (\<lambda>_. True)
      (Some (enc_message DTF_PAYLOAD_SET 0 sample_path sample_selector
        (type_id DICEY_TYPE_ARRAY # le_enc 4 2 @ le_enc 2 2 @ [type_id DICEY_TYPE_BOOL, 0]) @ [1, 1, 1])) =
    Some (Err DICEY_EAGAIN)"
  using truncated_array_asks_for_more [of DICEY_OP_SET DICEY_TYPE_BOOL "[0]" 2 sample_path
      sample_selector "\<lambda>_. True" _ 0 2 "[1, 1, 1]"]
  by (simp add: dicey_op_requires_payload_def c_limits)

text \<open>
  An argument with an empty byte string can be sent but not received: the message is written
  like any other, and the receiver refuses it with \<open>DICEY_EBADMSG\<close>.
\<close>

theorem empty_bytes_are_refused:
  assumes "dicey_op_requires_payload op" and "address_ok path sel 5" and "\<And>n. alloc n"
  shows "\<exists>res packet. dtf_message_write alloc m DICEY_NULL (kind_of_op op) seq path sel
        (Some (ArgBytes (Some []))) = Ok (res, packet) \<and>
      dicey_packet_load (Suc fuel) alloc (Some (packet @ rest)) = Some (Err DICEY_EBADMSG)"
proof -
  let ?arg = "Some (ArgBytes (Some []))"
  let ?p = "enc_message (kind_of_op op) seq path sel (body_of ?arg)"
  have len: "length (body_of ?arg) = 5"
    by (simp add: body_of_def enc_variant_def view_len_def)
  have op: "dicey_op_is_valid op"
    using assms(1) by (cases op) (simp_all add: dicey_op_requires_payload_def dicey_op_is_valid_def)
  have msg: "message_ok op path sel ?arg"
    using assms(1,2) op len by (simp add: message_ok_def view_len_def)
  have "validate_packet (Suc fuel) ?p = Some (Err DICEY_EINVAL)"
    using as_message_enc [OF msg, of seq] assms(1) op empty_bytes_rejected
    by (simp add: validate_packet_def validate_message_def message_of_def value_of_opt_def
        enc_message_def header_fields del: validate_value.simps)
  then have "dicey_packet_load (Suc fuel) alloc (Some (?p @ rest)) = Some (Err DICEY_EBADMSG)"
    using packet_load_validated [OF enc_message_payload_ok] op assms(2,3) len by simp
  moreover have "dtf_message_write alloc m DICEY_NULL (kind_of_op op) seq path sel ?arg =
      Ok (\<lparr>res_result = length ?p, res_size = length ?p, res_data = Some 0\<rparr>, ?p)"
    using op assms len by (intro message_write_alloc) (auto simp: view_len_def)
  ultimately show ?thesis
    by blast
qed

theorem empty_bytes_are_refused_witness:
  "\<exists>res packet. dtf_message_write (\<lambda>_. True) [] DICEY_NULL DTF_PAYLOAD_SET 2 sample_path sample_selector
        (Some (ArgBytes (Some []))) = Ok (res, packet) \<and>
      dicey_packet_load 10 (\<lambda>_. True) (Some (packet @ [])) = Some (Err DICEY_EBADMSG)"
  using empty_bytes_are_refused [of DICEY_OP_SET sample_path sample_selector "\<lambda>_. True" "[]" 2 9 "[]"]
  by (simp add: dicey_op_requires_payload_def)

text \<open>
  An argument whose bytes pointer is \<open>NULL\<close> corrupts the heap: the size estimate accepts it, the
  write fails, and \<open>dtf_value_write\<close> then frees the position inside the message that
  \<open>dtf_message_write\<close> handed to it, an address no allocator returned.
\<close>

theorem null_bytes_free_interior_pointer:
  assumes "dicey_op_requires_payload op" and "address_ok path sel 5" and "\<And>n. alloc n"
  shows "dtf_message_write alloc m DICEY_NULL (kind_of_op op) seq path sel (Some (ArgBytes None)) = Undef"
proof -
  define n where "n = 12 + length (zstring path) + length (selector_bytes sel) + 5"
  have op: "dicey_op_is_valid op"
    using assms(1) by (cases op) (simp_all add: dicey_op_requires_payload_def dicey_op_is_valid_def)
  have n: "n \<le> UINT32_MAX" "n \<le> PTRDIFF_MAX" "0 < n"
    using assms(2) by (simp_all add: n_def address_ok_def c_limits)
  have size: "dtf_message_estimate_size (kind_of_op op) path sel (Some (ArgBytes None)) = Ok n"
    using estimate_header_size_eq [OF _ assms(2), of "kind_of_op op"] op assms(1) n
      null_bytes_estimate
    by (simp add: dtf_message_estimate_size_def dutl_checked_add_def n_def)
  have path: "dutl_zstring_size path = Ok (length (zstring path))"
    using assms(2) by (simp add: address_ok_def zstring_size_ok)
  have "dicey_view_mut_ensure_cap alloc m DICEY_NULL n =
      Ok (n, replicate n 0, \<lparr>vm_data = Some 0, vm_len = n\<rparr>)"
    using n assms(3) by (simp add: dicey_view_mut_ensure_cap_def DICEY_NULL_def)
  moreover obtain h where
    "write_path_and_selector (replicate n 0) \<lparr>vm_data = Some 0, vm_len = n\<rparr> (kind_of_op op) seq
        (trailer_size_of n) path sel =
      Ok (overwrite (replicate n 0) 0 h, \<lparr>vm_data = Some (length h), vm_len = 5\<rparr>)"
    and "length h + 5 = n"
    using write_path_and_selector_eq [OF assms(2), of 0 n "replicate n 0" "kind_of_op op" seq
        "trailer_size_of n"] by (auto simp: n_def Let_def)
  ultimately show ?thesis
    using size path value_write_null_bytes [of "length h" 5 "overwrite (replicate n 0) 0 h" alloc]
    by (simp add: dtf_message_write_def c_limits)
qed

theorem null_bytes_free_interior_pointer_witness:
  "dtf_message_write (\<lambda>_. True) [] DICEY_NULL DTF_PAYLOAD_SET 2 sample_path sample_selector
     (Some (ArgBytes None)) = Undef"
  using null_bytes_free_interior_pointer [of DICEY_OP_SET sample_path sample_selector "\<lambda>_. True" "[]" 2]
  by (simp add: dicey_op_requires_payload_def)

end
