(* ===== verification/Dicey_Typedescr.thy ===== *)
theory Dicey_Typedescr
  imports Dicey_Packet_Facts
begin

text \<open>
  Type descriptors: the parser of \<^verbatim>\<open>src/wirefmt/typedescr.c\<close>, the grammar that
  \<^verbatim>\<open>include/dicey/core/typedescr.h\<close> documents as a datatype with its printer, and the equivalence
  of the two.
\<close>

section \<open>The parser\<close>

text \<open>
  A cursor is the list of characters between \<open>*cur\<close> and \<open>end\<close>.  The functions return the
  cursor they leave when they succeed, and \<open>None\<close> when they fail: no caller looks at the cursor
  after a failure.
\<close>

definition ARRAY_END :: byte where "ARRAY_END = of_char (CHR '']'')"
definition PAIR_END :: byte where "PAIR_END = of_char (CHR ''}'')"
definition TUPLE_END :: byte where "TUPLE_END = of_char (CHR '')'')"

definition is_valid_type :: "byte \<Rightarrow> bool" where
  "is_valid_type ch \<longleftrightarrow> dicey_type_is_valid (type_of_id ch) \<or> ch = DICEY_VARIANT_ID"

fun match_exact :: "byte list \<Rightarrow> byte list \<Rightarrow> byte list option" where
  "match_exact cur [] = Some cur"
| "match_exact [] (t # tag) = None"
| "match_exact (c # cur) (t # tag) = (if c \<noteq> t then None else match_exact cur tag)"

text \<open>\<open>isspace\<close> of the C locale.\<close>

definition isspace :: "byte \<Rightarrow> bool" where
  "isspace b \<longleftrightarrow> b \<in> {32, 9, 10, 11, 12, 13}"

text \<open>
  The argument of \<open>isspace\<close> is \<open>(unsigned short) **cur\<close>: a character above 127, negative where
  \<open>char\<close> is signed, becomes a number that no \<open>unsigned char\<close> has, for which \<open>isspace\<close> is undefined.
\<close>

fun skip_whitespace :: "byte list \<Rightarrow> byte list result" where
  "skip_whitespace [] = Ok []"
| "skip_whitespace (c # cur) =
     (if 127 < c then Undef else if isspace c then skip_whitespace cur else Ok (c # cur))"

definition take_one :: "byte list \<Rightarrow> byte \<times> byte list" where
  "take_one cur = (case cur of [] \<Rightarrow> (0, []) | c # cur' \<Rightarrow> (c, cur'))"

definition expect :: "byte \<Rightarrow> byte list \<Rightarrow> byte list option" where
  "expect c cur = (case take_one cur of (d, cur') \<Rightarrow> if d = c then Some cur' else None)"

definition parse_arrow :: "byte list \<Rightarrow> byte list option result" where
  "parse_arrow cur =
     and_then (skip_whitespace cur) (\<lambda>cur.
       case match_exact cur (cs ''->'') of
         None \<Rightarrow> Ok None
       | Some cur \<Rightarrow> and_then (skip_whitespace cur) (\<lambda>cur. Ok (Some cur)))"

function (sequential, domintros)
  parse_type :: "byte list \<Rightarrow> byte list option" and
  parse_array :: "byte list \<Rightarrow> byte list option" and
  parse_pair :: "byte list \<Rightarrow> byte list option" and
  parse_tuple :: "byte list \<Rightarrow> byte list option"
where
  "parse_type [] = Some []"
| "parse_type (first # cur) =
     (if first = type_id DICEY_TYPE_ARRAY then parse_array cur
      else if first = type_id DICEY_TYPE_PAIR then parse_pair cur
      else if first = type_id DICEY_TYPE_TUPLE then parse_tuple cur
      else if is_valid_type first then Some cur
      else None)"
| "parse_array cur =
     (case parse_type cur of
        None \<Rightarrow> None
      | Some cur' \<Rightarrow> expect ARRAY_END cur')"
| "parse_pair cur =
     (case parse_type cur of
        None \<Rightarrow> None
      | Some cur' \<Rightarrow>
          (case parse_type cur' of
             None \<Rightarrow> None
           | Some cur'' \<Rightarrow> expect PAIR_END cur''))"
| "parse_tuple cur =
     (case parse_type cur of
        None \<Rightarrow> None
      | Some [] \<Rightarrow> None
      | Some (c # cur') \<Rightarrow> if c = TUPLE_END then Some cur' else parse_tuple (c # cur'))"
  by pat_completeness auto

lemma expect_shorter: "expect c cur = Some cur' \<Longrightarrow> c \<noteq> 0 \<Longrightarrow> length cur' < length cur"
  by (auto simp: expect_def take_one_def split: list.splits if_splits)

lemma closers_nonzero [simp]: "ARRAY_END \<noteq> 0" "PAIR_END \<noteq> 0" "TUPLE_END \<noteq> 0"
  by (simp_all add: ARRAY_END_def PAIR_END_def TUPLE_END_def)

lemma parse_shrinks:
  "parse_type_parse_array_parse_pair_parse_tuple_dom (Inl (Inl c1)) \<Longrightarrow>
     parse_type c1 = Some r1 \<Longrightarrow> length r1 \<le> length c1 \<and> (c1 \<noteq> [] \<longrightarrow> length r1 < length c1)"
  "parse_type_parse_array_parse_pair_parse_tuple_dom (Inl (Inr c2)) \<Longrightarrow>
     parse_array c2 = Some r2 \<Longrightarrow> length r2 < length c2"
  "parse_type_parse_array_parse_pair_parse_tuple_dom (Inr (Inl c3)) \<Longrightarrow>
     parse_pair c3 = Some r3 \<Longrightarrow> length r3 < length c3"
  "parse_type_parse_array_parse_pair_parse_tuple_dom (Inr (Inr c4)) \<Longrightarrow>
     parse_tuple c4 = Some r4 \<Longrightarrow> length r4 < length c4"
proof (induction c1 and c2 and c3 and c4 arbitrary: r1 and r2 and r3 and r4
    rule: parse_type_parse_array_parse_pair_parse_tuple.pinduct)
  case 1
  then show ?case
    by (simp add: parse_type.psimps)
next
  case (2 first cur)
  then show ?case
    by (fastforce simp: parse_type.psimps split: if_splits)
next
  case (3 cur)
  then show ?case
    by (fastforce simp: parse_array.psimps dest: expect_shorter split: option.splits)
next
  case (4 cur)
  then show ?case
    by (fastforce simp: parse_pair.psimps dest: expect_shorter split: option.splits)
next
  case (5 cur)
  then show ?case
    by (fastforce simp: parse_tuple.psimps split: option.splits list.splits if_splits)
qed

termination parse_type
  by (relation "measure (\<lambda>x. case x of
      Inl (Inl c) \<Rightarrow> 2 * length c | Inl (Inr c) \<Rightarrow> 2 * length c + 1
    | Inr (Inl c) \<Rightarrow> 2 * length c + 1 | Inr (Inr c) \<Rightarrow> 2 * length c + 1)")
    (auto dest: parse_shrinks)

declare parse_array.simps [simp del] parse_pair.simps [simp del] parse_tuple.simps [simp del]

lemmas parse_container_simps = parse_array.simps parse_pair.simps parse_tuple.simps

definition dicey_typedescr_in_view :: "byte list \<Rightarrow> byte list option" where
  "dicey_typedescr_in_view view = parse_type view"

datatype dicey_typedescr =
  DICEY_TYPEDESCR_VALUE cstring
| DICEY_TYPEDESCR_FUNCTIONAL cstring cstring

definition dicey_typedescr_parse :: "cstring \<Rightarrow> dicey_typedescr option result" where
  "dicey_typedescr_parse root =
     (case parse_type root of
        None \<Rightarrow> Ok None
      | Some typedescr \<Rightarrow>
          if typedescr = [] then Ok (Some (DICEY_TYPEDESCR_VALUE root))
          else
            (let input = take (length root - length typedescr) root in
             and_then (parse_arrow typedescr) (\<lambda>arrow.
               case arrow of
                 None \<Rightarrow> Ok None
               | Some output \<Rightarrow>
                   if output = [] then Ok None
                   else if parse_type output \<noteq> Some [] then Ok None
                   else Ok (Some (DICEY_TYPEDESCR_FUNCTIONAL input output)))))"

definition dicey_typedescr_is_valid :: "cstring \<Rightarrow> bool result" where
  "dicey_typedescr_is_valid typedescr =
     and_then (dicey_typedescr_parse typedescr) (\<lambda>d. Ok (d \<noteq> None))"

section \<open>The documented grammar\<close>

text \<open>The production \<open>value\<close> of the grammar, its well-formed trees and the words they stand for.\<close>

datatype typedescr_value =
  TdType dicey_type
| TdVariant
| TdArray typedescr_value
| TdTuple "typedescr_value list"
| TdPair typedescr_value typedescr_value

fun td_wf :: "typedescr_value \<Rightarrow> bool" where
  "td_wf (TdType t) \<longleftrightarrow> dicey_type_is_valid t \<and> \<not> dicey_type_is_container t"
| "td_wf TdVariant \<longleftrightarrow> True"
| "td_wf (TdArray d) \<longleftrightarrow> td_wf d"
| "td_wf (TdTuple ds) \<longleftrightarrow> ds \<noteq> [] \<and> list_all td_wf ds"
| "td_wf (TdPair c d) \<longleftrightarrow> td_wf c \<and> td_wf d"

fun td_str :: "typedescr_value \<Rightarrow> byte list" where
  "td_str (TdType t) = [type_id t]"
| "td_str TdVariant = [DICEY_VARIANT_ID]"
| "td_str (TdArray d) = type_id DICEY_TYPE_ARRAY # td_str d @ [ARRAY_END]"
| "td_str (TdTuple ds) = type_id DICEY_TYPE_TUPLE # concat (map td_str ds) @ [TUPLE_END]"
| "td_str (TdPair c d) = type_id DICEY_TYPE_PAIR # td_str c @ td_str d @ [PAIR_END]"

subsection \<open>Words of the grammar are parsed\<close>

lemma type_of_closers [simp]:
  "type_of_id ARRAY_END = DICEY_TYPE_INVALID" "type_of_id PAIR_END = DICEY_TYPE_INVALID"
  "type_of_id TUPLE_END = DICEY_TYPE_INVALID"
  by (simp_all add: type_of_id_def type_id_def valid_types_def ARRAY_END_def PAIR_END_def TUPLE_END_def)

lemma closers_not_types [simp]:
  "type_id t \<noteq> ARRAY_END" "type_id t \<noteq> PAIR_END" "type_id t \<noteq> TUPLE_END"
  "DICEY_VARIANT_ID \<noteq> ARRAY_END" "DICEY_VARIANT_ID \<noteq> PAIR_END" "DICEY_VARIANT_ID \<noteq> TUPLE_END"
  by (cases t; simp add: ARRAY_END_def PAIR_END_def TUPLE_END_def DICEY_VARIANT_ID_def type_id_def)+

lemma td_str_head: "td_wf d \<Longrightarrow> \<exists>c w. td_str d = c # w \<and> is_valid_type c"
  by (cases d) (auto simp: is_valid_type_def) 

lemma expect_Cons [simp]: "expect c (d # cur) = (if d = c then Some cur else None)"
  by (simp add: expect_def take_one_def)

lemma expect_Nil [simp]: "c \<noteq> 0 \<Longrightarrow> expect c [] = None"
  by (simp add: expect_def take_one_def)

lemma expect_Some_iff: "c \<noteq> 0 \<Longrightarrow> expect c cur = Some rest \<longleftrightarrow> cur = c # rest"
  by (cases cur) auto

lemma is_valid_type_closer [simp]: "\<not> is_valid_type TUPLE_END"
  using closers_not_types(6) [symmetric] by (simp add: is_valid_type_def)

lemma parse_tuple_str:
  assumes "\<And>d rest. d \<in> set ds \<Longrightarrow> parse_type (td_str d @ rest) = Some rest" and "ds \<noteq> []"
    and "list_all td_wf ds"
  shows "parse_tuple (concat (map td_str ds) @ TUPLE_END # rest) = Some rest"
  using assms
proof (induction ds)
  case (Cons d ds)
  show ?case
  proof (cases ds)
    case Nil
    then show ?thesis
      using Cons.prems by (simp add: parse_tuple.simps)
  next
    case (Cons e es)
    obtain c w where "td_str e = c # w" "is_valid_type c"
      using td_str_head [of e] Cons.prems(3) Cons by auto
    moreover have "c \<noteq> TUPLE_END"
      using calculation(2) by auto
    ultimately show ?thesis
      using Cons.prems Cons.IH Cons by (simp add: parse_tuple.simps [of "td_str d @ _"])
  qed
qed simp

lemma parse_type_str: "td_wf d \<Longrightarrow> parse_type (td_str d @ rest) = Some rest"
proof (induction d arbitrary: rest)
  case (TdType t)
  then show ?case
    by (cases t) (auto simp: is_valid_type_def dicey_type_is_container_def)
next
  case TdVariant
  then show ?case
    by (simp add: is_valid_type_def)
next
  case (TdTuple ds)
  then show ?case
    using parse_tuple_str [of ds rest] by (simp add: list_all_iff)
qed (simp_all add: parse_container_simps)

subsection \<open>What is parsed is a word of the grammar\<close>

lemma parse_type_words:
  "parse_type cur = Some rest \<Longrightarrow> cur \<noteq> [] \<Longrightarrow> \<exists>d. td_wf d \<and> cur = td_str d @ rest"
  "parse_array cur2 = Some rest2 \<Longrightarrow> \<exists>d. td_wf d \<and> cur2 = td_str d @ ARRAY_END # rest2"
  "parse_pair cur3 = Some rest3 \<Longrightarrow>
     \<exists>c d. td_wf c \<and> td_wf d \<and> cur3 = td_str c @ td_str d @ PAIR_END # rest3"
  "parse_tuple cur4 = Some rest4 \<Longrightarrow>
     \<exists>ds. ds \<noteq> [] \<and> list_all td_wf ds \<and> cur4 = concat (map td_str ds) @ TUPLE_END # rest4"
proof (induction cur and cur2 and cur3 and cur4 arbitrary: rest and rest2 and rest3 and rest4
    rule: parse_type_parse_array_parse_pair_parse_tuple.induct)
  case (2 first cur)
  consider "first = type_id DICEY_TYPE_ARRAY" | "first = type_id DICEY_TYPE_PAIR"
    | "first = type_id DICEY_TYPE_TUPLE"
    | "first \<notin> type_id ` {DICEY_TYPE_ARRAY, DICEY_TYPE_PAIR, DICEY_TYPE_TUPLE}"
    by blast
  then show ?case
  proof cases
    case 1
    with 2 obtain d where "td_wf d" "cur = td_str d @ ARRAY_END # rest"
      by auto
    with 1 show ?thesis
      by (intro exI [of _ "TdArray d"]) simp
  next
    case 2
    with "2.IH"(2) "2.prems"(1) obtain c d where
      "td_wf c" "td_wf d" "cur = td_str c @ td_str d @ PAIR_END # rest"
      by auto
    with 2 show ?thesis
      by (intro exI [of _ "TdPair c d"]) simp
  next
    case 3
    with "2.IH"(3) "2.prems"(1) obtain ds where
      "ds \<noteq> []" "list_all td_wf ds" "cur = concat (map td_str ds) @ TUPLE_END # rest"
      by auto
    with 3 show ?thesis
      by (intro exI [of _ "TdTuple ds"]) simp
  next
    case 4
    with "2.prems"(1) have first: "is_valid_type first" "cur = rest"
      by (auto split: if_splits)
    show ?thesis
    proof (cases "first = DICEY_VARIANT_ID")
      case True
      with first show ?thesis
        by (intro exI [of _ TdVariant]) simp
    next
      case False
      with first(1) have t: "type_id (type_of_id first) = first" "dicey_type_is_valid (type_of_id first)"
        by (auto simp: is_valid_type_def type_id_of_id)
      with 4 have "\<not> dicey_type_is_container (type_of_id first)"
        by (cases "type_of_id first") (auto simp: dicey_type_is_container_def)
      with t first(2) show ?thesis
        by (intro exI [of _ "TdType (type_of_id first)"]) simp
    qed
  qed
next
  case (3 cur)
  then have parse: "parse_type cur = Some (ARRAY_END # rest2)"
    by (simp add: parse_array.simps expect_Some_iff split: option.splits)
  then have "cur \<noteq> []"
    by auto
  with 3(1) parse show ?case
    by blast
next
  case (4 cur)
  then obtain cur' where "parse_type cur = Some cur'" "parse_type cur' = Some (PAIR_END # rest3)"
    by (auto simp: parse_pair.simps expect_Some_iff split: option.splits)
  moreover have "cur \<noteq> []" "cur' \<noteq> []"
    using calculation by auto
  ultimately obtain c d where "td_wf c" "cur = td_str c @ cur'" "td_wf d" "cur' = td_str d @ PAIR_END # rest3"
    using "4.IH" by blast
  then show ?case
    by (intro exI [of _ c] exI [of _ d]) simp
next
  case (5 cur)
  obtain c cur' where step: "parse_type cur = Some (c # cur')" "cur \<noteq> []"
    using "5.prems" unfolding parse_tuple.simps [of cur]
    by (cases "cur = []") (auto split: option.splits list.splits)
  with "5.IH"(1) obtain d where d: "td_wf d" "cur = td_str d @ c # cur'"
    by blast
  show ?case
  proof (cases "c = TUPLE_END")
    case True
    with "5.prems" step(1) have "cur' = rest4"
      by (simp add: parse_tuple.simps [of cur])
    with d True show ?thesis
      by (intro exI [of _ "[d]"]) simp
  next
    case False
    with "5.prems" step have "parse_tuple (c # cur') = Some rest4"
      by (simp add: parse_tuple.simps [of cur])
    with "5.IH"(2) [OF step(1) refl False] obtain ds where
      "ds \<noteq> []" "list_all td_wf ds" "c # cur' = concat (map td_str ds) @ TUPLE_END # rest4"
      by blast
    with d show ?thesis
      by (intro exI [of _ "d # ds"]) simp
  qed
qed simp

lemma parse_type_Some_iff:
  "parse_type cur = Some rest \<longleftrightarrow>
     cur = [] \<and> rest = [] \<or> (\<exists>d. td_wf d \<and> cur = td_str d @ rest)"
proof (cases "cur = []")
  case True
  then show ?thesis
    using td_str_head by auto
next
  case False
  then show ?thesis
    using parse_type_words(1) [OF _ False] parse_type_str by blast
qed

lemma td_str_unique: "td_wf c \<Longrightarrow> td_wf d \<Longrightarrow> td_str c @ r = td_str d @ s \<Longrightarrow> r = s \<and> td_str c = td_str d"
  using parse_type_str [of c r] parse_type_str [of d s] by auto

subsection \<open>Arrows\<close>

lemma skip_whitespace_Ok_iff:
  "skip_whitespace cur = Ok rest \<longleftrightarrow>
     (\<exists>ws. cur = ws @ rest \<and> list_all isspace ws \<and>
       (rest = [] \<or> hd rest \<le> 127 \<and> \<not> isspace (hd rest)))"
proof (induction cur)
  case Nil
  then show ?case by auto
next
  case (Cons c cur)
  have sp: "isspace c \<Longrightarrow> \<not> 127 < c"
    by (auto simp: isspace_def)
  show ?case
  proof (cases "isspace c")
    case True
    have "(\<exists>ws. c # cur = ws @ rest \<and> list_all isspace ws \<and> (rest = [] \<or> hd rest \<le> 127 \<and> \<not> isspace (hd rest))) \<longleftrightarrow>
      (\<exists>ws. cur = ws @ rest \<and> list_all isspace ws \<and> (rest = [] \<or> hd rest \<le> 127 \<and> \<not> isspace (hd rest)))"
      using True by (auto simp: Cons_eq_append_conv)
    with Cons True sp show ?thesis
      by simp
  next
    case False
    then show ?thesis
      by (auto simp: Cons_eq_append_conv not_less)
  qed
qed

lemma match_exact_Some_iff: "match_exact cur tag = Some rest \<longleftrightarrow> cur = tag @ rest"
  by (induction cur tag rule: match_exact.induct) auto

lemma arrow_head [simp]: "hd (cs ''->'' @ rest) \<le> 127" "\<not> isspace (hd (cs ''->'' @ rest))"
  by (simp_all add: cs_def isspace_def)

lemma parse_arrow_Some_iff:
  "parse_arrow cur = Ok (Some rest) \<longleftrightarrow>
     (\<exists>ws ws'. cur = ws @ cs ''->'' @ ws' @ rest \<and> list_all isspace ws \<and> list_all isspace ws' \<and>
       (rest = [] \<or> hd rest \<le> 127 \<and> \<not> isspace (hd rest)))"
proof -
  have "parse_arrow cur = Ok (Some rest) \<longleftrightarrow>
      (\<exists>cur1. skip_whitespace cur = Ok (cs ''->'' @ cur1) \<and> skip_whitespace cur1 = Ok rest)"
    by (auto simp: parse_arrow_def outcome_simps match_exact_Some_iff split: option.splits)
  then show ?thesis
    unfolding skip_whitespace_Ok_iff by (auto simp del: arrow_head simp add: arrow_head)
qed

lemma type_char_ascii: "type_id t \<le> 127" "\<not> isspace (type_id t)"
  by (cases t; simp add: type_id_def isspace_def)+

lemma variant_char_ascii: "DICEY_VARIANT_ID \<le> 127" "\<not> isspace DICEY_VARIANT_ID"
  by (simp_all add: DICEY_VARIANT_ID_def isspace_def)

lemma td_str_starts: "td_wf d \<Longrightarrow> td_str d \<noteq> [] \<and> hd (td_str d) \<le> 127 \<and> \<not> isspace (hd (td_str d))"
  by (cases d) (simp_all add: type_char_ascii variant_char_ascii)

lemma typedescr_value_iff:
  "dicey_typedescr_parse s = Ok (Some (DICEY_TYPEDESCR_VALUE v)) \<longleftrightarrow>
     v = s \<and> (s = [] \<or> (\<exists>d. td_wf d \<and> s = td_str d))"
proof -
  have "dicey_typedescr_parse s = Ok (Some (DICEY_TYPEDESCR_VALUE v)) \<longleftrightarrow> v = s \<and> parse_type s = Some []"
    by (auto simp: dicey_typedescr_parse_def outcome_simps Let_def split: option.splits if_splits)
  then show ?thesis
    using parse_type_Some_iff [of s "[]"] by simp
qed

lemma typedescr_functional_iff:
  "dicey_typedescr_parse s = Ok (Some (DICEY_TYPEDESCR_FUNCTIONAL i out)) \<longleftrightarrow>
     (\<exists>c d ws ws'. td_wf c \<and> td_wf d \<and> i = td_str c \<and> out = td_str d \<and>
        s = i @ ws @ cs ''->'' @ ws' @ out \<and> list_all isspace ws \<and> list_all isspace ws')"
  (is "?parsed \<longleftrightarrow> ?word")
proof
  assume parsed: ?parsed
  obtain rest where rest: "parse_type s = Some rest"
    using parsed unfolding dicey_typedescr_parse_def by (cases "parse_type s") auto
  with parsed have "rest \<noteq> []"
    by (auto simp: dicey_typedescr_parse_def)
  with parsed rest have next_out: "and_then (parse_arrow rest) (\<lambda>arrow.
      case arrow of
        None \<Rightarrow> Ok None
      | Some output \<Rightarrow>
          if output = [] then Ok None
          else if parse_type output \<noteq> Some [] then Ok None
          else Ok (Some (DICEY_TYPEDESCR_FUNCTIONAL (take (length s - length rest) s) output))) =
    Ok (Some (DICEY_TYPEDESCR_FUNCTIONAL i out))"
    by (simp only: dicey_typedescr_parse_def option.case if_False Let_def)
  obtain arrow where arrow: "parse_arrow rest = Ok arrow"
    using next_out by (cases "parse_arrow rest") simp_all
  then have arrow: "parse_arrow rest = Ok (Some out)" "out \<noteq> []" "parse_type out = Some []"
    and i: "i = take (length s - length rest) s"
    using next_out by (cases arrow; simp split: if_splits)+
  from rest \<open>rest \<noteq> []\<close> obtain c where c: "td_wf c" "s = td_str c @ rest"
    unfolding parse_type_Some_iff by blast
  from arrow(2,3) obtain d where d: "td_wf d" "out = td_str d"
    unfolding parse_type_Some_iff by auto
  from arrow(1) obtain ws ws' where "rest = ws @ cs ''->'' @ ws' @ out" "list_all isspace ws"
      "list_all isspace ws'"
    unfolding parse_arrow_Some_iff by blast
  with c d i show ?word
    by (intro exI [of _ c] exI [of _ d] exI [of _ ws] exI [of _ ws']) simp
next
  assume ?word
  then obtain c d ws ws' where w: "td_wf c" "td_wf d" "i = td_str c" "out = td_str d"
    "s = i @ ws @ cs ''->'' @ ws' @ out" "list_all isspace ws" "list_all isspace ws'"
    by blast
  have "parse_type s = Some (ws @ cs ''->'' @ ws' @ out)"
    unfolding w(3,5) by (rule parse_type_str) (rule w(1))
  moreover have "parse_arrow (ws @ cs ''->'' @ ws' @ out) = Ok (Some out)"
    unfolding parse_arrow_Some_iff using w td_str_starts by blast
  moreover have "parse_type out = Some []"
    using parse_type_str [OF w(2), of "[]"] w(4) by simp
  ultimately show ?parsed
    using td_str_starts [OF w(2)] w by (simp add: dicey_typedescr_parse_def cs_def)
qed

end
