(* ===== verification/Dicey_Signatures.thy ===== *)
theory Dicey_Signatures
  imports Dicey_Typedescr
begin

text \<open>
  Checking a value against a signature: \<^verbatim>\<open>src/wirefmt/value-validate.c\<close>, with what it means for a
  value to conform to a type descriptor as the specification of \<open>checksig\<close>.
\<close>

section \<open>The check\<close>

text \<open>
  \<open>ndebug\<close> tells whether the library was built with \<open>NDEBUG\<close>: without it an assertion that does
  not hold aborts, with it the execution goes on.  \<open>DICEY_ASSUME\<close> is an assertion as well; what a
  release build does after a failed one, reading a zeroed destination, is not modelled.
\<close>

definition DICEY_ASSUME :: "'a result \<Rightarrow> 'a result" where
  "DICEY_ASSUME r = (case r of Err e \<Rightarrow> Undef | _ \<Rightarrow> r)"

definition is_compatible :: "bool \<Rightarrow> byte \<Rightarrow> byte \<Rightarrow> bool result" where
  "is_compatible ndebug val_ty ty =
     c_assert ndebug (dicey_type_is_valid (type_of_id val_ty))
       (Ok (ty = DICEY_VARIANT_ID \<or> val_ty = ty))"

text \<open>A signature is a valid view; a read from the empty one leaves it and the zeroed byte.\<close>

definition take_elem :: "byte list \<Rightarrow> byte \<times> byte list" where
  "take_elem sig =
     (case dicey_view_read_ptr (Some sig) 1 of
        Ok (n, bs, Some sig') \<Rightarrow> (bs ! 0, sig')
      | _ \<Rightarrow> (type_id DICEY_TYPE_INVALID, sig))"

definition skip_char :: "bool \<Rightarrow> byte list \<Rightarrow> (byte \<times> byte list) result" where
  "skip_char ndebug sig =
     (case dicey_view_read_ptr (Some sig) 1 of
        Ok (n, bs, Some sig') \<Rightarrow> c_assert ndebug (n = 1) (Ok (bs ! 0, sig'))
      | _ \<Rightarrow> c_assert ndebug False (Ok (0, sig)))"

definition skip_closer :: "bool \<Rightarrow> byte \<Rightarrow> byte list \<Rightarrow> byte list option result" where
  "skip_closer ndebug closer sig =
     and_then (skip_char ndebug sig) (\<lambda>(cpar, sig'). c_assert ndebug (cpar = closer) (Ok (Some sig')))"

definition checksig_array :: "bool \<Rightarrow> byte list \<Rightarrow> dicey_value \<Rightarrow> byte list option result" where
  "checksig_array ndebug sig v =
     and_then (DICEY_ASSUME (dicey_value_get_array v)) (\<lambda>l.
       let array_ty = fst (take_elem sig) in
       c_assert ndebug (array_ty \<noteq> type_id DICEY_TYPE_INVALID)
         (and_then (is_compatible ndebug (dicey_list_type l) array_ty) (\<lambda>compat.
           if \<not> compat then Ok None
           else case dicey_typedescr_in_view sig of
             None \<Rightarrow> c_assert ndebug False (skip_closer ndebug ARRAY_END sig)
           | Some sig' \<Rightarrow> skip_closer ndebug ARRAY_END sig')))"

text \<open>
  \<open>checksig\<close> returns the signature that is left when it succeeds and \<open>None\<close> when it does not;
  \<open>checksig_tuple\<close> is its loop over the elements of a tuple.
\<close>

function (sequential, domintros)
  checksig :: "bool \<Rightarrow> byte list \<Rightarrow> dicey_value \<Rightarrow> byte list option result" and
  checksig_tuple :: "bool \<Rightarrow> byte list \<Rightarrow> dicey_iterator \<Rightarrow> byte list option result"
where
  "checksig ndebug sig v =
     (case take_elem sig of
        (elem_ty, sig1) \<Rightarrow>
          and_then (is_compatible ndebug (type_id (val_type v)) elem_ty) (\<lambda>compat.
            if \<not> compat then Ok None
            else if elem_ty = type_id DICEY_TYPE_ARRAY then checksig_array ndebug sig1 v
            else if elem_ty = type_id DICEY_TYPE_TUPLE then
              and_then (DICEY_ASSUME (dicey_value_get_tuple v)) (\<lambda>l.
                checksig_tuple ndebug sig1 (dicey_list_iter l))
            else if elem_ty = type_id DICEY_TYPE_PAIR then
              and_then (DICEY_ASSUME (dicey_value_get_pair v)) (\<lambda>(first, second).
                and_then (checksig ndebug sig1 first) (\<lambda>r1.
                  case r1 of
                    None \<Rightarrow> Ok None
                  | Some sig2 \<Rightarrow>
                      and_then (checksig ndebug sig2 second) (\<lambda>r2.
                        case r2 of
                          None \<Rightarrow> Ok None
                        | Some sig3 \<Rightarrow> skip_closer ndebug PAIR_END sig3)))
            else Ok (Some sig1)))"
| "checksig_tuple ndebug sig iter =
     (if \<not> dicey_iterator_has_next iter then skip_closer ndebug TUPLE_END sig
      else
        and_then (DICEY_ASSUME (dicey_iterator_next iter)) (\<lambda>(elem, iter').
          and_then (checksig ndebug sig elem) (\<lambda>r.
            case r of
              None \<Rightarrow> Ok None
            | Some sig' \<Rightarrow> checksig_tuple ndebug sig' iter')))"
  by pat_completeness auto

lemma take_elem_simps [simp]: "take_elem [] = (0, [])" "take_elem (c # sig) = (c, sig)"
  by (simp_all add: take_elem_def dicey_view_read_ptr_def dicey_view_read_def dicey_view_advance_def c_limits)

lemma ASSUME_Ok_iff [outcome_simps]: "DICEY_ASSUME r = Ok x \<longleftrightarrow> r = Ok x"
  by (cases r) (simp_all add: DICEY_ASSUME_def)

lemma ASSUME_Ok [simp]: "DICEY_ASSUME (Ok x) = Ok x"
  by (simp add: DICEY_ASSUME_def)

lemma skip_closer_simps [simp]:
  "skip_closer nd c (d # sig) = c_assert nd (d = c) (Ok (Some sig))"
  "skip_closer nd c [] = c_assert nd False (c_assert nd (c = 0) (Ok (Some [])))"
  by (auto simp: skip_closer_def skip_char_def dicey_view_read_ptr_def dicey_view_read_def
      dicey_view_advance_def c_limits c_assert_def)

lemma skip_closer_shorter: "skip_closer nd c sig = Ok (Some r) \<Longrightarrow> length r \<le> length sig"
  by (cases sig) (auto simp: outcome_simps)

lemma parse_type_shorter: "parse_type cur = Some rest \<Longrightarrow> length rest \<le> length cur"
  by (auto simp: parse_type_Some_iff)

lemma checksig_array_shorter: "checksig_array nd sig v = Ok (Some r) \<Longrightarrow> length r \<le> length sig"
  by (fastforce simp: checksig_array_def outcome_simps Let_def dicey_typedescr_in_view_def
      dest: skip_closer_shorter parse_type_shorter split: if_splits option.splits)

lemma value_ok_typed: "value_ok v \<Longrightarrow> val_type v \<noteq> DICEY_TYPE_INVALID"
  by (auto simp: value_ok_def)

lemmas iterator_next_typed = iterator_next_value_ok [THEN value_ok_typed]

lemma get_pair_typed:
  "dicey_value_get_pair v = Ok (a, b) \<Longrightarrow>
     val_type a \<noteq> DICEY_TYPE_INVALID \<and> val_type b \<noteq> DICEY_TYPE_INVALID"
  using pair_value_ok value_ok_typed by blast

lemma checksig_nonempty:
  assumes "is_compatible nd (type_id t) (fst (take_elem sig)) = Ok True" "t \<noteq> DICEY_TYPE_INVALID"
  obtains c sig1 where "sig = c # sig1" "take_elem sig = (c, sig1)"
  using assms by (cases sig) (auto simp: is_compatible_def outcome_simps DICEY_VARIANT_ID_def)

lemma checksig_shrinks:
  "checksig_checksig_tuple_dom (Inl (nd, sig, v)) \<Longrightarrow> checksig nd sig v = Ok (Some r) \<Longrightarrow>
     val_type v \<noteq> DICEY_TYPE_INVALID \<Longrightarrow> length r < length sig"
  "checksig_checksig_tuple_dom (Inr (nd', sig', it)) \<Longrightarrow> checksig_tuple nd' sig' it = Ok (Some r') \<Longrightarrow>
     length r' \<le> length sig'"
proof (induction nd sig v and nd' sig' it arbitrary: r and r' rule: checksig_checksig_tuple.pinduct)
  case (1 nd sig v)
  obtain c sig1 where sig: "sig = c # sig1" and te: "take_elem sig = (c, sig1)"
    by (rule checksig_nonempty [of nd "val_type v" sig])
       (use 1 in \<open>auto simp: checksig.psimps outcome_simps split: prod.splits if_splits\<close>)
  have step: "checksig nd sig v = (if c = type_id DICEY_TYPE_ARRAY then checksig_array nd sig1 v
            else if c = type_id DICEY_TYPE_TUPLE then
              and_then (DICEY_ASSUME (dicey_value_get_tuple v)) (\<lambda>l.
                checksig_tuple nd sig1 (dicey_list_iter l))
            else if c = type_id DICEY_TYPE_PAIR then
              and_then (DICEY_ASSUME (dicey_value_get_pair v)) (\<lambda>(first, second).
                and_then (checksig nd sig1 first) (\<lambda>r1.
                  case r1 of
                    None \<Rightarrow> Ok None
                  | Some sig2 \<Rightarrow>
                      and_then (checksig nd sig2 second) (\<lambda>r2.
                        case r2 of
                          None \<Rightarrow> Ok None
                        | Some sig3 \<Rightarrow> skip_closer nd PAIR_END sig3)))
            else Ok (Some sig1))"
    and compat: "is_compatible nd (type_id (val_type v)) c = Ok True"
    using 1 te by (auto simp: checksig.psimps outcome_simps split: if_splits)
  note IH = "1.IH" [OF te [symmetric] compat]
  have array: ?case if "c = type_id DICEY_TYPE_ARRAY"
    using that "1.prems"(1) step sig checksig_array_shorter [of nd sig1 v r] by simp
  have tuple: ?case if c: "c = type_id DICEY_TYPE_TUPLE"
  proof -
    obtain l where "dicey_value_get_tuple v = Ok l" "checksig_tuple nd sig1 (dicey_list_iter l) = Ok (Some r)"
      using c "1.prems"(1) step by (auto simp: outcome_simps)
    then show ?thesis
      using IH(1) c sig by (simp add: le_imp_less_Suc)
  qed
  have pair: ?case if c: "c = type_id DICEY_TYPE_PAIR"
  proof -
    obtain a b sig2 sig3 where ab: "dicey_value_get_pair v = Ok (a, b)"
      and first: "checksig nd sig1 a = Ok (Some sig2)" and second: "checksig nd sig2 b = Ok (Some sig3)"
      and closed: "skip_closer nd PAIR_END sig3 = Ok (Some r)"
      using c "1.prems"(1) step by (auto simp: outcome_simps split: option.splits)
    have "length sig2 < length sig1"
      using IH(2) [of "(a, b)"] ab first c get_pair_typed by simp
    moreover have "length sig3 < length sig2"
      using IH(3) [of "(a, b)"] ab first second c get_pair_typed by simp
    ultimately show ?thesis
      using skip_closer_shorter [OF closed] sig by simp
  qed
  show ?case
    using array tuple pair "1.prems"(1) step sig by (auto split: if_splits)
next
  case (2 nd sig it)
  show ?case
  proof (cases "dicey_iterator_has_next it")
    case False
    then show ?thesis
      using "2.hyps" "2.prems" skip_closer_shorter by (simp add: checksig_tuple.psimps)
  next
    case True
    then obtain elem it' sig1 where step: "dicey_iterator_next it = Ok (elem, it')"
      "checksig nd sig elem = Ok (Some sig1)" "checksig_tuple nd sig1 it' = Ok (Some r')"
      using "2.hyps" "2.prems" by (auto simp: checksig_tuple.psimps outcome_simps split: option.splits)
    have "length sig1 < length sig"
      using "2.IH"(1) [of "(elem, it')"] step True iterator_next_typed by simp
    moreover have "length r' \<le> length sig1"
      using "2.IH"(2) [of "(elem, it')"] step True by simp
    ultimately show ?thesis
      by simp
  qed
qed

lemma take_elem_nonzero: "(c, sig1) = take_elem sig \<Longrightarrow> c \<noteq> 0 \<Longrightarrow> sig = c # sig1"
  by (cases sig) auto

termination checksig
proof (relation "measure (\<lambda>x. case x of Inl (nd, sig, v) \<Rightarrow> 2 * length sig | Inr (nd, sig, it) \<Rightarrow> 2 * length sig + 1)",
    goal_cases)
  case (2 nd sig v c sig1 compat l)
  then show ?case
    using take_elem_nonzero [of c sig1 sig] by simp
next
  case (3 nd sig v c sig1 compat ab a b)
  then show ?case
    using take_elem_nonzero [of c sig1 sig] by simp
next
  case (4 nd sig v c sig1 compat ab a b r1 sig2)
  then show ?case
    using take_elem_nonzero [of c sig1 sig] checksig_shrinks(1) [of nd sig1 a sig2] get_pair_typed
    by (auto simp: outcome_simps)
next
  case (6 nd sig it ab elem it' r sig')
  then show ?case
    using checksig_shrinks(1) [of nd sig elem sig'] iterator_next_typed
    by (auto simp: outcome_simps)
qed simp_all

declare checksig.simps [simp del] checksig_tuple.simps [simp del]

definition dicey_value_can_be_returned_from :: "bool \<Rightarrow> dicey_value \<Rightarrow> cstring \<Rightarrow> bool result" where
  "dicey_value_can_be_returned_from ndebug v sigstr =
     (if val_type v = DICEY_TYPE_ERROR then Ok True
      else
        and_then (dicey_typedescr_parse sigstr) (\<lambda>descr.
          case descr of
            None \<Rightarrow> Ok False
          | Some (DICEY_TYPEDESCR_VALUE sig) \<Rightarrow>
              and_then (checksig ndebug sig v) (\<lambda>r. Ok (r \<noteq> None))
          | Some (DICEY_TYPEDESCR_FUNCTIONAL input output) \<Rightarrow>
              and_then (checksig ndebug output v) (\<lambda>r. Ok (r \<noteq> None))))"

definition dicey_value_is_compatible_with :: "bool \<Rightarrow> dicey_value \<Rightarrow> cstring \<Rightarrow> bool result" where
  "dicey_value_is_compatible_with ndebug v sigstr =
     and_then (dicey_typedescr_parse sigstr) (\<lambda>descr.
       case descr of
         None \<Rightarrow> Ok False
       | Some (DICEY_TYPEDESCR_VALUE sig) \<Rightarrow>
           and_then (checksig ndebug sig v) (\<lambda>r. Ok (r \<noteq> None))
       | Some (DICEY_TYPEDESCR_FUNCTIONAL input output) \<Rightarrow>
           and_then (checksig ndebug input v) (\<lambda>r. Ok (r \<noteq> None)))"

section \<open>Conformance\<close>

text \<open>
  What a type descriptor promises of a value: the types match, a variant matches anything, the
  elements of a pair and of a tuple conform one by one, and the element type of an array is the
  one the descriptor starts with.
\<close>

fun td_head :: "typedescr_value \<Rightarrow> byte" where
  "td_head (TdType t) = type_id t"
| "td_head TdVariant = DICEY_VARIANT_ID"
| "td_head (TdArray d) = type_id DICEY_TYPE_ARRAY"
| "td_head (TdTuple ds) = type_id DICEY_TYPE_TUPLE"
| "td_head (TdPair c d) = type_id DICEY_TYPE_PAIR"

inductive conforms :: "typedescr_value \<Rightarrow> dicey_value \<Rightarrow> bool" where
  conforms_type: "conforms (TdType (val_type v)) v"
| conforms_variant: "conforms TdVariant v"
| conforms_array: "dicey_value_get_array v = Ok l \<Longrightarrow> td_head d \<in> {dicey_list_type l, DICEY_VARIANT_ID} \<Longrightarrow>
    conforms (TdArray d) v"
| conforms_pair: "dicey_value_get_pair v = Ok (a, b) \<Longrightarrow> conforms c a \<Longrightarrow> conforms d b \<Longrightarrow>
    conforms (TdPair c d) v"
| conforms_tuple: "dicey_value_get_tuple v = Ok l \<Longrightarrow> iterates (dicey_list_iter l) vs \<Longrightarrow>
    list_all2 conforms ds vs \<Longrightarrow> conforms (TdTuple ds) v"
monos list.rel_mono

lemma td_str_head_tl: "td_str d = td_head d # tl (td_str d)"
  by (cases d) simp_all

lemma td_head_valid: "td_wf d \<Longrightarrow> td_head d \<noteq> type_id DICEY_TYPE_INVALID"
  using type_id_variant(2) [of DICEY_TYPE_INVALID] by (cases d) simp_all

lemma is_compatible_eq:
  "t \<noteq> DICEY_TYPE_INVALID \<Longrightarrow> is_compatible nd (type_id t) c = Ok (c = DICEY_VARIANT_ID \<or> type_id t = c)"
  by (simp add: is_compatible_def)

lemma iterates_value_ok: "iterates it vs \<Longrightarrow> list_all value_ok vs"
  by (induction rule: iterates.induct) (auto dest: iterator_next_value_ok)

subsection \<open>One step of the check\<close>

lemma checksig_leaf:
  assumes "val_type v \<noteq> DICEY_TYPE_INVALID" and "td_wf (TdType t)"
  shows "checksig nd (type_id t # rest) v = Ok (if val_type v = t then Some rest else None)"
  using assms by (auto simp: checksig.simps is_compatible_eq dicey_type_is_container_def)

lemma checksig_variant:
  "val_type v \<noteq> DICEY_TYPE_INVALID \<Longrightarrow> checksig nd (DICEY_VARIANT_ID # rest) v = Ok (Some rest)"
  by (simp add: checksig.simps is_compatible_eq)

lemma get_array_value_ok:
  assumes "value_ok v" and "dicey_value_get_array v = Ok l"
  obtains t where "dicey_list_type l = type_id t" "t \<noteq> DICEY_TYPE_INVALID"
  using assms
  by (auto simp: value_ok_def dicey_value_get_array_def dicey_value_get_list_def dicey_list_type_def
      split: if_splits)

lemma checksig_array_eq:
  assumes "value_ok v" and "val_type v = DICEY_TYPE_ARRAY" and "td_wf d"
  shows "checksig_array nd (td_str d @ ARRAY_END # rest) v =
    Ok (if conforms (TdArray d) v then Some rest else None)"
proof -
  obtain l where l: "dicey_value_get_array v = Ok l"
    using assms(1,2) by (auto simp: value_ok_def dicey_value_get_array_def dicey_value_get_list_def)
  obtain t where t: "dicey_list_type l = type_id t" "t \<noteq> DICEY_TYPE_INVALID"
    using get_array_value_ok [OF assms(1) l] .
  have "conforms (TdArray d) v \<longleftrightarrow> td_head d \<in> {dicey_list_type l, DICEY_VARIANT_ID}"
    using l by (auto intro: conforms_array elim: conforms.cases)
  moreover have "fst (take_elem (td_str d @ ARRAY_END # rest)) = td_head d"
    by (subst td_str_head_tl) simp
  moreover have "dicey_typedescr_in_view (td_str d @ ARRAY_END # rest) = Some (ARRAY_END # rest)"
    using assms(3) by (simp add: dicey_typedescr_in_view_def parse_type_str)
  ultimately show ?thesis
    using l t td_head_valid [OF assms(3)]
    by (auto simp: checksig_array_def is_compatible_eq)
qed

lemma checksig_container_types:
  assumes "val_type v \<noteq> DICEY_TYPE_INVALID" and "dicey_type_is_container t" and "val_type v \<noteq> t"
  shows "checksig nd (type_id t # rest) v = Ok None"
  using assms by (auto simp: checksig.simps is_compatible_eq)

subsection \<open>Completeness\<close>

lemma checksig_tuple_complete:
  assumes "iterates it vs"
    and "list_all2 (\<lambda>d v. \<forall>rest. checksig nd (td_str d @ rest) v = Ok (Some rest)) ds vs"
  shows "checksig_tuple nd (concat (map td_str ds) @ TUPLE_END # rest) it = Ok (Some rest)"
  using assms
proof (induction arbitrary: ds rule: iterates.induct)
  case (iterates_done it)
  then show ?case
    by (simp add: checksig_tuple.simps)
next
  case (iterates_step it v it' vs)
  then obtain d ds' where "ds = d # ds'" "\<And>rest. checksig nd (td_str d @ rest) v = Ok (Some rest)"
    "list_all2 (\<lambda>d v. \<forall>rest. checksig nd (td_str d @ rest) v = Ok (Some rest)) ds' vs"
    by (auto simp: list_all2_Cons2)
  with iterates_step show ?case
    by (simp add: checksig_tuple.simps [of nd _ it])
qed

lemma checksig_complete:
  assumes "conforms d v" and "td_wf d" and "value_ok v"
  shows "checksig nd (td_str d @ rest) v = Ok (Some rest)"
  using assms
proof (induction arbitrary: rest rule: conforms.induct)
  case (conforms_type v)
  then show ?case
    using checksig_leaf [OF value_ok_typed] by simp
next
  case (conforms_variant v)
  then show ?case
    using checksig_variant value_ok_typed by simp
next
  case (conforms_array v l d)
  then have ty: "val_type v = DICEY_TYPE_ARRAY"
    by (auto simp: dicey_value_get_array_def split: if_splits)
  have "conforms (TdArray d) v"
    using conforms_array.hyps by (rule conforms.conforms_array)
  with conforms_array ty show ?case
    using checksig_array_eq [of v d nd rest] by (simp add: checksig.simps is_compatible_eq)
next
  case (conforms_pair v a b c d)
  then have ty: "val_type v = DICEY_TYPE_PAIR"
    by (auto simp: dicey_value_get_pair_def split: if_splits)
  from conforms_pair pair_value_ok have
    "\<And>rest. checksig nd (td_str c @ rest) a = Ok (Some rest)" "\<And>rest. checksig nd (td_str d @ rest) b = Ok (Some rest)"
    by auto
  with conforms_pair.hyps(1) ty show ?case
    by (simp add: checksig.simps [of nd _ v] is_compatible_eq)
next
  case (conforms_tuple v l vs ds)
  then have ty: "val_type v = DICEY_TYPE_TUPLE"
    by (auto simp: dicey_value_get_tuple_def split: if_splits)
  have "list_all2 (\<lambda>d v. \<forall>rest. checksig nd (td_str d @ rest) v = Ok (Some rest)) ds vs"
    using conforms_tuple iterates_value_ok [OF conforms_tuple.hyps(2)]
    by (auto simp: list_all2_conv_all_nth list_all_length)
  from checksig_tuple_complete [OF conforms_tuple.hyps(2) this] conforms_tuple.hyps(1) ty show ?case
    by (simp add: checksig.simps is_compatible_eq)
qed

subsection \<open>Soundness\<close>

lemma checksig_tuple_sound:
  assumes "\<And>d v rest r. d \<in> set ds \<Longrightarrow> value_ok v \<Longrightarrow> checksig False (td_str d @ rest) v = Ok (Some r) \<Longrightarrow>
      conforms d v \<and> r = rest"
    and "list_all td_wf ds"
    and "checksig_tuple False (concat (map td_str ds) @ TUPLE_END # rest) it = Ok (Some r)"
  shows "\<exists>vs. iterates it vs \<and> list_all2 conforms ds vs \<and> r = rest"
  using assms
proof (induction ds arbitrary: it)
  case Nil
  show ?case
  proof (cases "dicey_iterator_has_next it")
    case False
    with Nil.prems(3) show ?thesis
      by (auto simp: checksig_tuple.simps outcome_simps intro: iterates_done)
  next
    case True
    then obtain elem it' sig where "dicey_iterator_next it = Ok (elem, it')"
      "checksig False (TUPLE_END # rest) elem = Ok (Some sig)"
      using Nil.prems(3) by (auto simp: checksig_tuple.simps [of _ _ it] outcome_simps split: option.splits)
    then have False
      using iterator_next_typed closers_not_types(6) [symmetric]
      by (auto simp: checksig.simps is_compatible_eq)
    then show ?thesis ..
  qed
next
  case (Cons d ds)
  note str = td_str_head_tl [of d]
  have head: "td_head d \<noteq> TUPLE_END"
    using Cons.prems(2) closers_not_types by (cases d) auto
  have more: "dicey_iterator_has_next it"
  proof (rule ccontr)
    assume "\<not> dicey_iterator_has_next it"
    with Cons.prems(3) have "skip_closer False TUPLE_END (td_str d @ concat (map td_str ds) @ TUPLE_END # rest) = Ok (Some r)"
      by (simp add: checksig_tuple.simps)
    with head show False
      by (subst (asm) str) (simp add: outcome_simps)
  qed
  with Cons.prems(3) obtain elem it' sig where step: "dicey_iterator_next it = Ok (elem, it')"
    "checksig False (td_str d @ concat (map td_str ds) @ TUPLE_END # rest) elem = Ok (Some sig)"
    "checksig_tuple False sig it' = Ok (Some r)"
    by (auto simp: checksig_tuple.simps [of _ _ it] outcome_simps split: option.splits)
  have "conforms d elem" "sig = concat (map td_str ds) @ TUPLE_END # rest"
    using Cons.prems(1) [OF _ iterator_next_value_ok [OF step(1)] step(2)] by simp_all
  moreover obtain vs where "iterates it' vs" "list_all2 conforms ds vs" "r = rest"
    using Cons.IH [OF Cons.prems(1)] Cons.prems(2) step(3) calculation(2) by fastforce
  ultimately show ?case
    using iterates_step [OF more step(1)] by blast
qed

lemma checksig_sound:
  assumes "td_wf d" and "value_ok v" and "checksig False (td_str d @ rest) v = Ok (Some r)"
  shows "conforms d v \<and> r = rest"
  using assms
proof (induction d arbitrary: v rest r)
  case (TdType t)
  then show ?case
    using checksig_leaf [OF value_ok_typed, of v t False rest]
    by (auto intro: conforms_type split: if_splits)
next
  case TdVariant
  then show ?case
    using checksig_variant value_ok_typed by (auto intro: conforms_variant)
next
  case (TdArray d)
  have ty: "val_type v = DICEY_TYPE_ARRAY"
    using TdArray.prems(3) checksig_container_types [OF value_ok_typed [OF TdArray.prems(2)], of DICEY_TYPE_ARRAY]
    by (cases "val_type v = DICEY_TYPE_ARRAY") (simp_all add: dicey_type_is_container_def)
  with TdArray.prems have "checksig_array False (td_str d @ ARRAY_END # rest) v = Ok (Some r)"
    by (simp add: checksig.simps is_compatible_eq)
  with TdArray.prems ty show ?case
    using checksig_array_eq [of v d False rest] by (simp split: if_splits)
next
  case (TdTuple ds)
  have ty: "val_type v = DICEY_TYPE_TUPLE"
    using TdTuple.prems(3) checksig_container_types [OF value_ok_typed [OF TdTuple.prems(2)], of DICEY_TYPE_TUPLE]
    by (cases "val_type v = DICEY_TYPE_TUPLE") (simp_all add: dicey_type_is_container_def)
  with TdTuple.prems obtain l where l: "dicey_value_get_tuple v = Ok l"
    "checksig_tuple False (concat (map td_str ds) @ TUPLE_END # rest) (dicey_list_iter l) = Ok (Some r)"
    by (auto simp: checksig.simps is_compatible_eq outcome_simps)
  have wf: "list_all td_wf ds"
    using TdTuple.prems(1) by simp
  have "conforms d w \<and> r' = rest'"
    if "d \<in> set ds" "value_ok w" "checksig False (td_str d @ rest') w = Ok (Some r')" for d w rest' r'
    using TdTuple.IH [OF that(1) _ that(2,3)] wf that(1) by (simp add: list_all_iff)
  then obtain vs where "iterates (dicey_list_iter l) vs" "list_all2 conforms ds vs" "r = rest"
    using checksig_tuple_sound [OF _ wf l(2)] by blast
  then show ?case
    using conforms_tuple [OF l(1)] by blast
next
  case (TdPair c d)
  have ty: "val_type v = DICEY_TYPE_PAIR"
    using TdPair.prems(3) checksig_container_types [OF value_ok_typed [OF TdPair.prems(2)], of DICEY_TYPE_PAIR]
    by (cases "val_type v = DICEY_TYPE_PAIR") (simp_all add: dicey_type_is_container_def)
  with TdPair.prems(3) obtain a b sig2 sig3 where ab: "dicey_value_get_pair v = Ok (a, b)"
    and first: "checksig False (td_str c @ td_str d @ PAIR_END # rest) a = Ok (Some sig2)"
    and second: "checksig False sig2 b = Ok (Some sig3)"
    and closed: "skip_closer False PAIR_END sig3 = Ok (Some r)"
    by (auto simp: checksig.simps [of False _ v] is_compatible_eq outcome_simps split: option.splits)
  have c: "conforms c a" "sig2 = td_str d @ PAIR_END # rest"
    using TdPair.IH(1) [OF _ _ first] TdPair.prems(1) pair_value_ok [OF ab] by simp_all
  have d: "conforms d b" "sig3 = PAIR_END # rest"
    using TdPair.IH(2) [OF _ _ second [unfolded c(2)]] TdPair.prems(1) pair_value_ok [OF ab] by simp_all
  show ?case
    using conforms_pair [OF ab c(1) d(1)] closed d(2) by simp
qed

end
