(* ===== verification/Dicey_Uuid.thy ===== *)
theory Dicey_Uuid
  imports Dicey_Typedescr
begin

text \<open>
  Reading UUIDs: \<^verbatim>\<open>src/wirefmt/uuid.c\<close>, with what the source uses of \<open>strtoul\<close>.
\<close>

section \<open>\<open>strtoul\<close> in base 16\<close>

definition hex_digit :: "byte \<Rightarrow> nat option" where
  "hex_digit c =
     (if 48 \<le> c \<and> c \<le> 57 then Some (unat c - 48)
      else if 97 \<le> c \<and> c \<le> 102 then Some (unat c - 87)
      else if 65 \<le> c \<and> c \<le> 70 then Some (unat c - 55)
      else None)"

fun hex_digits :: "nat \<Rightarrow> cstring \<Rightarrow> nat \<times> cstring" where
  "hex_digits acc [] = (acc, [])"
| "hex_digits acc (c # s) =
     (case hex_digit c of None \<Rightarrow> (acc, c # s) | Some d \<Rightarrow> hex_digits (16 * acc + d) s)"

definition ULONG_MAX :: nat where "ULONG_MAX = 18446744073709551615"

fun skip_hex_prefix :: "cstring \<Rightarrow> cstring" where
  "skip_hex_prefix (z # x # d # s) =
     (if z = 48 \<and> (x = 120 \<or> x = 88) \<and> hex_digit d \<noteq> None then d # s else z # x # d # s)"
| "skip_hex_prefix s = s"

definition strtoul_sign :: "cstring \<Rightarrow> bool \<times> cstring" where
  "strtoul_sign s =
     (case s of
        [] \<Rightarrow> (False, [])
      | c # s' \<Rightarrow> if c = 45 then (True, s') else if c = 43 then (False, s') else (False, s))"

text \<open>
  The number and the rest of the string from \<open>end\<close> on: leading white space, a sign and the prefix
  \<open>0x\<close> are skipped, a string without a digit converts to 0 and is left as it is, a negated number
  wraps around, one that does not fit is \<open>ULONG_MAX\<close>.
\<close>

definition strtoul_16 :: "cstring \<Rightarrow> nat \<times> cstring" where
  "strtoul_16 str =
     (case strtoul_sign (dropWhile isspace str) of
        (neg, s) \<Rightarrow>
          (let s' = skip_hex_prefix s in
           if s' = [] \<or> hex_digit (hd s') = None then (0, str)
           else case hex_digits 0 s' of
             (n, rest) \<Rightarrow>
               (if n > ULONG_MAX then ULONG_MAX
                else if neg then (ULONG_MAX + 1 - n) mod (ULONG_MAX + 1) else n, rest)))"

section \<open>The parser\<close>

text \<open>The string of two characters ends at the first NUL.\<close>

definition hextobyte :: "byte \<Rightarrow> byte \<Rightarrow> byte option" where
  "hextobyte c d =
     (case strtoul_16 (takeWhile (\<lambda>b. b \<noteq> 0) [c, d]) of
        (res, rest) \<Rightarrow> if res > UINT8_MAX \<or> res = 0 \<and> rest \<noteq> [] then None else Some (word_of_nat res))"

definition skip_dash :: "cstring \<Rightarrow> cstring" where
  "skip_dash uuid = (case uuid of [] \<Rightarrow> [] | e # uuid' \<Rightarrow> if e = 45 then uuid' else uuid)"

text \<open>
  The loop over the 16 destination bytes.  The string is what is left of it before its
  terminator; reading the terminator is defined, reading behind it is not.
\<close>

fun parse_uuid_loop :: "nat \<Rightarrow> cstring \<Rightarrow> (byte list \<times> cstring) option result" where
  "parse_uuid_loop 0 uuid = Ok (Some ([], uuid))"
| "parse_uuid_loop (Suc n) [] = Undef"
| "parse_uuid_loop (Suc n) [c] = (case hextobyte c 0 of None \<Rightarrow> Ok None | Some b \<Rightarrow> Undef)"
| "parse_uuid_loop (Suc n) (c # d # uuid) =
     (case hextobyte c d of
        None \<Rightarrow> Ok None
      | Some b \<Rightarrow>
          and_then (parse_uuid_loop n (skip_dash uuid)) (\<lambda>r.
            Ok (case r of None \<Rightarrow> None | Some (bs, rest) \<Rightarrow> Some (b # bs, rest))))"

definition parse_uuid :: "cstring \<Rightarrow> byte list option result" where
  "parse_uuid uuid =
     (if length uuid \<noteq> 32 \<and> length uuid \<noteq> 36 then Ok None
      else
        and_then (parse_uuid_loop DICEY_UUID_SIZE uuid) (\<lambda>r.
          Ok (case r of None \<Rightarrow> None | Some (bs, rest) \<Rightarrow> if rest = [] then Some bs else None)))"

definition dicey_uuid_from_bytes :: "byte list \<Rightarrow> byte list result" where
  "dicey_uuid_from_bytes bytes =
     (if length bytes \<noteq> DICEY_UUID_SIZE then Err DICEY_EUUID_NOT_VALID else Ok bytes)"

definition dicey_uuid_from_string :: "cstring \<Rightarrow> byte list result" where
  "dicey_uuid_from_string str =
     and_then (parse_uuid str) (\<lambda>r.
       case r of None \<Rightarrow> Err DICEY_EUUID_NOT_VALID | Some bs \<Rightarrow> Ok bs)"

section \<open>Texts of UUIDs\<close>

definition hex_char :: "nat \<Rightarrow> byte" where
  "hex_char d = word_of_nat (if d < 10 then 48 + d else 87 + d)"

definition byte_text :: "byte \<Rightarrow> cstring" where
  "byte_text b = [hex_char (unat b div 16), hex_char (unat b mod 16)]"

text \<open>\<open>dashes k\<close> tells whether a dash follows byte \<open>k\<close>; \<open>uuid_dashes\<close> is the usual 8-4-4-4-12 layout.\<close>

fun uuid_text :: "(nat \<Rightarrow> bool) \<Rightarrow> nat \<Rightarrow> byte list \<Rightarrow> cstring" where
  "uuid_text dashes k [] = []"
| "uuid_text dashes k (b # bs) = byte_text b @ (if dashes k then [45] else []) @ uuid_text dashes (Suc k) bs"

definition uuid_dashes :: "nat \<Rightarrow> bool" where
  "uuid_dashes k \<longleftrightarrow> k \<in> {3, 5, 7, 9}"

lemma hex_char_cases: "d < 16 \<Longrightarrow> hex_digit (hex_char d) = Some d \<and> \<not> isspace (hex_char d) \<and>
    hex_char d \<noteq> 45 \<and> hex_char d \<noteq> 43 \<and> hex_char d \<noteq> 120 \<and> hex_char d \<noteq> 88 \<and> hex_char d \<noteq> 0"
proof -
  have "\<forall>d \<in> set [0..<16]. hex_digit (hex_char d) = Some d \<and> \<not> isspace (hex_char d) \<and>
    hex_char d \<noteq> 45 \<and> hex_char d \<noteq> 43 \<and> hex_char d \<noteq> 120 \<and> hex_char d \<noteq> 88 \<and> hex_char d \<noteq> 0"
    by (simp add: upt_rec hex_char_def hex_digit_def isspace_def)
  then show "d < 16 \<Longrightarrow> ?thesis"
    by simp
qed

lemma byte_nibbles: "unat (b :: byte) div 16 < 16" "unat b mod 16 < 16"
proof -
  have "unat b < 2 ^ LENGTH(8)"
    by (rule unsigned_less)
  then have "unat b < 256"
    by simp
  then show "unat b div 16 < 16" "unat b mod 16 < 16"
    by auto
qed

lemma hextobyte_text: "hextobyte (hex_char (unat b div 16)) (hex_char (unat b mod 16)) = Some b"
proof -
  let ?h = "unat b div 16" and ?l = "unat b mod 16"
  note h = byte_nibbles(1) [of b] and l = byte_nibbles(2) [of b]
  have n: "?h * 16 + ?l = unat b" "unat b \<le> 255"
    using h by (simp_all add: div_mult_mod_eq)
  have "strtoul_16 [hex_char ?h, hex_char ?l] = (unat b, [])"
    using hex_char_cases [OF h] hex_char_cases [OF l] n
    by (simp add: strtoul_16_def strtoul_sign_def Let_def ULONG_MAX_def ac_simps)
  then show ?thesis
    using hex_char_cases [OF h] hex_char_cases [OF l] n(2)
    by (simp add: hextobyte_def c_limits)
qed

lemma skip_dash_text [simp]:
  "skip_dash (uuid_text dashes k bs) = uuid_text dashes k bs" "skip_dash (45 # s) = s" "skip_dash [] = []"
  using hex_char_cases byte_nibbles by (cases bs; simp add: byte_text_def skip_dash_def)+

lemma parse_uuid_loop_text:
  assumes "\<not> dashes (k + length bs - 1)"
  shows "parse_uuid_loop (length bs) (uuid_text dashes k bs) = Ok (Some (bs, []))"
  using assms
proof (induction bs arbitrary: k)
  case (Cons b bs)
  then show ?case
    using hextobyte_text [of b] by (cases "bs = []"; cases "dashes k") (simp_all add: byte_text_def)
qed simp

lemma length_uuid_text:
  "length (uuid_text dashes k bs) = 2 * length bs + length (filter dashes [k..<k + length bs])"
  by (induction bs arbitrary: k) (auto simp: byte_text_def upt_conv_Cons simp del: upt_Suc)

end
