(* ===== verification/Core_Properties.thy ===== *)
theory Core_Properties
  imports Dicey_Signatures Dicey_Uuid
begin

text \<open>
  The properties of type descriptors, signatures, UUIDs, error codes and versions.
\<close>

section \<open>Type descriptors and signatures\<close>


lemma arrow_parses:
  assumes "td_wf c" and "td_wf d" and "list_all isspace ws" and "list_all isspace ws'"
  shows "dicey_typedescr_parse (td_str c @ ws @ cs ''->'' @ ws' @ td_str d) =
    Ok (Some (DICEY_TYPEDESCR_FUNCTIONAL (td_str c) (td_str d)))"
  unfolding typedescr_functional_iff using assms by blast

lemma word_parses: "td_wf d \<Longrightarrow> dicey_typedescr_parse (td_str d) = Ok (Some (DICEY_TYPEDESCR_VALUE (td_str d)))"
  unfolding typedescr_value_iff by blast

lemma checksig_decides:
  assumes "td_wf d" and "value_ok v"
  shows "and_then (checksig False (td_str d) v) (\<lambda>r. Ok (r \<noteq> None)) = Ok True \<longleftrightarrow> conforms d v"
proof
  assume "and_then (checksig False (td_str d) v) (\<lambda>r. Ok (r \<noteq> None)) = Ok True"
  then obtain r where "checksig False (td_str d @ []) v = Ok (Some r)"
    by (auto simp: outcome_simps)
  then show "conforms d v"
    using checksig_sound [OF assms] by blast
next
  assume "conforms d v"
  then show "and_then (checksig False (td_str d) v) (\<lambda>r. Ok (r \<noteq> None)) = Ok True"
    using checksig_complete [OF _ assms, of False "[]"] by simp
qed



text \<open>
  Conforming values are accepted in every build, and whatever follows the descriptor in the
  signature is left to the caller.
\<close>

theorem conforming_values_accepted:
  assumes "conforms d v" and "td_wf d" and "value_ok v"
  shows "checksig ndebug (td_str d @ rest) v = Ok (Some rest) \<and>
    dicey_value_is_compatible_with ndebug v (td_str d) = Ok True"
  using checksig_complete [OF assms] checksig_complete [OF assms, of ndebug "[]"] word_parses [OF assms(2)]
  by (simp add: dicey_value_is_compatible_with_def)

theorem conforming_values_accepted_witness:
  "checksig True (td_str TdVariant @ [1, 2]) \<lparr>val_type = DICEY_TYPE_UNIT, val_data = DataNone\<rparr> = Ok (Some [1, 2])"
  using conforming_values_accepted [of TdVariant "\<lparr>val_type = DICEY_TYPE_UNIT, val_data = DataNone\<rparr>" True "[1, 2]"]
  by (simp add: value_ok_def conforms_variant)

text \<open>
  A release build accepts a tuple that has fewer elements than its signature: the missing
  elements are never asked for, and only the assertion on the closing parenthesis, which a release
  build does not evaluate, notices.
\<close>

theorem short_tuple_accepted:
  "dicey_value_is_compatible_with True (value_of_arg (ArgTuple [ArgI32 i])) (cs ''(is)'') = Ok True \<and>
   dicey_value_is_compatible_with False (value_of_arg (ArgTuple [ArgI32 i])) (cs ''(is)'') = Undef"
proof -
  let ?v = "value_of_arg (ArgTuple [ArgI32 i])" and ?it = "\<lparr>it_type = DICEY_VARIANT_ID, it_data = Some (enc_variant (ArgI32 i))\<rparr>"
  let ?last = "\<lparr>it_type = DICEY_VARIANT_ID, it_data = Some []\<rparr>"
  let ?d = "TdTuple [TdType DICEY_TYPE_INT32, TdType DICEY_TYPE_STR]"
  have str: "cs ''(is)'' = td_str ?d"
    by (simp add: cs_def type_id_def TUPLE_END_def)
  have tup: "dicey_value_get_tuple ?v = Ok ?it" "val_type ?v = DICEY_TYPE_TUPLE"
    by (simp_all add: dicey_value_get_tuple_def dicey_value_get_list_def value_of_arg_def)
  have it: "dicey_iterator_has_next ?it" "dicey_iterator_next ?it = Ok (value_of_arg (ArgI32 i), ?last)"
    "\<not> dicey_iterator_has_next ?last"
    using iterator_next_enc [of "ArgI32 i" DICEY_VARIANT_ID "[]"]
    by (simp_all add: dicey_iterator_has_next_def view_len_def enc_variant_def c_limits)
  have elem: "checksig nd (type_id DICEY_TYPE_INT32 # sig) (value_of_arg (ArgI32 i)) = Ok (Some sig)" for nd sig
    using checksig_leaf [of "value_of_arg (ArgI32 i)" DICEY_TYPE_INT32 nd sig]
    by (simp add: value_of_arg_def dicey_type_is_container_def)
  have "checksig nd (td_str ?d) ?v = c_assert nd False (Ok (Some [TUPLE_END]))" for nd
    using tup it elem
    by (simp add: checksig.simps [of nd _ ?v] checksig_tuple.simps is_compatible_eq dicey_list_iter_def)
  moreover have "td_wf ?d"
    by (simp add: dicey_type_is_container_def)
  ultimately show ?thesis
    using word_parses [of ?d] unfolding str by (simp add: dicey_value_is_compatible_with_def)
qed

section \<open>UUIDs\<close>

text \<open>
  C21: Reading the text of a UUID, 32 hexadecimal digits with or without the usual four dashes,
  gives its bytes.
\<close>

theorem uuid_roundtrip:
  assumes "length bs = DICEY_UUID_SIZE"
  shows "dicey_uuid_from_string (uuid_text (\<lambda>k. False) 0 bs) = Ok bs \<and>
    dicey_uuid_from_string (uuid_text uuid_dashes 0 bs) = Ok bs \<and> dicey_uuid_from_bytes bs = Ok bs"
proof -
  have "length (uuid_text (\<lambda>k. False) 0 bs) = 32" "length (uuid_text uuid_dashes 0 bs) = 36"
    using assms by (simp_all add: length_uuid_text DICEY_UUID_SIZE_def uuid_dashes_def upt_rec)
  moreover have "\<not> uuid_dashes 15"
    by (simp add: uuid_dashes_def)
  ultimately show ?thesis
    using assms parse_uuid_loop_text [of "\<lambda>k. False" 0 bs] parse_uuid_loop_text [of uuid_dashes 0 bs]
    by (simp add: dicey_uuid_from_string_def parse_uuid_def dicey_uuid_from_bytes_def DICEY_UUID_SIZE_def)
qed

theorem uuid_roundtrip_witness:
  "dicey_uuid_from_string (uuid_text uuid_dashes 0 [1, 2, 3, 4, 5, 6, 7, 8, 9, 10, 11, 12, 13, 14, 15, 255]) =
     Ok [1, 2, 3, 4, 5, 6, 7, 8, 9, 10, 11, 12, 13, 14, 15, 255]"
  using uuid_roundtrip [of "[1, 2, 3, 4, 5, 6, 7, 8, 9, 10, 11, 12, 13, 14, 15, 255]"]
  by (simp add: DICEY_UUID_SIZE_def)

text \<open>
  A string of 32 characters in which dashes follow some of the bytes holds fewer than 16 bytes;
  the parser then reads behind the end of the string.
\<close>

theorem dashed_short_uuid_overreads:
  assumes "length bs = 11"
  shows "dicey_uuid_from_string (uuid_text (\<lambda>k. k < 10) 0 bs) = Undef"
proof -
  have "parse_uuid_loop (length bs + Suc n) (uuid_text dashes k bs) = Undef"
    if "\<not> dashes (k + length bs - 1)" for dashes k n
    using that
  proof (induction bs arbitrary: k)
    case (Cons b bs)
    then show ?case
      using hextobyte_text [of b] by (cases "bs = []"; cases "dashes k") (simp_all add: byte_text_def)
  qed simp
  from this [of "\<lambda>k. k < 10" 0 4] show ?thesis
    using assms by (simp add: dicey_uuid_from_string_def parse_uuid_def length_uuid_text upt_rec DICEY_UUID_SIZE_def)
qed

theorem dashed_short_uuid_overreads_witness:
  "dicey_uuid_from_string (uuid_text (\<lambda>k. k < 10) 0 (replicate 11 0)) = Undef"
  using dashed_short_uuid_overreads [of "replicate 11 0"] by simp

section \<open>Errors and versions\<close>

text \<open>
  The table of error descriptions is exact: a number has a description exactly if it is one of
  the error codes, and the description, the one the table holds at the index of the code, is that of
  the code; no two codes share a name.
\<close>

theorem error_table_exact:
  "(dicey_error_info n \<noteq> None \<longleftrightarrow> (\<exists>e. n = errnum e)) \<and>
   (\<exists>d. dicey_error_info (errnum e) = Some d \<and> def_errnum d = e \<and>
      INDEX_OF (errnum e) < snd dicey_error_infos \<and>
      fst dicey_error_infos ! INDEX_OF (errnum e) = Some d) \<and>
   (dicey_error_name (errnum e) = dicey_error_name (errnum e') \<longleftrightarrow> e = e')"
proof (intro conjI)
  obtain d d' where d: "error_info_at (INDEX_OF (errnum e)) = Some d" "def_errnum d = e"
    and d': "error_info_at (INDEX_OF (errnum e')) = Some d'" "def_errnum d' = e'"
    using error_info_at_errnum by blast
  show "\<exists>d. dicey_error_info (errnum e) = Some d \<and> def_errnum d = e \<and>
      INDEX_OF (errnum e) < snd dicey_error_infos \<and> fst dicey_error_infos ! INDEX_OF (errnum e) = Some d"
    using d INDEX_OF_bound by (simp add: dicey_error_info_def error_infos_count error_infos_nth)
  have "dicey_error_name (errnum e) = def_name d" "dicey_error_name (errnum e') = def_name d'"
    using d(1) d'(1) by (simp_all add: dicey_error_name_def dicey_error_info_def)
  then show "dicey_error_name (errnum e) = dicey_error_name (errnum e') \<longleftrightarrow> e = e'"
    using error_info_at_inj [OF d(1) d'(1)] d(2) d'(2) by metis
  show "dicey_error_info n \<noteq> None \<longleftrightarrow> (\<exists>e. n = errnum e)"
  proof (cases "dicey_error_is_valid n")
    case True
    then obtain c where "n = errnum c"
      by (auto simp: dicey_error_is_valid_def)
    then show ?thesis
      using error_info_at_errnum [of c] by (auto simp: dicey_error_info_def)
  next
    case False
    then show ?thesis
      by (auto simp: dicey_error_info_def)
  qed
qed

text \<open>
  \<open>dicey_version_cmp\<close> compares versions by major number and then by revision, but with the sign
  opposite to the documented one: it is negative when the first version is the newer one.
\<close>

theorem version_cmp_reversed:
  "(dicey_version_cmp a b < 0 \<longleftrightarrow>
      major b < major a \<or> major b = major a \<and> revision b < revision a) \<and>
   (dicey_version_cmp a b = 0 \<longleftrightarrow> a = b) \<and> dicey_version_cmp b a = - dicey_version_cmp a b"
  by (cases a; cases b) (auto simp: dicey_version_cmp_def CMP_def Let_def of_bool_def)

end
