(* ===== verification/Dicey_Args.thy ===== *)
theory Dicey_Args
  imports Dicey_Packet_Facts
begin

text \<open>
  Copies of arguments and their conversion from values: \<^verbatim>\<open>src/wirefmt/packet-args.c\<close>.

  An argument tree is a value in the model, so a deep copy is the tree itself; what can go wrong
  is an allocation.  \<open>alloc n\<close> tells whether an allocation of \<open>n\<close> bytes succeeds.
\<close>

text \<open>\<open>sizeof(struct dicey_arg)\<close> on a 64-bit platform.\<close>

definition sizeof_arg :: nat where "sizeof_arg = 24"

fun
  dicey_arg_dup :: "(nat \<Rightarrow> bool) \<Rightarrow> dicey_arg \<Rightarrow> dicey_arg option" and
  arglist_dup :: "(nat \<Rightarrow> bool) \<Rightarrow> dicey_arg list \<Rightarrow> dicey_arg list option"
where
  "dicey_arg_dup alloc (ArgArray t es) =
     (if alloc (sizeof_arg * length es) then map_option (ArgArray t) (arglist_dup alloc es) else None)"
| "dicey_arg_dup alloc (ArgTuple es) =
     (if alloc (sizeof_arg * length es) then map_option ArgTuple (arglist_dup alloc es) else None)"
| "dicey_arg_dup alloc (ArgPair a b) =
     (if alloc sizeof_arg then
        case (dicey_arg_dup alloc a, dicey_arg_dup alloc b) of
          (Some first, Some second) \<Rightarrow> Some (ArgPair first second)
        | _ \<Rightarrow> None
      else None)"
| "dicey_arg_dup alloc a = Some a"
| "arglist_dup alloc [] = Some []"
| "arglist_dup alloc (e # es) =
     (case dicey_arg_dup alloc e of
        None \<Rightarrow> None
      | Some d \<Rightarrow> map_option ((#) d) (arglist_dup alloc es))"

definition arglist_copy :: "(nat \<Rightarrow> bool) \<Rightarrow> dicey_arg list \<Rightarrow> dicey_arg list option" where
  "arglist_copy alloc es = (if alloc (sizeof_arg * length es) then arglist_dup alloc es else None)"

lemma arg_dup_copies:
  "dicey_arg_dup alloc a = Some b \<Longrightarrow> b = a"
  "arglist_dup alloc es = Some ds \<Longrightarrow> ds = es"
  by (induction alloc a and alloc es arbitrary: b and ds rule: dicey_arg_dup_arglist_dup.induct)
     (auto split: if_splits option.splits)

lemma arg_dup_succeeds:
  "(\<And>n. alloc n) \<Longrightarrow> dicey_arg_dup alloc a = Some a"
  "(\<And>n. alloc n) \<Longrightarrow> arglist_dup alloc es = Some es"
  by (induction alloc a and alloc es rule: dicey_arg_dup_arglist_dup.induct) auto

section \<open>Arguments from values\<close>

text \<open>
  \<open>value_list_to_arg\<close> loops while \<open>dicey_iterator_next\<close> returns something other than \<open>DICEY_OK\<close>:
  an element that can be read ends the loop, and a failing read enters its body with the zeroed
  value, which \<open>dicey_arg_from_borrowed_value\<close> refuses with \<open>DICEY_EINVAL\<close>.
\<close>

definition value_list_to_arg :: "(nat \<Rightarrow> bool) \<Rightarrow> dicey_list \<Rightarrow> dicey_type \<Rightarrow> dicey_arg result" where
  "value_list_to_arg alloc l t =
     (if \<not> alloc (8 * sizeof_arg) then Err DICEY_ENOMEM
      else case dicey_iterator_next (dicey_list_iter l) of
        Ok _ \<Rightarrow>
          Ok (if t = DICEY_TYPE_ARRAY then ArgArray (type_of_id (dicey_list_type l)) [] else ArgTuple [])
      | Err e \<Rightarrow> Err DICEY_EINVAL
      | Undef \<Rightarrow> Undef)"

text \<open>An error code is stored as it was read, and a missing message is \<open>NULL\<close>.\<close>

definition arg_from_scalar :: "dicey_value \<Rightarrow> dicey_arg result" where
  "arg_from_scalar v =
     (case val_type v of
        DICEY_TYPE_UNIT \<Rightarrow> Ok ArgUnit
      | DICEY_TYPE_BOOL \<Rightarrow> and_then (dicey_value_get_bool v) (\<lambda>b. Ok (ArgBool (of_bool b)))
      | DICEY_TYPE_BYTE \<Rightarrow> and_then (dicey_value_get_byte v) (\<lambda>b. Ok (ArgByte b))
      | DICEY_TYPE_FLOAT \<Rightarrow> and_then (dicey_value_get_float v) (\<lambda>f. Ok (ArgFloat f))
      | DICEY_TYPE_INT16 \<Rightarrow> and_then (dicey_value_get_i16 v) (\<lambda>i. Ok (ArgI16 i))
      | DICEY_TYPE_INT32 \<Rightarrow> and_then (dicey_value_get_i32 v) (\<lambda>i. Ok (ArgI32 i))
      | DICEY_TYPE_INT64 \<Rightarrow> and_then (dicey_value_get_i64 v) (\<lambda>i. Ok (ArgI64 i))
      | DICEY_TYPE_UINT16 \<Rightarrow> and_then (dicey_value_get_u16 v) (\<lambda>i. Ok (ArgU16 i))
      | DICEY_TYPE_UINT32 \<Rightarrow> and_then (dicey_value_get_u32 v) (\<lambda>i. Ok (ArgU32 i))
      | DICEY_TYPE_UINT64 \<Rightarrow> and_then (dicey_value_get_u64 v) (\<lambda>i. Ok (ArgU64 i))
      | DICEY_TYPE_BYTES \<Rightarrow>
          and_then (dicey_value_get_bytes v) (\<lambda>bs.
            if length bs > UINT32_MAX then Err DICEY_EOVERFLOW else Ok (ArgBytes (Some bs)))
      | DICEY_TYPE_STR \<Rightarrow> and_then (dicey_value_get_str v) (\<lambda>s. Ok (ArgStr (Some s)))
      | DICEY_TYPE_UUID \<Rightarrow> and_then (dicey_value_get_uuid v) (\<lambda>u. Ok (ArgUuid u))
      | DICEY_TYPE_PATH \<Rightarrow> and_then (dicey_value_get_path v) (\<lambda>s. Ok (ArgPath s))
      | DICEY_TYPE_SELECTOR \<Rightarrow> and_then (dicey_value_get_selector v) (\<lambda>s. Ok (ArgSelector s))
      | DICEY_TYPE_ERROR \<Rightarrow> and_then (dicey_value_get_error v) (\<lambda>(c, s). Ok (ArgError c s))
      | _ \<Rightarrow> Err DICEY_EINVAL)"

lemma get_pair_smaller:
  assumes "dicey_value_get_pair v = Ok (a, b)"
  shows "value_bytes a < value_bytes v" "value_bytes b < value_bytes v"
proof -
  obtain t n data it' it'' where v: "val_data v = DataList t n data"
    and a: "dicey_iterator_next \<lparr>it_type = DICEY_VARIANT_ID, it_data = data\<rparr> = Ok (a, it')"
    and b: "dicey_iterator_next it' = Ok (b, it'')"
    using assms
    by (auto simp: dicey_value_get_pair_def Let_def outcome_simps dicey_list_iter_def
        split: if_splits dicey_data_info.splits)
  have "value_bytes a + view_len (it_data it') < view_len data" "it_type it' = DICEY_VARIANT_ID"
    using iterator_next_size [OF a] by simp_all
  moreover have "value_bytes b + view_len (it_data it'') < view_len (it_data it')"
    using iterator_next_size [OF b] calculation(2) by simp
  ultimately show "value_bytes a < value_bytes v" "value_bytes b < value_bytes v"
    using v by (simp_all add: value_bytes_def)
qed

function (sequential) dicey_arg_from_borrowed_value :: "(nat \<Rightarrow> bool) \<Rightarrow> dicey_value \<Rightarrow> dicey_arg result" where
  "dicey_arg_from_borrowed_value alloc v =
     (case val_type v of
        DICEY_TYPE_INVALID \<Rightarrow> Err DICEY_EINVAL
      | DICEY_TYPE_ARRAY \<Rightarrow> and_then (dicey_value_get_list v) (\<lambda>l. value_list_to_arg alloc l DICEY_TYPE_ARRAY)
      | DICEY_TYPE_TUPLE \<Rightarrow> and_then (dicey_value_get_list v) (\<lambda>l. value_list_to_arg alloc l DICEY_TYPE_TUPLE)
      | DICEY_TYPE_PAIR \<Rightarrow>
          and_then (dicey_value_get_pair v) (\<lambda>(first, second).
            if \<not> alloc sizeof_arg then Err DICEY_ENOMEM
            else
              and_then (dicey_arg_from_borrowed_value alloc first) (\<lambda>a.
              and_then (dicey_arg_from_borrowed_value alloc second) (\<lambda>b. Ok (ArgPair a b))))
      | _ \<Rightarrow> arg_from_scalar v)"
  by pat_completeness auto

termination
  by (relation "measure (\<lambda>(alloc, v). value_bytes v)") (auto dest: get_pair_smaller)

declare dicey_arg_from_borrowed_value.simps [simp del]

text \<open>The steps of \<open>value_pair_to_arg\<close> are the branch for pairs above.\<close>

section \<open>Scalars and pairs come back, lists do not\<close>

fun no_lists :: "dicey_arg \<Rightarrow> bool" where
  "no_lists (ArgArray t es) \<longleftrightarrow> False"
| "no_lists (ArgTuple es) \<longleftrightarrow> False"
| "no_lists (ArgPair a b) \<longleftrightarrow> no_lists a \<and> no_lists b"
| "no_lists (ArgBool b) \<longleftrightarrow> b = 0 \<or> b = 1"
| "no_lists (ArgStr s) \<longleftrightarrow> s \<noteq> None"
| "no_lists (ArgError c s) \<longleftrightarrow> s \<noteq> Some []"
| "no_lists a \<longleftrightarrow> True"

lemma from_borrowed_value_of_arg:
  assumes "arg_wf a" and "no_lists a" and "\<And>n. alloc n"
  shows "dicey_arg_from_borrowed_value alloc (value_of_arg a) = Ok a"
  using assms(1,2)
proof (induction a)
  case (ArgPair a b)
  have "val_type (value_of_arg (ArgPair a b)) = DICEY_TYPE_PAIR"
    by (simp add: value_of_arg_def)
  with ArgPair show ?case
    using assms(3) [of sizeof_arg] get_pair_enc [of a b]
    by (simp add: dicey_arg_from_borrowed_value.simps [of alloc "value_of_arg (ArgPair a b)"])
qed (auto simp: dicey_arg_from_borrowed_value.simps value_of_arg_def arg_from_scalar_def getter_defs
      dicey_value_get_trivial_def view_len_def opt_str_def split: option.splits)

lemma from_borrowed_list:
  assumes "arg_wf e" and "list_all arg_wf es" and "length (concat (map enc_variant (e # es))) \<le> UINT32_MAX"
    and "alloc (8 * sizeof_arg)"
  shows "dicey_arg_from_borrowed_value alloc (value_of_arg (ArgTuple (e # es))) = Ok (ArgTuple [])"
proof -
  have "dicey_iterator_next \<lparr>it_type = DICEY_VARIANT_ID, it_data = Some (enc_variant e @ concat (map enc_variant es))\<rparr> =
      Ok (value_of_arg e, \<lparr>it_type = DICEY_VARIANT_ID, it_data = Some (concat (map enc_variant es))\<rparr>)"
    using iterator_next_enc [of e DICEY_VARIANT_ID "concat (map enc_variant es)"] assms(1,3)
    by (simp add: c_limits enc_variant_def)
  then show ?thesis
    using assms(4)
    by (simp add: dicey_arg_from_borrowed_value.simps value_of_arg_def dicey_value_get_list_def
        value_list_to_arg_def dicey_list_iter_def)
qed

end
