(* ===== verification/Dicey_Builders.thy ===== *)
theory Dicey_Builders
  imports Dicey_Args Dicey_Signatures
begin

text \<open>
  Building messages and values: \<^verbatim>\<open>src/wirefmt/builders.c\<close>.

  Builders point at each other and at arguments under construction, so the model has a memory:
  blocks of argument cells (the array of a list under construction, or the single cell of a root),
  the value builders by their address, and one message builder.  Every operation returns the
  error code and the memory it leaves, since several of them change it before they fail.
\<close>

section \<open>State\<close>

datatype builder_state =
  BUILDER_STATE_IDLE
| BUILDER_STATE_PENDING
| BUILDER_STATE_VALUE
| BUILDER_STATE_ARRAY
| BUILDER_STATE_PAIR
| BUILDER_STATE_TUPLE

text \<open>
  A \<open>struct dicey_arg\<close> in memory: zeroed but for its type, or an argument, or the shallow copy that a
  failed \<open>dicey_arg_dup\<close> leaves, whose pointers belong to the caller.
\<close>

datatype arg_cell = Zeroed dicey_type | Held dicey_arg | Shared dicey_type

type_synonym cell_addr = "nat \<times> nat"

record dicey_value_builder =
  vb_state :: builder_state
  vb_root :: "cell_addr option"
  vl_type :: dicey_type
  vl_nitems :: "16 word"
  vl_cap :: nat
  vl_elems :: "nat option"

record dicey_message_builder =
  mb_state :: builder_state
  mb_type :: dicey_op
  mb_seq :: "32 word"
  mb_path :: "cstring option"
  mb_selector :: dicey_selector
  mb_root :: "nat option"
  mb_borrowed_to :: "nat option"

record builder_mem =
  blocks :: "nat \<Rightarrow> arg_cell list option"
  fresh :: nat
  vbs :: "nat \<Rightarrow> dicey_value_builder"
  mb :: dicey_message_builder

type_synonym builder_result = "(dicey_error \<times> builder_mem) result"

definition zero_value_builder :: dicey_value_builder where
  "zero_value_builder =
     \<lparr>vb_state = BUILDER_STATE_IDLE, vb_root = None, vl_type = DICEY_TYPE_INVALID, vl_nitems = 0,
      vl_cap = 0, vl_elems = None\<rparr>"

definition zero_message_builder :: dicey_message_builder where
  "zero_message_builder =
     \<lparr>mb_state = BUILDER_STATE_IDLE, mb_type = DICEY_OP_INVALID, mb_seq = 0, mb_path = None,
      mb_selector = \<lparr>sel_trait = None, sel_elem = None\<rparr>, mb_root = None, mb_borrowed_to = None\<rparr>"

fun cell_type :: "arg_cell \<Rightarrow> dicey_type" where
  "cell_type (Zeroed t) = t"
| "cell_type (Held a) = arg_type a"
| "cell_type (Shared t) = t"

text \<open>
  The argument a cell holds when it becomes part of a tree.  A zeroed path or pair has \<open>NULL\<close>
  pointers that the writer would follow.
\<close>

fun zero_arg :: "dicey_type \<Rightarrow> dicey_arg result" where
  "zero_arg DICEY_TYPE_INVALID = Ok ArgInvalid"
| "zero_arg DICEY_TYPE_UNIT = Ok ArgUnit"
| "zero_arg DICEY_TYPE_BOOL = Ok (ArgBool 0)"
| "zero_arg DICEY_TYPE_BYTE = Ok (ArgByte 0)"
| "zero_arg DICEY_TYPE_FLOAT = Ok (ArgFloat 0)"
| "zero_arg DICEY_TYPE_INT16 = Ok (ArgI16 0)"
| "zero_arg DICEY_TYPE_INT32 = Ok (ArgI32 0)"
| "zero_arg DICEY_TYPE_INT64 = Ok (ArgI64 0)"
| "zero_arg DICEY_TYPE_UINT16 = Ok (ArgU16 0)"
| "zero_arg DICEY_TYPE_UINT32 = Ok (ArgU32 0)"
| "zero_arg DICEY_TYPE_UINT64 = Ok (ArgU64 0)"
| "zero_arg DICEY_TYPE_ARRAY = Ok (ArgArray DICEY_TYPE_INVALID [])"
| "zero_arg DICEY_TYPE_TUPLE = Ok (ArgTuple [])"
| "zero_arg DICEY_TYPE_BYTES = Ok (ArgBytes None)"
| "zero_arg DICEY_TYPE_STR = Ok (ArgStr None)"
| "zero_arg DICEY_TYPE_UUID = Ok (ArgUuid (replicate DICEY_UUID_SIZE 0))"
| "zero_arg DICEY_TYPE_SELECTOR = Ok (ArgSelector \<lparr>sel_trait = None, sel_elem = None\<rparr>)"
| "zero_arg DICEY_TYPE_ERROR = Ok (ArgError 0 None)"
| "zero_arg _ = Undef"

fun cell_arg :: "arg_cell \<Rightarrow> dicey_arg result" where
  "cell_arg (Zeroed t) = zero_arg t"
| "cell_arg (Held a) = Ok a"
| "cell_arg (Shared t) = Undef"

fun cell_args :: "arg_cell list \<Rightarrow> dicey_arg list result" where
  "cell_args [] = Ok []"
| "cell_args (c # cells) = and_then (cell_arg c) (\<lambda>a. and_then (cell_args cells) (\<lambda>as. Ok (a # as)))"

definition get_cell :: "builder_mem \<Rightarrow> cell_addr \<Rightarrow> arg_cell result" where
  "get_cell st p =
     (case blocks st (fst p) of
        Some cells \<Rightarrow> if snd p < length cells then Ok (cells ! snd p) else Undef
      | None \<Rightarrow> Undef)"

definition set_cell :: "builder_mem \<Rightarrow> cell_addr \<Rightarrow> arg_cell \<Rightarrow> builder_mem result" where
  "set_cell st p c =
     (case blocks st (fst p) of
        Some cells \<Rightarrow>
          if snd p < length cells then Ok (st\<lparr>blocks := (blocks st)(fst p \<mapsto> cells[snd p := c])\<rparr>) else Undef
      | None \<Rightarrow> Undef)"

definition set_vb :: "builder_mem \<Rightarrow> nat \<Rightarrow> dicey_value_builder \<Rightarrow> builder_mem" where
  "set_vb st v vb = st\<lparr>vbs := (vbs st)(v := vb)\<rparr>"

text \<open>\<open>dicey_arg_free_contents\<close>: freeing pointers that belong to the caller is undefined.\<close>

definition dicey_arg_free_contents :: "arg_cell \<Rightarrow> unit result" where
  "dicey_arg_free_contents c = (case c of Shared t \<Rightarrow> Undef | _ \<Rightarrow> Ok ())"

fun free_all_contents :: "arg_cell list \<Rightarrow> unit result" where
  "free_all_contents [] = Ok ()"
| "free_all_contents (c # cells) = and_then (dicey_arg_free_contents c) (\<lambda>_. free_all_contents cells)"

definition dicey_arg_free :: "builder_mem \<Rightarrow> nat option \<Rightarrow> builder_mem result" where
  "dicey_arg_free st p =
     (case p of
        None \<Rightarrow> Ok st
      | Some b \<Rightarrow>
          and_then (get_cell st (b, 0)) (\<lambda>c.
          and_then (dicey_arg_free_contents c) (\<lambda>_. Ok (st\<lparr>blocks := (blocks st)(b := None)\<rparr>))))"

definition dicey_arg_free_list :: "builder_mem \<Rightarrow> nat option \<Rightarrow> nat \<Rightarrow> builder_mem result" where
  "dicey_arg_free_list st p nitems =
     (case p of
        None \<Rightarrow> Ok st
      | Some b \<Rightarrow>
          if nitems = 0 then Ok st
          else case blocks st b of
            None \<Rightarrow> Undef
          | Some cells \<Rightarrow>
              if length cells < nitems then Undef
              else and_then (free_all_contents (take nitems cells)) (\<lambda>_.
                Ok (st\<lparr>blocks := (blocks st)(b := None)\<rparr>)))"

section \<open>Value builders\<close>

definition DEFAULT_VAL_CAP :: nat where "DEFAULT_VAL_CAP = 16"

text \<open>\<open>realloc\<close> moves the cells to a new block.\<close>

definition arglist_grow :: "(nat \<Rightarrow> bool) \<Rightarrow> builder_mem \<Rightarrow> nat \<Rightarrow> builder_result" where
  "arglist_grow alloc st v =
     (let vb = vbs st v; new_cap = (if vl_cap vb > 0 then vl_cap vb * 3 div 2 else DEFAULT_VAL_CAP) in
      if \<not> alloc (sizeof_arg * new_cap) then Ok (DICEY_ENOMEM, st)
      else
        and_then
          (case vl_elems vb of
             None \<Rightarrow> Ok ([], blocks st)
           | Some b \<Rightarrow>
               (case blocks st b of None \<Rightarrow> Undef | Some cells \<Rightarrow> Ok (cells, (blocks st)(b := None))))
          (\<lambda>(cells, bl).
            Ok (DICEY_OK,
                set_vb (st\<lparr>blocks := bl(fresh st \<mapsto> cells), fresh := Suc (fresh st)\<rparr>) v
                  (vb\<lparr>vl_cap := new_cap, vl_elems := Some (fresh st)\<rparr>))))"

definition valbuilder_list_start :: "bool \<Rightarrow> builder_mem \<Rightarrow> nat \<Rightarrow> builder_state \<Rightarrow> dicey_type \<Rightarrow> builder_result" where
  "valbuilder_list_start ndebug st v list_kind t =
     (let vb = vbs st v in
      if vb_root vb = None then Undef
      else if vb_state vb \<noteq> BUILDER_STATE_PENDING then Ok (DICEY_EINVAL, st)
      else
        (let vb0 = vb\<lparr>vl_type := DICEY_TYPE_INVALID, vl_nitems := 0, vl_cap := 0, vl_elems := None\<rparr> in
         if list_kind = BUILDER_STATE_ARRAY then
           c_assert ndebug (dicey_type_is_valid t)
             (Ok (DICEY_OK, set_vb st v (vb0\<lparr>vl_type := t, vb_state := list_kind\<rparr>)))
         else Ok (DICEY_OK, set_vb st v (vb0\<lparr>vb_state := list_kind\<rparr>))))"

definition dicey_value_builder_array_start :: "bool \<Rightarrow> builder_mem \<Rightarrow> nat \<Rightarrow> dicey_type \<Rightarrow> builder_result" where
  "dicey_value_builder_array_start ndebug st v t = valbuilder_list_start ndebug st v BUILDER_STATE_ARRAY t"

definition dicey_value_builder_pair_start :: "bool \<Rightarrow> builder_mem \<Rightarrow> nat \<Rightarrow> builder_result" where
  "dicey_value_builder_pair_start ndebug st v = valbuilder_list_start ndebug st v BUILDER_STATE_PAIR DICEY_TYPE_INVALID"

definition dicey_value_builder_tuple_start :: "bool \<Rightarrow> builder_mem \<Rightarrow> nat \<Rightarrow> builder_result" where
  "dicey_value_builder_tuple_start ndebug st v = valbuilder_list_start ndebug st v BUILDER_STATE_TUPLE DICEY_TYPE_INVALID"

definition dicey_value_builder_is_list :: "builder_mem \<Rightarrow> nat \<Rightarrow> bool" where
  "dicey_value_builder_is_list st v \<longleftrightarrow>
     vb_state (vbs st v) \<in> {BUILDER_STATE_ARRAY, BUILDER_STATE_PAIR, BUILDER_STATE_TUPLE}"

definition dicey_value_builder_is_pending :: "builder_mem \<Rightarrow> nat \<Rightarrow> bool" where
  "dicey_value_builder_is_pending st v \<longleftrightarrow> vb_state (vbs st v) \<noteq> BUILDER_STATE_IDLE"

text \<open>The cells of the list under construction that count, in order.\<close>

definition list_cells :: "builder_mem \<Rightarrow> dicey_value_builder \<Rightarrow> arg_cell list result" where
  "list_cells st vb =
     (case vl_elems vb of
        None \<Rightarrow> if vl_nitems vb = 0 then Ok [] else Undef
      | Some b \<Rightarrow>
          (case blocks st b of
             None \<Rightarrow> Undef
           | Some cells \<Rightarrow>
               if length cells < unat (vl_nitems vb) then Undef else Ok (take (unat (vl_nitems vb)) cells)))"

definition free_elems :: "builder_mem \<Rightarrow> dicey_value_builder \<Rightarrow> builder_mem" where
  "free_elems st vb =
     (case vl_elems vb of None \<Rightarrow> st | Some b \<Rightarrow> st\<lparr>blocks := (blocks st)(b := None)\<rparr>)"

text \<open>
  The elements become the children of the root; their block belongs to the tree from then on, and
  the builder is zeroed.
\<close>

definition close_list :: "builder_mem \<Rightarrow> nat \<Rightarrow> (dicey_arg list \<Rightarrow> dicey_arg) \<Rightarrow> builder_result" where
  "close_list st v mk =
     (let vb = vbs st v in
      and_then (list_cells st vb) (\<lambda>cells.
      and_then (cell_args cells) (\<lambda>es.
      case vb_root vb of
        None \<Rightarrow> Undef
      | Some p \<Rightarrow>
          and_then (set_cell st p (Held (mk es))) (\<lambda>st1.
            Ok (DICEY_OK, set_vb (free_elems st1 vb) v zero_value_builder)))))"

definition dicey_value_builder_array_end :: "builder_mem \<Rightarrow> nat \<Rightarrow> builder_result" where
  "dicey_value_builder_array_end st v =
     (if vb_state (vbs st v) \<noteq> BUILDER_STATE_ARRAY then Ok (DICEY_EINVAL, st)
      else close_list st v (ArgArray (vl_type (vbs st v))))"

definition dicey_value_builder_tuple_end :: "builder_mem \<Rightarrow> nat \<Rightarrow> builder_result" where
  "dicey_value_builder_tuple_end st v =
     (if vb_state (vbs st v) \<noteq> BUILDER_STATE_TUPLE then Ok (DICEY_EINVAL, st)
      else close_list st v ArgTuple)"

text \<open>
  \<open>dicey_arg_move\<close> allocates a cell for each half of the pair.  When that fails the array of the
  builder has been freed all the same, and the builder keeps pointing at it.
\<close>

definition dicey_value_builder_pair_end :: "(nat \<Rightarrow> bool) \<Rightarrow> builder_mem \<Rightarrow> nat \<Rightarrow> builder_result" where
  "dicey_value_builder_pair_end alloc st v =
     (let vb = vbs st v in
      if vb_state vb \<noteq> BUILDER_STATE_PAIR then Ok (DICEY_EINVAL, st)
      else if vl_nitems vb \<noteq> 2 then Ok (DICEY_EAGAIN, st)
      else if \<not> alloc sizeof_arg then
        and_then (list_cells st vb) (\<lambda>cells.
        and_then (free_all_contents cells) (\<lambda>_. Ok (DICEY_ENOMEM, free_elems st vb)))
      else close_list st v (\<lambda>es. ArgPair (es ! 0) (es ! 1)))"

text \<open>A failed \<open>arglist_grow\<close> is not noticed: the element is then written behind the array.\<close>

definition dicey_value_builder_next :: "(nat \<Rightarrow> bool) \<Rightarrow> builder_mem \<Rightarrow> nat \<Rightarrow> nat \<Rightarrow> builder_result" where
  "dicey_value_builder_next alloc st v elem =
     (let vb = vbs st v in
      if vb_root vb = None then Undef
      else if vb_state vb = BUILDER_STATE_PAIR \<and> vl_nitems vb \<ge> 2 then Ok (DICEY_EOVERFLOW, st)
      else if vb_state vb \<notin> {BUILDER_STATE_ARRAY, BUILDER_STATE_TUPLE, BUILDER_STATE_PAIR}
      then Ok (DICEY_EINVAL, st)
      else
        and_then (if unat (vl_nitems vb) \<ge> vl_cap vb then arglist_grow alloc st v else Ok (DICEY_OK, st))
          (\<lambda>(_, st1).
            let vb1 = vbs st1 v; n = unat (vl_nitems vb1) in
            if n \<ge> vl_cap vb1 then Undef
            else case vl_elems vb1 of
              None \<Rightarrow> Undef
            | Some b \<Rightarrow>
                (case blocks st1 b of
                   None \<Rightarrow> Undef
                 | Some cells \<Rightarrow>
                     (let item = Zeroed (if vb_state vb = BUILDER_STATE_ARRAY then vl_type vb1 else DICEY_TYPE_INVALID);
                          cells' = (if n < length cells then cells[n := item] else cells @ [item]);
                          st2 = set_vb (st1\<lparr>blocks := (blocks st1)(b \<mapsto> cells')\<rparr>) v
                                  (vb1\<lparr>vl_nitems := vl_nitems vb1 + 1\<rparr>) in
                      Ok (DICEY_OK,
                          set_vb st2 elem
                            (zero_value_builder\<lparr>vb_state := BUILDER_STATE_PENDING, vb_root := Some (b, n)\<rparr>))))))"

definition dicey_value_builder_set :: "(nat \<Rightarrow> bool) \<Rightarrow> builder_mem \<Rightarrow> nat \<Rightarrow> dicey_arg \<Rightarrow> builder_result" where
  "dicey_value_builder_set alloc st v val =
     (case vb_root (vbs st v) of
        None \<Rightarrow> Undef
      | Some p \<Rightarrow>
          if vb_state (vbs st v) \<noteq> BUILDER_STATE_PENDING then Ok (DICEY_EINVAL, st)
          else if \<not> dicey_type_is_valid (arg_type val) then Ok (DICEY_EINVAL, st)
          else
            and_then (get_cell st p) (\<lambda>root.
              if dicey_type_is_valid (cell_type root) \<and> cell_type root \<noteq> arg_type val
              then Ok (DICEY_EVALUE_TYPE_MISMATCH, st)
              else
                and_then (dicey_arg_free_contents root) (\<lambda>_.
                  case dicey_arg_dup alloc val of
                    None \<Rightarrow>
                      and_then (set_cell st p (Shared (arg_type val))) (\<lambda>st1. Ok (DICEY_ENOMEM, st1))
                  | Some d \<Rightarrow>
                      and_then (set_cell st p (Held d)) (\<lambda>st1.
                        Ok (DICEY_OK,
                            set_vb st1 v ((vbs st1 v)\<lparr>vb_state := BUILDER_STATE_IDLE\<rparr>))))))"

section \<open>Message builders\<close>

definition set_mb :: "builder_mem \<Rightarrow> dicey_message_builder \<Rightarrow> builder_mem" where
  "set_mb st b = st\<lparr>mb := b\<rparr>"

definition msgbuilder_is_complete :: "dicey_message_builder \<Rightarrow> bool" where
  "msgbuilder_is_complete b \<longleftrightarrow>
     mb_state b = BUILDER_STATE_PENDING \<and> mb_path b \<noteq> None \<and> dicey_selector_is_valid (mb_selector b) \<and>
     dicey_op_is_valid (mb_type b) \<and> (mb_type b = DICEY_OP_GET) \<noteq> (mb_root b \<noteq> None)"

fun msgkind_to_dtf :: "dicey_op \<Rightarrow> dtf_payload_kind result" where
  "msgkind_to_dtf DICEY_OP_INVALID = Err DICEY_EINVAL"
| "msgkind_to_dtf DICEY_OP_SET = Ok DTF_PAYLOAD_SET"
| "msgkind_to_dtf DICEY_OP_GET = Ok DTF_PAYLOAD_GET"
| "msgkind_to_dtf DICEY_OP_EXEC = Ok DTF_PAYLOAD_EXEC"
| "msgkind_to_dtf DICEY_OP_SIGNAL = Ok DTF_PAYLOAD_EVENT"
| "msgkind_to_dtf DICEY_OP_RESPONSE = Ok DTF_PAYLOAD_RESPONSE"

definition dicey_message_builder_init :: "builder_mem \<Rightarrow> builder_result" where
  "dicey_message_builder_init st = Ok (DICEY_OK, set_mb st zero_message_builder)"

definition dicey_message_builder_begin :: "builder_mem \<Rightarrow> dicey_op \<Rightarrow> builder_result" where
  "dicey_message_builder_begin st op =
     (if mb_state (mb st) \<noteq> BUILDER_STATE_IDLE then Ok (DICEY_EINVAL, st)
      else Ok (DICEY_OK,
               set_mb st (zero_message_builder\<lparr>mb_state := BUILDER_STATE_PENDING, mb_type := op\<rparr>)))"

definition dicey_message_builder_discard :: "builder_mem \<Rightarrow> builder_mem result" where
  "dicey_message_builder_discard st =
     and_then
       (case mb_borrowed_to (mb st) of
          None \<Rightarrow> Ok st
        | Some v \<Rightarrow> dicey_arg_free_list st (vl_elems (vbs st v)) (unat (vl_nitems (vbs st v))))
       (\<lambda>st1. and_then (dicey_arg_free st1 (mb_root (mb st1))) (\<lambda>st2.
          Ok (set_mb st2 zero_message_builder)))"

definition dicey_message_builder_is_pending :: "builder_mem \<Rightarrow> bool" where
  "dicey_message_builder_is_pending st \<longleftrightarrow> mb_state (mb st) \<noteq> BUILDER_STATE_IDLE"

definition root_arg :: "builder_mem \<Rightarrow> dicey_arg option result" where
  "root_arg st =
     (case mb_root (mb st) of
        None \<Rightarrow> Ok None
      | Some b \<Rightarrow> and_then (get_cell st (b, 0)) (\<lambda>c. and_then (cell_arg c) (\<lambda>a. Ok (Some a))))"

text \<open>The packet is what \<open>dtf_message_write\<close> allocated and wrote; without success there is none.\<close>

definition dicey_message_builder_build ::
  "(nat \<Rightarrow> bool) \<Rightarrow> builder_mem \<Rightarrow> (dicey_error \<times> dicey_packet option \<times> builder_mem) result"
where
  "dicey_message_builder_build alloc st =
     (if mb_state (mb st) \<noteq> BUILDER_STATE_PENDING then Ok (DICEY_EINVAL, None, st)
      else if \<not> msgbuilder_is_complete (mb st) then Ok (DICEY_EAGAIN, None, st)
      else case (msgkind_to_dtf (mb_type (mb st)), mb_path (mb st)) of
        (Ok kind, Some path) \<Rightarrow>
          and_then (root_arg st) (\<lambda>root.
            case dtf_message_write alloc [] DICEY_NULL kind (mb_seq (mb st)) path (mb_selector (mb st)) root of
              Err e \<Rightarrow> Ok (e, None, st)
            | Undef \<Rightarrow> Undef
            | Ok (craft_res, data) \<Rightarrow>
                and_then (dicey_message_builder_discard st) (\<lambda>st1. Ok (DICEY_OK, Some data, st1)))
      | (Err e, _) \<Rightarrow> Ok (e, None, st)
      | _ \<Rightarrow> Undef)"

definition if_pending :: "builder_mem \<Rightarrow> (dicey_message_builder \<Rightarrow> dicey_message_builder) \<Rightarrow> builder_result" where
  "if_pending st f =
     (if mb_state (mb st) \<noteq> BUILDER_STATE_PENDING then Ok (DICEY_EINVAL, st)
      else Ok (DICEY_OK, set_mb st (f (mb st))))"

definition dicey_message_builder_set_path :: "builder_mem \<Rightarrow> cstring \<Rightarrow> builder_result" where
  "dicey_message_builder_set_path st path = if_pending st (mb_path_update (\<lambda>_. Some path))"

definition dicey_message_builder_set_selector :: "builder_mem \<Rightarrow> dicey_selector \<Rightarrow> builder_result" where
  "dicey_message_builder_set_selector st selector = if_pending st (mb_selector_update (\<lambda>_. selector))"

definition dicey_message_builder_set_seq :: "builder_mem \<Rightarrow> 32 word \<Rightarrow> builder_result" where
  "dicey_message_builder_set_seq st seq = if_pending st (mb_seq_update (\<lambda>_. seq))"

text \<open>The state is \<open>BUILDER_STATE_VALUE\<close> before the allocation is known to succeed.\<close>

definition dicey_message_builder_value_start :: "(nat \<Rightarrow> bool) \<Rightarrow> builder_mem \<Rightarrow> nat \<Rightarrow> builder_result" where
  "dicey_message_builder_value_start alloc st v =
     (if mb_state (mb st) \<noteq> BUILDER_STATE_PENDING then Ok (DICEY_EINVAL, st)
      else
        (let st0 = set_mb st ((mb st)\<lparr>mb_state := BUILDER_STATE_VALUE\<rparr>) in
         if \<not> alloc sizeof_arg then Ok (DICEY_ENOMEM, st0)
         else
           (let b = fresh st0;
                st1 = st0\<lparr>blocks := (blocks st0)(b \<mapsto> [Zeroed DICEY_TYPE_INVALID]), fresh := Suc b\<rparr> in
            and_then (dicey_arg_free st1 (mb_root (mb st1))) (\<lambda>st2.
              Ok (DICEY_OK,
                  set_vb (set_mb st2 ((mb st2)\<lparr>mb_root := Some b, mb_borrowed_to := Some v\<rparr>)) v
                    (zero_value_builder\<lparr>vb_state := BUILDER_STATE_PENDING, vb_root := Some (b, 0)\<rparr>))))))"

definition dicey_message_builder_value_end :: "builder_mem \<Rightarrow> nat \<Rightarrow> builder_result" where
  "dicey_message_builder_value_end st v =
     (if mb_state (mb st) \<noteq> BUILDER_STATE_VALUE then Ok (DICEY_EINVAL, st)
      else if mb_borrowed_to (mb st) \<noteq> Some v then Ok (DICEY_EINVAL, st)
      else Ok (DICEY_OK,
               set_mb (set_vb st v zero_value_builder)
                 ((mb st)\<lparr>mb_state := BUILDER_STATE_PENDING, mb_borrowed_to := None\<rparr>)))"

text \<open>\<open>v\<close> is the address of the value builder on the stack of the function.\<close>

definition dicey_message_builder_set_value :: "(nat \<Rightarrow> bool) \<Rightarrow> builder_mem \<Rightarrow> nat \<Rightarrow> dicey_arg \<Rightarrow> builder_result" where
  "dicey_message_builder_set_value alloc st v val =
     (if mb_state (mb st) \<noteq> BUILDER_STATE_PENDING then Ok (DICEY_EINVAL, st)
      else
        and_then (dicey_message_builder_value_start alloc (set_vb st v zero_value_builder) v) (\<lambda>(err, st1).
          if err \<noteq> DICEY_OK then Ok (err, st1)
          else
            and_then (dicey_value_builder_set alloc st1 v val) (\<lambda>(err, st2).
            and_then (dicey_message_builder_value_end st2 v) (\<lambda>(end_err, st3).
              Ok (if err \<noteq> DICEY_OK then err else end_err, st3)))))"

section \<open>Building a packet at once\<close>

definition then_ok :: "builder_result \<Rightarrow> (builder_mem \<Rightarrow> builder_result) \<Rightarrow> builder_result" where
  "then_ok r f = and_then r (\<lambda>(err, st). if err \<noteq> DICEY_OK then Ok (err, st) else f st)"

definition empty_builder_mem :: builder_mem where
  "empty_builder_mem =
     \<lparr>blocks = (\<lambda>b. None), fresh = 0, vbs = (\<lambda>v. zero_value_builder), mb = zero_message_builder\<rparr>"

text \<open>Every failure goes to the label \<open>fail\<close>, which discards the builder.\<close>

definition dicey_packet_message ::
  "bool \<Rightarrow> (nat \<Rightarrow> bool) \<Rightarrow> 32 word \<Rightarrow> dicey_op \<Rightarrow> cstring \<Rightarrow> dicey_selector \<Rightarrow> dicey_arg \<Rightarrow> dicey_packet result"
where
  "dicey_packet_message ndebug alloc seq op path selector val =
     c_assert ndebug
       (dicey_selector_is_valid selector \<and> (op = DICEY_OP_GET) \<noteq> (arg_type val \<noteq> DICEY_TYPE_INVALID))
       (and_then
          (then_ok (dicey_message_builder_init empty_builder_mem) (\<lambda>st.
           then_ok (dicey_message_builder_begin st op) (\<lambda>st.
           then_ok (dicey_message_builder_set_seq st seq) (\<lambda>st.
           then_ok (dicey_message_builder_set_path st path) (\<lambda>st.
           then_ok (dicey_message_builder_set_selector st selector) (\<lambda>st.
             if op \<noteq> DICEY_OP_GET then dicey_message_builder_set_value alloc st 0 val
             else Ok (DICEY_OK, st)))))))
          (\<lambda>(err, st).
            if err \<noteq> DICEY_OK then and_then (dicey_message_builder_discard st) (\<lambda>_. Err err)
            else
              and_then (dicey_message_builder_build alloc st) (\<lambda>(err, packet, st1).
                case (err, packet) of
                  (DICEY_OK, Some p) \<Rightarrow> Ok p
                | _ \<Rightarrow> and_then (dicey_message_builder_discard st1) (\<lambda>_. Err err))))"

section \<open>Lists grow element by element\<close>

text \<open>
  \<open>list_progress st v r t k done\<close>: the builder \<open>v\<close> is building a list of kind \<open>k\<close> (and element type \<open>t\<close>) for
  the root cell of block \<open>r\<close>, and its elements so far are \<open>done\<close>.
\<close>

definition list_progress ::
  "builder_mem \<Rightarrow> nat \<Rightarrow> nat \<Rightarrow> dicey_type \<Rightarrow> builder_state \<Rightarrow> dicey_arg list \<Rightarrow> bool"
where
  "list_progress st v r t k els \<longleftrightarrow>
     vb_state (vbs st v) = k \<and> vb_root (vbs st v) = Some (r, 0) \<and> vl_type (vbs st v) = t \<and>
     unat (vl_nitems (vbs st v)) = length els \<and> length els \<le> vl_cap (vbs st v) \<and>
     (vl_cap (vbs st v) = 0 \<or> 16 \<le> vl_cap (vbs st v)) \<and>
     r < fresh st \<and> (\<exists>c. blocks st r = Some [c]) \<and>
     (case vl_elems (vbs st v) of
        None \<Rightarrow> els = [] \<and> vl_cap (vbs st v) = 0
      | Some b \<Rightarrow> b \<noteq> r \<and> b < fresh st \<and> blocks st b = Some (map Held els))"

lemma unat_Suc16: "unat (n :: 16 word) < 65535 \<Longrightarrow> unat (n + 1) = Suc (unat n)"
  by (simp add: unat_word_ariths)

text \<open>Making room: afterwards the array has a free cell.\<close>

lemma next_makes_room:
  assumes "list_progress st v r t k els" and "\<And>n. alloc n"
  shows "\<exists>st1 b. (if unat (vl_nitems (vbs st v)) \<ge> vl_cap (vbs st v) then arglist_grow alloc st v
        else Ok (DICEY_OK, st)) = Ok (DICEY_OK, st1) \<and>
    list_progress st1 v r t k els \<and> length els < vl_cap (vbs st1 v) \<and>
    vl_elems (vbs st1 v) = Some b \<and> vl_nitems (vbs st1 v) = vl_nitems (vbs st v) \<and>
    mb st1 = mb st \<and> blocks st1 r = blocks st r"
proof (cases "vl_cap (vbs st v) \<le> length els")
  case False
  then show ?thesis
    using assms(1) by (auto simp: list_progress_def split: option.splits)
next
  case True
  note p = assms(1) [unfolded list_progress_def]
  let ?cap = "if vl_cap (vbs st v) > 0 then vl_cap (vbs st v) * 3 div 2 else DEFAULT_VAL_CAP"
  have cap: "length els < ?cap" "16 \<le> ?cap"
    using True p by (auto simp: DEFAULT_VAL_CAP_def)
  show ?thesis
  proof (cases "vl_elems (vbs st v)")
    case None
    then show ?thesis
      using p cap assms(2)
      by (auto simp: arglist_grow_def Let_def set_vb_def list_progress_def)
  next
    case (Some b)
    then show ?thesis
      using p cap assms(2) True
      by (auto simp: arglist_grow_def Let_def set_vb_def list_progress_def)
  qed
qed

definition add_elem :: "(nat \<Rightarrow> bool) \<Rightarrow> builder_mem \<Rightarrow> nat \<Rightarrow> nat \<Rightarrow> dicey_arg \<Rightarrow> builder_result" where
  "add_elem alloc st v e a =
     then_ok (dicey_value_builder_next alloc st v e) (\<lambda>st1. dicey_value_builder_set alloc st1 e a)"

lemma add_elem_progress:
  assumes p: "list_progress st v r t k els" and alloc: "\<And>n. alloc n" and "e \<noteq> v"
    and k: "k = BUILDER_STATE_ARRAY \<or> k = BUILDER_STATE_TUPLE" and n: "length els < 65535"
    and a: "arg_type a \<noteq> DICEY_TYPE_INVALID" "k = BUILDER_STATE_ARRAY \<Longrightarrow> arg_type a = t"
  shows "\<exists>st'. add_elem alloc st v e a = Ok (DICEY_OK, st') \<and> list_progress st' v r t k (els @ [a]) \<and>
    mb st' = mb st \<and> blocks st' r = blocks st r"
proof -
  obtain st1 b where room: "(if unat (vl_nitems (vbs st v)) \<ge> vl_cap (vbs st v) then arglist_grow alloc st v
        else Ok (DICEY_OK, st)) = Ok (DICEY_OK, st1)"
    and p1: "list_progress st1 v r t k els" and cap: "length els < vl_cap (vbs st1 v)"
    and b: "vl_elems (vbs st1 v) = Some b" and same: "mb st1 = mb st" "blocks st1 r = blocks st r"
    using next_makes_room [where alloc = alloc, OF p] alloc by blast
  note q = p1 [unfolded list_progress_def b]
  define item where "item = Zeroed (if k = BUILDER_STATE_ARRAY then t else DICEY_TYPE_INVALID)"
  define st2 where "st2 = set_vb (set_vb (st1\<lparr>blocks := (blocks st1)(b \<mapsto> map Held els @ [item])\<rparr>) v
      ((vbs st1 v)\<lparr>vl_nitems := vl_nitems (vbs st1 v) + 1\<rparr>)) e
      (zero_value_builder\<lparr>vb_state := BUILDER_STATE_PENDING, vb_root := Some (b, length els)\<rparr>)"
  have "dicey_value_builder_next alloc st v e = Ok (DICEY_OK, st2)"
    using p k room q cap b
    by (auto simp: dicey_value_builder_next_def Let_def list_progress_def item_def st2_def)
  moreover have "\<exists>st'. dicey_value_builder_set alloc st2 e a = Ok (DICEY_OK, st') \<and>
      list_progress st' v r t k (els @ [a]) \<and> mb st' = mb st1 \<and> blocks st' r = blocks st1 r"
    using q a \<open>e \<noteq> v\<close> n cap b arg_dup_succeeds(1) [of alloc a] alloc
    by (auto simp: st2_def dicey_value_builder_set_def set_vb_def get_cell_def set_cell_def item_def
        dicey_arg_free_contents_def list_progress_def unat_Suc16 zero_value_builder_def nth_append
        list_update_append)
  ultimately show ?thesis
    using same by (auto simp: add_elem_def then_ok_def)
qed

fun add_elems :: "(nat \<Rightarrow> bool) \<Rightarrow> builder_mem \<Rightarrow> nat \<Rightarrow> nat \<Rightarrow> dicey_arg list \<Rightarrow> builder_result" where
  "add_elems alloc st v e [] = Ok (DICEY_OK, st)"
| "add_elems alloc st v e (a # as) = then_ok (add_elem alloc st v e a) (\<lambda>st. add_elems alloc st v e as)"

lemma then_ok_OK [simp]: "then_ok (Ok (DICEY_OK, st)) f = f st"
  by (simp add: then_ok_def)

lemma add_elems_progress:
  assumes "list_progress st v r t k els" and "\<And>n. alloc n" and "e \<noteq> v"
    and "k = BUILDER_STATE_ARRAY \<or> k = BUILDER_STATE_TUPLE" and "length els + length es \<le> 65535"
    and "\<And>a. a \<in> set es \<Longrightarrow> arg_type a \<noteq> DICEY_TYPE_INVALID \<and> (k = BUILDER_STATE_ARRAY \<longrightarrow> arg_type a = t)"
  shows "\<exists>st'. add_elems alloc st v e es = Ok (DICEY_OK, st') \<and> list_progress st' v r t k (els @ es) \<and>
    mb st' = mb st \<and> blocks st' r = blocks st r"
  using assms(1,5,6)
proof (induction es arbitrary: st els)
  case (Cons a es)
  obtain st1 where st1: "add_elem alloc st v e a = Ok (DICEY_OK, st1)" "list_progress st1 v r t k (els @ [a])"
    "mb st1 = mb st" "blocks st1 r = blocks st r"
    using add_elem_progress [where alloc = alloc, OF Cons.prems(1) assms(2) assms(3,4), of a]
      Cons.prems(2,3) by auto
  have "\<exists>st'. add_elems alloc st1 v e es = Ok (DICEY_OK, st') \<and> list_progress st' v r t k ((els @ [a]) @ es) \<and>
      mb st' = mb st1 \<and> blocks st' r = blocks st1 r"
    using Cons.IH [OF st1(2)] Cons.prems(2,3) by simp
  with st1 show ?case
    by simp
qed simp

text \<open>A list is closed into its root.\<close>

lemma cell_args_Held [simp]: "cell_args (map Held es) = Ok es"
  by (induction es) simp_all

lemma close_list_progress:
  assumes "list_progress st v r t k els"
  shows "\<exists>st'. close_list st v mk = Ok (DICEY_OK, st') \<and> blocks st' r = Some [Held (mk els)] \<and>
    mb st' = mb st"
proof -
  note p = assms [unfolded list_progress_def]
  have "list_cells st (vbs st v) = Ok (map Held els)"
    using p by (auto simp: list_cells_def unat_eq_0 split: option.splits)
  then show ?thesis
    using p by (auto simp: close_list_def Let_def set_cell_def set_vb_def free_elems_def split: option.splits)
qed

section \<open>From builders to packets\<close>

definition begin_message :: "32 word \<Rightarrow> dicey_op \<Rightarrow> cstring \<Rightarrow> dicey_selector \<Rightarrow> builder_result" where
  "begin_message seq op path selector =
     then_ok (dicey_message_builder_init empty_builder_mem) (\<lambda>st.
     then_ok (dicey_message_builder_begin st op) (\<lambda>st.
     then_ok (dicey_message_builder_set_seq st seq) (\<lambda>st.
     then_ok (dicey_message_builder_set_path st path) (\<lambda>st.
       dicey_message_builder_set_selector st selector))))"

definition addressed :: "32 word \<Rightarrow> dicey_op \<Rightarrow> cstring \<Rightarrow> dicey_selector \<Rightarrow> builder_mem" where
  "addressed seq op path selector =
     empty_builder_mem\<lparr>mb :=
       \<lparr>mb_state = BUILDER_STATE_PENDING, mb_type = op, mb_seq = seq, mb_path = Some path,
        mb_selector = selector, mb_root = None, mb_borrowed_to = None\<rparr>\<rparr>"

lemmas builder_defs =
  dicey_message_builder_init_def dicey_message_builder_begin_def dicey_message_builder_set_seq_def
  dicey_message_builder_set_path_def dicey_message_builder_set_selector_def if_pending_def set_mb_def

lemma begin_message_eq: "begin_message seq op path selector = Ok (DICEY_OK, addressed seq op path selector)"
  by (simp add: begin_message_def addressed_def builder_defs empty_builder_mem_def zero_message_builder_def)

text \<open>What a message builder that holds a value, or a builder of a \<open>GET\<close>, is built into.\<close>

lemma discard_root:
  assumes "mb_borrowed_to (mb st) = None"
    and "case mb_root (mb st) of None \<Rightarrow> True | Some b \<Rightarrow> \<exists>a. blocks st b = Some [Held a]"
  shows "\<exists>st'. dicey_message_builder_discard st = Ok st' \<and> mb st' = zero_message_builder"
  using assms
  by (auto simp: dicey_message_builder_discard_def dicey_arg_free_def get_cell_def
      dicey_arg_free_contents_def set_mb_def split: option.splits)

lemma msgkind_to_dtf_valid: "dicey_op_is_valid op \<Longrightarrow> msgkind_to_dtf op = Ok (kind_of_op op)"
  by (cases op) (simp_all add: dicey_op_is_valid_def)

lemma build_message:
  assumes "mb st = (mb (addressed seq op path sel))\<lparr>mb_root := root\<rparr>"
    and "case root of None \<Rightarrow> arg = None | Some b \<Rightarrow> \<exists>a. arg = Some a \<and> blocks st b = Some [Held a]"
    and "message_ok op path sel arg" and "\<And>n. alloc n"
  shows "\<exists>st'. dicey_message_builder_build alloc st =
      Ok (DICEY_OK, Some (enc_message (kind_of_op op) seq path sel (body_of arg)), st') \<and>
    mb st' = zero_message_builder"
proof -
  have ok: "dicey_op_is_valid op" "address_ok path sel (length (body_of arg))"
    "(kind_of_op op \<noteq> DTF_PAYLOAD_GET) = (arg \<noteq> None)" "\<And>a. arg = Some a \<Longrightarrow> arg_writable a"
    using assms(3) arg_wf_writable by (auto simp: message_ok_def)
  have "mb_root (mb st) = root" "mb_borrowed_to (mb st) = None"
    using assms(1) by (simp_all add: addressed_def)
  moreover have "root_arg st = Ok arg"
    using assms(2) calculation by (auto simp: root_arg_def get_cell_def split: option.splits)
  moreover have "(op = DICEY_OP_GET) \<noteq> (root \<noteq> None)"
    using ok(3) assms(2) by (cases op) (auto split: option.splits)
  moreover have "dicey_selector_is_valid sel"
    using ok(2) by (simp add: address_ok_def selector_ok_def)
  moreover obtain st' where "dicey_message_builder_discard st = Ok st'" "mb st' = zero_message_builder"
    using discard_root [of st] calculation(1,2) assms(2) by (auto split: option.splits)
  ultimately show ?thesis
    using ok(1) assms(1) message_write_alloc [of "kind_of_op op", OF _ ok(3,2,4) assms(4)]
    by (simp add: dicey_message_builder_build_def msgbuilder_is_complete_def addressed_def
        msgkind_to_dtf_valid)
qed

lemma value_start_eq:
  assumes "\<And>n. alloc n"
  shows "dicey_message_builder_value_start alloc (addressed seq op path sel) v =
    Ok (DICEY_OK, \<lparr>blocks = [0 \<mapsto> [Zeroed DICEY_TYPE_INVALID]], fresh = 1,
      vbs = (\<lambda>v. zero_value_builder)(v := zero_value_builder\<lparr>vb_state := BUILDER_STATE_PENDING, vb_root := Some (0, 0)\<rparr>),
      mb = (mb (addressed seq op path sel))\<lparr>mb_state := BUILDER_STATE_VALUE, mb_root := Some 0, mb_borrowed_to := Some v\<rparr>\<rparr>)"
  using assms
  by (simp add: dicey_message_builder_value_start_def addressed_def set_mb_def set_vb_def Let_def
      dicey_arg_free_def empty_builder_mem_def)

lemma set_value_eq:
  assumes "\<And>n. alloc n" and "arg_type a \<noteq> DICEY_TYPE_INVALID"
  shows "\<exists>st'. dicey_message_builder_set_value alloc (addressed seq op path sel) 0 a = Ok (DICEY_OK, st') \<and>
    mb st' = (mb (addressed seq op path sel))\<lparr>mb_root := Some 0\<rparr> \<and> blocks st' 0 = Some [Held a]"
proof -
  have "set_vb (addressed seq op path sel) 0 zero_value_builder = addressed seq op path sel"
    by (simp add: set_vb_def addressed_def empty_builder_mem_def fun_upd_idem)
  then show ?thesis
    using assms value_start_eq [of alloc seq op path sel 0] arg_dup_succeeds(1) [of alloc a]
    by (simp add: dicey_message_builder_set_value_def)
       (simp add: dicey_value_builder_set_def get_cell_def set_cell_def dicey_arg_free_contents_def set_vb_def
         dicey_message_builder_value_end_def set_mb_def addressed_def)
qed

lemma packet_message_eq:
  assumes "message_ok op path sel arg" and "\<And>n. alloc n"
    and "a = (case arg of None \<Rightarrow> ArgInvalid | Some a \<Rightarrow> a)"
  shows "dicey_packet_message nd alloc seq op path sel a =
    Ok (enc_message (kind_of_op op) seq path sel (body_of arg))"
proof -
  have sel: "dicey_selector_is_valid sel" and op: "(op = DICEY_OP_GET) \<longleftrightarrow> arg = None"
    and ty: "\<And>b. arg = Some b \<Longrightarrow> arg_type b \<noteq> DICEY_TYPE_INVALID"
    using assms(1) arg_wf_type
    by (auto simp: message_ok_def address_ok_def selector_ok_def dicey_op_is_valid_def dicey_op_requires_payload_def
        split: dicey_op.splits)
  have guard: "(op = DICEY_OP_GET) \<noteq> (arg_type a \<noteq> DICEY_TYPE_INVALID)"
    using op ty assms(3) by (cases arg) auto
  obtain st root where st: "(if op \<noteq> DICEY_OP_GET then dicey_message_builder_set_value alloc (addressed seq op path sel) 0 a
      else Ok (DICEY_OK, addressed seq op path sel)) = Ok (DICEY_OK, st)"
    "mb st = (mb (addressed seq op path sel))\<lparr>mb_root := root\<rparr>"
    "case root of None \<Rightarrow> arg = None | Some b \<Rightarrow> \<exists>a. arg = Some a \<and> blocks st b = Some [Held a]"
  proof (cases arg)
    case None
    then show ?thesis
      using that [of "addressed seq op path sel" None] op by (simp add: addressed_def)
  next
    case (Some b)
    then show ?thesis
      using that [of _ "Some 0"] set_value_eq [of alloc b seq op path sel] ty assms(2,3) op by auto
  qed
  obtain st' where "dicey_message_builder_build alloc st =
      Ok (DICEY_OK, Some (enc_message (kind_of_op op) seq path sel (body_of arg)), st')"
    using build_message [OF st(2,3) assms(1), of alloc] assms(2) by blast
  moreover have "then_ok (dicey_message_builder_init empty_builder_mem) (\<lambda>st.
      then_ok (dicey_message_builder_begin st op) (\<lambda>st.
      then_ok (dicey_message_builder_set_seq st seq) (\<lambda>st.
      then_ok (dicey_message_builder_set_path st path) (\<lambda>st.
      then_ok (dicey_message_builder_set_selector st sel) (\<lambda>st.
        if op \<noteq> DICEY_OP_GET then dicey_message_builder_set_value alloc st 0 a else Ok (DICEY_OK, st)))))) =
      Ok (DICEY_OK, st)"
    using st(1)
    by (cases "op = DICEY_OP_GET")
       (simp_all add: builder_defs empty_builder_mem_def zero_message_builder_def addressed_def)
  ultimately show ?thesis
    using sel guard by (simp add: dicey_packet_message_def)
qed

section \<open>Building a list of arguments\<close>

definition build_list ::
  "(nat \<Rightarrow> bool) \<Rightarrow> builder_mem \<Rightarrow> nat \<Rightarrow> nat \<Rightarrow> (builder_mem \<Rightarrow> nat \<Rightarrow> builder_result) \<Rightarrow>
     (builder_mem \<Rightarrow> nat \<Rightarrow> builder_result) \<Rightarrow> dicey_arg list \<Rightarrow> builder_result"
where
  "build_list alloc st v e start finish es =
     then_ok (dicey_message_builder_value_start alloc st v) (\<lambda>st.
     then_ok (start st v) (\<lambda>st.
     then_ok (add_elems alloc st v e es) (\<lambda>st.
     then_ok (finish st v) (\<lambda>st. dicey_message_builder_value_end st v))))"

lemma build_list_eq:
  assumes alloc: "\<And>n. alloc n" and "e \<noteq> v" and k: "k = BUILDER_STATE_ARRAY \<or> k = BUILDER_STATE_TUPLE"
    and "length es \<le> 65535"
    and "\<And>a. a \<in> set es \<Longrightarrow> arg_type a \<noteq> DICEY_TYPE_INVALID \<and> (k = BUILDER_STATE_ARRAY \<longrightarrow> arg_type a = t)"
    and start: "\<And>st. start st v = valbuilder_list_start nd st v k t"
    and t: "k = BUILDER_STATE_ARRAY \<Longrightarrow> dicey_type_is_valid t" "k = BUILDER_STATE_TUPLE \<Longrightarrow> t = DICEY_TYPE_INVALID"
    and finish: "\<And>st. vb_state (vbs st v) = k \<Longrightarrow> vl_type (vbs st v) = t \<Longrightarrow> finish st v = close_list st v mk"
  shows "\<exists>st'. build_list alloc (addressed seq op path sel) v e start finish es = Ok (DICEY_OK, st') \<and>
    mb st' = (mb (addressed seq op path sel))\<lparr>mb_root := Some 0\<rparr> \<and> blocks st' 0 = Some [Held (mk es)]"
proof -
  obtain st1 where st1: "dicey_message_builder_value_start alloc (addressed seq op path sel) v = Ok (DICEY_OK, st1)"
    and vb: "vbs st1 v = zero_value_builder\<lparr>vb_state := BUILDER_STATE_PENDING, vb_root := Some (0, 0)\<rparr>"
    "blocks st1 0 = Some [Zeroed DICEY_TYPE_INVALID]" "fresh st1 = 1"
    and mb1: "mb st1 = (mb (addressed seq op path sel))
        \<lparr>mb_state := BUILDER_STATE_VALUE, mb_root := Some 0, mb_borrowed_to := Some v\<rparr>"
    using value_start_eq [of alloc seq op path sel v] alloc by simp
  obtain st2 where st2: "start st1 v = Ok (DICEY_OK, st2)" "mb st2 = mb st1" "blocks st2 0 = blocks st1 0"
    and p2: "list_progress st2 v 0 t k []"
    using vb k t unfolding start
    by (auto simp: valbuilder_list_start_def Let_def set_vb_def list_progress_def zero_value_builder_def)
  obtain st3 where st3: "add_elems alloc st2 v e es = Ok (DICEY_OK, st3)" "list_progress st3 v 0 t k es" "mb st3 = mb st2"
    using add_elems_progress [where alloc = alloc, OF p2 alloc assms(2) k, of es] assms(4,5) by auto
  obtain st4 where st4: "close_list st3 v mk = Ok (DICEY_OK, st4)" "blocks st4 0 = Some [Held (mk es)]" "mb st4 = mb st3"
    using close_list_progress [OF st3(2)] by blast
  have "finish st3 v = close_list st3 v mk"
    using finish st3(2) by (simp add: list_progress_def)
  then show ?thesis
    using st1 st2 st3 st4 mb1
    by (simp add: build_list_def dicey_message_builder_value_end_def set_mb_def set_vb_def addressed_def)
qed

end
