(* ===== verification/Builder_Properties.thy ===== *)
theory Builder_Properties
  imports Dicey_Builders Wire_Properties
begin

text \<open>
  The properties of the builders and of the conversion of received values to arguments.
\<close>



text \<open>
  C23: Building a tuple or an array element by element, through the growing array of a value
  builder, gives the same packet as handing the finished argument to \<open>dicey_packet_message\<close>, and
  leaves the message builder ready for reuse.
\<close>

theorem list_builder_equivalence:
  assumes "message_ok op path sel (Some a)" and "\<And>n. alloc n" and "e \<noteq> v"
    and "a = ArgTuple es \<and> start = dicey_value_builder_tuple_start nd \<and> finish = dicey_value_builder_tuple_end \<or>
      a = ArgArray t es \<and> start = (\<lambda>st v. dicey_value_builder_array_start nd st v t) \<and>
        finish = dicey_value_builder_array_end"
  shows "\<exists>st st' packet.
      then_ok (begin_message seq op path sel) (\<lambda>st. build_list alloc st v e start finish es) = Ok (DICEY_OK, st) \<and>
      dicey_message_builder_build alloc st = Ok (DICEY_OK, Some packet, st') \<and>
      mb st' = zero_message_builder \<and>
      dicey_packet_message nd alloc seq op path sel a = Ok packet"
proof -
  define k where "k = (if a = ArgTuple es then BUILDER_STATE_TUPLE else BUILDER_STATE_ARRAY)"
  define u where "u = (if a = ArgTuple es then DICEY_TYPE_INVALID else t)"
  define mk where "mk = (if a = ArgTuple es then ArgTuple else ArgArray t)"
  have wf: "arg_wf a"
    using assms(1) by (simp add: message_ok_def)
  have "\<exists>st. build_list alloc (addressed seq op path sel) v e start finish es = Ok (DICEY_OK, st) \<and>
      mb st = (mb (addressed seq op path sel))\<lparr>mb_root := Some 0\<rparr> \<and> blocks st 0 = Some [Held (mk es)]"
  proof (rule build_list_eq [where k = k and t = u and nd = nd])
    show "length es \<le> 65535"
      using wf assms(4) by (auto simp: c_limits)
    show "arg_type b \<noteq> DICEY_TYPE_INVALID \<and> (k = BUILDER_STATE_ARRAY \<longrightarrow> arg_type b = u)" if "b \<in> set es" for b
      using wf assms(4) that arg_wf_type [of b] by (auto simp: k_def u_def list_all_iff)
    show "start st v = valbuilder_list_start nd st v k u" for st
      using assms(4) by (auto simp: k_def u_def dicey_value_builder_tuple_start_def dicey_value_builder_array_start_def)
    show "finish st v = close_list st v mk" if "vb_state (vbs st v) = k" "vl_type (vbs st v) = u" for st
      using assms(4) that
      by (auto simp: k_def u_def mk_def dicey_value_builder_tuple_end_def dicey_value_builder_array_end_def)
    show "k = BUILDER_STATE_ARRAY \<Longrightarrow> dicey_type_is_valid u"
      using wf assms(4) by (auto simp: k_def u_def)
  qed (use assms(2,3) in \<open>auto simp: k_def u_def\<close>)
  then obtain st where st: "build_list alloc (addressed seq op path sel) v e start finish es = Ok (DICEY_OK, st)"
    "mb st = (mb (addressed seq op path sel))\<lparr>mb_root := Some 0\<rparr>" "blocks st 0 = Some [Held a]"
    using assms(4) by (auto simp: mk_def)
  then have "\<exists>st'. dicey_message_builder_build alloc st =
      Ok (DICEY_OK, Some (enc_message (kind_of_op op) seq path sel (body_of (Some a))), st') \<and>
    mb st' = zero_message_builder"
    using build_message [OF st(2) _ assms(1), of alloc] assms(2) by simp
  then show ?thesis
    using st(1) packet_message_eq [OF assms(1), of alloc a nd seq] assms(2) by (simp add: begin_message_eq)
qed

theorem list_builder_equivalence_witness:
  "\<exists>st st' packet.
      then_ok (begin_message 4 DICEY_OP_SET sample_path sample_selector) (\<lambda>st.
        build_list (\<lambda>_. True) st 1 2 (dicey_value_builder_tuple_start False) dicey_value_builder_tuple_end
          [ArgI32 7, ArgArray DICEY_TYPE_BOOL [ArgBool 1, ArgBool 0], ArgPair (ArgStr None) ArgUnit]) =
        Ok (DICEY_OK, st) \<and>
      dicey_message_builder_build (\<lambda>_. True) st = Ok (DICEY_OK, Some packet, st') \<and>
      mb st' = zero_message_builder \<and>
      dicey_packet_message False (\<lambda>_. True) 4 DICEY_OP_SET sample_path sample_selector sample_arg = Ok packet"
  using list_builder_equivalence [of DICEY_OP_SET sample_path sample_selector sample_arg "\<lambda>_. True" 2 1
      "[ArgI32 7, ArgArray DICEY_TYPE_BOOL [ArgBool 1, ArgBool 0], ArgPair (ArgStr None) ArgUnit]"
      "dicey_value_builder_tuple_start False" False dicey_value_builder_tuple_end DICEY_TYPE_INVALID 4]
  by (simp add: sample_arg_def [symmetric])

text \<open>
  A value builder that could not be started locks its message builder: after the failed
  allocation every setter, another start and the end are refused with \<open>DICEY_EINVAL\<close>, and so is the
  build, until the builder is discarded.
\<close>

theorem failed_value_start_locks:
  assumes "mb_state (mb st) = BUILDER_STATE_PENDING" and "mb_borrowed_to (mb st) = None" and "\<not> alloc sizeof_arg"
  shows "\<exists>st'. dicey_message_builder_value_start alloc st v = Ok (DICEY_ENOMEM, st') \<and>
      dicey_message_builder_value_end st' v = Ok (DICEY_EINVAL, st') \<and>
      dicey_message_builder_value_start alloc' st' w = Ok (DICEY_EINVAL, st') \<and>
      dicey_message_builder_set_path st' path = Ok (DICEY_EINVAL, st') \<and>
      dicey_message_builder_set_value alloc' st' w a = Ok (DICEY_EINVAL, st') \<and>
      dicey_message_builder_build alloc' st' = Ok (DICEY_EINVAL, None, st')"
  using assms
  by (simp add: dicey_message_builder_value_start_def dicey_message_builder_value_end_def set_mb_def Let_def
      dicey_message_builder_set_path_def if_pending_def dicey_message_builder_set_value_def
      dicey_message_builder_build_def)

theorem failed_value_start_locks_witness:
  "\<exists>st'. dicey_message_builder_value_start (\<lambda>n. False) (addressed 1 DICEY_OP_SET sample_path sample_selector) 0 =
        Ok (DICEY_ENOMEM, st') \<and>
      dicey_message_builder_set_value (\<lambda>n. True) st' 0 (ArgI32 7) = Ok (DICEY_EINVAL, st')"
  using failed_value_start_locks [of "addressed 1 DICEY_OP_SET sample_path sample_selector" "\<lambda>n. False" 0 "\<lambda>n. True" 0]
  by (auto simp: addressed_def)

text \<open>
  Converting a received value back to an argument keeps scalars and pairs of them, and loses the
  elements of a tuple: a tuple that holds anything becomes the empty one.
\<close>

theorem borrowed_values_lose_lists:
  assumes "arg_wf a" and "no_lists a" and "\<And>n. alloc n" and "arg_wf e" and "list_all arg_wf es"
    and "length (concat (map enc_variant (e # es))) \<le> UINT32_MAX"
  shows "dicey_arg_from_borrowed_value alloc (value_of_arg a) = Ok a \<and>
    dicey_arg_from_borrowed_value alloc (value_of_arg (ArgTuple (e # es))) = Ok (ArgTuple [])"
  using from_borrowed_value_of_arg [OF assms(1,2), of alloc] from_borrowed_list [OF assms(4-6), of alloc] assms(3)
  by blast

theorem borrowed_values_lose_lists_witness:
  "dicey_arg_from_borrowed_value (\<lambda>_. True) (value_of_arg (ArgTuple [ArgI32 7, ArgUnit])) = Ok (ArgTuple [])"
  using borrowed_values_lose_lists [of ArgUnit "\<lambda>_. True" "ArgI32 7" "[ArgUnit]"]
  by (simp add: enc_variant_def c_limits)

end
