(* ===== verification/Dicey_Hashtable.thy ===== *)
theory Dicey_Hashtable
  imports Dicey_Types
begin

text \<open>
  The hash table of \<^verbatim>\<open>src/sup/hashtable.c\<close>: one array of cells, whose first \<open>*buckets_no\<close> cells start the
  buckets and whose others continue them through their \<open>next\<close> offsets.

  A \<open>void *\<close> is a \<open>'v option\<close>, \<open>None\<close> for \<open>NULL\<close>.  The 32-bit counters are naturals with the
  wrap-around written out.  \<open>Undef\<close> stands for an access outside of the array and for a walk along a
  bucket that never ends; \<open>hashtable_inv\<close> below excludes both.
\<close>

section \<open>The table\<close>

definition REHASH_THRESHOLD :: nat where "REHASH_THRESHOLD = 75"

definition primes :: "nat list" where
  "primes =
     [53, 97, 193, 389, 769, 1543, 3079, 6151, 12289,
      24593, 49157, 98317, 196613, 393241, 786433, 1572869, 3145739, 6291469,
      12582917, 25165843, 50331653, 100663319, 201326611, 402653189, 805306457, 1610612741]"

record 'v table_entry =
  te_key :: "cstring option"
  te_value :: "'v option"
  te_next :: nat

text \<open>\<open>buckets_no\<close> points into the list of primes: the model has its index.  \<open>cap\<close> is the number of cells.\<close>

record 'v dicey_hashtable =
  ht_len :: nat
  ht_buckets :: nat
  ht_free_cur :: nat
  ht_entries :: "'v table_entry list"

definition buckets_no :: "'v dicey_hashtable \<Rightarrow> nat" where
  "buckets_no t = primes ! ht_buckets t"

definition ht_cap :: "'v dicey_hashtable \<Rightarrow> nat" where
  "ht_cap t = length (ht_entries t)"

definition empty_entry :: "'v table_entry" where
  "empty_entry = \<lparr>te_key = None, te_value = None, te_next = 0\<rparr>"

datatype dicey_hash_set_result = DICEY_HASH_SET_FAILED | DICEY_HASH_SET_ADDED | DICEY_HASH_SET_UPDATED

definition sizeof_entry :: nat where "sizeof_entry = 24"
definition sizeof_table :: nat where "sizeof_table = 24"

section \<open>Looking up\<close>

definition djb2 :: "cstring \<Rightarrow> 32 word" where
  "djb2 str = fold (\<lambda>c hash. push_bit 5 hash + hash + ucast c) str 5381"

text \<open>
  The walk along a bucket: the cell that holds the key, the first free cell before it, and the last
  cell of the bucket.  A walk over more cells than there are repeats one and never ends, so the
  number of cells is fuel enough.
\<close>

fun find_from ::
  "nat \<Rightarrow> 'v table_entry list \<Rightarrow> nat \<Rightarrow> cstring \<Rightarrow> nat option \<Rightarrow> (nat option \<times> nat option \<times> nat) result"
where
  "find_from 0 cells offs key first_free = Undef"
| "find_from (Suc n) cells offs key first_free =
     (if length cells \<le> offs then Undef
      else if te_key (cells ! offs) = Some key then Ok (Some offs, first_free, 0)
      else
        (let first_free' = (if te_key (cells ! offs) = None \<and> first_free = None then Some offs else first_free) in
         if te_next (cells ! offs) = 0 then Ok (None, first_free', offs)
         else find_from n cells (te_next (cells ! offs)) key first_free'))"

definition bucket_find_entry ::
  "'v dicey_hashtable \<Rightarrow> nat \<Rightarrow> cstring \<Rightarrow> (nat option \<times> nat option \<times> nat) result"
where
  "bucket_find_entry ht bucket_offs key = find_from (ht_cap ht) (ht_entries ht) bucket_offs key None"

definition hash_get_entry_for_set ::
  "'v dicey_hashtable \<Rightarrow> cstring \<Rightarrow> (nat option \<times> nat option \<times> nat) result"
where
  "hash_get_entry_for_set ht key = bucket_find_entry ht (unat (djb2 key) mod buckets_no ht) key"

definition hash_get_entry :: "'v dicey_hashtable option \<Rightarrow> cstring option \<Rightarrow> nat option result" where
  "hash_get_entry ht key =
     (case (ht, key) of
        (Some t, Some k) \<Rightarrow> and_then (hash_get_entry_for_set t k) (\<lambda>(found, _). Ok found)
      | _ \<Rightarrow> Ok None)"

definition dicey_hashtable_get_entry ::
  "'v dicey_hashtable option \<Rightarrow> cstring option \<Rightarrow> (cstring \<times> 'v option) option result"
where
  "dicey_hashtable_get_entry table key =
     and_then (hash_get_entry table key) (\<lambda>found.
       case (table, found, key) of
         (Some t, Some i, Some k) \<Rightarrow> Ok (Some (k, te_value (ht_entries t ! i)))
       | _ \<Rightarrow> Ok None)"

definition dicey_hashtable_get :: "'v dicey_hashtable option \<Rightarrow> cstring option \<Rightarrow> 'v option result" where
  "dicey_hashtable_get table key =
     and_then (dicey_hashtable_get_entry table key) (\<lambda>r.
       Ok (case r of None \<Rightarrow> None | Some (_, v) \<Rightarrow> v))"

definition dicey_hashtable_contains :: "'v dicey_hashtable option \<Rightarrow> cstring option \<Rightarrow> bool result" where
  "dicey_hashtable_contains table key = and_then (dicey_hashtable_get table key) (\<lambda>v. Ok (v \<noteq> None))"

definition dicey_hashtable_size :: "'v dicey_hashtable option \<Rightarrow> nat" where
  "dicey_hashtable_size table = (case table of None \<Rightarrow> 0 | Some t \<Rightarrow> ht_len t)"

section \<open>Storing\<close>

text \<open>\<open>maybe_take\<close>: a key that the table does not own yet is duplicated.\<close>

definition maybe_take :: "(nat \<Rightarrow> bool) \<Rightarrow> cstring \<Rightarrow> bool \<Rightarrow> cstring option" where
  "maybe_take alloc str owned = (if owned \<or> alloc (length str + 1) then Some str else None)"

text \<open>An index behind the primes is the end mark -1.\<close>

definition hash_new :: "(nat \<Rightarrow> bool) \<Rightarrow> nat \<Rightarrow> nat \<Rightarrow> 'v dicey_hashtable option" where
  "hash_new alloc primes_list extra_cap =
     (if length primes \<le> primes_list then None
      else
        (let cap = primes ! primes_list + extra_cap in
         if \<not> alloc (sizeof_table + cap * sizeof_entry) then None
         else Some \<lparr>ht_len = 0, ht_buckets = primes_list, ht_free_cur = primes ! primes_list,
                    ht_entries = replicate (primes ! primes_list) empty_entry\<rparr>))"

definition hash_new_default :: "(nat \<Rightarrow> bool) \<Rightarrow> 'v dicey_hashtable option" where
  "hash_new_default alloc = hash_new alloc 0 0"

definition hash_grow :: "(nat \<Rightarrow> bool) \<Rightarrow> 'v dicey_hashtable \<Rightarrow> 'v dicey_hashtable option" where
  "hash_grow alloc t =
     (let old_cap = ht_cap t; new_cap = (old_cap * 3 mod 2 ^ 32) div 2 in
      if new_cap \<le> old_cap then None
      else if \<not> alloc (sizeof_table + new_cap * sizeof_entry) then None
      else Some (t\<lparr>ht_entries := ht_entries t @ replicate (new_cap - old_cap) empty_entry\<rparr>))"

text \<open>\<open>None\<close> is failure; the table may have grown all the same.\<close>

definition hash_bucket_append ::
  "(nat \<Rightarrow> bool) \<Rightarrow> 'v dicey_hashtable \<Rightarrow> nat \<Rightarrow> cstring \<Rightarrow> bool \<Rightarrow> 'v option
     \<Rightarrow> (bool \<times> 'v dicey_hashtable) result"
where
  "hash_bucket_append alloc t last_item key owned val =
     (case (if ht_free_cur t \<ge> ht_cap t then hash_grow alloc t else Some t) of
        None \<Rightarrow> Ok (False, t)
      | Some t1 \<Rightarrow>
          if ht_free_cur t1 \<ge> ht_cap t1 \<or> last_item \<ge> ht_cap t1 then Undef
          else case maybe_take alloc key owned of
            None \<Rightarrow> Ok (False, t1)
          | Some new_key \<Rightarrow>
              (let offs = ht_free_cur t1;
                   cells = (ht_entries t1)[offs := \<lparr>te_key = Some new_key, te_value = val, te_next = 0\<rparr>] in
               Ok (True, t1\<lparr>ht_entries := cells[last_item := (cells ! last_item)\<lparr>te_next := offs\<rparr>],
                            ht_free_cur := Suc offs, ht_len := (ht_len t1 + 1) mod 2 ^ 32\<rparr>)))"

definition load_factor :: "nat \<Rightarrow> nat \<Rightarrow> nat" where
  "load_factor len bno = (len * 100 mod 2 ^ 32) div bno"

text \<open>
  \<open>hash_set\<close> and \<open>hash_rehash_and_set_new\<close> call each other: moving to a bigger table stores every
  entry anew, which could make that table grow too.  The fuel bounds this nesting by the number of
  primes.  \<open>hash_steal\<close> is the loop over the cells of the old table.
\<close>

fun
  hash_set ::
    "nat \<Rightarrow> (nat \<Rightarrow> bool) \<Rightarrow> 'v dicey_hashtable \<Rightarrow> cstring \<Rightarrow> bool \<Rightarrow> 'v option
       \<Rightarrow> (dicey_hash_set_result \<times> 'v option \<times> 'v dicey_hashtable) result" and
  hash_steal ::
    "nat \<Rightarrow> (nat \<Rightarrow> bool) \<Rightarrow> 'v table_entry list \<Rightarrow> 'v dicey_hashtable \<Rightarrow> 'v dicey_hashtable option result"
where
  "hash_set 0 alloc t key owned val = Undef"
| "hash_set (Suc n) alloc t key owned val =
     and_then (hash_get_entry_for_set t key) (\<lambda>(existing, first_free, bucket_end).
       case existing of
         Some i \<Rightarrow>
           Ok (DICEY_HASH_SET_UPDATED, te_value (ht_entries t ! i),
               t\<lparr>ht_entries := (ht_entries t)[i := (ht_entries t ! i)\<lparr>te_value := val\<rparr>]\<rparr>)
       | None \<Rightarrow>
           (let new_len = (ht_len t + 1) mod 2 ^ 32 in
            if load_factor new_len (buckets_no t) \<ge> REHASH_THRESHOLD then
              (case hash_new alloc (Suc (ht_buckets t)) 0 of
                 None \<Rightarrow> Ok (DICEY_HASH_SET_FAILED, None, t)
               | Some new_table \<Rightarrow>
                   and_then (hash_steal n alloc (ht_entries t) new_table) (\<lambda>stolen.
                     case stolen of
                       None \<Rightarrow> Ok (DICEY_HASH_SET_FAILED, None, t)
                     | Some t1 \<Rightarrow>
                         and_then (hash_set n alloc t1 key owned val) (\<lambda>(res, _, t2).
                           if res = DICEY_HASH_SET_FAILED then Ok (DICEY_HASH_SET_FAILED, None, t)
                           else Ok (DICEY_HASH_SET_ADDED, None, t2))))
            else case first_free of
              Some i \<Rightarrow>
                (case maybe_take alloc key owned of
                   None \<Rightarrow> Ok (DICEY_HASH_SET_FAILED, None, t)
                 | Some new_key \<Rightarrow>
                     Ok (DICEY_HASH_SET_ADDED, None,
                         t\<lparr>ht_entries := (ht_entries t)
                              [i := (ht_entries t ! i)\<lparr>te_key := Some new_key, te_value := val\<rparr>],
                           ht_len := new_len\<rparr>))
            | None \<Rightarrow>
                and_then (hash_bucket_append alloc t bucket_end key owned val) (\<lambda>(ok, t1).
                  Ok (if ok then DICEY_HASH_SET_ADDED else DICEY_HASH_SET_FAILED, None, t1))))"
| "hash_steal n alloc [] t = Ok (Some t)"
| "hash_steal n alloc (c # cells) t =
     (case te_key c of
        None \<Rightarrow> hash_steal n alloc cells t
      | Some key \<Rightarrow>
          and_then (hash_set n alloc t key True (te_value c)) (\<lambda>(res, _, t1).
            if res = DICEY_HASH_SET_FAILED then Ok None else hash_steal n alloc cells t1))"

definition dicey_hashtable_set ::
  "(nat \<Rightarrow> bool) \<Rightarrow> 'v dicey_hashtable option \<Rightarrow> cstring \<Rightarrow> 'v option
     \<Rightarrow> (dicey_hash_set_result \<times> 'v option \<times> 'v dicey_hashtable option) result"
where
  "dicey_hashtable_set alloc table key val =
     (case (case table of None \<Rightarrow> hash_new_default alloc | Some t \<Rightarrow> Some t) of
        None \<Rightarrow> Ok (DICEY_HASH_SET_FAILED, None, None)
      | Some t \<Rightarrow>
          and_then (hash_set (length primes) alloc t key False val) (\<lambda>(res, old, t1).
            Ok (res, old, Some t1)))"

section \<open>Removing and iterating\<close>

definition dicey_hashtable_remove ::
  "'v dicey_hashtable option \<Rightarrow> cstring option \<Rightarrow> ('v option \<times> 'v dicey_hashtable option) result"
where
  "dicey_hashtable_remove table key =
     and_then (hash_get_entry table key) (\<lambda>found.
       case (table, found) of
         (Some t, Some i) \<Rightarrow>
           Ok (te_value (ht_entries t ! i),
               Some (t\<lparr>ht_entries := (ht_entries t)
                          [i := (ht_entries t ! i)\<lparr>te_key := None, te_value := None\<rparr>],
                       ht_len := ht_len t - 1\<rparr>))
       | _ \<Rightarrow> Ok (None, table))"

text \<open>An iterator is the offset of the next cell to look at, \<open>None\<close> once it has ended.\<close>

definition dicey_hashtable_iter_start :: "'v dicey_hashtable option \<Rightarrow> nat option" where
  "dicey_hashtable_iter_start table = (case table of None \<Rightarrow> None | Some t \<Rightarrow> Some 0)"

definition dicey_hashtable_iter_next ::
  "'v dicey_hashtable option \<Rightarrow> nat option \<Rightarrow> ((cstring \<times> 'v option) option \<times> nat option)"
where
  "dicey_hashtable_iter_next table cur =
     (case (table, cur) of
        (Some t, Some i) \<Rightarrow>
          (let rest = dropWhile (\<lambda>j. te_key (ht_entries t ! j) = None) [i..<ht_cap t] in
           case rest of
             [] \<Rightarrow> (None, None)
           | j # _ \<Rightarrow>
               (case te_key (ht_entries t ! j) of
                  Some k \<Rightarrow> (Some (k, te_value (ht_entries t ! j)), Some (Suc j))
                | None \<Rightarrow> (None, None)))
      | _ \<Rightarrow> (None, None))"

text \<open>\<open>dicey_hashtable_delete\<close>: the values \<open>free_fn\<close> is called with, those of empty cells included.\<close>

definition dicey_hashtable_delete :: "'v dicey_hashtable option \<Rightarrow> 'v option list" where
  "dicey_hashtable_delete table = (case table of None \<Rightarrow> [] | Some t \<Rightarrow> map te_value (ht_entries t))"

end
