(* ===== verification/Dicey_Hashtable_Facts.thy ===== *)
theory Dicey_Hashtable_Facts
  imports Dicey_Hashtable
begin

text \<open>
  The hash table implements a finite map: the invariant of its cells, the map it stands for, and
  what looking up, storing (moving to a bigger table included) and removing do to that map.
\<close>

section \<open>Invariant and abstraction\<close>

definition key_at :: "'v dicey_hashtable \<Rightarrow> nat \<Rightarrow> cstring option" where
  "key_at t i = (if i < ht_cap t then te_key (ht_entries t ! i) else None)"

definition val_at :: "'v dicey_hashtable \<Rightarrow> nat \<Rightarrow> 'v option" where
  "val_at t i = (if i < ht_cap t then te_value (ht_entries t ! i) else None)"

definition link_at :: "'v dicey_hashtable \<Rightarrow> nat \<Rightarrow> nat" where
  "link_at t i = (if i < ht_cap t then te_next (ht_entries t ! i) else 0)"

definition home :: "'v dicey_hashtable \<Rightarrow> cstring \<Rightarrow> nat" where
  "home t k = unat (djb2 k) mod buckets_no t"

text \<open>\<open>reaches f i j\<close>: following the links \<open>f\<close> from cell \<open>i\<close> leads to cell \<open>j\<close>.\<close>

inductive reaches :: "(nat \<Rightarrow> nat) \<Rightarrow> nat \<Rightarrow> nat \<Rightarrow> bool" for f where
  reaches_here: "reaches f i i"
| reaches_next: "f i \<noteq> 0 \<Longrightarrow> reaches f (f i) j \<Longrightarrow> reaches f i j"

inductive_cases reachesE: "reaches f i j"

definition keyed :: "'v dicey_hashtable \<Rightarrow> nat set" where
  "keyed t = {i. key_at t i \<noteq> None}"

text \<open>
  Links lead upwards and stay below the first unused cell, so that every walk ends; unused cells
  are empty; every key is in the bucket its hash selects, and in one cell only; the length counts
  the cells with a key; and the load stays below the threshold while its computation does not wrap.
\<close>

definition hashtable_inv :: "'v dicey_hashtable \<Rightarrow> bool" where
  "hashtable_inv t \<longleftrightarrow>
     ht_buckets t < length primes \<and> buckets_no t \<le> ht_free_cur t \<and> ht_free_cur t \<le> ht_cap t \<and>
     ht_cap t < 2 ^ 32 \<and>
     (\<forall>i. link_at t i = 0 \<or> i < link_at t i \<and> link_at t i < ht_free_cur t) \<and>
     (\<forall>i. ht_free_cur t \<le> i \<longrightarrow> key_at t i = None \<and> link_at t i = 0) \<and>
     (\<forall>i k. key_at t i = Some k \<longrightarrow> reaches (link_at t) (home t k) i) \<and>
     (\<forall>i j k. key_at t i = Some k \<longrightarrow> key_at t j = Some k \<longrightarrow> i = j) \<and>
     ht_len t = card (keyed t) \<and>
     (buckets_no t \<le> 50331653 \<longrightarrow> ht_len t * 100 < 75 * buckets_no t)"

definition ht_map :: "'v dicey_hashtable \<Rightarrow> cstring \<Rightarrow> 'v option option" where
  "ht_map t k = map_option te_value (find (\<lambda>c. te_key c = Some k) (ht_entries t))"

lemma primes_bounds: "p < length primes \<Longrightarrow> 53 \<le> primes ! p \<and> primes ! p < 2 ^ 32"
proof -
  have "list_all (\<lambda>b. 53 \<le> b \<and> b < 2 ^ 32) primes"
    by (simp add: primes_def)
  then show "p < length primes \<Longrightarrow> ?thesis"
    by (simp add: list_all_length)
qed

lemma next_prime: "Suc p < length primes \<Longrightarrow> primes ! p + 2 \<le> primes ! Suc p"
proof -
  have "\<forall>p \<in> set [0..<25]. primes ! p + 2 \<le> primes ! Suc p"
    by (simp add: primes_def upt_rec)
  moreover have "length primes = 26"
    by (simp add: primes_def)
  ultimately show "Suc p < length primes \<Longrightarrow> ?thesis"
    by simp
qed

lemma invD:
  assumes "hashtable_inv t"
  shows "ht_buckets t < length primes" "buckets_no t \<le> ht_free_cur t" "ht_free_cur t \<le> ht_cap t"
    "ht_cap t < 2 ^ 32" "link_at t i = 0 \<or> i < link_at t i \<and> link_at t i < ht_free_cur t"
    "ht_free_cur t \<le> i \<Longrightarrow> key_at t i = None" "ht_free_cur t \<le> i \<Longrightarrow> link_at t i = 0"
    "key_at t i = Some k \<Longrightarrow> reaches (link_at t) (home t k) i"
    "key_at t i = Some k \<Longrightarrow> key_at t j = Some k \<Longrightarrow> i = j" "ht_len t = card (keyed t)"
    "buckets_no t \<le> 50331653 \<Longrightarrow> ht_len t * 100 < 75 * buckets_no t"
    "53 \<le> buckets_no t" "home t k' < ht_free_cur t"
proof -
  show "53 \<le> buckets_no t"
    using assms primes_bounds by (auto simp: hashtable_inv_def buckets_no_def)
  then have "home t k' < buckets_no t"
    by (simp add: home_def)
  then show "home t k' < ht_free_cur t"
    using assms by (simp add: hashtable_inv_def)
qed (use assms in \<open>auto simp: hashtable_inv_def\<close>)

lemma key_at_cell: "i < ht_cap t \<Longrightarrow> key_at t i = te_key (ht_entries t ! i)"
  by (simp add: key_at_def)

lemma key_at_bound: "key_at t i = Some k \<Longrightarrow> i < ht_cap t"
  by (auto simp: key_at_def split: if_splits)

lemma finite_keyed [simp]: "finite (keyed t)"
  by (rule finite_subset [of _ "{..<ht_cap t}"]) (auto simp: keyed_def key_at_def split: if_splits)

lemma ht_map_Some:
  assumes "hashtable_inv t"
  shows "ht_map t k = Some v \<longleftrightarrow> (\<exists>i. key_at t i = Some k \<and> val_at t i = v)"
proof
  assume "ht_map t k = Some v"
  then obtain i where "i < length (ht_entries t)" "te_key (ht_entries t ! i) = Some k" "te_value (ht_entries t ! i) = v"
    by (auto simp: ht_map_def find_Some_iff)
  then show "\<exists>i. key_at t i = Some k \<and> val_at t i = v"
    by (intro exI [of _ i]) (simp add: key_at_def val_at_def ht_cap_def)
next
  assume "\<exists>i. key_at t i = Some k \<and> val_at t i = v"
  then obtain i where i: "key_at t i = Some k" "val_at t i = v"
    by blast
  then have lt: "i < length (ht_entries t)"
    using key_at_bound [OF i(1)] by (simp add: ht_cap_def)
  obtain c where c: "find (\<lambda>c. te_key c = Some k) (ht_entries t) = Some c"
    using i lt by (cases "find (\<lambda>c. te_key c = Some k) (ht_entries t)")
      (auto simp: find_None_iff key_at_def ht_cap_def)
  then obtain j where "j < length (ht_entries t)" "te_key (ht_entries t ! j) = Some k" "c = ht_entries t ! j"
    by (auto simp: find_Some_iff)
  moreover from this have "j = i"
    using invD(9) [OF assms, of j k i] i by (simp add: key_at_def ht_cap_def)
  ultimately show "ht_map t k = Some v"
    using i(2) c lt by (simp add: ht_map_def val_at_def ht_cap_def)
qed

lemma ht_map_None:
  assumes "hashtable_inv t"
  shows "ht_map t k = None \<longleftrightarrow> (\<forall>i. key_at t i \<noteq> Some k)"
  using ht_map_Some [OF assms, of k] by (cases "ht_map t k") auto

section \<open>Walks\<close>

lemma reaches_trans: "reaches f i j \<Longrightarrow> reaches f j k \<Longrightarrow> reaches f i k"
  by (induction rule: reaches.induct) (auto intro: reaches.intros)

lemma reaches_unfold: "reaches f i j \<longleftrightarrow> i = j \<or> f i \<noteq> 0 \<and> reaches f (f i) j"
  by (auto intro: reaches.intros elim: reachesE)

text \<open>A link added to the end of a bucket extends every walk through it.\<close>

lemma reaches_extend: "reaches f i j \<Longrightarrow> f e = 0 \<Longrightarrow> reaches (f(e := n)) i j"
proof (induction rule: reaches.induct)
  case (reaches_here i)
  show ?case by (rule reaches.reaches_here)
next
  case (reaches_next i j)
  then have step: "(f(e := n)) i = f i"
    by auto
  show ?case
  proof (rule reaches.reaches_next)
    show "(f(e := n)) i \<noteq> 0"
      unfolding step by (rule reaches_next.hyps(1))
    show "reaches (f(e := n)) ((f(e := n)) i) j"
      unfolding step by (rule reaches_next.IH) (rule reaches_next.prems)
  qed
qed

lemma reaches_bound:
  assumes "hashtable_inv t" and "reaches (link_at t) i j" and "i < ht_free_cur t"
  shows "j < ht_free_cur t"
  using assms(2,3)
proof (induction rule: reaches.induct)
  case (reaches_next i j)
  then show ?case
    using invD(5) [OF assms(1), of i] by simp
qed

text \<open>
  The result of a walk.  The fuel decreases by one while the offset increases by at least one.
\<close>

lemma find_from_result:
  assumes "hashtable_inv t" and "offs < ht_free_cur t" and "ht_cap t \<le> n + offs"
  shows "\<exists>found ff' e. find_from n (ht_entries t) offs key ff = Ok (found, ff', e) \<and>
    (case found of
       Some i \<Rightarrow> key_at t i = Some key
     | None \<Rightarrow>
         (\<forall>j. reaches (link_at t) offs j \<longrightarrow> key_at t j \<noteq> Some key) \<and>
         reaches (link_at t) offs e \<and> link_at t e = 0 \<and>
         (case ff' of None \<Rightarrow> ff = None | Some i \<Rightarrow> ff = Some i \<or> reaches (link_at t) offs i \<and> key_at t i = None))"
  using assms(2,3)
proof (induction n arbitrary: offs ff)
  case 0
  then show ?case
    using invD(3) [OF assms(1)] by simp
next
  case (Suc n)
  have lt: "offs < ht_cap t"
    using Suc.prems(1) invD(3) [OF assms(1)] by simp
  define ff1 where "ff1 = (if te_key (ht_entries t ! offs) = None \<and> ff = None then Some offs else ff)"
  have cell: "key_at t offs = te_key (ht_entries t ! offs)" "link_at t offs = te_next (ht_entries t ! offs)"
    using lt by (simp_all add: key_at_def link_at_def)
  consider "key_at t offs = Some key" | "key_at t offs \<noteq> Some key" "link_at t offs = 0"
    | "key_at t offs \<noteq> Some key" "link_at t offs \<noteq> 0"
    by blast
  then show ?case
  proof cases
    case 1
    then show ?thesis
      using lt cell by (simp add: ht_cap_def)
  next
    case 2
    then have "\<forall>j. reaches (link_at t) offs j \<longrightarrow> j = offs"
      by (auto elim: reachesE)
    then show ?thesis
      using lt cell 2 by (auto simp: ht_cap_def reaches_here Let_def split: option.splits)
  next
    case 3
    then have up: "offs < link_at t offs" "link_at t offs < ht_free_cur t"
      using invD(5) [OF assms(1), of offs] by auto
    have "find_from (Suc n) (ht_entries t) offs key ff = find_from n (ht_entries t) (link_at t offs) key ff1"
      using lt cell 3 by (simp add: ht_cap_def Let_def ff1_def)
    moreover obtain found ff' e where
      rest: "find_from n (ht_entries t) (link_at t offs) key ff1 = Ok (found, ff', e)"
      "case found of
         Some i \<Rightarrow> key_at t i = Some key
       | None \<Rightarrow>
           (\<forall>j. reaches (link_at t) (link_at t offs) j \<longrightarrow> key_at t j \<noteq> Some key) \<and>
           reaches (link_at t) (link_at t offs) e \<and> link_at t e = 0 \<and>
           (case ff' of None \<Rightarrow> ff1 = None
            | Some i \<Rightarrow> ff1 = Some i \<or> reaches (link_at t) (link_at t offs) i \<and> key_at t i = None)"
      using Suc.IH [of "link_at t offs" ff1] up Suc.prems(2) by auto
    moreover have "case found of
         Some i \<Rightarrow> key_at t i = Some key
       | None \<Rightarrow>
           (\<forall>j. reaches (link_at t) offs j \<longrightarrow> key_at t j \<noteq> Some key) \<and>
           reaches (link_at t) offs e \<and> link_at t e = 0 \<and>
           (case ff' of None \<Rightarrow> ff = None | Some i \<Rightarrow> ff = Some i \<or> reaches (link_at t) offs i \<and> key_at t i = None)"
      using rest(2) 3 cell reaches_here [of "link_at t" offs]
      by (auto simp: ff1_def reaches_unfold [of "link_at t" offs] split: option.splits if_splits)
    ultimately show ?thesis
      by auto
  qed
qed

lemma get_entry_result:
  assumes "hashtable_inv t"
  shows "\<exists>found ff e. hash_get_entry_for_set t k = Ok (found, ff, e) \<and>
    (case found of
       Some i \<Rightarrow> key_at t i = Some k
     | None \<Rightarrow> (\<forall>i. key_at t i \<noteq> Some k) \<and> reaches (link_at t) (home t k) e \<and> link_at t e = 0 \<and> e < ht_free_cur t \<and>
         (\<forall>i. ff = Some i \<longrightarrow> reaches (link_at t) (home t k) i \<and> key_at t i = None \<and> i < ht_free_cur t))"
proof -
  obtain found ff e where r: "find_from (ht_cap t) (ht_entries t) (home t k) k None = Ok (found, ff, e)"
    "case found of
       Some i \<Rightarrow> key_at t i = Some k
     | None \<Rightarrow>
         (\<forall>j. reaches (link_at t) (home t k) j \<longrightarrow> key_at t j \<noteq> Some k) \<and>
         reaches (link_at t) (home t k) e \<and> link_at t e = 0 \<and>
         (case ff of None \<Rightarrow> (None :: nat option) = None
          | Some i \<Rightarrow> None = Some i \<or> reaches (link_at t) (home t k) i \<and> key_at t i = None)"
    using find_from_result [OF assms invD(13) [OF assms, of k] le_add1, of k None]
    by (elim exE conjE) (rule that)
  have "hash_get_entry_for_set t k = Ok (found, ff, e)"
    using r(1) by (simp add: hash_get_entry_for_set_def bucket_find_entry_def home_def)
  moreover have "key_at t i \<noteq> Some k" if "found = None" for i
    using r(2) invD(8) [OF assms, of i k] that by auto
  moreover have "j < ht_free_cur t" if "reaches (link_at t) (home t k) j" for j
    using reaches_bound [OF assms that invD(13) [OF assms]] .
  ultimately show ?thesis
    using r(2) by (auto split: option.splits)
qed

section \<open>Steps that keep the invariant\<close>

lemma load_factor_small: "n * 100 < 75 * b \<Longrightarrow> load_factor n b < REHASH_THRESHOLD"
proof -
  assume "n * 100 < 75 * b"
  then have "n * 100 mod 2 ^ 32 < 75 * b"
    using mod_less_eq_dividend [of "n * 100" "2 ^ 32"] by linarith
  then show ?thesis
    by (simp add: load_factor_def REHASH_THRESHOLD_def less_mult_imp_div_less)
qed

lemma load_factor_big: "57266231 \<le> b \<Longrightarrow> load_factor n b < REHASH_THRESHOLD"
proof -
  assume "57266231 \<le> b"
  then have "n * 100 mod 2 ^ 32 < 75 * b"
    by (rule_tac less_le_trans [of _ "2 ^ 32"]) simp_all
  then show ?thesis
    by (simp add: load_factor_def REHASH_THRESHOLD_def less_mult_imp_div_less)
qed

lemma len_bound: "hashtable_inv t \<Longrightarrow> ht_len t \<le> ht_free_cur t"
proof -
  assume inv: "hashtable_inv t"
  have "keyed t \<subseteq> {..<ht_free_cur t}"
    using invD(6) [OF inv] by (force simp: keyed_def not_less [symmetric])
  then show ?thesis
    using invD(10) [OF inv] card_mono [of "{..<ht_free_cur t}"] by simp
qed

text \<open>What the test of the load says about one more entry.\<close>

lemma new_len_load:
  assumes "hashtable_inv t" and "load_factor ((ht_len t + 1) mod 2 ^ 32) (buckets_no t) < REHASH_THRESHOLD"
    and "buckets_no t \<le> 50331653"
  shows "(ht_len t + 1) * 100 < 75 * buckets_no t"
proof -
  have "ht_len t * 100 < 75 * buckets_no t"
    using invD(11) [OF assms(1,3)] .
  then have "(ht_len t + 1) * 100 < 2 ^ 32"
    using assms(3) by simp
  then have "load_factor ((ht_len t + 1) mod 2 ^ 32) (buckets_no t) = (ht_len t + 1) * 100 div buckets_no t"
    by (simp add: load_factor_def)
  with assms(2) show ?thesis
    using invD(12) [OF assms(1)] by (simp add: REHASH_THRESHOLD_def div_less_iff_less_mult)
qed

text \<open>A new key in a free cell of its bucket.\<close>

lemma inv_new_key:
  assumes inv: "hashtable_inv t"
    and same: "ht_buckets t' = ht_buckets t" "ht_cap t \<le> ht_cap t'" "ht_cap t' < 2 ^ 32"
      "ht_free_cur t \<le> ht_free_cur t'" "ht_free_cur t' \<le> ht_cap t'"
    and keys: "key_at t' = (key_at t)(i := Some k)" and new: "key_at t i = None" "\<And>j. key_at t j \<noteq> Some k"
    and cell: "i < ht_free_cur t'" "reaches (link_at t') (home t k) i"
    and links: "\<And>j. link_at t' j = 0 \<or> j < link_at t' j \<and> link_at t' j < ht_free_cur t'"
      "\<And>j. ht_free_cur t' \<le> j \<Longrightarrow> link_at t' j = 0"
      "\<And>a b. reaches (link_at t) a b \<Longrightarrow> reaches (link_at t') a b"
    and len: "ht_len t' = ht_len t + 1" "buckets_no t \<le> 50331653 \<Longrightarrow> (ht_len t + 1) * 100 < 75 * buckets_no t"
  shows "hashtable_inv t'"
proof -
  have b: "buckets_no t' = buckets_no t" "\<And>k. home t' k = home t k"
    using same(1) by (simp_all add: buckets_no_def home_def)
  have "keyed t' = insert i (keyed t)" "i \<notin> keyed t"
    using keys new(1) by (auto simp: keyed_def)
  then have "ht_len t' = card (keyed t')"
    using len(1) invD(10) [OF inv] by simp
  moreover have "key_at t' j = None" if "ht_free_cur t' \<le> j" for j
    using that keys cell(1) same(4) invD(6) [OF inv, of j] by auto
  moreover have "reaches (link_at t') (home t k') j" if "key_at t' j = Some k'" for j k'
    using that keys cell(2) links(3) invD(8) [OF inv, of j k'] by (auto split: if_splits)
  moreover have "a = j" if "key_at t' a = Some k'" "key_at t' j = Some k'" for a j k'
    using that keys new(2) invD(9) [OF inv, of a k' j] by (auto split: if_splits)
  ultimately show ?thesis
    using same links(1,2) len(2) b invD(1-3) [OF inv] len(1) unfolding hashtable_inv_def by auto
qed

lemma map_new_key:
  assumes inv: "hashtable_inv t" "hashtable_inv t'"
    and keys: "key_at t' = (key_at t)(i := Some k)" "val_at t' = (val_at t)(i := v)"
    and old: "key_at t i = Some k \<or> key_at t i = None \<and> (\<forall>j. key_at t j \<noteq> Some k)"
  shows "ht_map t' = (ht_map t)(k \<mapsto> v)"
proof
  fix k'
  have "ht_map t' k = Some v"
    using ht_map_Some [OF inv(2), of k v] keys by auto
  moreover have "ht_map t' k' = ht_map t k'" if "k' \<noteq> k"
  proof -
    have "key_at t i \<noteq> Some k'"
      using old that by auto
    then have "ht_map t' k' = Some w \<longleftrightarrow> ht_map t k' = Some w" for w
      using that keys unfolding ht_map_Some [OF inv(1)] ht_map_Some [OF inv(2)]
      by (metis fun_upd_apply option.inject)
    then show ?thesis
      by (metis not_Some_eq)
  qed
  ultimately show "ht_map t' k' = ((ht_map t)(k \<mapsto> v)) k'"
    by simp
qed

section \<open>Storing one entry\<close>

lemma ht_cap_simps [simp]:
  "ht_cap (t\<lparr>ht_entries := cells\<rparr>) = length cells" "ht_cap (t\<lparr>ht_len := n\<rparr>) = ht_cap t"
  "ht_cap (t\<lparr>ht_free_cur := n\<rparr>) = ht_cap t"
  by (simp_all add: ht_cap_def)

lemma at_len [simp]:
  "key_at (t\<lparr>ht_len := n\<rparr>) = key_at t" "val_at (t\<lparr>ht_len := n\<rparr>) = val_at t" "link_at (t\<lparr>ht_len := n\<rparr>) = link_at t"
  "key_at (t\<lparr>ht_free_cur := n\<rparr>) = key_at t" "val_at (t\<lparr>ht_free_cur := n\<rparr>) = val_at t"
  "link_at (t\<lparr>ht_free_cur := n\<rparr>) = link_at t"
  by (simp_all add: fun_eq_iff key_at_def val_at_def link_at_def ht_cap_def)

lemma at_update:
  assumes "i < ht_cap t"
  shows "key_at (t\<lparr>ht_entries := (ht_entries t)[i := c]\<rparr>) = (key_at t)(i := te_key c)"
    "val_at (t\<lparr>ht_entries := (ht_entries t)[i := c]\<rparr>) = (val_at t)(i := te_value c)"
    "link_at (t\<lparr>ht_entries := (ht_entries t)[i := c]\<rparr>) = (link_at t)(i := te_next c)"
  using assms by (auto simp: fun_eq_iff key_at_def val_at_def link_at_def ht_cap_def nth_list_update)

lemma inv_same_cells:
  assumes "hashtable_inv t" and "key_at t' = key_at t" and "link_at t' = link_at t"
    and "ht_buckets t' = ht_buckets t" and "ht_free_cur t' = ht_free_cur t" and "ht_len t' = ht_len t"
    and "ht_cap t \<le> ht_cap t'" and "ht_cap t' < 2 ^ 32"
  shows "hashtable_inv t'"
  using assms by (auto simp: hashtable_inv_def buckets_no_def home_def keyed_def)

lemma map_same_cells:
  assumes "hashtable_inv t" and "hashtable_inv t'" and "key_at t' = key_at t" and "val_at t' = val_at t"
  shows "ht_map t' = ht_map t"
proof
  fix k
  have "ht_map t' k = Some w \<longleftrightarrow> ht_map t k = Some w" for w
    unfolding ht_map_Some [OF assms(1)] ht_map_Some [OF assms(2)] using assms(3,4) by simp
  then show "ht_map t' k = ht_map t k"
    by (metis not_Some_eq)
qed

definition set_spec ::
  "'v dicey_hashtable \<Rightarrow> cstring \<Rightarrow> 'v option \<Rightarrow> dicey_hash_set_result \<Rightarrow> 'v option \<Rightarrow> 'v dicey_hashtable \<Rightarrow> bool"
where
  "set_spec t k v res old t' \<longleftrightarrow> hashtable_inv t' \<and>
     (case res of
        DICEY_HASH_SET_FAILED \<Rightarrow> old = None \<and> ht_map t' = ht_map t
      | DICEY_HASH_SET_ADDED \<Rightarrow> old = None \<and> ht_map t k = None \<and> ht_map t' = (ht_map t)(k \<mapsto> v)
      | DICEY_HASH_SET_UPDATED \<Rightarrow> ht_map t k = Some old \<and> ht_map t' = (ht_map t)(k \<mapsto> v))"

lemma set_existing:
  assumes "hashtable_inv t" and "key_at t i = Some k"
  shows "set_spec t k v DICEY_HASH_SET_UPDATED (te_value (ht_entries t ! i))
    (t\<lparr>ht_entries := (ht_entries t)[i := (ht_entries t ! i)\<lparr>te_value := v\<rparr>]\<rparr>)" (is "set_spec t k v _ _ ?t'")
proof -
  have i: "i < ht_cap t"
    using key_at_bound [OF assms(2)] .
  have keys: "key_at ?t' = (key_at t)(i := Some k)"
    using at_update(1) [OF i] assms(2) i by (simp add: key_at_def)
  have "key_at ?t' = key_at t" "link_at ?t' = link_at t"
    using at_update(3) [OF i] keys assms(2) i by (auto simp: link_at_def)
  then have inv: "hashtable_inv ?t'"
    using inv_same_cells [OF assms(1), of ?t'] invD(4) [OF assms(1)] by (simp add: ht_cap_def)
  moreover have "ht_map ?t' = (ht_map t)(k \<mapsto> v)"
    using map_new_key [OF assms(1) inv keys] at_update(2) [OF i] assms(2) by simp
  moreover have "ht_map t k = Some (te_value (ht_entries t ! i))"
    unfolding ht_map_Some [OF assms(1)] using assms(2) i by (auto simp: val_at_def)
  ultimately show ?thesis
    by (simp add: set_spec_def)
qed

lemma set_hole:
  assumes inv: "hashtable_inv t" and new: "\<And>j. key_at t j \<noteq> Some k" "key_at t i = None"
    and cell: "reaches (link_at t) (home t k) i" "i < ht_free_cur t"
    and load: "load_factor ((ht_len t + 1) mod 2 ^ 32) (buckets_no t) < REHASH_THRESHOLD"
  shows "set_spec t k v DICEY_HASH_SET_ADDED None
    (t\<lparr>ht_entries := (ht_entries t)[i := (ht_entries t ! i)\<lparr>te_key := Some k, te_value := v\<rparr>],
       ht_len := (ht_len t + 1) mod 2 ^ 32\<rparr>) \<and> (ht_len t + 1) mod 2 ^ 32 = ht_len t + 1"
    (is "set_spec t k v _ _ ?t' \<and> _")
proof -
  have i: "i < ht_cap t"
    using cell(2) invD(3) [OF inv] by simp
  have keys: "key_at ?t' = (key_at t)(i := Some k)" "val_at ?t' = (val_at t)(i := v)" "link_at ?t' = link_at t"
    using at_update [OF i] i by (auto simp: link_at_def)
  have "keyed t \<subseteq> {..<ht_cap t} - {i}"
    using new(2) key_at_bound by (auto simp: keyed_def)
  then have "ht_len t < ht_cap t"
    using invD(10) [OF inv] card_mono [of "{..<ht_cap t} - {i}" "keyed t"] i by simp
  then have len: "(ht_len t + 1) mod 2 ^ 32 = ht_len t + 1"
    using invD(4) [OF inv] by simp
  have "hashtable_inv ?t'"
    using invD(2-5,7) [OF inv] keys new cell len new_len_load [OF inv load]
    by (intro inv_new_key [OF inv]) (auto simp: ht_cap_def)
  moreover from this have "ht_map ?t' = (ht_map t)(k \<mapsto> v)"
    using map_new_key [OF inv _ keys(1,2)] new by simp
  moreover have "ht_map t k = None"
    using ht_map_None [OF inv] new(1) by simp
  ultimately show ?thesis
    using len by (simp add: set_spec_def)
qed

lemma grow_facts:
  assumes "hashtable_inv t" and "hash_grow alloc t = Some t1"
  shows "hashtable_inv t1" "ht_map t1 = ht_map t" "key_at t1 = key_at t" "val_at t1 = val_at t"
    "link_at t1 = link_at t" "ht_cap t < ht_cap t1" "ht_free_cur t1 = ht_free_cur t" "ht_len t1 = ht_len t"
    "ht_buckets t1 = ht_buckets t" "ht_cap t1 < 2 ^ 32"
proof -
  define n where "n = (ht_cap t * 3 mod 2 ^ 32) div 2"
  have n: "ht_cap t < n" "n < 2 ^ 32" "t1 = t\<lparr>ht_entries := ht_entries t @ replicate (n - ht_cap t) empty_entry\<rparr>"
    using assms(2) by (auto simp: hash_grow_def Let_def n_def split: if_splits)
  then show at: "key_at t1 = key_at t" "val_at t1 = val_at t" "link_at t1 = link_at t"
    by (auto simp: fun_eq_iff key_at_def val_at_def link_at_def ht_cap_def nth_append empty_entry_def)
  show rest: "ht_cap t < ht_cap t1" "ht_free_cur t1 = ht_free_cur t" "ht_len t1 = ht_len t"
    "ht_buckets t1 = ht_buckets t" "ht_cap t1 < 2 ^ 32"
    using n by (simp_all add: ht_cap_def)
  show "hashtable_inv t1"
    using inv_same_cells [OF assms(1) at(1,3)] rest by simp
  then show "ht_map t1 = ht_map t"
    using map_same_cells [OF assms(1) _ at(1,2)] by simp
qed

lemma append_cells:
  assumes "ht_free_cur t < ht_cap t" and "e < ht_free_cur t" and "link_at t (ht_free_cur t) = 0"
    and "t' = t\<lparr>ht_entries := (let cells = (ht_entries t)[ht_free_cur t := \<lparr>te_key = Some k, te_value = v, te_next = 0\<rparr>]
        in cells[e := (cells ! e)\<lparr>te_next := ht_free_cur t\<rparr>]), ht_free_cur := Suc (ht_free_cur t), ht_len := n\<rparr>"
  shows "key_at t' = (key_at t)(ht_free_cur t := Some k)" "val_at t' = (val_at t)(ht_free_cur t := v)"
    "link_at t' = (link_at t)(e := ht_free_cur t)"
  using assms
  by (auto simp: fun_eq_iff key_at_def val_at_def link_at_def ht_cap_def Let_def nth_list_update)

lemma set_append:
  assumes inv: "hashtable_inv t" and new: "\<And>j. key_at t j \<noteq> Some k"
    and e: "reaches (link_at t) (home t k) e" "link_at t e = 0" "e < ht_free_cur t"
    and load: "load_factor ((ht_len t + 1) mod 2 ^ 32) (buckets_no t) < REHASH_THRESHOLD"
  shows "\<exists>ok t'. hash_bucket_append alloc t e k owned v = Ok (ok, t') \<and>
    set_spec t k v (if ok then DICEY_HASH_SET_ADDED else DICEY_HASH_SET_FAILED) None t' \<and>
    ht_buckets t' = ht_buckets t \<and> ht_len t' = (if ok then ht_len t + 1 else ht_len t)"
proof (cases "if ht_free_cur t \<ge> ht_cap t then hash_grow alloc t else Some t")
  case None
  then show ?thesis
    using inv by (intro exI [of _ False] exI [of _ t]) (simp add: hash_bucket_append_def set_spec_def)
next
  case (Some t1)
  have t1: "hashtable_inv t1" "ht_map t1 = ht_map t" "key_at t1 = key_at t" "val_at t1 = val_at t"
    "link_at t1 = link_at t" "ht_free_cur t1 = ht_free_cur t" "ht_len t1 = ht_len t" "ht_buckets t1 = ht_buckets t"
    and room: "ht_free_cur t1 < ht_cap t1"
    using Some inv grow_facts [OF inv, of alloc t1] invD(3) [OF inv] by (auto split: if_splits)
  have home: "home t1 k = home t k" "buckets_no t1 = buckets_no t"
    using t1(8) by (simp_all add: home_def buckets_no_def)
  have len: "(ht_len t1 + 1) mod 2 ^ 32 = ht_len t + 1"
    using len_bound [OF t1(1)] room invD(4) [OF t1(1)] t1(7) by simp
  show ?thesis
  proof (cases "maybe_take alloc k owned")
    case None
    then show ?thesis
      using Some t1 room e(3)
      by (intro exI [of _ False] exI [of _ t1]) (simp add: hash_bucket_append_def set_spec_def)
  next
    case (Some k')
    then have k': "k' = k"
      by (simp add: maybe_take_def split: if_splits)
    define t' where "t' = t1\<lparr>ht_entries := (let cells = (ht_entries t1)[ht_free_cur t1 := \<lparr>te_key = Some k, te_value = v, te_next = 0\<rparr>]
        in cells[e := (cells ! e)\<lparr>te_next := ht_free_cur t1\<rparr>]), ht_free_cur := Suc (ht_free_cur t1),
        ht_len := (ht_len t1 + 1) mod 2 ^ 32\<rparr>"
    have res: "hash_bucket_append alloc t e k owned v = Ok (True, t')"
      using \<open>(if _ then _ else _) = Some t1\<close> Some room e(3) t1(6)
      by (simp add: hash_bucket_append_def k' t'_def Let_def)
    have cells: "key_at t' = (key_at t)(ht_free_cur t := Some k)" "val_at t' = (val_at t)(ht_free_cur t := v)"
      "link_at t' = (link_at t)(e := ht_free_cur t)"
      using append_cells [OF room _ _ t'_def] e(3) t1 invD(7) [OF t1(1)] by simp_all
    have fields: "ht_cap t' = ht_cap t1" "ht_free_cur t' = Suc (ht_free_cur t)" "ht_len t' = ht_len t + 1"
      "ht_buckets t' = ht_buckets t"
      using t1 len by (simp_all add: t'_def ht_cap_def Let_def)
    have free: "key_at t (ht_free_cur t) = None" "link_at t (ht_free_cur t) = 0"
      using invD(6,7) [OF inv] by simp_all
    have reach: "reaches (link_at t') (home t k) (ht_free_cur t)"
      using reaches_trans [OF reaches_extend [OF e(1,2), of "ht_free_cur t"]] e(3) cells(3)
        reaches_next [of "link_at t'" e "ht_free_cur t"] reaches_here [of "link_at t'"] by simp
    have inv': "hashtable_inv t'"
    proof (rule inv_new_key [OF t1(1), where i = "ht_free_cur t" and k = k])
      show "link_at t' j = 0 \<or> j < link_at t' j \<and> link_at t' j < ht_free_cur t'" for j
        using cells(3) fields(2) e(3) invD(5) [OF inv, of j] by auto
      show "reaches (link_at t') a b" if "reaches (link_at t1) a b" for a b
        using reaches_extend [of "link_at t" a b e "ht_free_cur t"] that t1(5) e(2) cells(3) by simp
      show "link_at t' j = 0" if "ht_free_cur t' \<le> j" for j
        using that cells(3) fields(2) e(3) invD(7) [OF inv, of j] by auto
    qed (use t1 room fields cells(1) free new reach home invD(4) [OF t1(1)] new_len_load [OF inv load] in auto)
    then have "ht_map t' = (ht_map t)(k \<mapsto> v)"
      using map_new_key [OF inv _ cells(1,2)] free(1) new by simp
    moreover have "ht_map t k = None"
      using ht_map_None [OF inv] new by simp
    ultimately show ?thesis
      using res inv' fields by (intro exI [of _ True] exI [of _ t']) (simp add: set_spec_def)
  qed
qed

section \<open>Storing\<close>

text \<open>Below the threshold the table is kept.\<close>

lemma hash_set_light:
  assumes inv: "hashtable_inv t"
    and load: "load_factor ((ht_len t + 1) mod 2 ^ 32) (buckets_no t) < REHASH_THRESHOLD"
  shows "\<exists>res old t'. hash_set (Suc n) alloc t k owned v = Ok (res, old, t') \<and> set_spec t k v res old t' \<and>
    ht_buckets t' = ht_buckets t \<and> ht_len t' = (if res = DICEY_HASH_SET_ADDED then ht_len t + 1 else ht_len t)"
proof -
  obtain found ff e where get: "hash_get_entry_for_set t k = Ok (found, ff, e)"
    and r: "case found of
       Some i \<Rightarrow> key_at t i = Some k
     | None \<Rightarrow> (\<forall>i. key_at t i \<noteq> Some k) \<and> reaches (link_at t) (home t k) e \<and> link_at t e = 0 \<and> e < ht_free_cur t \<and>
         (\<forall>i. ff = Some i \<longrightarrow> reaches (link_at t) (home t k) i \<and> key_at t i = None \<and> i < ht_free_cur t)"
    using get_entry_result [OF inv, of k] by blast
  show ?thesis
  proof (cases found)
    case (Some i)
    then show ?thesis
      using get r set_existing [OF inv, of i k v] by simp
  next
    case None
    show ?thesis
    proof (cases ff)
      case (Some i)
      then have hole: "set_spec t k v DICEY_HASH_SET_ADDED None
        (t\<lparr>ht_entries := (ht_entries t)[i := (ht_entries t ! i)\<lparr>te_key := Some k, te_value := v\<rparr>],
           ht_len := (ht_len t + 1) mod 2 ^ 32\<rparr>)" "(ht_len t + 1) mod 2 ^ 32 = ht_len t + 1"
        using set_hole [OF inv _ _ _ _ load, of k i v] r None by auto
      show ?thesis
      proof (cases "maybe_take alloc k owned")
        case (Some k')
        then have "k' = k"
          by (simp add: maybe_take_def split: if_splits)
        with Some \<open>ff = Some i\<close> None get load hole show ?thesis
          by (simp add: Let_def)
      qed (use \<open>ff = Some i\<close> None get load inv in \<open>simp add: Let_def set_spec_def\<close>)
    next
      case None
      then obtain ok t' where "hash_bucket_append alloc t e k owned v = Ok (ok, t')"
        "set_spec t k v (if ok then DICEY_HASH_SET_ADDED else DICEY_HASH_SET_FAILED) None t'"
        "ht_buckets t' = ht_buckets t" "ht_len t' = (if ok then ht_len t + 1 else ht_len t)"
        using set_append [OF inv _ _ _ _ load, of k e alloc owned v] r \<open>found = None\<close> by auto
      with None \<open>found = None\<close> get load show ?thesis
        by (simp add: Let_def)
    qed
  qed
qed

subsection \<open>Moving to a bigger table\<close>

definition unique_keys :: "'v table_entry list \<Rightarrow> bool" where
  "unique_keys cells \<longleftrightarrow>
     (\<forall>i<length cells. \<forall>j<length cells. \<forall>k. te_key (cells ! i) = Some k \<longrightarrow> te_key (cells ! j) = Some k \<longrightarrow> i = j)"

lemma unique_keys_Cons:
  assumes "unique_keys (c # cells)"
  shows "unique_keys cells" "te_key c = Some k \<Longrightarrow> find (\<lambda>c. te_key c = Some k) cells = None"
proof -
  show "unique_keys cells"
    unfolding unique_keys_def
  proof (intro allI impI)
    fix i j k
    assume "i < length cells" "j < length cells" "te_key (cells ! i) = Some k" "te_key (cells ! j) = Some k"
    then show "i = j"
      using assms [unfolded unique_keys_def, rule_format, of "Suc i" "Suc j" k] by simp
  qed
  show "find (\<lambda>c. te_key c = Some k) cells = None" if "te_key c = Some k"
  proof (rule ccontr)
    assume "find (\<lambda>c. te_key c = Some k) cells \<noteq> None"
    then obtain j where "j < length cells" "te_key (cells ! j) = Some k"
      by (auto simp: find_None_iff in_set_conv_nth)
    with that show False
      using assms [unfolded unique_keys_def, rule_format, of 0 "Suc j" k] by simp
  qed
qed

definition keyed_cells :: "'v table_entry list \<Rightarrow> nat" where
  "keyed_cells cells = length (filter (\<lambda>c. te_key c \<noteq> None) cells)"

lemma steal_result:
  assumes "hashtable_inv t" and "unique_keys cells"
    and "\<forall>c \<in> set cells. \<forall>k. te_key c = Some k \<longrightarrow> ht_map t k = None"
    and "(ht_len t + keyed_cells cells) * 100 < 75 * buckets_no t"
  shows "\<exists>r. hash_steal (Suc n) alloc cells t = Ok r \<and>
    (case r of None \<Rightarrow> True
     | Some t' \<Rightarrow> hashtable_inv t' \<and> ht_buckets t' = ht_buckets t \<and> ht_len t' = ht_len t + keyed_cells cells \<and>
         (\<forall>k. ht_map t' k = (case find (\<lambda>c. te_key c = Some k) cells of Some c \<Rightarrow> Some (te_value c) | None \<Rightarrow> ht_map t k)))"
  using assms
proof (induction cells arbitrary: t)
  case Nil
  then show ?case
    by (simp add: keyed_cells_def)
next
  case (Cons c cells)
  show ?case
  proof (cases "te_key c")
    case None
    then have skip: "keyed_cells (c # cells) = keyed_cells cells"
      "\<And>k. find (\<lambda>c. te_key c = Some k) (c # cells) = find (\<lambda>c. te_key c = Some k) cells"
      "hash_steal (Suc n) alloc (c # cells) t = hash_steal (Suc n) alloc cells t"
      by (simp_all add: keyed_cells_def)
    show ?thesis
      unfolding skip
      using Cons.IH [OF Cons.prems(1) unique_keys_Cons(1) [OF Cons.prems(2)]] Cons.prems(3,4) skip(1)
      by simp
  next
    case (Some k)
    have "(ht_len t + 1) * 100 < 75 * buckets_no t"
      using Cons.prems(4) Some by (simp add: keyed_cells_def)
    moreover from this have "(ht_len t + 1) mod 2 ^ 32 = ht_len t + 1 \<or> (ht_len t + 1) mod 2 ^ 32 \<le> ht_len t + 1"
      by simp
    ultimately have "load_factor ((ht_len t + 1) mod 2 ^ 32) (buckets_no t) < REHASH_THRESHOLD"
      by (intro load_factor_small) auto
    then obtain res old t1 where set: "hash_set (Suc n) alloc t k True (te_value c) = Ok (res, old, t1)"
      and spec: "set_spec t k (te_value c) res old t1" and b: "ht_buckets t1 = ht_buckets t"
      and len: "ht_len t1 = (if res = DICEY_HASH_SET_ADDED then ht_len t + 1 else ht_len t)"
      using hash_set_light [OF Cons.prems(1), of n alloc k True "te_value c"] by blast
    have new: "ht_map t k = None"
      using Cons.prems(3) Some by simp
    show ?thesis
    proof (cases "res = DICEY_HASH_SET_FAILED")
      case True
      then show ?thesis
        using set Some by simp
    next
      case False
      then have added: "res = DICEY_HASH_SET_ADDED" "ht_map t1 = (ht_map t)(k \<mapsto> te_value c)" "hashtable_inv t1"
        using spec new by (cases res; simp add: set_spec_def)+
      have uniq: "find (\<lambda>c. te_key c = Some k) cells = None"
        using unique_keys_Cons(2) [OF Cons.prems(2) Some] .
      have "\<forall>d \<in> set cells. \<forall>k'. te_key d = Some k' \<longrightarrow> ht_map t1 k' = None"
        using added(2) Cons.prems(3) uniq by (auto simp: find_None_iff)
      moreover have "(ht_len t1 + keyed_cells cells) * 100 < 75 * buckets_no t1"
        using Cons.prems(4) Some len added(1) b by (simp add: keyed_cells_def buckets_no_def)
      ultimately obtain r where r: "hash_steal (Suc n) alloc cells t1 = Ok r"
        "case r of None \<Rightarrow> True
         | Some t' \<Rightarrow> hashtable_inv t' \<and> ht_buckets t' = ht_buckets t1 \<and> ht_len t' = ht_len t1 + keyed_cells cells \<and>
             (\<forall>k. ht_map t' k = (case find (\<lambda>c. te_key c = Some k) cells of Some c \<Rightarrow> Some (te_value c) | None \<Rightarrow> ht_map t1 k))"
        using Cons.IH [OF added(3) unique_keys_Cons(1) [OF Cons.prems(2)]] by blast
      show ?thesis
        using r set Some added b len uniq False
        by (auto simp: keyed_cells_def split: option.splits)
    qed
  qed
qed

lemma new_table:
  assumes "hash_new alloc p 0 = Some t"
  shows "hashtable_inv t" "ht_map t = Map.empty" "ht_len t = 0" "ht_buckets t = p"
proof -
  have p: "p < length primes" and t: "t = \<lparr>ht_len = 0, ht_buckets = p, ht_free_cur = primes ! p,
      ht_entries = replicate (primes ! p) empty_entry\<rparr>"
    using assms by (auto simp: hash_new_def Let_def split: if_splits)
  show "ht_len t = 0" "ht_buckets t = p"
    by (simp_all add: t)
  have at: "key_at t = (\<lambda>i. None)" "link_at t = (\<lambda>i. 0)"
    by (auto simp: fun_eq_iff key_at_def link_at_def t ht_cap_def empty_entry_def)
  then have "keyed t = {}"
    by (simp add: keyed_def)
  then show inv: "hashtable_inv t"
    using at p primes_bounds [OF p] by (auto simp: hashtable_inv_def t ht_cap_def buckets_no_def)
  show "ht_map t = Map.empty"
    using ht_map_None [OF inv] at by auto
qed

lemma prime_gap: "p < length primes \<Longrightarrow> primes ! p \<le> 50331653 \<or> 57266231 \<le> primes ! p"
proof -
  have "list_all (\<lambda>b. b \<le> 50331653 \<or> 57266231 \<le> b) primes"
    by (simp add: primes_def)
  then show "p < length primes \<Longrightarrow> ?thesis"
    by (simp add: list_all_length)
qed

lemma inv_unique_keys: "hashtable_inv t \<Longrightarrow> unique_keys (ht_entries t)"
proof -
  assume inv: "hashtable_inv t"
  show ?thesis
    unfolding unique_keys_def
  proof (intro allI impI)
    fix i j k
    assume "i < length (ht_entries t)" "j < length (ht_entries t)"
      "te_key (ht_entries t ! i) = Some k" "te_key (ht_entries t ! j) = Some k"
    then show "i = j"
      using invD(9) [OF inv, of i k j] by (simp add: key_at_def ht_cap_def)
  qed
qed

lemma inv_keyed_cells: "hashtable_inv t \<Longrightarrow> keyed_cells (ht_entries t) = ht_len t"
proof -
  assume inv: "hashtable_inv t"
  have "keyed t = {i. i < length (ht_entries t) \<and> te_key (ht_entries t ! i) \<noteq> None}"
    by (auto simp: keyed_def key_at_def ht_cap_def split: if_splits)
  then show ?thesis
    using invD(10) [OF inv] by (simp add: keyed_cells_def length_filter_conv_card)
qed

text \<open>Storing in a table whose load reaches the threshold.\<close>

lemma hash_set_heavy:
  assumes inv: "hashtable_inv t" and new: "ht_map t k = None"
    and load: "REHASH_THRESHOLD \<le> load_factor ((ht_len t + 1) mod 2 ^ 32) (buckets_no t)"
  shows "\<exists>res old t'. hash_set (Suc (Suc n)) alloc t k owned v = Ok (res, old, t') \<and> set_spec t k v res old t'"
proof -
  obtain ff e where get: "hash_get_entry_for_set t k = Ok (None, ff, e)"
    using get_entry_result [OF inv, of k] ht_map_None [OF inv, of k] new by (auto split: option.splits)
  have small: "buckets_no t \<le> 50331653"
    using prime_gap [OF invD(1) [OF inv]] load_factor_big [of "buckets_no t" "(ht_len t + 1) mod 2 ^ 32"] load
    by (auto simp: buckets_no_def)
  show ?thesis
  proof (cases "hash_new alloc (Suc (ht_buckets t)) 0 :: 'a dicey_hashtable option")
    case None
    then show ?thesis
      using get load inv by (simp add: Let_def set_spec_def)
  next
    case (Some t0)
    note t0 = new_table [OF Some]
    have "Suc (ht_buckets t) < length primes"
      using Some by (auto simp: hash_new_def split: if_splits)
    then have "buckets_no t + 2 \<le> buckets_no t0"
      using next_prime t0(4) by (simp add: buckets_no_def)
    then have room: "(ht_len t + 1) * 100 < 75 * buckets_no t0"
      using invD(11) [OF inv small] by simp
    obtain r where r: "hash_steal (Suc n) alloc (ht_entries t) t0 = Ok r"
      "case r of None \<Rightarrow> True
       | Some t' \<Rightarrow> hashtable_inv t' \<and> ht_buckets t' = ht_buckets t0 \<and> ht_len t' = ht_len t0 + keyed_cells (ht_entries t) \<and>
         (\<forall>k. ht_map t' k = (case find (\<lambda>c. te_key c = Some k) (ht_entries t) of Some c \<Rightarrow> Some (te_value c) | None \<Rightarrow> ht_map t0 k))"
      using steal_result [OF t0(1) inv_unique_keys [OF inv], of n alloc] t0(2,3) inv_keyed_cells [OF inv] room
      by auto
    show ?thesis
    proof (cases r)
      case None
      then show ?thesis
        using get load inv r \<open>hash_new _ _ _ = _\<close> by (simp add: Let_def set_spec_def)
    next
      case (Some t1)
      have "ht_map t1 k' = ht_map t k'" for k'
        using r(2) Some t0(2) by (auto simp: ht_map_def split: option.splits)
      then have t1: "hashtable_inv t1" "ht_map t1 = ht_map t" "ht_len t1 = ht_len t" "buckets_no t1 = buckets_no t0"
        using r(2) Some inv_keyed_cells [OF inv] t0(3) by (auto simp: buckets_no_def)
      have "(ht_len t1 + 1) mod 2 ^ 32 * 100 \<le> (ht_len t1 + 1) * 100"
        by (rule mult_le_mono1) (rule mod_less_eq_dividend)
      also have "\<dots> < 75 * buckets_no t1"
        using room t1(3,4) by simp
      finally obtain res old t2 where "hash_set (Suc n) alloc t1 k owned v = Ok (res, old, t2)"
        "set_spec t1 k v res old t2"
        using hash_set_light [OF t1(1) load_factor_small, of n alloc k owned v] by blast
      moreover have "\<exists>res old t'. (if res' = DICEY_HASH_SET_FAILED then Ok (DICEY_HASH_SET_FAILED, None, t)
            else Ok (DICEY_HASH_SET_ADDED, None, t2)) = (Ok (res, old, t') :: _ result) \<and> set_spec t k v res old t'"
        if "set_spec t1 k v res' old' t2" for res' old'
        using that t1(2) new inv by (cases res') (auto simp: set_spec_def)
      ultimately show ?thesis
        using get load r(1) Some \<open>hash_new _ _ _ = _\<close> by (simp add: Let_def)
    qed
  qed
qed

lemma hash_set_result:
  assumes "hashtable_inv t"
  shows "\<exists>res old t'. hash_set (Suc (Suc n)) alloc t k owned v = Ok (res, old, t') \<and> set_spec t k v res old t'"
proof (cases "load_factor ((ht_len t + 1) mod 2 ^ 32) (buckets_no t) < REHASH_THRESHOLD")
  case True
  then show ?thesis
    using hash_set_light [OF assms, of "Suc n" alloc k owned v] by blast
next
  case False
  show ?thesis
  proof (cases "ht_map t k")
    case None
    then show ?thesis
      using hash_set_heavy [OF assms, of k n alloc owned v] False by simp
  next
    case (Some w)
    then obtain i ff e where "hash_get_entry_for_set t k = Ok (Some i, ff, e)" "key_at t i = Some k"
      using get_entry_result [OF assms, of k] ht_map_None [OF assms, of k] by (auto split: option.splits)
    then show ?thesis
      using set_existing [OF assms, of i k v] by simp
  qed
qed

section \<open>The interface\<close>

text \<open>The map a table pointer stands for; \<open>NULL\<close> is the empty table.\<close>

fun table_inv :: "'v dicey_hashtable option \<Rightarrow> bool" where
  "table_inv None \<longleftrightarrow> True"
| "table_inv (Some t) \<longleftrightarrow> hashtable_inv t"

fun table_map :: "'v dicey_hashtable option \<Rightarrow> cstring \<Rightarrow> 'v option option" where
  "table_map None = Map.empty"
| "table_map (Some t) = ht_map t"

lemma get_entry_map:
  assumes "table_inv table"
  shows "\<exists>found. hash_get_entry table (Some k) = Ok found \<and>
    (case found of
       None \<Rightarrow> table_map table k = None
     | Some i \<Rightarrow> \<exists>t. table = Some t \<and> key_at t i = Some k \<and> table_map table k = Some (te_value (ht_entries t ! i)))"
proof (cases table)
  case None
  then show ?thesis
    by (simp add: hash_get_entry_def)
next
  case (Some t)
  then have inv: "hashtable_inv t"
    using assms by simp
  obtain found ff e where get: "hash_get_entry_for_set t k = Ok (found, ff, e)"
    and r: "case found of Some i \<Rightarrow> key_at t i = Some k | None \<Rightarrow> \<forall>i. key_at t i \<noteq> Some k"
    using get_entry_result [OF inv, of k] by (auto split: option.splits)
  have "ht_map t k = Some (te_value (ht_entries t ! i))" if "key_at t i = Some k" for i
    unfolding ht_map_Some [OF inv] using that key_at_bound [OF that] by (auto simp: val_at_def)
  then show ?thesis
    using get r Some ht_map_None [OF inv, of k] by (auto simp: hash_get_entry_def split: option.splits)
qed

lemma hashtable_get_map:
  assumes "table_inv table"
  shows "dicey_hashtable_get table (Some k) = Ok (case table_map table k of None \<Rightarrow> None | Some v \<Rightarrow> v)"
  using get_entry_map [OF assms, of k]
  by (auto simp: dicey_hashtable_get_def dicey_hashtable_get_entry_def split: option.splits)

lemma hashtable_contains_map:
  assumes "table_inv table"
  shows "dicey_hashtable_contains table (Some k) = Ok (\<exists>v. table_map table k = Some (Some v))"
  using hashtable_get_map [OF assms, of k] by (auto simp: dicey_hashtable_contains_def split: option.splits)

lemma hashtable_set_map:
  assumes "table_inv table"
  shows "\<exists>res old table'. dicey_hashtable_set alloc table k v = Ok (res, old, table') \<and> table_inv table' \<and>
    (case res of
       DICEY_HASH_SET_FAILED \<Rightarrow> old = None \<and> table_map table' = table_map table
     | DICEY_HASH_SET_ADDED \<Rightarrow> old = None \<and> table_map table k = None \<and> table_map table' = (table_map table)(k \<mapsto> v)
     | DICEY_HASH_SET_UPDATED \<Rightarrow> table_map table k = Some old \<and> table_map table' = (table_map table)(k \<mapsto> v))"
proof (cases "case table of None \<Rightarrow> hash_new_default alloc | Some t \<Rightarrow> Some t")
  case None
  then show ?thesis
    using assms by (auto simp: dicey_hashtable_set_def split: option.splits)
next
  case (Some t)
  then have inv: "hashtable_inv t" and map: "table_map table = ht_map t"
    using assms new_table [of alloc 0 t] by (auto simp: hash_new_default_def split: option.splits)
  have "length primes = Suc (Suc 24)"
    by (simp add: primes_def)
  then obtain res old t' where "hash_set (length primes) alloc t k False v = Ok (res, old, t')" "set_spec t k v res old t'"
    using hash_set_result [OF inv, of 24 alloc k False v] by auto
  then show ?thesis
    using Some map by (cases res) (auto simp: dicey_hashtable_set_def set_spec_def)
qed

text \<open>With memory to spare, storing does not fail before the last table of the list is full.\<close>

lemma hash_new_succeeds: "(\<And>n. alloc n) \<Longrightarrow> p < length primes \<Longrightarrow> \<exists>t. hash_new alloc p 0 = Some t"
  by (simp add: hash_new_def Let_def)

lemma remove_cell:
  assumes inv: "hashtable_inv t" and i: "key_at t i = Some k"
  defines "t' \<equiv> t\<lparr>ht_entries := (ht_entries t)[i := (ht_entries t ! i)\<lparr>te_key := None, te_value := None\<rparr>],
      ht_len := ht_len t - 1\<rparr>"
  shows "hashtable_inv t'" "ht_map t' = (ht_map t)(k := None)"
proof -
  have lt: "i < ht_cap t"
    using key_at_bound [OF i] .
  have at: "key_at t' = (key_at t)(i := None)" "link_at t' = link_at t" "val_at t' = (val_at t)(i := None)"
    using at_update [OF lt] lt by (auto simp: t'_def link_at_def)
  have fields: "ht_buckets t' = ht_buckets t" "ht_free_cur t' = ht_free_cur t" "ht_cap t' = ht_cap t"
    "buckets_no t' = buckets_no t" "\<And>k. home t' k = home t k"
    by (simp_all add: t'_def ht_cap_def buckets_no_def home_def)
  have "keyed t' = keyed t - {i}" "i \<in> keyed t"
    using at(1) i by (auto simp: keyed_def)
  then have len: "ht_len t' = card (keyed t')" "ht_len t' \<le> ht_len t"
    using invD(10) [OF inv] by (simp_all add: t'_def)
  have key: "key_at t j = Some k'" if "key_at t' j = Some k'" for j k'
    using that at(1) by (simp split: if_splits)
  show inv': "hashtable_inv t'"
    unfolding hashtable_inv_def fields at(2)
  proof (intro conjI allI impI)
    show "link_at t j = 0 \<or> j < link_at t j \<and> link_at t j < ht_free_cur t" for j
      by (rule invD(5) [OF inv])
    show "key_at t' j = None" "link_at t j = 0" if "ht_free_cur t \<le> j" for j
      using that at(1) invD(6,7) [OF inv] by simp_all
    show "reaches (link_at t) (home t k') j" if "key_at t' j = Some k'" for j k'
      using invD(8) [OF inv key [OF that]] .
    show "a = j" if "key_at t' a = Some k'" "key_at t' j = Some k'" for a j k'
      using invD(9) [OF inv key [OF that(1)] key [OF that(2)]] .
    show "ht_len t' * 100 < 75 * buckets_no t" if "buckets_no t \<le> 50331653"
      using invD(11) [OF inv that] len(2) by simp
  qed (use invD(1-4) [OF inv] len(1) in simp_all)
  show "ht_map t' = (ht_map t)(k := None)"
  proof
    fix k'
    have keys: "key_at t' j = Some k' \<longleftrightarrow> k' \<noteq> k \<and> key_at t j = Some k'" for j
    proof (cases "j = i")
      case True
      then show ?thesis
        using at(1) i by auto
    next
      case False
      then have "key_at t j \<noteq> Some k"
        using invD(9) [OF inv i] by blast
      with False at(1) show ?thesis
        by auto
    qed
    have vals: "val_at t' j = val_at t j" if "key_at t' j = Some k'" for j
      using that at(1,3) by (cases "j = i") simp_all
    have "ht_map t' k' = Some w \<longleftrightarrow> k' \<noteq> k \<and> ht_map t k' = Some w" for w
      unfolding ht_map_Some [OF inv] ht_map_Some [OF inv'] using keys vals by metis
    then show "ht_map t' k' = ((ht_map t)(k := None)) k'"
      by (metis fun_upd_apply not_Some_eq)
  qed
qed

lemma hashtable_remove_map:
  assumes "table_inv table"
  shows "\<exists>old table'. dicey_hashtable_remove table (Some k) = Ok (old, table') \<and> table_inv table' \<and>
    old = (case table_map table k of None \<Rightarrow> None | Some v \<Rightarrow> v) \<and> table_map table' = (table_map table)(k := None)"
proof -
  obtain found where get: "hash_get_entry table (Some k) = Ok found"
    and r: "case found of
       None \<Rightarrow> table_map table k = None
     | Some i \<Rightarrow> \<exists>t. table = Some t \<and> key_at t i = Some k \<and> table_map table k = Some (te_value (ht_entries t ! i))"
    using get_entry_map [OF assms, of k] by blast
  show ?thesis
  proof (cases found)
    case None
    then have "(table_map table)(k := None) = table_map table"
      using r by auto
    with None get r assms show ?thesis
      by (auto simp: dicey_hashtable_remove_def split: option.splits)
  next
    case (Some i)
    with r obtain t where t: "table = Some t" "key_at t i = Some k" "ht_map t k = Some (te_value (ht_entries t ! i))"
      by auto
    then show ?thesis
      using get Some assms remove_cell [of t i k] by (simp add: dicey_hashtable_remove_def)
  qed
qed

lemma hashtable_size_map:
  assumes "table_inv table"
  shows "dicey_hashtable_size table = card (dom (table_map table))"
proof (cases table)
  case None
  then show ?thesis
    by (simp add: dicey_hashtable_size_def)
next
  case (Some t)
  then have inv: "hashtable_inv t"
    using assms by simp
  have "dom (ht_map t) = (\<lambda>i. the (key_at t i)) ` keyed t"
    using ht_map_None [OF inv] by (force simp: keyed_def dom_def image_iff)
  moreover have "inj_on (\<lambda>i. the (key_at t i)) (keyed t)"
    using invD(9) [OF inv] by (auto simp: inj_on_def keyed_def)
  ultimately have "card (dom (ht_map t)) = card (keyed t)"
    by (simp add: card_image)
  then show ?thesis
    using Some invD(10) [OF inv] by (simp add: dicey_hashtable_size_def)
qed

end
