(* ===== verification/String_Table.thy ===== *)
theory String_Table
  imports Dicey_Hashtable
begin

text \<open>
  The interface of the hash table as its clients (the registry, the traits, the hash set) use it:
  tables from strings to objects, with the laws a provider promises and what follows from them.
\<close>

locale string_table =
  fixes table_ok :: "'t \<Rightarrow> bool"
    and content :: "'t \<Rightarrow> cstring \<Rightarrow> 'v option"
    and lookup :: "'t \<Rightarrow> cstring \<Rightarrow> 'v option result"
    and store :: "'t \<Rightarrow> cstring \<Rightarrow> 'v \<Rightarrow> (dicey_hash_set_result \<times> 't) result"
    and delete :: "'t \<Rightarrow> cstring \<Rightarrow> ('v option \<times> 't) result"
  assumes lookup_content: "table_ok t \<Longrightarrow> lookup t k = Ok (content t k)"
    and store_content: "table_ok t \<Longrightarrow>
      \<exists>res t'. store t k v = Ok (res, t') \<and> table_ok t' \<and>
        (case res of
           DICEY_HASH_SET_FAILED \<Rightarrow> content t' = content t
         | DICEY_HASH_SET_ADDED \<Rightarrow> content t k = None \<and> content t' = (content t)(k \<mapsto> v)
         | DICEY_HASH_SET_UPDATED \<Rightarrow> content t k \<noteq> None \<and> content t' = (content t)(k \<mapsto> v))"
    and delete_content: "table_ok t \<Longrightarrow>
      \<exists>t'. delete t k = Ok (content t k, t') \<and> table_ok t' \<and> content t' = (content t)(k := None)"
begin

lemma store_cases:
  assumes "table_ok t"
  obtains (failed) t' where "store t k v = Ok (DICEY_HASH_SET_FAILED, t')" "table_ok t'" "content t' = content t"
  | (added) t' where "store t k v = Ok (DICEY_HASH_SET_ADDED, t')" "table_ok t'" "content t k = None"
      "content t' = (content t)(k \<mapsto> v)"
  | (updated) t' where "store t k v = Ok (DICEY_HASH_SET_UPDATED, t')" "table_ok t'" "content t k \<noteq> None"
      "content t' = (content t)(k \<mapsto> v)"
proof -
  obtain res t' where "store t k v = Ok (res, t')" "table_ok t'"
    "case res of
       DICEY_HASH_SET_FAILED \<Rightarrow> content t' = content t
     | DICEY_HASH_SET_ADDED \<Rightarrow> content t k = None \<and> content t' = (content t)(k \<mapsto> v)
     | DICEY_HASH_SET_UPDATED \<Rightarrow> content t k \<noteq> None \<and> content t' = (content t)(k \<mapsto> v)"
    using store_content [OF assms, of k v] by blast
  then show thesis
    using failed added updated by (cases res) auto
qed

lemma store_OkD:
  assumes "table_ok t" and "store t k v = Ok (res, t')"
  shows "table_ok t'" "content t' = (if res = DICEY_HASH_SET_FAILED then content t else (content t)(k \<mapsto> v))"
    "res = DICEY_HASH_SET_ADDED \<Longrightarrow> content t k = None" "res = DICEY_HASH_SET_UPDATED \<Longrightarrow> content t k \<noteq> None"
  using store_content [OF assms(1), of k v] assms(2) by (cases res; auto)+

lemma store_defined: "table_ok t \<Longrightarrow> store t k v \<noteq> Undef"
  using store_content [of t k v] by auto

lemma lookup_after_store:
  assumes "table_ok t" and "store t k v = Ok (res, t')" and "res \<noteq> DICEY_HASH_SET_FAILED"
  shows "lookup t' j = Ok (if j = k then Some v else content t j)"
  using store_OkD [OF assms(1,2)] assms(3) lookup_content by simp

lemma store_missing_adds:
  assumes "table_ok t" and "content t k = None" and "store t k v = Ok (res, t')"
  shows "res \<noteq> DICEY_HASH_SET_UPDATED"
  using store_OkD(4) [OF assms(1,3)] assms(2) by auto

lemma delete_OkD:
  assumes "table_ok t" and "delete t k = Ok (old, t')"
  shows "old = content t k" "table_ok t'" "content t' = (content t)(k := None)"
  using delete_content [OF assms(1), of k] assms(2) by auto

lemma lookup_after_delete:
  assumes "table_ok t" and "delete t k = Ok (old, t')"
  shows "lookup t' j = Ok (if j = k then None else content t j)"
  using delete_OkD [OF assms] lookup_content by simp

end

end
