(* ===== verification/Dicey_Hashset.thy ===== *)
theory Dicey_Hashset
  imports Dicey_Hashtable_Facts String_Table
begin

text \<open>
  The hash table as a provider of the interface \<open>string_table\<close>, iteration over a table, and the hash
  set of \<^verbatim>\<open>src/sup/hashset.c\<close>, which is a hash table whose values are one marker.
\<close>

section \<open>Hash tables of objects\<close>

text \<open>The clients store objects, never \<open>NULL\<close>.\<close>

definition objects_ok :: "'v dicey_hashtable option \<Rightarrow> bool" where
  "objects_ok table \<longleftrightarrow> table_inv table \<and> (\<forall>k. table_map table k \<noteq> Some None)"

definition objects :: "'v dicey_hashtable option \<Rightarrow> cstring \<Rightarrow> 'v option" where
  "objects table k = (case table_map table k of Some (Some v) \<Rightarrow> Some v | _ \<Rightarrow> None)"

definition get_object :: "'v dicey_hashtable option \<Rightarrow> cstring \<Rightarrow> 'v option result" where
  "get_object table k = dicey_hashtable_get table (Some k)"

definition set_object ::
  "(nat \<Rightarrow> bool) \<Rightarrow> 'v dicey_hashtable option \<Rightarrow> cstring \<Rightarrow> 'v
     \<Rightarrow> (dicey_hash_set_result \<times> 'v dicey_hashtable option) result"
where
  "set_object alloc table k v =
     and_then (dicey_hashtable_set alloc table k (Some v)) (\<lambda>(res, _, table'). Ok (res, table'))"

definition remove_object ::
  "'v dicey_hashtable option \<Rightarrow> cstring \<Rightarrow> ('v option \<times> 'v dicey_hashtable option) result"
where
  "remove_object table k = dicey_hashtable_remove table (Some k)"

lemma objects_update:
  assumes "table_map table' = (table_map table)(k \<mapsto> Some v)"
  shows "objects table' = (objects table)(k \<mapsto> v)"
  using assms by (auto simp: fun_eq_iff objects_def)

lemma objects_same: "table_map table' = table_map table \<Longrightarrow> objects table' = objects table"
  by (simp add: fun_eq_iff objects_def)

lemma objects_eq_None: "objects_ok table \<Longrightarrow> objects table k = None \<longleftrightarrow> table_map table k = None"
  by (auto simp: objects_ok_def objects_def split: option.splits)

lemma objects_ok_step:
  assumes "objects_ok table" and "table_inv table'"
    and "table_map table' = table_map table \<or> table_map table' = (table_map table)(k \<mapsto> Some v)"
  shows "objects_ok table'"
  unfolding objects_ok_def
proof (intro conjI allI)
  fix j
  show "table_map table' j \<noteq> Some None"
    using assms(1,3) unfolding objects_ok_def by (elim disjE) simp_all
qed (rule assms(2))

lemma set_object_content:
  assumes ok: "objects_ok t"
  shows "\<exists>res t'. set_object alloc t k v = Ok (res, t') \<and> objects_ok t' \<and>
      (case res of
         DICEY_HASH_SET_FAILED \<Rightarrow> objects t' = objects t
       | DICEY_HASH_SET_ADDED \<Rightarrow> objects t k = None \<and> objects t' = (objects t)(k \<mapsto> v)
       | DICEY_HASH_SET_UPDATED \<Rightarrow> objects t k \<noteq> None \<and> objects t' = (objects t)(k \<mapsto> v))"
proof -
  have inv: "table_inv t"
    using ok by (simp add: objects_ok_def)
  obtain res old t' where set: "dicey_hashtable_set alloc t k (Some v) = Ok (res, old, t')" "table_inv t'"
    and r: "case res of
       DICEY_HASH_SET_FAILED \<Rightarrow> old = None \<and> table_map t' = table_map t
     | DICEY_HASH_SET_ADDED \<Rightarrow> old = None \<and> table_map t k = None \<and> table_map t' = (table_map t)(k \<mapsto> Some v)
     | DICEY_HASH_SET_UPDATED \<Rightarrow> table_map t k = Some old \<and> table_map t' = (table_map t)(k \<mapsto> Some v)"
    using hashtable_set_map [OF inv, of alloc k "Some v"] by (elim exE conjE) (rule that)
  have "table_map t' = table_map t \<or> table_map t' = (table_map t)(k \<mapsto> Some v)"
    using r by (cases res) simp_all
  then have ok': "objects_ok t'"
    by (rule objects_ok_step [OF ok set(2)])
  have eq: "set_object alloc t k v = Ok (res, t')"
    using set(1) by (simp add: set_object_def)
  show ?thesis
  proof (intro exI conjI)
    show "set_object alloc t k v = Ok (res, t')"
      by (rule eq)
    show "objects_ok t'"
      by (rule ok')
    show "case res of
         DICEY_HASH_SET_FAILED \<Rightarrow> objects t' = objects t
       | DICEY_HASH_SET_ADDED \<Rightarrow> objects t k = None \<and> objects t' = (objects t)(k \<mapsto> v)
       | DICEY_HASH_SET_UPDATED \<Rightarrow> objects t k \<noteq> None \<and> objects t' = (objects t)(k \<mapsto> v)"
      using r by (cases res) (simp_all add: objects_same [of t' t] objects_update [of t' t k v] objects_eq_None [OF ok] del: not_None_eq)
  qed
qed

lemma remove_object_content:
  assumes ok: "objects_ok t"
  shows "\<exists>t'. remove_object t k = Ok (objects t k, t') \<and> objects_ok t' \<and> objects t' = (objects t)(k := None)"
proof -
  have inv: "table_inv t" and nn: "table_map t j \<noteq> Some None" for j
    using ok by (simp_all add: objects_ok_def)
  obtain old t' where del: "dicey_hashtable_remove t (Some k) = Ok (old, t')" "table_inv t'"
    "old = (case table_map t k of None \<Rightarrow> None | Some v \<Rightarrow> v)" "table_map t' = (table_map t)(k := None)"
    using hashtable_remove_map [OF inv, of k] by (elim exE conjE) (rule that)
  have "objects_ok t'"
    using del(2,4) nn by (simp add: objects_ok_def)
  moreover have "old = objects t k"
    using del(3) nn [of k] by (simp add: objects_def split: option.splits)
  moreover have "objects t' = (objects t)(k := None)"
    using del(4) by (simp add: fun_eq_iff objects_def)
  ultimately show ?thesis
    using del(1) by (simp add: remove_object_def)
qed

interpretation ht: string_table objects_ok objects get_object "set_object alloc" remove_object for alloc
proof
  fix t :: "'a dicey_hashtable option" and k v
  assume ok: "objects_ok t"
  show "get_object t k = Ok (objects t k)"
    using hashtable_get_map [of t k] ok
    by (simp add: get_object_def objects_def objects_ok_def split: option.splits)
qed (rule set_object_content, assumption, rule remove_object_content)

text \<open>Replacing a value needs no memory.\<close>

lemma hash_set_present:
  "hash_get_entry_for_set u k = Ok (Some i, ff, e) \<Longrightarrow>
   hash_set (Suc n) alloc u k owned v =
     Ok (DICEY_HASH_SET_UPDATED, te_value (ht_entries u ! i),
         u\<lparr>ht_entries := (ht_entries u)[i := (ht_entries u ! i)\<lparr>te_value := v\<rparr>]\<rparr>)"
  by simp

lemma set_present_updates:
  assumes "table_inv t" and "k \<in> dom (table_map t)"
  shows "\<exists>old t'. dicey_hashtable_set alloc t k v = Ok (DICEY_HASH_SET_UPDATED, old, t')"
proof -
  obtain u where u: "t = Some u" "hashtable_inv u" "ht_map u k \<noteq> None"
    using assms by (cases t) auto
  obtain found ff e where get: "hash_get_entry_for_set u k = Ok (found, ff, e)"
    and r: "found = None \<Longrightarrow> \<forall>i. key_at u i \<noteq> Some k"
    using get_entry_result [OF u(2), of k] by (elim exE conjE) (rule that, assumption, simp)
  obtain i where "found = Some i"
    using r ht_map_None [OF u(2), of k] u(3) by (cases found) simp_all
  with get have "hash_get_entry_for_set u k = Ok (Some i, ff, e)"
    by simp
  note hash_set_present [OF this, of "length primes - 1" alloc False v]
  moreover have "Suc (length primes - 1) = length primes"
    by (simp add: primes_def)
  ultimately show ?thesis
    using u(1) by (simp add: dicey_hashtable_set_def del: hash_set.simps)
qed

lemma finite_table_map: "table_inv t \<Longrightarrow> finite (dom (table_map t))"
proof (cases t)
  case (Some u)
  have "dom (ht_map u) \<subseteq> (\<lambda>c. the (te_key c)) ` set (ht_entries u)"
    by (force simp: ht_map_def find_Some_iff image_iff in_set_conv_nth)
  with Some show ?thesis
    by (simp add: finite_subset)
qed simp

lemma objects_ok_None [simp]: "objects_ok None" "objects None k = None"
  by (simp_all add: objects_ok_def objects_def)

section \<open>Iteration\<close>

text \<open>The loop \<open>while (dicey_hashtable_iter_next(\<dots>))\<close>, with what it is handed.\<close>

fun iterate_table :: "nat \<Rightarrow> 'v dicey_hashtable option \<Rightarrow> nat option \<Rightarrow> (cstring \<times> 'v option) list" where
  "iterate_table 0 table cur = []"
| "iterate_table (Suc n) table cur =
     (case dicey_hashtable_iter_next table cur of
        (None, cur') \<Rightarrow> []
      | (Some kv, cur') \<Rightarrow> kv # iterate_table n table cur')"

definition cell_pairs :: "'v table_entry list \<Rightarrow> (cstring \<times> 'v option) list" where
  "cell_pairs cells = List.map_filter (\<lambda>c. map_option (\<lambda>k. (k, te_value c)) (te_key c)) cells"

lemma cell_pairs_simps [simp]:
  "cell_pairs [] = []"
  "cell_pairs (c # cells) = (case te_key c of None \<Rightarrow> cell_pairs cells | Some k \<Rightarrow> (k, te_value c) # cell_pairs cells)"
  by (auto simp: cell_pairs_def map_filter_simps split: option.splits)

lemma iter_next_skips:
  assumes "i < ht_cap t" and "te_key (ht_entries t ! i) = None"
  shows "dicey_hashtable_iter_next (Some t) (Some i) = dicey_hashtable_iter_next (Some t) (Some (Suc i))"
  using assms by (simp add: dicey_hashtable_iter_next_def Let_def upt_conv_Cons)

lemma iterate_from:
  assumes "ht_cap t - i < n"
  shows "iterate_table n (Some t) (Some i) = cell_pairs (drop i (ht_entries t))"
  using assms
proof (induction "ht_cap t - i" arbitrary: i n)
  case 0
  then have le: "ht_cap t \<le> i" and n: "n = Suc (n - 1)"
    by simp_all
  show ?case
    by (subst n) (simp add: dicey_hashtable_iter_next_def le, use le in \<open>simp add: ht_cap_def\<close>)
next
  case (Suc d)
  then have lt: "i < ht_cap t"
    by simp
  obtain m where m: "n = Suc m"
    using Suc.prems by (cases n) simp_all
  have drop: "drop i (ht_entries t) = ht_entries t ! i # drop (Suc i) (ht_entries t)"
    using lt by (simp add: Cons_nth_drop_Suc ht_cap_def)
  show ?case
  proof (cases "te_key (ht_entries t ! i)")
    case None
    then have "iterate_table n (Some t) (Some i) = iterate_table n (Some t) (Some (Suc i))"
      using iter_next_skips [OF lt None] m by simp
    also have "\<dots> = cell_pairs (drop (Suc i) (ht_entries t))"
      using Suc.hyps(1) [of "Suc i" n] Suc.hyps(2) Suc.prems by simp
    finally show ?thesis
      using drop None by simp
  next
    case (Some k)
    then have "dicey_hashtable_iter_next (Some t) (Some i) = (Some (k, te_value (ht_entries t ! i)), Some (Suc i))"
      using lt by (simp add: dicey_hashtable_iter_next_def Let_def upt_conv_Cons)
    moreover have "iterate_table m (Some t) (Some (Suc i)) = cell_pairs (drop (Suc i) (ht_entries t))"
      using Suc.hyps(1) [of "Suc i" m] Suc.hyps(2) Suc.prems m by simp
    ultimately show ?thesis
      using drop Some m by simp
  qed
qed

lemma cell_pairs_map:
  assumes "unique_keys cells"
  shows "distinct (map fst (cell_pairs cells)) \<and>
    map_of (cell_pairs cells) = (\<lambda>k. map_option te_value (find (\<lambda>c. te_key c = Some k) cells))"
  using assms
proof (induction cells)
  case (Cons c cells)
  have "k \<notin> fst ` set (cell_pairs cells)" if "te_key c = Some k" for k
    using unique_keys_Cons(2) [OF Cons.prems that] Cons.IH unique_keys_Cons(1) [OF Cons.prems]
    by (metis map_of_eq_None_iff option.map(1))
  then show ?case
    using Cons.IH unique_keys_Cons(1) [OF Cons.prems] by (auto simp: fun_eq_iff split: option.splits)
qed auto

section \<open>Hash sets\<close>

type_synonym dicey_hashset = "unit dicey_hashtable option"

definition dicey_hashset_add :: "(nat \<Rightarrow> bool) \<Rightarrow> dicey_hashset \<Rightarrow> cstring \<Rightarrow> (dicey_hash_set_result \<times> dicey_hashset) result" where
  "dicey_hashset_add alloc s key =
     and_then (dicey_hashtable_set alloc s key (Some ())) (\<lambda>(res, _, s'). Ok (res, s'))"

definition dicey_hashset_contains :: "dicey_hashset \<Rightarrow> cstring \<Rightarrow> bool result" where
  "dicey_hashset_contains s key = dicey_hashtable_contains s (Some key)"

definition dicey_hashset_remove :: "dicey_hashset \<Rightarrow> cstring \<Rightarrow> (bool \<times> dicey_hashset) result" where
  "dicey_hashset_remove s key =
     and_then (dicey_hashtable_remove s (Some key)) (\<lambda>(v, s'). Ok (v \<noteq> None, s'))"

definition dicey_hashset_size :: "dicey_hashset \<Rightarrow> nat" where
  "dicey_hashset_size s = dicey_hashtable_size s"

definition dicey_hashset_iter_start :: "dicey_hashset \<Rightarrow> nat option" where
  "dicey_hashset_iter_start s = dicey_hashtable_iter_start s"

definition dicey_hashset_iter_next :: "dicey_hashset \<Rightarrow> nat option \<Rightarrow> cstring option \<times> nat option" where
  "dicey_hashset_iter_next s cur =
     (case dicey_hashtable_iter_next s cur of (kv, cur') \<Rightarrow> (map_option fst kv, cur'))"

definition dicey_hashset_delete :: "dicey_hashset \<Rightarrow> unit option list" where
  "dicey_hashset_delete s = dicey_hashtable_delete s"

text \<open>The strings in a set.\<close>

definition members :: "dicey_hashset \<Rightarrow> cstring set" where
  "members s = dom (objects s)"

lemma hashset_add_members:
  assumes "objects_ok s"
  shows "\<exists>res s'. dicey_hashset_add alloc s k = Ok (res, s') \<and> objects_ok s' \<and>
    members s' = (if res = DICEY_HASH_SET_FAILED then members s else insert k (members s)) \<and>
    (res = DICEY_HASH_SET_ADDED \<longrightarrow> k \<notin> members s) \<and> (res = DICEY_HASH_SET_UPDATED \<longrightarrow> k \<in> members s)"
proof -
  have eq: "dicey_hashset_add alloc s k = set_object alloc s k ()"
    by (simp add: dicey_hashset_add_def set_object_def)
  obtain res s' where set: "set_object alloc s k () = Ok (res, s')"
    using ht.store_content [OF assms, of alloc k "()"] by blast
  show ?thesis
    using ht.store_OkD [OF assms set] set eq by (auto simp: members_def)
qed

lemma hashset_contains_members:
  assumes "objects_ok s"
  shows "dicey_hashset_contains s k = Ok (k \<in> members s)"
  using hashtable_contains_map [of s k] assms
  by (auto simp: dicey_hashset_contains_def members_def objects_ok_def objects_def split: option.splits)

lemma hashset_remove_members:
  assumes "objects_ok s"
  shows "\<exists>s'. dicey_hashset_remove s k = Ok (k \<in> members s, s') \<and> objects_ok s' \<and> members s' = members s - {k}"
  using ht.delete_content [OF assms, of k]
  by (auto simp: dicey_hashset_remove_def remove_object_def members_def)

end
