(* ===== verification/Table_Properties.thy ===== *)
theory Table_Properties
  imports Dicey_Hashset
begin

text \<open>What the hash table and the hash set promise their clients.\<close>

text \<open>A client's run: each step stores an object under a key (\<open>Some\<close>) or removes the key (\<open>None\<close>).\<close>

fun run_table ::
  "(nat \<Rightarrow> bool) \<Rightarrow> (cstring \<times> 'v option) list \<Rightarrow> 'v dicey_hashtable option \<Rightarrow> 'v dicey_hashtable option result"
where
  "run_table alloc [] t = Ok t"
| "run_table alloc ((k, Some v) # steps) t =
     and_then (set_object alloc t k v) (\<lambda>(_, t'). run_table alloc steps t')"
| "run_table alloc ((k, None) # steps) t =
     and_then (remove_object t k) (\<lambda>(_, t'). run_table alloc steps t')"

lemma run_table_ok:
  assumes "objects_ok t"
  shows "\<exists>t'. run_table alloc steps t = Ok t' \<and> objects_ok t' \<and>
    (\<forall>k v. objects t' k = Some v \<longrightarrow> objects t k = Some v \<or> (k, Some v) \<in> set steps)"
  using assms
proof (induction alloc steps t rule: run_table.induct)
  case (2 alloc k v steps t)
  obtain res t' where set: "set_object alloc t k v = Ok (res, t')"
    using ht.store_content [OF 2(2), of alloc k v] by (elim exE conjE) (rule that)
  note r = ht.store_OkD [OF 2(2) set]
  from 2(1) [OF set refl r(1)] obtain t'' where run: "run_table alloc steps t' = Ok t''" "objects_ok t''"
    "\<forall>j w. objects t'' j = Some w \<longrightarrow> objects t' j = Some w \<or> (j, Some w) \<in> set steps"
    by blast
  have "objects t j = Some w \<or> (j, Some w) \<in> set ((k, Some v) # steps)" if "objects t'' j = Some w" for j w
    using run(3) that r(2) by (auto split: if_splits)
  with run(1,2) set show ?case
    by simp
next
  case (3 alloc k steps t)
  obtain old t' where del: "remove_object t k = Ok (old, t')"
    using ht.delete_content [OF 3(2), of k] by (elim exE conjE) (rule that)
  note r = ht.delete_OkD [OF 3(2) del]
  from 3(1) [OF del refl r(2)] obtain t'' where run: "run_table alloc steps t' = Ok t''" "objects_ok t''"
    "\<forall>j w. objects t'' j = Some w \<longrightarrow> objects t' j = Some w \<or> (j, Some w) \<in> set steps"
    by blast
  have "objects t j = Some w \<or> (j, Some w) \<in> set ((k, None) # steps)" if "objects t'' j = Some w" for j w
    using run(3) that r(3) by (auto split: if_splits)
  with run(1,2) del show ?case
    by simp
qed simp

lemma size_objects: "objects_ok t \<Longrightarrow> dicey_hashtable_size t = card (dom (objects t))"
proof -
  assume ok: "objects_ok t"
  have "dom (table_map t) = dom (objects t)"
    using objects_eq_None [OF ok] by (auto simp: dom_def)
  then show ?thesis
    using ok by (simp add: hashtable_size_map objects_ok_def)
qed

lemma get_objects: "objects_ok t \<Longrightarrow> dicey_hashtable_get t (Some k) = Ok (objects t k)"
  using ht.lookup_content by (simp add: get_object_def)





text \<open>
  C25: the iteration a client runs from \<open>dicey_hashtable_iter_start\<close> ends and hands out every key of
  the table exactly once, with its value; as many pairs as \<open>dicey_hashtable_size\<close> says.
\<close>

theorem table_iteration_is_exact:
  assumes "table_inv t" and "\<And>u. t = Some u \<Longrightarrow> ht_cap u < n"
  shows "distinct (map fst (iterate_table n t (dicey_hashtable_iter_start t))) \<and>
    map_of (iterate_table n t (dicey_hashtable_iter_start t)) = table_map t \<and>
    length (iterate_table n t (dicey_hashtable_iter_start t)) = dicey_hashtable_size t"
proof -
  let ?l = "iterate_table n t (dicey_hashtable_iter_start t)"
  have l: "distinct (map fst ?l) \<and> map_of ?l = table_map t"
  proof (cases t)
    case None
    then show ?thesis
      by (cases n) (auto simp: dicey_hashtable_iter_start_def dicey_hashtable_iter_next_def)
  next
    case (Some u)
    then have "hashtable_inv u" "ht_cap u - 0 < n"
      using assms by auto
    then show ?thesis
      using iterate_from [of u 0 n] cell_pairs_map [OF inv_unique_keys [of u]] Some
      by (simp add: dicey_hashtable_iter_start_def ht_map_def fun_eq_iff)
  qed
  then have "length ?l = card (dom (map_of ?l))"
    by (metis distinct_card dom_map_of_conv_image_fst length_map list.set_map)
  with l show ?thesis
    using hashtable_size_map [OF assms(1)] by simp
qed

theorem table_iteration_is_exact_witness:
  "\<exists>u. hash_new_default (\<lambda>_. True) = Some (u :: nat dicey_hashtable) \<and>
     length (iterate_table (Suc (ht_cap u)) (Some u) (dicey_hashtable_iter_start (Some u))) =
       dicey_hashtable_size (Some u)"
proof -
  obtain u :: "nat dicey_hashtable" where u: "hash_new_default (\<lambda>_. True) = Some u"
    using hash_new_succeeds [of "\<lambda>_. True" 0] by (auto simp: hash_new_default_def primes_def)
  then have "hashtable_inv u"
    using new_table(1) by (auto simp: hash_new_default_def)
  then have "length (iterate_table (Suc (ht_cap u)) (Some u) (dicey_hashtable_iter_start (Some u))) =
      dicey_hashtable_size (Some u)"
    by (intro table_iteration_is_exact [THEN conjunct2, THEN conjunct2]) simp_all
  with u show ?thesis
    by blast
qed

text \<open>
  the hash set behaves as a finite set: after an addition that did not fail the set holds the old
  strings and the new one, the answer tells whether it was there already; after a removal it holds the others,
  and the answer tells whether the string was there.
\<close>

theorem hashset_behaves_as_a_set:
  assumes "objects_ok s"
  shows "(\<exists>res s'. dicey_hashset_add alloc s k = Ok (res, s') \<and> objects_ok s' \<and>
      (\<forall>j. dicey_hashset_contains s' j =
         (if j = k \<and> res \<noteq> DICEY_HASH_SET_FAILED then Ok True else dicey_hashset_contains s j)) \<and>
      (res = DICEY_HASH_SET_UPDATED \<longleftrightarrow> dicey_hashset_contains s k = Ok True)) \<and>
    (\<exists>was s'. dicey_hashset_remove s k = Ok (was, s') \<and> objects_ok s' \<and> dicey_hashset_contains s k = Ok was \<and>
      (\<forall>j. dicey_hashset_contains s' j = (if j = k then Ok False else dicey_hashset_contains s j)))"
proof (rule conjI)
  obtain res s' where add: "dicey_hashset_add alloc s k = Ok (res, s')" "objects_ok s'"
    "members s' = (if res = DICEY_HASH_SET_FAILED then members s else insert k (members s))"
    "res = DICEY_HASH_SET_UPDATED \<longrightarrow> k \<in> members s"
    using hashset_add_members [OF assms, of alloc k] by (elim exE conjE) (rule that)
  have "res = DICEY_HASH_SET_UPDATED" if "k \<in> members s"
  proof -
    have inv: "table_inv s" and dom: "k \<in> dom (table_map s)"
      using assms that objects_eq_None [OF assms, of k] by (auto simp: objects_ok_def members_def)
    show ?thesis
      using set_present_updates [OF inv dom, of alloc "Some ()"] add(1) by (auto simp: dicey_hashset_add_def)
  qed
  with add show "\<exists>res s'. dicey_hashset_add alloc s k = Ok (res, s') \<and> objects_ok s' \<and>
      (\<forall>j. dicey_hashset_contains s' j =
         (if j = k \<and> res \<noteq> DICEY_HASH_SET_FAILED then Ok True else dicey_hashset_contains s j)) \<and>
      (res = DICEY_HASH_SET_UPDATED \<longleftrightarrow> dicey_hashset_contains s k = Ok True)"
    unfolding hashset_contains_members [OF assms]
    by (intro exI [of _ res] exI [of _ s'] conjI) (auto simp: hashset_contains_members)
  obtain s'' where del: "dicey_hashset_remove s k = Ok (k \<in> members s, s'')" "objects_ok s''"
    "members s'' = members s - {k}"
    using hashset_remove_members [OF assms, of k] by (elim exE conjE) (rule that)
  then show "\<exists>was s'. dicey_hashset_remove s k = Ok (was, s') \<and> objects_ok s' \<and>
      dicey_hashset_contains s k = Ok was \<and>
      (\<forall>j. dicey_hashset_contains s' j = (if j = k then Ok False else dicey_hashset_contains s j))"
    unfolding hashset_contains_members [OF assms]
    by (intro exI [of _ "k \<in> members s"] exI [of _ s''] conjI) (auto simp: hashset_contains_members)
qed

theorem hashset_behaves_as_a_set_witness:
  "\<exists>res s'. dicey_hashset_add (\<lambda>_. True) None (cs ''x'') = Ok (res, s') \<and> res \<noteq> DICEY_HASH_SET_UPDATED"
  using hashset_behaves_as_a_set [of None "\<lambda>_. True" "cs ''x''"]
  by (auto simp: hashset_contains_members members_def)

end
