(* ===== verification/Bounded_Fifo.thy ===== *)
theory Bounded_Fifo
  imports Dicey_Errors
begin

text \<open>
  The interface of a bounded first-in first-out queue, as the loops that drain it rely on it, and what
  follows for any run of insertions and removals.
\<close>

datatype 'a queue_op = Push 'a | Pop

text \<open>A run hands back what was accepted and what came out, in order, and the queue it leaves.\<close>

fun run_queue ::
  "('q \<Rightarrow> 'a \<Rightarrow> (bool \<times> 'q) result) \<Rightarrow> ('q \<Rightarrow> ('a option \<times> 'q) result) \<Rightarrow> 'a queue_op list \<Rightarrow> 'q
     \<Rightarrow> ('a list \<times> 'a list \<times> 'q) result"
where
  "run_queue push pop [] q = Ok ([], [], q)"
| "run_queue push pop (Push x # ops) q =
     and_then (push q x) (\<lambda>(taken, q').
     and_then (run_queue push pop ops q') (\<lambda>(ins, outs, q'').
       Ok (if taken then x # ins else ins, outs, q'')))"
| "run_queue push pop (Pop # ops) q =
     and_then (pop q) (\<lambda>(got, q').
     and_then (run_queue push pop ops q') (\<lambda>(ins, outs, q'').
       Ok (ins, (case got of None \<Rightarrow> outs | Some x \<Rightarrow> x # outs), q'')))"

locale bounded_fifo =
  fixes queue_ok :: "'q \<Rightarrow> bool"
    and contents :: "'q \<Rightarrow> 'a list"
    and bound :: nat
    and push :: "'q \<Rightarrow> 'a \<Rightarrow> (bool \<times> 'q) result"
    and pop :: "'q \<Rightarrow> ('a option \<times> 'q) result"
  assumes contents_bound: "queue_ok q \<Longrightarrow> length (contents q) \<le> bound"
    and push_full: "queue_ok q \<Longrightarrow> length (contents q) = bound \<Longrightarrow> push q x = Ok (False, q)"
    and push_room: "queue_ok q \<Longrightarrow> length (contents q) < bound \<Longrightarrow>
      \<exists>q'. push q x = Ok (True, q') \<and> queue_ok q' \<and> contents q' = contents q @ [x]"
    and pop_empty: "queue_ok q \<Longrightarrow> contents q = [] \<Longrightarrow> pop q = Ok (None, q)"
    and pop_first: "queue_ok q \<Longrightarrow> contents q = x # xs \<Longrightarrow>
      \<exists>q'. pop q = Ok (Some x, q') \<and> queue_ok q' \<and> contents q' = xs"
begin

lemma push_cases:
  assumes "queue_ok q"
  obtains (full) "push q x = Ok (False, q)" "length (contents q) = bound"
  | (room) q' where "push q x = Ok (True, q')" "queue_ok q'" "contents q' = contents q @ [x]"
  using push_full [OF assms, of x] push_room [OF assms, of x] contents_bound [OF assms] le_neq_implies_less
  by blast

text \<open>Nothing is lost, duplicated or reordered.\<close>

lemma run_in_order:
  assumes "queue_ok q"
  shows "\<exists>ins outs q'. run_queue push pop ops q = Ok (ins, outs, q') \<and> queue_ok q' \<and>
    outs @ contents q' = contents q @ ins"
  using assms
proof (induction ops arbitrary: q)
  case (Cons op ops)
  show ?case
  proof (cases op)
    case (Push x)
    from Cons.prems show ?thesis
    proof (cases rule: push_cases [of q x])
      case full
      then show ?thesis
        using Cons.IH [OF Cons.prems] Push by auto
    next
      case (room q')
      then show ?thesis
        using Cons.IH [OF room(2)] Push by auto
    qed
  next
    case Pop
    show ?thesis
    proof (cases "contents q")
      case Nil
      then show ?thesis
        using pop_empty [OF Cons.prems Nil] Cons.IH [OF Cons.prems] Pop by auto
    next
      case (Cons x xs)
      then obtain q' where q': "pop q = Ok (Some x, q')" "queue_ok q'" "contents q' = xs"
        using pop_first \<open>queue_ok q\<close> by blast
      show ?thesis
        using Cons.IH [OF q'(2)] q' Cons Pop by auto
    qed
  qed
qed simp

end

end
