(* ===== verification/Dicey_Queue.thy ===== *)
theory Dicey_Queue
  imports Bounded_Fifo
begin

text \<open>
  The queue between threads of \<^verbatim>\<open>src/ipc/queue.c\<close>: a ring of pointers under a mutex, with one
  condition variable for both sides.  What runs under the mutex is one step; a thread that waits on the
  condition gives the mutex up in the middle of a call and takes the call up again when it is woken.
\<close>

definition REQUEST_QUEUE_CAP :: nat where "REQUEST_QUEUE_CAP = 128"

datatype dicey_locking_policy = DICEY_LOCKING_POLICY_BLOCKING | DICEY_LOCKING_POLICY_NONBLOCKING

text \<open>The indices stay within the ring, where \<open>ptrdiff_t\<close> and the naturals agree.\<close>

record 'a dicey_queue =
  q_data :: "'a option list"
  q_head :: nat
  q_tail :: nat

text \<open>The results of \<open>uv_mutex_init\<close> and \<open>uv_cond_init\<close> are handed on when negative.\<close>

definition dicey_queue_init :: "int \<Rightarrow> int \<Rightarrow> int \<times> 'a dicey_queue" where
  "dicey_queue_init mutex_init cond_init =
     (if mutex_init < 0 then mutex_init else if cond_init < 0 then cond_init else 0,
      \<lparr>q_data = replicate REQUEST_QUEUE_CAP None, q_head = 0, q_tail = 0\<rparr>)"

text \<open>A call either returns or waits on the condition variable with the queue as it found it.\<close>

datatype 'r attempt = Returned 'r | Waits

definition dicey_queue_pop ::
  "'a dicey_queue \<Rightarrow> dicey_locking_policy \<Rightarrow> ('a option option) attempt \<times> 'a dicey_queue"
where
  "dicey_queue_pop q policy =
     (if q_head q = q_tail q then
        (if policy = DICEY_LOCKING_POLICY_NONBLOCKING then Returned None else Waits, q)
      else
        (Returned (Some (q_data q ! q_head q)),
         q\<lparr>q_data := (q_data q)[q_head q := None], q_head := (q_head q + 1) mod REQUEST_QUEUE_CAP\<rparr>))"

text \<open>
  \<open>push_check\<close> is the loop of \<open>dicey_queue_push\<close> and what follows it; a waiting producer comes back to it
  with the tail it computed when it entered the call.
\<close>

definition next_tail :: "'a dicey_queue \<Rightarrow> nat" where
  "next_tail q = (q_tail q + 1) mod REQUEST_QUEUE_CAP"

definition push_check ::
  "bool \<Rightarrow> 'a dicey_queue \<Rightarrow> 'a \<Rightarrow> nat \<Rightarrow> dicey_locking_policy \<Rightarrow> (bool attempt \<times> 'a dicey_queue) result"
where
  "push_check ndebug q req new_tail policy =
     (if new_tail = q_head q then
        Ok (if policy = DICEY_LOCKING_POLICY_NONBLOCKING then Returned False else Waits, q)
      else
        c_assert ndebug (q_data q ! q_tail q = None)
          (Ok (Returned True, q\<lparr>q_data := (q_data q)[q_tail q := Some req], q_tail := new_tail\<rparr>)))"

definition dicey_queue_push ::
  "bool \<Rightarrow> 'a dicey_queue \<Rightarrow> 'a \<Rightarrow> dicey_locking_policy \<Rightarrow> (bool attempt \<times> 'a dicey_queue) result"
where
  "dicey_queue_push ndebug q req policy = push_check ndebug q req (next_tail q) policy"

definition dicey_queue_size :: "'a dicey_queue \<Rightarrow> nat" where
  "dicey_queue_size q = nat ((int (q_tail q) - int (q_head q) + int REQUEST_QUEUE_CAP) mod int REQUEST_QUEUE_CAP)"

text \<open>The pointers handed to \<open>free_data\<close> when the queue is torn down; \<open>None\<close> if the walk does not end.\<close>

fun deinit_walk :: "nat \<Rightarrow> 'a dicey_queue \<Rightarrow> nat \<Rightarrow> 'a option list option" where
  "deinit_walk 0 q i = (if i = q_tail q then Some [] else None)"
| "deinit_walk (Suc n) q i =
     (if i = q_tail q then Some []
      else map_option (\<lambda>l. q_data q ! i # l) (deinit_walk n q ((i + 1) mod REQUEST_QUEUE_CAP)))"

definition dicey_queue_deinit :: "'a dicey_queue \<Rightarrow> 'a option list option" where
  "dicey_queue_deinit q = deinit_walk REQUEST_QUEUE_CAP q (q_head q)"

section \<open>The ring as a list\<close>

definition q_len :: "'a dicey_queue \<Rightarrow> nat" where
  "q_len q = (q_tail q + REQUEST_QUEUE_CAP - q_head q) mod REQUEST_QUEUE_CAP"

definition q_cell :: "'a dicey_queue \<Rightarrow> nat \<Rightarrow> 'a option" where
  "q_cell q j = q_data q ! ((q_head q + j) mod REQUEST_QUEUE_CAP)"

definition queue_inv :: "'a dicey_queue \<Rightarrow> bool" where
  "queue_inv q \<longleftrightarrow> length (q_data q) = REQUEST_QUEUE_CAP \<and> q_head q < REQUEST_QUEUE_CAP \<and>
     q_tail q < REQUEST_QUEUE_CAP \<and>
     (\<forall>j < REQUEST_QUEUE_CAP. q_cell q j \<noteq> None \<longleftrightarrow> j < q_len q)"

definition q_list :: "'a dicey_queue \<Rightarrow> 'a list" where
  "q_list q = map (\<lambda>j. the (q_cell q j)) [0..<q_len q]"

lemma cap_pos [simp]: "0 < REQUEST_QUEUE_CAP" "REQUEST_QUEUE_CAP \<noteq> 0"
  by (simp_all add: REQUEST_QUEUE_CAP_def)

lemma q_len_less [simp]: "q_len q < REQUEST_QUEUE_CAP"
  by (simp add: q_len_def)

lemma length_q_list [simp]: "length (q_list q) = q_len q"
  by (simp add: q_list_def)

lemma ring_mod: "a < 2 * REQUEST_QUEUE_CAP \<Longrightarrow>
    a mod REQUEST_QUEUE_CAP = (if a < REQUEST_QUEUE_CAP then a else a - REQUEST_QUEUE_CAP)"
  by (simp add: le_mod_geq)

lemma ring_inj:
  assumes "i < REQUEST_QUEUE_CAP" "j < REQUEST_QUEUE_CAP" "h < REQUEST_QUEUE_CAP"
    and "(h + i) mod REQUEST_QUEUE_CAP = (h + j) mod REQUEST_QUEUE_CAP"
  shows "i = j"
  using assms by (simp add: ring_mod split: if_splits)

lemma queue_invD:
  assumes "queue_inv q"
  shows "length (q_data q) = REQUEST_QUEUE_CAP" "q_head q < REQUEST_QUEUE_CAP" "q_tail q < REQUEST_QUEUE_CAP"
    "\<And>j. j < REQUEST_QUEUE_CAP \<Longrightarrow> q_cell q j \<noteq> None \<longleftrightarrow> j < q_len q"
  using assms unfolding queue_inv_def by blast+

lemma q_len_eq:
  assumes "q_head q < REQUEST_QUEUE_CAP" "q_tail q < REQUEST_QUEUE_CAP"
  shows "q_len q =
    (if q_head q \<le> q_tail q then q_tail q - q_head q else q_tail q + REQUEST_QUEUE_CAP - q_head q)"
  using assms by (simp add: q_len_def ring_mod)

lemma tail_at_len:
  assumes "queue_inv q"
  shows "q_tail q = (q_head q + q_len q) mod REQUEST_QUEUE_CAP"
  using queue_invD(2,3) [OF assms] by (simp add: q_len_eq ring_mod)

lemma next_tail_eq:
  "q_tail q < REQUEST_QUEUE_CAP \<Longrightarrow>
   next_tail q = (if q_tail q = REQUEST_QUEUE_CAP - 1 then 0 else q_tail q + 1)"
  using ring_mod [of "q_tail q + 1"] unfolding next_tail_def by (simp split: if_splits)

lemma full_iff:
  assumes "queue_inv q"
  shows "next_tail q = q_head q \<longleftrightarrow> q_len q = REQUEST_QUEUE_CAP - 1"
  using queue_invD(2,3) [OF assms] by (auto simp: q_len_eq next_tail_eq)

lemma empty_iff:
  assumes "queue_inv q"
  shows "q_head q = q_tail q \<longleftrightarrow> q_len q = 0"
  using queue_invD(2,3) [OF assms] by (auto simp: q_len_eq)

lemma size_is_len:
  assumes "queue_inv q"
  shows "dicey_queue_size q = q_len q"
proof -
  have "int (q_tail q) - int (q_head q) + int REQUEST_QUEUE_CAP = int (q_tail q + REQUEST_QUEUE_CAP - q_head q)"
    using queue_invD(2) [OF assms] by simp
  then show ?thesis
    unfolding dicey_queue_size_def q_len_def by (simp only: nat_int flip: zmod_int)
qed

section \<open>The operations on the list\<close>

lemma push_cells:
  fixes x :: 'a
  assumes inv: "queue_inv q" and room: "next_tail q \<noteq> q_head q"
  defines "q' \<equiv> q\<lparr>q_data := (q_data q)[q_tail q := Some x], q_tail := next_tail q\<rparr>"
  shows "q_len q' = Suc (q_len q)"
    and "j < REQUEST_QUEUE_CAP \<Longrightarrow> q_cell q' j = (if j = q_len q then Some x else q_cell q j)"
    and "queue_inv q'" and "q_list q' = q_list q @ [x]"
proof -
  note d = queue_invD [OF inv]
  have nt: "next_tail q < REQUEST_QUEUE_CAP"
    by (simp add: next_tail_def)
  show len: "q_len q' = Suc (q_len q)"
    using d(2,3) nt room by (auto simp: q'_def q_len_eq next_tail_eq)
  show cell: "q_cell q' j = (if j = q_len q then Some x else q_cell q j)" if "j < REQUEST_QUEUE_CAP" for j
    using that d(1,2) ring_inj [of j "q_len q" "q_head q"]
    by (auto simp: q'_def q_cell_def tail_at_len [OF inv] nth_list_update)
  show "queue_inv q'"
    unfolding queue_inv_def
  proof (intro conjI allI impI)
    fix j
    assume "j < REQUEST_QUEUE_CAP"
    then show "q_cell q' j \<noteq> None \<longleftrightarrow> j < q_len q'"
      using cell [of j] d(4) [of j] len by auto
  qed (use d nt in \<open>auto simp: q'_def\<close>)
  have "the (q_cell q' j) = the (q_cell q j)" if "j < q_len q" for j
    using that cell [of j] q_len_less [of q] less_trans by auto
  then show "q_list q' = q_list q @ [x]"
    using cell [of "q_len q"] by (simp add: q_list_def len)
qed

lemma pop_cells:
  assumes inv: "queue_inv q" and some: "q_head q \<noteq> q_tail q"
  defines "q' \<equiv> q\<lparr>q_data := (q_data q)[q_head q := None], q_head := (q_head q + 1) mod REQUEST_QUEUE_CAP\<rparr>"
  shows "q_len q = Suc (q_len q')"
    and "j < REQUEST_QUEUE_CAP \<Longrightarrow> q_cell q' j = (if j = REQUEST_QUEUE_CAP - 1 then None else q_cell q (Suc j))"
    and "queue_inv q'" and "q_list q = the (q_data q ! q_head q) # q_list q'" and "q_data q ! q_head q \<noteq> None"
proof -
  note d = queue_invD [OF inv]
  have head: "(q_head q + 1) mod REQUEST_QUEUE_CAP = (if q_head q = REQUEST_QUEUE_CAP - 1 then 0 else q_head q + 1)"
    using ring_mod [of "q_head q + 1"] d(2) by (simp split: if_splits)
  then show len: "q_len q = Suc (q_len q')"
    using d(2,3) some by (auto simp: q'_def q_len_eq)
  have shift: "((q_head q + 1) mod REQUEST_QUEUE_CAP + j) mod REQUEST_QUEUE_CAP =
      (q_head q + Suc j) mod REQUEST_QUEUE_CAP" for j
    by (simp add: mod_add_left_eq)
  have first: "q_data q ! q_head q = q_cell q 0"
    using d(2) by (simp add: q_cell_def)
  show cell: "q_cell q' j = (if j = REQUEST_QUEUE_CAP - 1 then None else q_cell q (Suc j))"
    if j: "j < REQUEST_QUEUE_CAP" for j
  proof (cases "j = REQUEST_QUEUE_CAP - 1")
    case True
    then have "(q_head q + Suc j) mod REQUEST_QUEUE_CAP = q_head q"
      using d(2) by simp
    with True show ?thesis
      using shift [of j] d(1,2) by (simp add: q'_def q_cell_def)
  next
    case False
    then have "Suc j < REQUEST_QUEUE_CAP"
      using j by arith
    then have "(q_head q + Suc j) mod REQUEST_QUEUE_CAP \<noteq> q_head q"
      using ring_inj [of "Suc j" 0 "q_head q"] d(2) by auto
    with False show ?thesis
      using shift [of j] by (simp add: q'_def q_cell_def)
  qed
  show "queue_inv q'"
    unfolding queue_inv_def
  proof (intro conjI allI impI)
    fix j
    assume "j < REQUEST_QUEUE_CAP"
    then show "q_cell q' j \<noteq> None \<longleftrightarrow> j < q_len q'"
      using cell [of j] d(4) [of "Suc j"] len q_len_less [of q] by (cases "j = REQUEST_QUEUE_CAP - 1") auto
  qed (use d in \<open>auto simp: q'_def\<close>)
  have "the (q_cell q' j) = the (q_cell q (Suc j))" if "j < q_len q'" for j
    using that cell [of j] len q_len_less [of q] by auto
  then show "q_list q = the (q_data q ! q_head q) # q_list q'"
    by (simp add: q_list_def len first map_upt_Suc del: upt_Suc)
  show "q_data q ! q_head q \<noteq> None"
    using d(4) [of 0] len by (simp add: first)
qed

lemma pop_some:
  assumes "queue_inv q" and "q_len q \<noteq> 0"
  obtains v q' where "dicey_queue_pop q policy = (Returned (Some (Some v)), q')" "queue_inv q'"
    "q_list q = v # q_list q'" "q_tail q' = q_tail q"
proof -
  have some: "q_head q \<noteq> q_tail q"
    using empty_iff [OF assms(1)] assms(2) by simp
  show thesis
    using that pop_cells(3-5) [OF assms(1) some] some by (auto simp: dicey_queue_pop_def)
qed

lemma deinit_walk_cells:
  assumes inv: "queue_inv q" and "j \<le> q_len q" and "q_len q - j \<le> n"
  shows "deinit_walk n q ((q_head q + j) mod REQUEST_QUEUE_CAP) = Some (map (q_cell q) [j..<q_len q])"
  using assms(2,3)
proof (induction "q_len q - j" arbitrary: j n)
  case 0
  then have "(q_head q + j) mod REQUEST_QUEUE_CAP = q_tail q"
    using tail_at_len [OF inv] by simp
  then show ?case
    using 0 by (cases n) simp_all
next
  case (Suc d)
  then obtain m where m: "n = Suc m"
    by (cases n) simp_all
  have "(q_head q + j) mod REQUEST_QUEUE_CAP \<noteq> q_tail q"
    using ring_inj [of j "q_len q" "q_head q"] Suc.hyps(2) queue_invD(2) [OF inv] q_len_less [of q]
    unfolding tail_at_len [OF inv] by fastforce
  moreover have "((q_head q + j) mod REQUEST_QUEUE_CAP + 1) mod REQUEST_QUEUE_CAP = (q_head q + Suc j) mod REQUEST_QUEUE_CAP"
    by (simp add: mod_Suc_eq)
  moreover have "deinit_walk m q ((q_head q + Suc j) mod REQUEST_QUEUE_CAP) = Some (map (q_cell q) [Suc j..<q_len q])"
    using Suc.hyps(1) [of "Suc j" m] Suc.hyps(2) Suc.prems m by simp
  moreover have "[j..<q_len q] = j # [Suc j..<q_len q]"
    using Suc.hyps(2) by (simp add: upt_conv_Cons)
  ultimately show ?case
    by (simp add: m q_cell_def)
qed

lemma deinit_list:
  assumes "queue_inv q"
  shows "dicey_queue_deinit q = Some (map Some (q_list q))"
proof -
  have "q_cell q j = Some (the (q_cell q j))" if "j < q_len q" for j
    using queue_invD(4) [OF assms, of j] that q_len_less [of q] by fastforce
  then have "map (q_cell q) [0..<q_len q] = map Some (q_list q)"
    by (simp add: q_list_def)
  then show ?thesis
    using deinit_walk_cells [OF assms, of 0 REQUEST_QUEUE_CAP] queue_invD(2) [OF assms] q_len_less [of q]
    by (simp add: dicey_queue_deinit_def less_imp_le)
qed

section \<open>The provider\<close>

text \<open>The calls that do not wait.\<close>

definition try_push :: "bool \<Rightarrow> 'a dicey_queue \<Rightarrow> 'a \<Rightarrow> (bool \<times> 'a dicey_queue) result" where
  "try_push ndebug q x =
     and_then (dicey_queue_push ndebug q x DICEY_LOCKING_POLICY_NONBLOCKING) (\<lambda>(r, q').
       case r of Returned taken \<Rightarrow> Ok (taken, q') | Waits \<Rightarrow> Undef)"

definition try_pop :: "'a dicey_queue \<Rightarrow> ('a option \<times> 'a dicey_queue) result" where
  "try_pop q =
     (case dicey_queue_pop q DICEY_LOCKING_POLICY_NONBLOCKING of
        (Returned None, q') \<Rightarrow> Ok (None, q')
      | (Returned (Some v), q') \<Rightarrow> Ok (v, q')
      | (Waits, q') \<Rightarrow> Undef)"

lemma push_check_room:
  assumes "queue_inv q" and "next_tail q \<noteq> q_head q"
  shows "push_check ndebug q x (next_tail q) policy =
    Ok (Returned True, q\<lparr>q_data := (q_data q)[q_tail q := Some x], q_tail := next_tail q\<rparr>)"
proof -
  have "q_data q ! q_tail q = q_cell q (q_len q)"
    by (simp add: q_cell_def flip: tail_at_len [OF assms(1)])
  then have "q_data q ! q_tail q = None"
    using queue_invD(4) [OF assms(1), of "q_len q"] by simp
  with assms(2) show ?thesis
    by (simp add: push_check_def)
qed

interpretation ring: bounded_fifo queue_inv q_list "REQUEST_QUEUE_CAP - 1" "try_push ndebug" try_pop for ndebug
proof
  fix q :: "'a dicey_queue" and x xs
  assume inv: "queue_inv q"
  show "length (q_list q) \<le> REQUEST_QUEUE_CAP - 1"
    using q_len_less [of q] unfolding length_q_list by arith
  show "try_push ndebug q x = Ok (False, q)" if "length (q_list q) = REQUEST_QUEUE_CAP - 1"
    using that full_iff [OF inv] by (simp add: try_push_def dicey_queue_push_def push_check_def)
  show "\<exists>q'. try_push ndebug q x = Ok (True, q') \<and> queue_inv q' \<and> q_list q' = q_list q @ [x]"
    if "length (q_list q) < REQUEST_QUEUE_CAP - 1"
  proof -
    have room: "next_tail q \<noteq> q_head q"
      using that full_iff [OF inv] by simp
    show ?thesis
      using push_check_room [OF inv room] push_cells(3,4) [OF inv room]
      by (simp add: try_push_def dicey_queue_push_def)
  qed
  show "try_pop q = Ok (None, q)" if "q_list q = []"
    using that empty_iff [OF inv] length_q_list [of q] by (simp add: try_pop_def dicey_queue_pop_def)
  show "\<exists>q'. try_pop q = Ok (Some x, q') \<and> queue_inv q' \<and> q_list q' = xs" if "q_list q = x # xs"
  proof -
    have some: "q_head q \<noteq> q_tail q"
      using that empty_iff [OF inv] length_q_list [of q] by auto
    show ?thesis
      using pop_cells(3-5) [OF inv some] that some by (auto simp: try_pop_def dicey_queue_pop_def)
  qed
qed

section \<open>Interleaved producers\<close>

text \<open>
  Any number of threads call \<open>dicey_queue_push\<close> with the blocking policy, as
  \<open>dicey_server_submit_request\<close> and \<open>dicey_task_loop_submit\<close> do, and one loop drains the queue without
  waiting.  A waiting thread can be woken at any time.  \<open>qs_waiting\<close> holds what such a thread keeps on its
  stack, \<open>qs_taken\<close> the requests whose \<open>push\<close> returned, in that order, \<open>qs_drained\<close> those the loop got.
\<close>

record 'a queue_system =
  qs_queue :: "'a dicey_queue"
  qs_waiting :: "nat \<Rightarrow> ('a \<times> nat) option"
  qs_taken :: "'a list"
  qs_drained :: "'a option list"

datatype 'a queue_event = Call nat 'a | Wake nat | Drain

definition after_push ::
  "'a queue_system \<Rightarrow> nat \<Rightarrow> 'a \<Rightarrow> nat \<Rightarrow> bool attempt \<times> 'a dicey_queue \<Rightarrow> 'a queue_system"
where
  "after_push s i x new_tail r =
     (case r of
        (Returned taken, q) \<Rightarrow>
          s\<lparr>qs_queue := q, qs_waiting := (qs_waiting s)(i := None), qs_taken := qs_taken s @ (if taken then [x] else [])\<rparr>
      | (Waits, q) \<Rightarrow> s\<lparr>qs_queue := q, qs_waiting := (qs_waiting s)(i := Some (x, new_tail))\<rparr>)"

text \<open>A thread that waits makes no other call, and one that does not wait is not woken.\<close>

fun queue_step :: "bool \<Rightarrow> 'a queue_system \<Rightarrow> 'a queue_event \<Rightarrow> 'a queue_system result" where
  "queue_step ndebug s (Call i x) =
     (case qs_waiting s i of
        Some _ \<Rightarrow> Ok s
      | None \<Rightarrow>
          and_then (dicey_queue_push ndebug (qs_queue s) x DICEY_LOCKING_POLICY_BLOCKING) (\<lambda>r.
            Ok (after_push s i x (next_tail (qs_queue s)) r)))"
| "queue_step ndebug s (Wake i) =
     (case qs_waiting s i of
        None \<Rightarrow> Ok s
      | Some (x, new_tail) \<Rightarrow>
          and_then (push_check ndebug (qs_queue s) x new_tail DICEY_LOCKING_POLICY_BLOCKING) (\<lambda>r.
            Ok (after_push s i x new_tail r)))"
| "queue_step ndebug s Drain =
     (case dicey_queue_pop (qs_queue s) DICEY_LOCKING_POLICY_NONBLOCKING of
        (Returned (Some v), q) \<Rightarrow> Ok (s\<lparr>qs_queue := q, qs_drained := qs_drained s @ [v]\<rparr>)
      | (_, q) \<Rightarrow> Ok (s\<lparr>qs_queue := q\<rparr>))"

fun queue_steps :: "bool \<Rightarrow> 'a queue_system \<Rightarrow> 'a queue_event list \<Rightarrow> 'a queue_system result" where
  "queue_steps ndebug s [] = Ok s"
| "queue_steps ndebug s (e # es) = and_then (queue_step ndebug s e) (\<lambda>s'. queue_steps ndebug s' es)"

definition queue_system_init :: "'a queue_system" where
  "queue_system_init =
     \<lparr>qs_queue = snd (dicey_queue_init 0 0), qs_waiting = Map.empty, qs_taken = [], qs_drained = []\<rparr>"

text \<open>Events of one producer, number \<open>i\<close>, and of the loop.\<close>

fun event_of :: "nat \<Rightarrow> 'a queue_event \<Rightarrow> bool" where
  "event_of i (Call j x) \<longleftrightarrow> j = i"
| "event_of i (Wake j) \<longleftrightarrow> j = i"
| "event_of i Drain \<longleftrightarrow> True"

text \<open>A lone producer always comes back to the tail it left.\<close>

definition lone_inv :: "nat \<Rightarrow> 'a queue_system \<Rightarrow> bool" where
  "lone_inv i s \<longleftrightarrow> queue_inv (qs_queue s) \<and>
     (\<forall>x nt. qs_waiting s i = Some (x, nt) \<longrightarrow> nt = next_tail (qs_queue s)) \<and>
     map Some (qs_taken s) = qs_drained s @ map Some (q_list (qs_queue s))"

lemma queue_inv_init: "queue_inv (snd (dicey_queue_init a b))" "q_list (snd (dicey_queue_init a b)) = []"
  by (simp_all add: queue_inv_def dicey_queue_init_def q_len_def q_cell_def q_list_def)

lemma lone_init: "lone_inv i queue_system_init"
  by (simp add: lone_inv_def queue_system_init_def queue_inv_init)

lemma lone_push:
  assumes "lone_inv i s"
  shows "\<exists>r. push_check ndebug (qs_queue s) x (next_tail (qs_queue s)) DICEY_LOCKING_POLICY_BLOCKING = Ok r \<and>
    lone_inv i (after_push s i x (next_tail (qs_queue s)) r)"
proof -
  have inv: "queue_inv (qs_queue s)" and seq: "map Some (qs_taken s) = qs_drained s @ map Some (q_list (qs_queue s))"
    using assms by (simp_all add: lone_inv_def)
  show ?thesis
  proof (cases "next_tail (qs_queue s) = q_head (qs_queue s)")
    case True
    then show ?thesis
      using inv seq by (simp add: push_check_def after_push_def lone_inv_def)
  next
    case False
    show ?thesis
      using push_check_room [OF inv False] push_cells(3,4) [OF inv False] seq
      by (simp add: after_push_def lone_inv_def)
  qed
qed

lemma lone_step:
  assumes s: "lone_inv i s" and e: "event_of i e"
  shows "\<exists>s'. queue_step ndebug s e = Ok s' \<and> lone_inv i s'"
proof (cases e)
  case (Call j x)
  then show ?thesis
    using s e lone_push [OF s, of ndebug x]
    by (auto simp: dicey_queue_push_def split: option.splits)
next
  case (Wake j)
  show ?thesis
  proof (cases "qs_waiting s i")
    case (Some w)
    then obtain x where "qs_waiting s i = Some (x, next_tail (qs_queue s))"
      using s by (cases w) (auto simp: lone_inv_def)
    then show ?thesis
      using lone_push [OF s, of ndebug x] Wake e by auto
  qed (use s Wake e in simp)
next
  case Drain
  have inv: "queue_inv (qs_queue s)"
    using s by (simp add: lone_inv_def)
  show ?thesis
  proof (cases "q_head (qs_queue s) = q_tail (qs_queue s)")
    case True
    then show ?thesis
      using s Drain by (simp add: dicey_queue_pop_def lone_inv_def)
  next
    case False
    then show ?thesis
      using s Drain pop_cells(3-5) [OF inv False]
      by (auto simp: dicey_queue_pop_def lone_inv_def next_tail_def)
  qed
qed

lemma lone_run:
  assumes "lone_inv i s" and "list_all (event_of i) es"
  shows "\<exists>s'. queue_steps ndebug s es = Ok s' \<and> lone_inv i s'"
  using assms
proof (induction es arbitrary: s)
  case (Cons e es)
  then show ?case
    using lone_step [of i s e ndebug] by fastforce
qed simp

text \<open>
  Two producers that wait for the same full queue both kept the same tail; the second to be woken writes
  its request where the tail then is and leaves the tail there.
\<close>

definition overwritten :: "'a dicey_queue \<Rightarrow> 'a \<Rightarrow> 'a dicey_queue" where
  "overwritten q b = q\<lparr>q_data := (q_data q)[q_tail q := Some b]\<rparr>"

lemma overwritten_list:
  assumes inv: "queue_inv q"
  shows "q_len (overwritten q b) = q_len q" "q_list (overwritten q b) = q_list q"
proof -
  show len: "q_len (overwritten q b) = q_len q"
    by (simp add: overwritten_def q_len_def)
  have "q_cell (overwritten q b) j = q_cell q j" if "j < q_len q" for j
  proof -
    have "(q_head q + j) mod REQUEST_QUEUE_CAP \<noteq> q_tail q"
      using that ring_inj [of j "q_len q" "q_head q"] queue_invD(2) [OF inv] q_len_less [of q]
      unfolding tail_at_len [OF inv] by (auto intro: less_trans)
    then show ?thesis
      by (simp add: overwritten_def q_cell_def)
  qed
  then show "q_list (overwritten q b) = q_list q"
    by (simp add: q_list_def len)
qed

lemma overwritten_push:
  assumes inv: "queue_inv q" and room: "next_tail q \<noteq> q_head q"
  shows "dicey_queue_push False (overwritten q b) c policy = Undef"
  using room queue_invD(1,3) [OF inv]
  by (simp add: dicey_queue_push_def push_check_def overwritten_def next_tail_def)

end
