(* ===== verification/Queue_Properties.thy ===== *)
theory Queue_Properties
  imports Dicey_Queue
begin

text \<open>What the queue between threads promises, and what it does not.\<close>


text \<open>
  C26: with one producer thread that may wait for room, and the loop that drains, every interleaving and
  every spurious wake-up keeps the order: what the loop got, followed by what is in the queue, is what the calls
  of the producer accepted.
\<close>

theorem lone_producer_is_served_in_order:
  assumes "list_all (event_of i) es"
  shows "\<exists>s. queue_steps ndebug queue_system_init es = Ok s \<and>
    map Some (qs_taken s) = qs_drained s @ map Some (q_list (qs_queue s))"
  using lone_run [OF lone_init assms, of ndebug] by (auto simp: lone_inv_def)

theorem lone_producer_is_served_in_order_witness:
  "\<exists>s. queue_steps False queue_system_init [Call 4 (7::nat), Drain, Wake 4, Call 4 8] = Ok s \<and>
    map Some (qs_taken s) = qs_drained s @ map Some (q_list (qs_queue s))"
  using lone_producer_is_served_in_order [of 4 "[Call 4 (7::nat), Drain, Wake 4, Call 4 8]" False] by simp

text \<open>
  C33: two producers that wait on a full queue lose a request.  Both calls return success, but the tail the
  second one computed before it waited is stale: its request is stored beyond the tail, the loop never gets it,
  and the next push trips the assertion on the free cell.
\<close>

theorem waiting_producers_lose_a_request:
  assumes "queue_inv q" and "dicey_queue_size q = 127"
  shows "\<exists>s. queue_steps ndebug \<lparr>qs_queue = q, qs_waiting = Map.empty, qs_taken = [], qs_drained = []\<rparr>
      [Call 1 a, Call 2 b, Drain, Drain, Wake 1, Wake 2] = Ok s \<and>
    qs_taken s = [a, b] \<and> qs_waiting s = Map.empty \<and>
    q_list (qs_queue s) = drop 2 (q_list q) @ [a] \<and> dicey_queue_push False (qs_queue s) c policy = Undef"
proof -
  let ?nb = DICEY_LOCKING_POLICY_NONBLOCKING
  have len: "q_len q = REQUEST_QUEUE_CAP - 1"
    using size_is_len [OF assms(1)] assms(2) by (simp add: REQUEST_QUEUE_CAP_def)
  then have full: "next_tail q = q_head q"
    using full_iff [OF assms(1)] by simp
  obtain v1 q1 where q1: "dicey_queue_pop q ?nb = (Returned (Some (Some v1)), q1)" "queue_inv q1"
    "q_list q = v1 # q_list q1" "q_tail q1 = q_tail q"
    using pop_some [OF assms(1), of ?nb] len by (auto simp: REQUEST_QUEUE_CAP_def)
  have l1: "q_len q1 = REQUEST_QUEUE_CAP - 2"
    using arg_cong [OF q1(3), of length] len by (simp add: REQUEST_QUEUE_CAP_def)
  obtain v2 q2 where q2: "dicey_queue_pop q1 ?nb = (Returned (Some (Some v2)), q2)" "queue_inv q2"
    "q_list q1 = v2 # q_list q2" "q_tail q2 = q_tail q1"
    using pop_some [OF q1(2), of ?nb] l1 by (auto simp: REQUEST_QUEUE_CAP_def)
  have l2: "q_len q2 = REQUEST_QUEUE_CAP - 3"
    using arg_cong [OF q2(3), of length] l1 by (simp add: REQUEST_QUEUE_CAP_def)
  have n2: "next_tail q2 \<noteq> q_head q2"
    using full_iff [OF q2(2)] l2 by (simp add: REQUEST_QUEUE_CAP_def)
  have stale: "next_tail q2 = q_head q"
    using full q1(4) q2(4) by (simp add: next_tail_def)
  define q3 where "q3 = q2\<lparr>q_data := (q_data q2)[q_tail q2 := Some a], q_tail := next_tail q2\<rparr>"
  note q3 = push_cells [OF q2(2) n2, where x = a, folded q3_def]
  have n3: "next_tail q3 \<noteq> q_head q3"
    using full_iff [OF q3(3)] q3(1) l2 by (simp add: REQUEST_QUEUE_CAP_def)
  have free: "q_data q3 ! q_tail q3 = None"
    using queue_invD(4) [OF q3(3), of "q_len q3"] tail_at_len [OF q3(3)] by (simp add: q_cell_def)
  have t3: "q_tail q3 = q_head q" "q_head q3 = q_head q2"
    using stale by (simp_all add: q3_def)
  have wake1: "push_check ndebug q2 a (q_head q) DICEY_LOCKING_POLICY_BLOCKING = Ok (Returned True, q3)"
    using push_check_room [OF q2(2) n2] stale by (simp add: q3_def)
  have wake2: "push_check ndebug q3 b (q_head q) DICEY_LOCKING_POLICY_BLOCKING = Ok (Returned True, overwritten q3 b)"
    using free n2 stale t3 by (simp add: push_check_def overwritten_def)
  have run: "queue_steps ndebug \<lparr>qs_queue = q, qs_waiting = Map.empty, qs_taken = [], qs_drained = []\<rparr>
      [Call 1 a, Call 2 b, Drain, Drain, Wake 1, Wake 2] =
    Ok \<lparr>qs_queue = overwritten q3 b, qs_waiting = Map.empty, qs_taken = [a, b], qs_drained = [Some v1, Some v2]\<rparr>"
    using full q1(1) q2(1) wake1 wake2
    by (auto simp: dicey_queue_push_def push_check_def after_push_def)
  show ?thesis
    using run overwritten_list(2) [OF q3(3)] overwritten_push [OF q3(3) n3] q3(4) q1(3) q2(3) by simp
qed

text \<open>The queue after 127 pushes of one value.\<close>

definition full_queue :: "nat dicey_queue" where
  "full_queue = \<lparr>q_data = replicate 127 (Some 7) @ [None], q_head = 0, q_tail = 127\<rparr>"

lemma full_queue_inv: "queue_inv full_queue" "dicey_queue_size full_queue = 127"
  by (auto simp: full_queue_def queue_inv_def q_len_def q_cell_def REQUEST_QUEUE_CAP_def dicey_queue_size_def
      nth_append less_Suc_eq)

theorem waiting_producers_lose_a_request_witness:
  "\<exists>s. queue_steps True \<lparr>qs_queue = full_queue, qs_waiting = Map.empty, qs_taken = [], qs_drained = []\<rparr>
      [Call 1 8, Call 2 9, Drain, Drain, Wake 1, Wake 2] = Ok s \<and> qs_taken s = [8, 9] \<and>
    q_list (qs_queue s) = drop 2 (q_list full_queue) @ [8]"
  using waiting_producers_lose_a_request [OF full_queue_inv, of True 8 9] by blast

end
