(* ===== verification/Dicey_Array.thy ===== *)
theory Dicey_Array
  imports Dicey_Errors
begin

text \<open>
  The growable array of \<^verbatim>\<open>src/sup/array.inc\<close> and its instance, the list of tasks that wait for an
  answer, of \<^verbatim>\<open>src/ipc/client/waiting-list.c\<close>.
\<close>

section \<open>Arrays\<close>

text \<open>
  \<open>arr_data\<close> holds the first \<open>len\<close> elements.  The owner's pointer is null, points to the array, or dangles:
  when growing fails the array is freed and the pointer left as it was.
\<close>

record 'a dyn_array =
  arr_data :: "'a list"
  arr_cap :: nat

datatype 'a array_ptr = NullArray | LiveArray 'a | FreedArray

definition ARRAY_BASE_CAP :: nat where "ARRAY_BASE_CAP = 128"

definition sizeof_array :: nat where "sizeof_array = 16"

definition grown_cap :: "nat \<Rightarrow> nat" where
  "grown_cap old_cap = (if old_cap \<noteq> 0 then (old_cap * 3 mod 2 ^ 64) div 2 else ARRAY_BASE_CAP)"

fun array_grow_if_needed ::
  "(nat \<Rightarrow> bool) \<Rightarrow> nat \<Rightarrow> 'a dyn_array array_ptr \<Rightarrow> (bool \<times> 'a dyn_array array_ptr) result"
where
  "array_grow_if_needed alloc elem_size FreedArray = Undef"
| "array_grow_if_needed alloc elem_size NullArray =
     (if alloc (sizeof_array + ARRAY_BASE_CAP * elem_size)
      then Ok (True, LiveArray \<lparr>arr_data = [], arr_cap = ARRAY_BASE_CAP\<rparr>)
      else Ok (False, NullArray))"
| "array_grow_if_needed alloc elem_size (LiveArray l) =
     (if length (arr_data l) < arr_cap l then Ok (True, LiveArray l)
      else if grown_cap (arr_cap l) < arr_cap l then Ok (False, LiveArray l)
      else if alloc ((sizeof_array + grown_cap (arr_cap l) * elem_size) mod 2 ^ 64)
        then Ok (True, LiveArray (l\<lparr>arr_cap := grown_cap (arr_cap l)\<rparr>))
        else Ok (False, FreedArray))"

text \<open>The location handed back is the index of the new element.\<close>

definition array_append ::
  "(nat \<Rightarrow> bool) \<Rightarrow> nat \<Rightarrow> 'a dyn_array array_ptr \<Rightarrow> 'a \<Rightarrow> (nat option \<times> 'a dyn_array array_ptr) result"
where
  "array_append alloc elem_size ptr v =
     and_then (array_grow_if_needed alloc elem_size ptr) (\<lambda>(ok, ptr').
       case (ok, ptr') of
         (True, LiveArray l) \<Rightarrow> Ok (Some (length (arr_data l)), LiveArray (l\<lparr>arr_data := arr_data l @ [v]\<rparr>))
       | _ \<Rightarrow> Ok (None, ptr'))"

text \<open>The elements between \<open>begin\<close> and \<open>end\<close>.\<close>

fun array_elems :: "'a dyn_array array_ptr \<Rightarrow> 'a list result" where
  "array_elems NullArray = Ok []"
| "array_elems (LiveArray l) = Ok (arr_data l)"
| "array_elems FreedArray = Undef"

fun array_clear :: "'a dyn_array array_ptr \<Rightarrow> 'a dyn_array array_ptr result" where
  "array_clear NullArray = Ok NullArray"
| "array_clear (LiveArray l) = Ok (LiveArray (l\<lparr>arr_data := []\<rparr>))"
| "array_clear FreedArray = Undef"

fun array_delete :: "'a dyn_array array_ptr \<Rightarrow> unit result" where
  "array_delete NullArray = Ok ()"
| "array_delete (LiveArray l) = Ok ()"
| "array_delete FreedArray = Undef"

definition remove_at :: "nat \<Rightarrow> 'a list \<Rightarrow> 'a list" where
  "remove_at i xs = take i xs @ drop (Suc i) xs"

fun array_erase_at :: "'a dyn_array array_ptr \<Rightarrow> nat \<Rightarrow> ('a \<times> 'a dyn_array array_ptr) result" where
  "array_erase_at (LiveArray l) i =
     (if i < length (arr_data l)
      then Ok (arr_data l ! i, LiveArray (l\<lparr>arr_data := remove_at i (arr_data l)\<rparr>)) else Undef)"
| "array_erase_at _ i = Undef"

lemma length_remove_at [simp]: "i < length xs \<Longrightarrow> length (remove_at i xs) = length xs - 1"
  by (simp add: remove_at_def)

lemma set_remove_at: "set (remove_at i xs) \<subseteq> set xs"
  by (auto simp: remove_at_def dest: in_set_takeD in_set_dropD)

lemma remove_at_split: "i < length xs \<Longrightarrow> xs = take i xs @ xs ! i # drop (Suc i) xs"
  by (rule id_take_nth_drop)

lemma remove_at_append [simp]: "remove_at (length xs) (xs @ y # ys) = xs @ ys"
  by (simp add: remove_at_def)

lemma distinct_remove_at:
  assumes "distinct (map f xs)" and "i < length xs"
  shows "distinct (map f (remove_at i xs))" "f (xs ! i) \<notin> f ` set (remove_at i xs)"
    "x \<in> set xs \<Longrightarrow> f x \<noteq> f (xs ! i) \<Longrightarrow> x \<in> set (remove_at i xs)"
proof -
  have "distinct (map f (take i xs @ xs ! i # drop (Suc i) xs))"
    using assms remove_at_split by metis
  then show "distinct (map f (remove_at i xs))" "f (xs ! i) \<notin> f ` set (remove_at i xs)"
    unfolding remove_at_def by auto
  show "x \<in> set xs \<Longrightarrow> f x \<noteq> f (xs ! i) \<Longrightarrow> x \<in> set (remove_at i xs)"
    using arg_cong [OF remove_at_split [OF assms(2)], of set] unfolding remove_at_def by auto
qed

section \<open>The waiting list\<close>

record dicey_waiting_task =
  wt_packet_seq :: "32 word"
  wt_task_id :: "64 word"

type_synonym dicey_waiting_list = "dicey_waiting_task dyn_array array_ptr"

definition sizeof_waiting_task :: nat where "sizeof_waiting_task = 16"

definition dicey_waiting_list_append ::
  "(nat \<Rightarrow> bool) \<Rightarrow> dicey_waiting_list \<Rightarrow> dicey_waiting_task \<Rightarrow> (nat option \<times> dicey_waiting_list) result"
where
  "dicey_waiting_list_append alloc ptr task = array_append alloc sizeof_waiting_task ptr task"

text \<open>The first index whose element satisfies a test: the shape of both loops.\<close>

definition first_index :: "('a \<Rightarrow> bool) \<Rightarrow> 'a list \<Rightarrow> nat option" where
  "first_index P xs = (let i = length (takeWhile (\<lambda>x. \<not> P x) xs) in if i < length xs then Some i else None)"

definition dicey_waiting_list_remove_seq ::
  "bool \<Rightarrow> dicey_waiting_list \<Rightarrow> 32 word \<Rightarrow> (64 word option \<times> dicey_waiting_list) result"
where
  "dicey_waiting_list_remove_seq ndebug ptr seq =
     c_assert ndebug (ptr \<noteq> NullArray)
       (and_then (array_elems ptr) (\<lambda>ts.
          case first_index (\<lambda>t. wt_packet_seq t = seq) ts of
            None \<Rightarrow> Ok (None, ptr)
          | Some i \<Rightarrow> and_then (array_erase_at ptr i) (\<lambda>(t, ptr'). Ok (Some (wt_task_id t), ptr'))))"

definition dicey_waiting_list_remove_task ::
  "dicey_waiting_list \<Rightarrow> 64 word \<Rightarrow> (32 word option \<times> dicey_waiting_list) result"
where
  "dicey_waiting_list_remove_task ptr task_id =
     (if ptr = NullArray then Ok (None, ptr)
      else
        and_then (array_elems ptr) (\<lambda>ts.
          case first_index (\<lambda>t. wt_task_id t = task_id) ts of
            None \<Rightarrow> Ok (None, ptr)
          | Some i \<Rightarrow> and_then (array_erase_at ptr i) (\<lambda>(t, ptr'). Ok (Some (wt_packet_seq t), ptr'))))"

lemma first_index_None: "first_index P xs = None \<longleftrightarrow> (\<forall>x \<in> set xs. \<not> P x)"
proof -
  have "length (takeWhile (\<lambda>x. \<not> P x) xs) < length xs \<longleftrightarrow> (\<exists>x \<in> set xs. P x)"
    by (induction xs) auto
  then show ?thesis
    by (auto simp: first_index_def Let_def)
qed

lemma first_index_Some:
  assumes "first_index P xs = Some i"
  shows "i < length xs" "P (xs ! i)" "\<And>j. j < i \<Longrightarrow> \<not> P (xs ! j)"
proof -
  have i: "i = length (takeWhile (\<lambda>x. \<not> P x) xs)" "i < length xs"
    using assms by (auto simp: first_index_def Let_def split: if_splits)
  show "i < length xs" "P (xs ! i)"
    using i nth_length_takeWhile [of "\<lambda>x. \<not> P x" xs] by auto
  show "\<not> P (xs ! j)" if "j < i" for j
    using that i(1) takeWhile_nth [of j "\<lambda>x. \<not> P x" xs] nth_mem [of j "takeWhile (\<lambda>x. \<not> P x) xs"]
      set_takeWhileD by metis
qed

lemma first_index_append:
  "\<forall>y \<in> set pre. \<not> P y \<Longrightarrow> P x \<Longrightarrow> first_index P (pre @ x # post) = Some (length pre)"
  by (simp add: first_index_def Let_def)

text \<open>The waiting tasks, as a map from sequence numbers.\<close>

definition waiting :: "dicey_waiting_task list \<Rightarrow> 32 word \<Rightarrow> 64 word option" where
  "waiting ts = map_of (map (\<lambda>t. (wt_packet_seq t, wt_task_id t)) ts)"

lemma waiting_Nil [simp]: "waiting [] = Map.empty"
  by (simp add: waiting_def)

lemma first_index_split:
  assumes "first_index P xs = Some i"
  obtains pre x post where "xs = pre @ x # post" "i = length pre" "P x" "\<forall>y \<in> set pre. \<not> P y"
proof
  note f = first_index_Some [OF assms]
  show "xs = take i xs @ xs ! i # drop (Suc i) xs" "i = length (take i xs)" "P (xs ! i)"
    using f remove_at_split [OF f(1)] by simp_all
  show "\<forall>y \<in> set (take i xs). \<not> P y"
    using f(1,3) by (auto simp: in_set_conv_nth)
qed

lemma waiting_None: "waiting ts s = None \<longleftrightarrow> s \<notin> wt_packet_seq ` set ts"
  by (simp add: waiting_def map_of_eq_None_iff image_image)

lemma waiting_append: "waiting (ts @ us) = waiting us ++ waiting ts"
  by (simp add: waiting_def)

lemma waiting_Cons: "waiting (t # ts) = (waiting ts)(wt_packet_seq t \<mapsto> wt_task_id t)"
  by (simp add: waiting_def)

lemma remove_seq_waiting:
  "\<exists>l'. dicey_waiting_list_remove_seq ndebug (LiveArray l) seq = Ok (waiting (arr_data l) seq, LiveArray l') \<and>
    arr_cap l' = arr_cap l \<and> length (arr_data l') \<le> length (arr_data l) \<and>
    (distinct (map wt_packet_seq (arr_data l)) \<longrightarrow>
       distinct (map wt_packet_seq (arr_data l')) \<and> waiting (arr_data l') = (waiting (arr_data l))(seq := None))"
proof (cases "first_index (\<lambda>t. wt_packet_seq t = seq) (arr_data l)")
  case None
  then have "waiting (arr_data l) seq = None"
    by (auto simp: first_index_None waiting_None)
  with None show ?thesis
    by (auto simp: dicey_waiting_list_remove_seq_def fun_eq_iff)
next
  case (Some i)
  obtain pre t post where split: "arr_data l = pre @ t # post" "i = length pre" "wt_packet_seq t = seq"
    "\<forall>u \<in> set pre. wt_packet_seq u \<noteq> seq"
    using first_index_split [OF Some] by blast
  have "waiting pre seq = None"
    using split(4) by (auto simp: waiting_None)
  then have found: "waiting (arr_data l) seq = Some (wt_task_id t)"
    using split by (simp add: waiting_append waiting_Cons map_add_def)
  have "waiting (pre @ post) = (waiting (arr_data l))(seq := None)" if "distinct (map wt_packet_seq (arr_data l))"
  proof -
    have "waiting post seq = None"
      using that split by (auto simp: waiting_None)
    with \<open>waiting pre seq = None\<close> show ?thesis
      using split by (auto simp: fun_eq_iff waiting_append waiting_Cons map_add_def split: option.splits)
  qed
  then show ?thesis
    using Some split found
    by (intro exI [of _ "l\<lparr>arr_data := pre @ post\<rparr>"]) (auto simp: dicey_waiting_list_remove_seq_def)
qed

lemma append_waiting:
  assumes "length (arr_data l) < arr_cap l \<or>
      arr_cap l \<le> grown_cap (arr_cap l) \<and> alloc ((sizeof_array + grown_cap (arr_cap l) * sizeof_waiting_task) mod 2 ^ 64)"
  shows "\<exists>l'. dicey_waiting_list_append alloc (LiveArray l) t = Ok (Some (length (arr_data l)), LiveArray l') \<and>
    arr_data l' = arr_data l @ [t]"
  using assms by (auto simp: dicey_waiting_list_append_def array_append_def)

end
