(* ===== verification/Dicey_Task_List.thy ===== *)
theory Dicey_Task_List
  imports Dicey_Array "HOL-Library.Signed_Division"
begin

text \<open>
  The list of pending tasks with their deadlines, \<^verbatim>\<open>src/ipc/tasks/list.c\<close>.  The monotonic clock is a
  parameter: the time \<open>uv_clock_gettime\<close> hands out in a call is an argument of it.
\<close>

section \<open>Deadlines\<close>

text \<open>A \<open>uv_timespec64_t\<close>: seconds and nanoseconds.\<close>

record timespec =
  tv_sec :: int
  tv_nsec :: int

definition to_int32 :: "int \<Rightarrow> int" where
  "to_int32 x = sint (word_of_int x :: 32 word)"

text \<open>The sum modulo a limit, and what the function returns for the carry; division truncates as in C.\<close>

definition add_wrapping :: "int \<Rightarrow> int \<Rightarrow> int \<Rightarrow> int \<times> int" where
  "add_wrapping a b limit =
     (let a_quot = a sdiv limit; a_rem = a smod limit; b_quot = b sdiv limit; b_rem = b smod limit in
      (to_int32 (a_rem + b_rem) smod limit, to_int32 (a_quot + b_quot)))"

definition now_plus :: "timespec \<Rightarrow> int \<Rightarrow> timespec" where
  "now_plus now ms =
     (let nsec = (ms smod 1000) * 1000000;
          (now_nsec, carry) = add_wrapping (tv_nsec now) nsec 1000000000;
          sec = ms sdiv 1000 + carry
      in \<lparr>tv_sec = tv_sec now + sec, tv_nsec = now_nsec\<rparr>)"

definition FOREVER_TIME :: timespec where
  "FOREVER_TIME = \<lparr>tv_sec = 0, tv_nsec = 0\<rparr>"

definition WAIT_FOREVER :: int where "WAIT_FOREVER = -1"

definition is_wait_forever :: "timespec \<Rightarrow> bool" where
  "is_wait_forever ts \<longleftrightarrow> tv_sec ts = 0 \<and> tv_nsec ts = 0"

definition timespec_cmp :: "timespec \<Rightarrow> timespec \<Rightarrow> int" where
  "timespec_cmp a b =
     (let sec_cmp = of_bool (tv_sec a > tv_sec b) - of_bool (tv_sec a < tv_sec b) in
      if sec_cmp \<noteq> 0 then sec_cmp
      else of_bool (tv_nsec a > tv_nsec b) - of_bool (tv_nsec a < tv_nsec b))"

section \<open>The list\<close>

record 'd dicey_task_entry =
  te_id :: int
  te_expires_at :: timespec
  te_data :: 'd

record 'd dicey_task_list =
  tl_next_id :: int
  tl_waiting :: "'d dicey_task_entry list"
  tl_cap :: nat

type_synonym 'd task_list_ptr = "'d dicey_task_list array_ptr"

definition BASE_CAP :: nat where "BASE_CAP = 128"

definition sizeof_task_list :: nat where "sizeof_task_list = 24"

definition sizeof_task_entry :: nat where "sizeof_task_entry = 32"

definition task_list_erase_at :: "'d dicey_task_list \<Rightarrow> nat \<Rightarrow> 'd dicey_task_list" where
  "task_list_erase_at l entry =
     (if entry \<ge> length (tl_waiting l) then l else l\<lparr>tl_waiting := remove_at entry (tl_waiting l)\<rparr>)"

definition task_list_find_index :: "'d dicey_task_list \<Rightarrow> int \<Rightarrow> nat option" where
  "task_list_find_index l tid = first_index (\<lambda>e. te_id e = tid) (tl_waiting l)"

fun task_list_grow_if_needed :: "(nat \<Rightarrow> bool) \<Rightarrow> 'd task_list_ptr \<Rightarrow> (bool \<times> 'd task_list_ptr) result" where
  "task_list_grow_if_needed alloc FreedArray = Undef"
| "task_list_grow_if_needed alloc NullArray =
     (if alloc (sizeof_task_list + BASE_CAP * sizeof_task_entry)
      then Ok (True, LiveArray \<lparr>tl_next_id = 0, tl_waiting = [], tl_cap = BASE_CAP\<rparr>)
      else Ok (False, NullArray))"
| "task_list_grow_if_needed alloc (LiveArray l) =
     (if length (tl_waiting l) > 2 ^ 63 - 1 then Ok (False, LiveArray l)
      else if length (tl_waiting l) < tl_cap l then Ok (True, LiveArray l)
      else
        (let new_cap = (if tl_cap l \<noteq> 0 then (tl_cap l * 3 mod 2 ^ 64) div 2 else BASE_CAP) in
         if new_cap < tl_cap l then Ok (False, LiveArray l)
         else if alloc ((sizeof_task_list + new_cap * sizeof_task_entry) mod 2 ^ 64)
           then Ok (True, LiveArray (l\<lparr>tl_cap := new_cap\<rparr>))
           else Ok (False, FreedArray)))"

text \<open>Signed overflow of the next identifier is undefined.\<close>

definition dicey_task_list_append ::
  "(nat \<Rightarrow> bool) \<Rightarrow> timespec \<Rightarrow> 'd task_list_ptr \<Rightarrow> 'd \<Rightarrow> int \<Rightarrow> (int \<times> 'd task_list_ptr) result"
where
  "dicey_task_list_append alloc now ptr entry_data delay_ms =
     and_then (task_list_grow_if_needed alloc ptr) (\<lambda>(ok, ptr').
       case (ok, ptr') of
         (True, LiveArray l) \<Rightarrow>
           if tl_next_id l = 2 ^ 63 - 1 then Undef
           else
             Ok (tl_next_id l,
                 LiveArray (l\<lparr>tl_next_id := tl_next_id l + 1,
                   tl_waiting := tl_waiting l @
                     [\<lparr>te_id = tl_next_id l,
                       te_expires_at = (if delay_ms = WAIT_FOREVER then FOREVER_TIME else now_plus now delay_ms),
                       te_data = entry_data\<rparr>]\<rparr>))
       | _ \<Rightarrow> Ok (-1, ptr'))"

text \<open>A null list fails the assertion and is dereferenced where assertions are off.\<close>

fun dicey_task_list_erase :: "'d task_list_ptr \<Rightarrow> int \<Rightarrow> (bool \<times> 'd task_list_ptr) result" where
  "dicey_task_list_erase (LiveArray l) tid =
     (case task_list_find_index l tid of
        None \<Rightarrow> Ok (False, LiveArray l)
      | Some index \<Rightarrow> Ok (True, LiveArray (task_list_erase_at l index)))"
| "dicey_task_list_erase _ tid = Undef"

fun dicey_task_list_find :: "'d task_list_ptr \<Rightarrow> int \<Rightarrow> 'd dicey_task_entry option result" where
  "dicey_task_list_find (LiveArray l) tid =
     Ok (map_option (\<lambda>index. tl_waiting l ! index) (task_list_find_index l tid))"
| "dicey_task_list_find _ tid = Undef"

text \<open>
  Pruning.  The callback works on whatever holds the list, here a state \<open>'s\<close> from which the list is read
  (\<open>get\<close>) and into which it is written (\<open>put\<close>): the entry at \<open>index\<close> is erased from the list as the callback
  left it.
\<close>

definition expired :: "timespec \<Rightarrow> 'd dicey_task_entry \<Rightarrow> bool" where
  "expired now e \<longleftrightarrow> \<not> is_wait_forever (te_expires_at e) \<and> timespec_cmp (te_expires_at e) now < 0"

definition dicey_task_list_prune ::
  "('s \<Rightarrow> 'd task_list_ptr) \<Rightarrow> ('d task_list_ptr \<Rightarrow> 's \<Rightarrow> 's) \<Rightarrow> timespec
     \<Rightarrow> (int \<Rightarrow> 'd \<Rightarrow> 's \<Rightarrow> 's result) \<Rightarrow> 's \<Rightarrow> 's result"
where
  "dicey_task_list_prune get put now expired_cb s =
     (case get s of
        NullArray \<Rightarrow> Ok s
      | FreedArray \<Rightarrow> Undef
      | LiveArray l \<Rightarrow>
          (case first_index (expired now) (tl_waiting l) of
             None \<Rightarrow> Ok s
           | Some index \<Rightarrow>
               and_then (expired_cb (te_id (tl_waiting l ! index)) (te_data (tl_waiting l ! index)) s) (\<lambda>s'.
                 case get s' of
                   LiveArray l' \<Rightarrow> Ok (put (LiveArray (task_list_erase_at l' index)) s')
                 | _ \<Rightarrow> Undef)))"

section \<open>What deadlines are\<close>

definition nanos :: "timespec \<Rightarrow> int" where
  "nanos ts = tv_sec ts * 1000000000 + tv_nsec ts"

lemma to_int32_id: "- (2 ^ 31) \<le> x \<Longrightarrow> x < 2 ^ 31 \<Longrightarrow> to_int32 x = x"
  by (simp add: to_int32_def sint_sbintrunc' signed_take_bit_int_eq_self)

lemma timespec_cmp_nanos:
  assumes "0 \<le> tv_nsec a" "tv_nsec a < 1000000000" "0 \<le> tv_nsec b" "tv_nsec b < 1000000000"
  shows "timespec_cmp a b < 0 \<longleftrightarrow> nanos a < nanos b"
  using assms by (auto simp: timespec_cmp_def nanos_def Let_def)

lemma now_plus_eq:
  assumes "0 \<le> tv_nsec now" "tv_nsec now < 1000000000" "0 \<le> ms" "ms < 2 ^ 31"
  shows "now_plus now ms = \<lparr>tv_sec = tv_sec now + ms div 1000,
    tv_nsec = (tv_nsec now + (ms mod 1000) * 1000000) mod 1000000000\<rparr>"
proof -
  have pos: "x sdiv y = x div y" "x smod y = x mod y" if "0 \<le> x" "0 < y" for x y :: int
    using that by (simp_all add: signed_divide_int_def signed_modulo_int_def sgn_if)
  define m where "m = ms mod 1000"
  have m: "0 \<le> m" "m < 1000"
    by (simp_all add: m_def)
  let ?n = "tv_nsec now" and ?s = "tv_nsec now + m * 1000000"
  have s: "0 \<le> ?s" "?s < 2000000000"
    using assms m by simp_all
  have "add_wrapping ?n (m * 1000000) 1000000000 = (?s mod 1000000000, 0)"
    using assms m s pos [of ?s 1000000000]
    by (simp add: add_wrapping_def Let_def pos to_int32_id)
  then show ?thesis
    using assms by (simp add: now_plus_def pos m_def)
qed

text \<open>The carry of the nanoseconds into the seconds is lost.\<close>

lemma now_plus_nanos:
  assumes "0 \<le> tv_nsec now" "tv_nsec now < 1000000000" "0 \<le> ms" "ms < 2 ^ 31"
  shows "nanos (now_plus now ms) =
    nanos now + ms * 1000000 - (if tv_nsec now + (ms mod 1000) * 1000000 \<ge> 1000000000 then 1000000000 else 0)"
proof -
  define m where "m = ms mod 1000"
  have m: "0 \<le> m" "m < 1000" "ms = 1000 * (ms div 1000) + m"
    by (simp_all add: m_def)
  let ?s = "tv_nsec now + m * 1000000"
  have s: "0 \<le> ?s" "?s < 2000000000"
    using assms m by simp_all
  have "?s mod 1000000000 = ?s - (if ?s \<ge> 1000000000 then 1000000000 else 0)"
  proof (cases "?s \<ge> 1000000000")
    case True
    then have "?s mod 1000000000 = (?s - 1000000000) mod 1000000000"
      by (intro mod_pos_geq) simp_all
    also have "\<dots> = ?s - 1000000000"
      using True s by (intro mod_pos_pos_trivial) simp_all
    finally show ?thesis
      using True by simp
  qed (use s in simp)
  then show ?thesis
    using m(3) now_plus_eq [OF assms] by (simp add: nanos_def m_def [symmetric])
qed

end
