(* ===== verification/Dicey_Task_Loop.thy ===== *)
theory Dicey_Task_Loop
  imports Dicey_Task_List Dicey_Queue
begin

text \<open>
  The loop that runs the tasks of a client, \<^verbatim>\<open>src/ipc/tasks/loop.c\<close>: requests arrive through the queue,
  are listed with their deadline, and are run step by step until they end or fail.
\<close>

section \<open>Tasks\<close>

datatype dicey_task_result_kind = DICEY_TASK_CONTINUE | DICEY_TASK_NEXT | DICEY_TASK_ERROR | DICEY_TASK_RETRY

record dicey_task_error =
  terr_error :: dicey_error
  terr_message :: cstring

record dicey_task_result =
  res_kind :: dicey_task_result_kind
  res_error :: "dicey_task_error option"

text \<open>
  The steps of a task are functions of the client: they see the identifier, the input and the client's own
  state \<open>'c\<close>, which they may change, and answer what to do next.  They do not call back into the loop.
\<close>

type_synonym ('c, 'i) do_work = "int \<Rightarrow> 'c \<Rightarrow> 'i option \<Rightarrow> dicey_task_result \<times> 'c"

record ('c, 'i) dicey_task_request =
  tr_work :: "('c, 'i) do_work list"
  tr_timeout_ms :: int

definition sizeof_task_error :: nat where "sizeof_task_error = 4"

text \<open>The message is the formatted one.\<close>

definition dicey_task_error_new :: "(nat \<Rightarrow> bool) \<Rightarrow> dicey_error \<Rightarrow> cstring \<Rightarrow> dicey_task_error option" where
  "dicey_task_error_new alloc err msg =
     (if alloc (sizeof_task_error + length msg + 1) then Some \<lparr>terr_error = err, terr_message = msg\<rparr> else None)"

definition dicey_task_continue :: dicey_task_result where
  "dicey_task_continue = \<lparr>res_kind = DICEY_TASK_CONTINUE, res_error = None\<rparr>"

definition dicey_task_fail_with :: "dicey_task_error option \<Rightarrow> dicey_task_result" where
  "dicey_task_fail_with err = \<lparr>res_kind = DICEY_TASK_ERROR, res_error = err\<rparr>"

definition dicey_task_fail :: "(nat \<Rightarrow> bool) \<Rightarrow> dicey_error \<Rightarrow> cstring \<Rightarrow> dicey_task_result" where
  "dicey_task_fail alloc err msg = dicey_task_fail_with (dicey_task_error_new alloc err msg)"

definition dicey_task_next :: dicey_task_result where
  "dicey_task_next = \<lparr>res_kind = DICEY_TASK_NEXT, res_error = None\<rparr>"

definition dicey_task_retry :: dicey_task_result where
  "dicey_task_retry = \<lparr>res_kind = DICEY_TASK_RETRY, res_error = None\<rparr>"

definition dicey_task_noop :: "('c, 'i) do_work" where
  "dicey_task_noop tid c input = (dicey_task_continue, c)"

section \<open>The loop\<close>

text \<open>
  Requests live on the heap (\<open>loop_tasks\<close>, from addresses); \<open>loop_ended\<close> records the calls of \<open>at_end\<close>:
  identifier, task and error.
\<close>

record ('c, 'i) dicey_task_loop =
  loop_running :: bool
  loop_queue :: "nat dicey_queue"
  loop_pending :: "nat task_list_ptr"
  loop_tasks :: "nat \<Rightarrow> ('c, 'i) dicey_task_request option"
  loop_fresh :: nat
  loop_ended :: "(int \<times> nat \<times> dicey_task_error option) list"
  loop_world :: 'c

definition complete_task ::
  "bool \<Rightarrow> ('c, 'i) dicey_task_loop \<Rightarrow> int \<Rightarrow> nat \<Rightarrow> dicey_task_error option \<Rightarrow> ('c, 'i) dicey_task_loop result"
where
  "complete_task ndebug lp tid task err =
     (case loop_tasks lp task of
        None \<Rightarrow> Undef
      | Some t \<Rightarrow>
          and_then (dicey_task_list_erase (loop_pending lp) tid) (\<lambda>(success, pending).
            c_assert ndebug (success \<or> tid < 0)
              (Ok (lp\<lparr>loop_ended := loop_ended lp @ [(tid, task, err)],
                      loop_tasks := (loop_tasks lp)(task := None), loop_pending := pending\<rparr>))))"

definition fail_task ::
  "bool \<Rightarrow> ('c, 'i) dicey_task_loop \<Rightarrow> int \<Rightarrow> nat \<Rightarrow> dicey_task_error option \<Rightarrow> ('c, 'i) dicey_task_loop result"
where
  "fail_task ndebug lp tid task err =
     c_assert ndebug (err \<noteq> None) (complete_task ndebug lp tid task err)"

definition set_work :: "('c, 'i) dicey_task_loop \<Rightarrow> nat \<Rightarrow> ('c, 'i) do_work list \<Rightarrow> ('c, 'i) dicey_task_loop" where
  "set_work lp task ws =
     lp\<lparr>loop_tasks := (loop_tasks lp)(task := map_option (\<lambda>t. t\<lparr>tr_work := ws\<rparr>) (loop_tasks lp task))\<rparr>"

text \<open>The steps that are left are those of the task; a null one cannot be called.\<close>

fun step_work ::
  "bool \<Rightarrow> ('c, 'i) dicey_task_loop \<Rightarrow> int \<Rightarrow> nat \<Rightarrow> 'i option \<Rightarrow> ('c, 'i) do_work list
     \<Rightarrow> (bool \<times> ('c, 'i) dicey_task_loop) result"
where
  "step_work ndebug lp tid task input [] = Undef"
| "step_work ndebug lp tid task input (w # ws) =
     (case w tid (loop_world lp) input of
        (r, c) \<Rightarrow>
          let lp1 = lp\<lparr>loop_world := c\<rparr> in
          (case res_kind r of
             DICEY_TASK_ERROR \<Rightarrow>
               and_then (fail_task ndebug lp1 tid task (res_error r)) (\<lambda>lp2. Ok (True, lp2))
           | DICEY_TASK_RETRY \<Rightarrow> c_assert ndebug (res_error r = None) (Ok (True, lp1))
           | kind \<Rightarrow>
               c_assert ndebug (res_error r = None)
                 (let lp2 = set_work lp1 task ws in
                  if ws = [] then
                    c_assert ndebug (kind = DICEY_TASK_CONTINUE)
                      (and_then (complete_task ndebug lp2 tid task None) (\<lambda>lp3. Ok (True, lp3)))
                  else if kind = DICEY_TASK_NEXT then step_work ndebug lp2 tid task None ws
                  else Ok (False, lp2))))"

definition step_task ::
  "bool \<Rightarrow> ('c, 'i) dicey_task_loop \<Rightarrow> int \<Rightarrow> nat \<Rightarrow> 'i option \<Rightarrow> (bool \<times> ('c, 'i) dicey_task_loop) result"
where
  "step_task ndebug lp tid task input =
     (case loop_tasks lp task of
        None \<Rightarrow> Undef
      | Some t \<Rightarrow> step_work ndebug lp tid task input (tr_work t))"

definition start_task ::
  "bool \<Rightarrow> ('c, 'i) dicey_task_loop \<Rightarrow> int \<Rightarrow> nat \<Rightarrow> (bool \<times> ('c, 'i) dicey_task_loop) result"
where
  "start_task ndebug lp tid task = step_task ndebug lp tid task None"

definition erase_pending :: "('c, 'i) dicey_task_loop \<Rightarrow> int \<Rightarrow> ('c, 'i) dicey_task_loop result" where
  "erase_pending lp tid =
     and_then (dicey_task_list_erase (loop_pending lp) tid) (\<lambda>(_, pending). Ok (lp\<lparr>loop_pending := pending\<rparr>))"

text \<open>The body of the loop of \<open>process_queue\<close>, for one request.\<close>

definition process_request ::
  "bool \<Rightarrow> (nat \<Rightarrow> bool) \<Rightarrow> timespec \<Rightarrow> ('c, 'i) dicey_task_loop \<Rightarrow> nat \<Rightarrow> ('c, 'i) dicey_task_loop result"
where
  "process_request ndebug alloc now lp req =
     (case loop_tasks lp req of
        None \<Rightarrow> Undef
      | Some t \<Rightarrow>
          and_then (dicey_task_list_append alloc now (loop_pending lp) req (tr_timeout_ms t)) (\<lambda>(tid, pending).
            let lp1 = lp\<lparr>loop_pending := pending\<rparr> in
            if tid \<ge> 0 then
              and_then (start_task ndebug lp1 tid req) (\<lambda>(finished, lp2).
                if finished then erase_pending lp2 tid else Ok lp2)
            else
              fail_task ndebug lp1 (-1) req
                (dicey_task_error_new alloc DICEY_ENOMEM (cs ''failed to add task to pending list''))))"

text \<open>
  The queue holds at most 127 requests and nothing is pushed while it is drained; the clock is read for every
  request.
\<close>

fun process_loop ::
  "nat \<Rightarrow> bool \<Rightarrow> (nat \<Rightarrow> bool) \<Rightarrow> (nat \<Rightarrow> timespec) \<Rightarrow> ('c, 'i) dicey_task_loop \<Rightarrow> ('c, 'i) dicey_task_loop result"
where
  "process_loop 0 ndebug alloc clock lp = Undef"
| "process_loop (Suc n) ndebug alloc clock lp =
     (case dicey_queue_pop (loop_queue lp) DICEY_LOCKING_POLICY_NONBLOCKING of
        (Returned (Some (Some req)), q) \<Rightarrow>
          and_then (process_request ndebug alloc (clock n) (lp\<lparr>loop_queue := q\<rparr>) req) (\<lambda>lp1.
            process_loop n ndebug alloc clock lp1)
      | (Returned (Some None), q) \<Rightarrow> Undef
      | (_, q) \<Rightarrow> Ok (lp\<lparr>loop_queue := q\<rparr>))"

definition process_queue ::
  "bool \<Rightarrow> (nat \<Rightarrow> bool) \<Rightarrow> (nat \<Rightarrow> timespec) \<Rightarrow> ('c, 'i) dicey_task_loop \<Rightarrow> ('c, 'i) dicey_task_loop result"
where
  "process_queue ndebug alloc clock lp = process_loop REQUEST_QUEUE_CAP ndebug alloc clock lp"

definition task_timed_out ::
  "bool \<Rightarrow> (nat \<Rightarrow> bool) \<Rightarrow> int \<Rightarrow> nat \<Rightarrow> ('c, 'i) dicey_task_loop \<Rightarrow> ('c, 'i) dicey_task_loop result"
where
  "task_timed_out ndebug alloc tid task lp =
     fail_task ndebug lp tid task (dicey_task_error_new alloc DICEY_ETIMEDOUT (cs ''task timed out''))"

definition put_pending :: "nat task_list_ptr \<Rightarrow> ('c, 'i) dicey_task_loop \<Rightarrow> ('c, 'i) dicey_task_loop" where
  "put_pending p lp = lp\<lparr>loop_pending := p\<rparr>"

definition check_timeout ::
  "bool \<Rightarrow> (nat \<Rightarrow> bool) \<Rightarrow> timespec \<Rightarrow> ('c, 'i) dicey_task_loop \<Rightarrow> ('c, 'i) dicey_task_loop result"
where
  "check_timeout ndebug alloc now lp =
     dicey_task_list_prune loop_pending put_pending now (task_timed_out ndebug alloc) lp"

definition dicey_task_loop_advance ::
  "bool \<Rightarrow> ('c, 'i) dicey_task_loop \<Rightarrow> int \<Rightarrow> 'i option \<Rightarrow> ('c, 'i) dicey_task_loop result"
where
  "dicey_task_loop_advance ndebug lp tid input =
     and_then (dicey_task_list_find (loop_pending lp) tid) (\<lambda>entry.
       case entry of
         None \<Rightarrow> Ok lp
       | Some e \<Rightarrow>
           and_then (step_task ndebug lp tid (te_data e) input) (\<lambda>(finished, lp1).
             if finished then erase_pending lp1 tid else Ok lp1))"

definition dicey_task_loop_fail_with ::
  "bool \<Rightarrow> ('c, 'i) dicey_task_loop \<Rightarrow> int \<Rightarrow> dicey_task_error option \<Rightarrow> ('c, 'i) dicey_task_loop result"
where
  "dicey_task_loop_fail_with ndebug lp tid err =
     and_then (dicey_task_list_find (loop_pending lp) tid) (\<lambda>entry.
       case entry of
         None \<Rightarrow> Ok lp
       | Some e \<Rightarrow> and_then (fail_task ndebug lp tid (te_data e) err) (\<lambda>lp1. erase_pending lp1 tid))"

definition dicey_task_loop_fail ::
  "bool \<Rightarrow> (nat \<Rightarrow> bool) \<Rightarrow> ('c, 'i) dicey_task_loop \<Rightarrow> int \<Rightarrow> dicey_error \<Rightarrow> cstring \<Rightarrow> ('c, 'i) dicey_task_loop result"
where
  "dicey_task_loop_fail ndebug alloc lp tid err msg =
     dicey_task_loop_fail_with ndebug lp tid (dicey_task_error_new alloc err msg)"

text \<open>A submission may have to wait for room in the queue.\<close>

definition dicey_task_loop_submit ::
  "bool \<Rightarrow> ('c, 'i) dicey_task_loop \<Rightarrow> nat \<Rightarrow> (dicey_error attempt \<times> ('c, 'i) dicey_task_loop) result"
where
  "dicey_task_loop_submit ndebug lp req =
     (if \<not> loop_running lp then Ok (Returned DICEY_EINVAL, lp)
      else
        and_then (dicey_queue_push ndebug (loop_queue lp) req DICEY_LOCKING_POLICY_BLOCKING) (\<lambda>(r, q).
          Ok (case r of Waits \<Rightarrow> Waits | Returned ok \<Rightarrow> Returned (if ok then DICEY_OK else DICEY_ENOMEM),
              lp\<lparr>loop_queue := q\<rparr>)))"

text \<open>
  When the loop stops: the pending tasks are cancelled from the last to the first, the list is freed, and what
  is still in the queue is cancelled with the identifier -1.
\<close>

fun cancel_pending ::
  "bool \<Rightarrow> dicey_task_error option \<Rightarrow> nat \<Rightarrow> ('c, 'i) dicey_task_loop \<Rightarrow> ('c, 'i) dicey_task_loop result"
where
  "cancel_pending ndebug err 0 lp = Ok lp"
| "cancel_pending ndebug err (Suc i) lp =
     (case loop_pending lp of
        LiveArray l \<Rightarrow>
          if i < length (tl_waiting l) then
            and_then (complete_task ndebug lp (te_id (tl_waiting l ! i)) (te_data (tl_waiting l ! i)) err)
              (cancel_pending ndebug err i)
          else Undef
      | _ \<Rightarrow> Undef)"

fun cancel_queued ::
  "bool \<Rightarrow> dicey_task_error option \<Rightarrow> nat option list \<Rightarrow> ('c, 'i) dicey_task_loop \<Rightarrow> ('c, 'i) dicey_task_loop result"
where
  "cancel_queued ndebug err [] lp = Ok lp"
| "cancel_queued ndebug err (None # reqs) lp = Undef"
| "cancel_queued ndebug err (Some req # reqs) lp =
     and_then (complete_task ndebug lp (-1) req err) (cancel_queued ndebug err reqs)"

definition free_pending :: "('c, 'i) dicey_task_loop \<Rightarrow> ('c, 'i) dicey_task_loop" where
  "free_pending lp =
     lp\<lparr>loop_pending := (case loop_pending lp of NullArray \<Rightarrow> NullArray | _ \<Rightarrow> FreedArray)\<rparr>"

definition cancel_all_pending ::
  "bool \<Rightarrow> (nat \<Rightarrow> bool) \<Rightarrow> ('c, 'i) dicey_task_loop \<Rightarrow> ('c, 'i) dicey_task_loop result"
where
  "cancel_all_pending ndebug alloc lp =
     (let err = dicey_task_error_new alloc DICEY_ECANCELLED (cs ''task loop cancelled'') in
      and_then
        (case loop_pending lp of
           NullArray \<Rightarrow> Ok lp
         | FreedArray \<Rightarrow> Undef
         | LiveArray l \<Rightarrow> cancel_pending ndebug err (length (tl_waiting l)) lp) (\<lambda>lp1.
      case dicey_queue_deinit (loop_queue lp1) of
        None \<Rightarrow> Undef
      | Some reqs \<Rightarrow> cancel_queued ndebug err reqs (free_pending lp1)))"

definition dicey_task_loop_start :: "('c, 'i) dicey_task_loop \<Rightarrow> ('c, 'i) dicey_task_loop" where
  "dicey_task_loop_start lp =
     lp\<lparr>loop_running := True, loop_queue := snd (dicey_queue_init 0 0), loop_pending := NullArray\<rparr>"

end
