(* ===== verification/Dicey_Task_Facts.thy ===== *)
theory Dicey_Task_Facts
  imports Dicey_Task_Loop
begin

text \<open>
  An invariant of the task loop and its preservation by every operation of the loop thread: a task is
  queued, pending or ended, never in two of these places and never twice, and only tasks that have not ended are
  still allocated.
\<close>

section \<open>The invariant\<close>

text \<open>Steps keep to their contract: an error comes with a reason, and the last one asks for no next one.\<close>

fun wf_work :: "('c, 'i) do_work list \<Rightarrow> bool" where
  "wf_work [] \<longleftrightarrow> True"
| "wf_work (w # ws) \<longleftrightarrow>
     (\<forall>tid c input.
        (res_kind (fst (w tid c input)) = DICEY_TASK_ERROR \<longleftrightarrow> res_error (fst (w tid c input)) \<noteq> None) \<and>
        (ws = [] \<longrightarrow> res_kind (fst (w tid c input)) \<noteq> DICEY_TASK_NEXT)) \<and>
     wf_work ws"

definition pending_entries :: "('c, 'i) dicey_task_loop \<Rightarrow> nat dicey_task_entry list" where
  "pending_entries lp = (case loop_pending lp of LiveArray l \<Rightarrow> tl_waiting l | _ \<Rightarrow> [])"

definition ended_tasks :: "('c, 'i) dicey_task_loop \<Rightarrow> nat list" where
  "ended_tasks lp = map (\<lambda>(_, task, _). task) (loop_ended lp)"

definition runnable :: "('c, 'i) dicey_task_loop \<Rightarrow> nat \<Rightarrow> bool" where
  "runnable lp a \<longleftrightarrow> (\<exists>t. loop_tasks lp a = Some t \<and> tr_work t \<noteq> [] \<and> wf_work (tr_work t))"

text \<open>\<open>n\<close> bounds the identifiers handed out.\<close>

definition list_inv :: "nat \<Rightarrow> 'd dicey_task_list \<Rightarrow> bool" where
  "list_inv n l \<longleftrightarrow> 0 \<le> tl_next_id l \<and> tl_next_id l \<le> int n \<and> 0 < tl_cap l \<and> tl_cap l \<le> 128 + 2 * n \<and>
     distinct (map te_id (tl_waiting l)) \<and> (\<forall>e \<in> set (tl_waiting l). 0 \<le> te_id e \<and> te_id e < tl_next_id l)"

definition loop_inv :: "nat \<Rightarrow> ('c, 'i) dicey_task_loop \<Rightarrow> bool" where
  "loop_inv n lp \<longleftrightarrow>
     loop_pending lp \<noteq> FreedArray \<and> (\<forall>l. loop_pending lp = LiveArray l \<longrightarrow> list_inv n l) \<and>
     queue_inv (loop_queue lp) \<and>
     distinct (map te_data (pending_entries lp) @ q_list (loop_queue lp) @ ended_tasks lp) \<and>
     list_all (runnable lp) (map te_data (pending_entries lp) @ q_list (loop_queue lp)) \<and>
     list_all (\<lambda>a. loop_tasks lp a = None) (ended_tasks lp) \<and>
     list_all (\<lambda>a. a < loop_fresh lp) (map te_data (pending_entries lp) @ q_list (loop_queue lp) @ ended_tasks lp)"

lemma list_inv_length:
  assumes "list_inv n l"
  shows "length (tl_waiting l) \<le> n"
proof -
  have "te_id ` set (tl_waiting l) \<subseteq> {0..<int n}"
    using assms by (fastforce simp: list_inv_def)
  then have "card (te_id ` set (tl_waiting l)) \<le> n"
    using card_mono [of "{0..<int n}"] by fastforce
  then show ?thesis
    using assms distinct_card [of "map te_id (tl_waiting l)"] by (simp add: list_inv_def)
qed

lemma list_inv_mono: "list_inv n l \<Longrightarrow> n \<le> m \<Longrightarrow> list_inv m l"
  by (auto simp: list_inv_def)

lemma list_inv_erase: "list_inv n l \<Longrightarrow> list_inv n (task_list_erase_at l i)"
  using set_remove_at [of i "tl_waiting l"] distinct_remove_at(1) [of te_id "tl_waiting l" i]
  by (auto simp: list_inv_def task_list_erase_at_def)

lemma loop_inv_mono: "loop_inv n lp \<Longrightarrow> n \<le> m \<Longrightarrow> loop_inv m lp"
  using list_inv_mono by (fastforce simp: loop_inv_def)

lemma loop_invD:
  assumes "loop_inv n lp"
  shows "loop_pending lp \<noteq> FreedArray" "\<And>l. loop_pending lp = LiveArray l \<Longrightarrow> list_inv n l"
    "queue_inv (loop_queue lp)"
    "distinct (map te_data (pending_entries lp) @ q_list (loop_queue lp) @ ended_tasks lp)"
    "list_all (runnable lp) (map te_data (pending_entries lp) @ q_list (loop_queue lp))"
    "list_all (\<lambda>a. loop_tasks lp a = None) (ended_tasks lp)"
    "list_all (\<lambda>a. a < loop_fresh lp) (map te_data (pending_entries lp) @ q_list (loop_queue lp) @ ended_tasks lp)"
  using assms unfolding loop_inv_def by (elim conjE; simp)+

section \<open>Erasing and ending\<close>

lemma inv_erase:
  assumes inv: "loop_inv n lp" and l: "loop_pending lp = LiveArray l"
  shows "loop_inv n (lp\<lparr>loop_pending := LiveArray (task_list_erase_at l i)\<rparr>)" (is "loop_inv n ?lp")
proof (cases "i < length (tl_waiting l)")
  case True
  let ?pre = "take i (tl_waiting l)" and ?post = "drop (Suc i) (tl_waiting l)"
  have p: "pending_entries lp = ?pre @ tl_waiting l ! i # ?post" "pending_entries ?lp = ?pre @ ?post"
    using l True remove_at_split [OF True]
    by (simp_all add: pending_entries_def task_list_erase_at_def remove_at_def)
  note d = loop_invD [OF inv, unfolded p(1)]
  have li: "list_inv n (task_list_erase_at l i)"
    by (rule list_inv_erase [OF d(2) [OF l]])
  have same: "ended_tasks ?lp = ended_tasks lp" "runnable ?lp = runnable lp"
    by (simp_all add: ended_tasks_def runnable_def fun_eq_iff)
  show ?thesis
    unfolding loop_inv_def p(2) same
    using d(3-7) li by simp
next
  case False
  then have "?lp = lp"
    using l by (simp add: task_list_erase_at_def)
  then show ?thesis
    using inv by simp
qed

lemma pending_live:
  assumes "e \<in> set (pending_entries lp)"
  obtains l where "loop_pending lp = LiveArray l" "e \<in> set (tl_waiting l)"
  using assms that by (cases "loop_pending lp") (simp_all add: pending_entries_def)

lemma find_entry:
  assumes "list_inv n l" and "e \<in> set (tl_waiting l)"
  obtains i where "task_list_find_index l (te_id e) = Some i" "i < length (tl_waiting l)" "tl_waiting l ! i = e"
proof -
  have dis: "distinct (map te_id (tl_waiting l))"
    using assms(1) by (simp add: list_inv_def)
  obtain i where i: "task_list_find_index l (te_id e) = Some i"
    using assms(2) first_index_None [of "\<lambda>x. te_id x = te_id e" "tl_waiting l"]
    by (cases "task_list_find_index l (te_id e)") (auto simp: task_list_find_index_def)
  note f = first_index_Some [OF i [unfolded task_list_find_index_def]]
  obtain j where j: "j < length (tl_waiting l)" "tl_waiting l ! j = e"
    using assms(2) by (auto simp: in_set_conv_nth)
  have "i = j"
    using dis f(1,2) j nth_eq_iff_index_eq [OF dis, of i j] by simp
  then show thesis
    using that i f(1) j by blast
qed

lemma complete_pending:
  assumes inv: "loop_inv n lp" and e: "e \<in> set (pending_entries lp)"
  shows "\<exists>lp' l'. complete_task ndebug lp (te_id e) (te_data e) err = Ok lp' \<and> loop_inv n lp' \<and>
    loop_pending lp' = LiveArray l' \<and> loop_queue lp' = loop_queue lp \<and>
    loop_ended lp' = loop_ended lp @ [(te_id e, te_data e, err)]"
proof -
  obtain l where l: "loop_pending lp = LiveArray l" "e \<in> set (tl_waiting l)"
    using pending_live [OF e] .
  note li = loop_invD(2) [OF inv l(1)]
  obtain i where i: "task_list_find_index l (te_id e) = Some i" "i < length (tl_waiting l)" "tl_waiting l ! i = e"
    using find_entry [OF li l(2)] .
  let ?pre = "take i (tl_waiting l)" and ?post = "drop (Suc i) (tl_waiting l)"
  let ?lp = "lp\<lparr>loop_ended := loop_ended lp @ [(te_id e, te_data e, err)],
    loop_tasks := (loop_tasks lp)(te_data e := None), loop_pending := LiveArray (task_list_erase_at l i)\<rparr>"
  have p: "pending_entries lp = ?pre @ e # ?post" "pending_entries ?lp = ?pre @ ?post"
    using l(1) i remove_at_split [OF i(2)]
    by (simp_all add: pending_entries_def task_list_erase_at_def remove_at_def)
  note d = loop_invD [OF inv, unfolded p(1)]
  have alive: "runnable lp (te_data e)"
    using d(5) by simp
  have same: "runnable ?lp a = runnable lp a" if "a \<noteq> te_data e" for a
    using that by (simp add: runnable_def)
  have ended: "ended_tasks ?lp = ended_tasks lp @ [te_data e]"
    by (simp add: ended_tasks_def)
  have away: "te_data e \<notin> set (map te_data (?pre @ ?post) @ q_list (loop_queue lp) @ ended_tasks lp)"
    using d(4) by auto
  have run: "list_all (runnable ?lp) (map te_data (?pre @ ?post) @ q_list (loop_queue lp))"
    unfolding list_all_iff
  proof
    fix a
    assume a: "a \<in> set (map te_data (?pre @ ?post) @ q_list (loop_queue lp))"
    then have "a \<noteq> te_data e"
      using away by auto
    moreover have "runnable lp a"
      using a d(5) by (auto simp: list_all_iff)
    ultimately show "runnable ?lp a"
      using same by simp
  qed
  have gone: "list_all (\<lambda>a. loop_tasks ?lp a = None) (ended_tasks ?lp)"
    using d(6) unfolding ended by (simp add: list_all_iff)
  have "loop_inv n ?lp"
    unfolding loop_inv_def p(2)
    using list_inv_erase [OF li] d(3,4,7) run gone ended by (simp add: list_all_iff)
  moreover have "complete_task ndebug lp (te_id e) (te_data e) err = Ok ?lp"
    using alive l(1) i(1) by (auto simp: complete_task_def runnable_def)
  ultimately show ?thesis
    by (intro exI [of _ ?lp] exI [of _ "task_list_erase_at l i"]) simp
qed

section \<open>Running steps\<close>

lemma inv_world: "loop_inv n lp \<Longrightarrow> loop_inv n (lp\<lparr>loop_world := c\<rparr>)"
  by (simp add: loop_inv_def pending_entries_def ended_tasks_def runnable_def [abs_def])

lemma set_work_same [simp]:
  "loop_pending (set_work lp a ws) = loop_pending lp" "loop_queue (set_work lp a ws) = loop_queue lp"
  "loop_ended (set_work lp a ws) = loop_ended lp" "pending_entries (set_work lp a ws) = pending_entries lp"
  "ended_tasks (set_work lp a ws) = ended_tasks lp" "loop_fresh (set_work lp a ws) = loop_fresh lp"
  by (simp_all add: set_work_def pending_entries_def ended_tasks_def)

lemma inv_set_work:
  assumes inv: "loop_inv n lp" and ws: "ws \<noteq> []" "wf_work ws"
  shows "loop_inv n (set_work lp a ws)"
proof -
  note d = loop_invD [OF inv]
  have "runnable lp b \<Longrightarrow> runnable (set_work lp a ws) b" for b
    using ws by (auto simp: runnable_def set_work_def)
  then have "list_all (runnable (set_work lp a ws)) (map te_data (pending_entries lp) @ q_list (loop_queue lp))"
    using d(5) by (auto simp: list_all_iff)
  moreover have "list_all (\<lambda>b. loop_tasks (set_work lp a ws) b = None) (ended_tasks lp)"
    using d(6) by (auto simp: list_all_iff set_work_def)
  ultimately show ?thesis
    unfolding loop_inv_def set_work_same using d by simp
qed

text \<open>The invariant need not hold of the work of a task that is about to end.\<close>

lemma complete_after_set_work:
  "complete_task ndebug (set_work lp a ws) tid a err = complete_task ndebug lp tid a err"
  by (cases "loop_tasks lp a") (simp_all add: complete_task_def set_work_def)

lemma fail_pending:
  assumes "loop_inv n lp" and "e \<in> set (pending_entries lp)"
  shows "\<exists>lp' l'. fail_task ndebug lp (te_id e) (te_data e) (Some err) = Ok lp' \<and> loop_inv n lp' \<and>
    loop_pending lp' = LiveArray l' \<and> loop_queue lp' = loop_queue lp \<and>
    loop_ended lp' = loop_ended lp @ [(te_id e, te_data e, Some err)]"
  using complete_pending [OF assms] by (simp add: fail_task_def)

lemma step_work_ok:
  assumes "loop_inv n lp" and "e \<in> set (pending_entries lp)" and "ws \<noteq> []" and "wf_work ws"
  shows "\<exists>finished lp' l'. step_work ndebug lp (te_id e) (te_data e) input ws = Ok (finished, lp') \<and>
    loop_inv n lp' \<and> loop_pending lp' = LiveArray l' \<and> loop_queue lp' = loop_queue lp"
  using assms
proof (induction ws arbitrary: lp input)
  case (Cons w ws)
  obtain r c where r: "w (te_id e) (loop_world lp) input = (r, c)"
    by (cases "w (te_id e) (loop_world lp) input")
  let ?lp = "lp\<lparr>loop_world := c\<rparr>"
  have inv: "loop_inv n ?lp" and e: "e \<in> set (pending_entries ?lp)"
    using inv_world [OF Cons.prems(1)] Cons.prems(2) by (simp_all add: pending_entries_def)
  obtain l where l: "loop_pending lp = LiveArray l"
    using pending_live [OF Cons.prems(2)] .
  have wf: "res_kind r = DICEY_TASK_ERROR \<longleftrightarrow> res_error r \<noteq> None" "ws = [] \<Longrightarrow> res_kind r \<noteq> DICEY_TASK_NEXT" "wf_work ws"
    using Cons.prems(4) r by (auto dest!: spec [of _ "te_id e"] spec [of _ "loop_world lp"] spec [of _ input])
  have set_inv: "loop_inv n (set_work ?lp (te_data e) ws)" "e \<in> set (pending_entries (set_work ?lp (te_data e) ws))"
    if "ws \<noteq> []"
    using inv_set_work [OF inv that wf(3)] e by simp_all
  obtain lp' l' where fin: "complete_task ndebug ?lp (te_id e) (te_data e) None = Ok lp'" "loop_inv n lp'"
    "loop_pending lp' = LiveArray l'" "loop_queue lp' = loop_queue ?lp"
    using complete_pending [OF inv e] by blast
  show ?case
  proof (cases "res_kind r")
    case DICEY_TASK_CONTINUE
    then show ?thesis
      using r wf set_inv fin l by (cases "ws = []") (auto simp: Let_def complete_after_set_work)
  next
    case DICEY_TASK_NEXT
    then have "ws \<noteq> []"
      using wf(2) by blast
    then show ?thesis
      using r wf DICEY_TASK_NEXT Cons.IH [OF set_inv, of None] by (simp add: Let_def)
  next
    case DICEY_TASK_ERROR
    then obtain err where "res_error r = Some err"
      using wf(1) by auto
    then show ?thesis
      using r DICEY_TASK_ERROR fail_pending [OF inv e, of ndebug err] by (auto simp: Let_def)
  next
    case DICEY_TASK_RETRY
    then show ?thesis
      using r wf inv l by (auto simp: Let_def)
  qed
qed simp

lemma step_task_ok:
  assumes inv: "loop_inv n lp" and e: "e \<in> set (pending_entries lp)"
  shows "\<exists>finished lp' l'. step_task ndebug lp (te_id e) (te_data e) input = Ok (finished, lp') \<and>
    loop_inv n lp' \<and> loop_pending lp' = LiveArray l' \<and> loop_queue lp' = loop_queue lp"
proof -
  obtain t where "loop_tasks lp (te_data e) = Some t" "tr_work t \<noteq> []" "wf_work (tr_work t)"
    using loop_invD(5) [OF inv] e by (auto simp: list_all_iff runnable_def)
  then show ?thesis
    using step_work_ok [OF inv e] by (simp add: step_task_def)
qed

lemma erase_pending_ok:
  assumes inv: "loop_inv n lp" and l: "loop_pending lp = LiveArray l"
  shows "\<exists>lp' l'. erase_pending lp tid = Ok lp' \<and> loop_inv n lp' \<and> loop_pending lp' = LiveArray l' \<and>
    loop_queue lp' = loop_queue lp"
proof (cases "task_list_find_index l tid")
  case None
  then have "erase_pending lp tid = Ok lp"
    using l by (simp add: erase_pending_def)
  then show ?thesis
    using assms by simp
next
  case (Some i)
  then show ?thesis
    using inv_erase [OF assms, of i] l by (simp add: erase_pending_def)
qed

text \<open>A step followed by the erasure of the task if it finished.\<close>

lemma step_and_erase_ok:
  assumes inv: "loop_inv n lp" and e: "e \<in> set (pending_entries lp)"
  shows "\<exists>lp'. and_then (step_task ndebug lp (te_id e) (te_data e) input) (\<lambda>(finished, lp1).
      if finished then erase_pending lp1 (te_id e) else Ok lp1) = Ok lp' \<and>
    loop_inv n lp' \<and> loop_pending lp' \<noteq> NullArray \<and> loop_queue lp' = loop_queue lp"
proof -
  obtain finished lp1 l1 where step: "step_task ndebug lp (te_id e) (te_data e) input = Ok (finished, lp1)"
    "loop_inv n lp1" "loop_pending lp1 = LiveArray l1" "loop_queue lp1 = loop_queue lp"
    using step_task_ok [OF assms] by blast
  show ?thesis
    using erase_pending_ok [OF step(2,3), of "te_id e"] step by (cases finished) auto
qed

section \<open>The operations of the loop\<close>

lemma find_pending:
  assumes "loop_pending lp = LiveArray l"
  shows "dicey_task_list_find (loop_pending lp) tid = Ok None \<or>
    (\<exists>e. dicey_task_list_find (loop_pending lp) tid = Ok (Some e) \<and> e \<in> set (pending_entries lp) \<and> te_id e = tid)"
proof (cases "task_list_find_index l tid")
  case (Some i)
  then show ?thesis
    using assms first_index_Some(1,2) [OF Some [unfolded task_list_find_index_def]]
    by (simp add: pending_entries_def)
qed (use assms in simp)

lemma advance_ok:
  assumes inv: "loop_inv n lp" and l: "loop_pending lp = LiveArray l"
  shows "\<exists>lp'. dicey_task_loop_advance ndebug lp tid input = Ok lp' \<and> loop_inv n lp'"
  using find_pending [OF l, of tid]
proof (elim disjE exE conjE)
  fix e
  assume e: "dicey_task_list_find (loop_pending lp) tid = Ok (Some e)" "e \<in> set (pending_entries lp)" "te_id e = tid"
  show ?thesis
    using step_and_erase_ok [OF inv e(2), of ndebug input] e by (auto simp: dicey_task_loop_advance_def)
qed (use inv in \<open>simp add: dicey_task_loop_advance_def\<close>)

lemma fail_with_ok:
  assumes inv: "loop_inv n lp" and l: "loop_pending lp = LiveArray l"
  shows "\<exists>lp'. dicey_task_loop_fail_with ndebug lp tid (Some err) = Ok lp' \<and> loop_inv n lp'"
  using find_pending [OF l, of tid]
proof (elim disjE exE conjE)
  fix e
  assume e: "dicey_task_list_find (loop_pending lp) tid = Ok (Some e)" "e \<in> set (pending_entries lp)" "te_id e = tid"
  obtain lp1 l1 where lp1: "fail_task ndebug lp tid (te_data e) (Some err) = Ok lp1" "loop_inv n lp1"
    "loop_pending lp1 = LiveArray l1"
    using fail_pending [OF inv e(2), of ndebug err] e(3) by blast
  show ?thesis
    using erase_pending_ok [OF lp1(2,3), of tid] lp1(1) e(1) by (auto simp: dicey_task_loop_fail_with_def)
qed (use inv in \<open>simp add: dicey_task_loop_fail_with_def\<close>)

lemma timeout_ok:
  assumes inv: "loop_inv n lp"
  shows "\<exists>lp'. check_timeout ndebug (\<lambda>_. True) now lp = Ok lp' \<and> loop_inv n lp'"
proof (cases "loop_pending lp")
  case (LiveArray l)
  show ?thesis
  proof (cases "first_index (expired now) (tl_waiting l)")
    case None
    then show ?thesis
      using inv LiveArray by (simp add: check_timeout_def dicey_task_list_prune_def)
  next
    case (Some i)
    have e: "tl_waiting l ! i \<in> set (pending_entries lp)"
      using first_index_Some(1) [OF Some] LiveArray by (simp add: pending_entries_def)
    obtain err where err: "dicey_task_error_new (\<lambda>_. True) DICEY_ETIMEDOUT (cs ''task timed out'') = Some err"
      by (simp add: dicey_task_error_new_def)
    obtain lp1 l1 where lp1: "fail_task ndebug lp (te_id (tl_waiting l ! i)) (te_data (tl_waiting l ! i)) (Some err) = Ok lp1"
      "loop_inv n lp1" "loop_pending lp1 = LiveArray l1"
      using fail_pending [OF inv e, of ndebug err] by blast
    show ?thesis
      using inv_erase [OF lp1(2,3), of i] lp1 Some LiveArray err
      by (simp add: check_timeout_def dicey_task_list_prune_def task_timed_out_def put_pending_def)
  qed
qed (use inv loop_invD(1) [OF inv] in \<open>simp_all add: check_timeout_def dicey_task_list_prune_def\<close>)

lemma grow_ok:
  assumes ptr: "ptr \<noteq> FreedArray" "\<And>l. ptr = LiveArray l \<Longrightarrow> list_inv n l" and n: "n < 2 ^ 60"
  shows "\<exists>l'. task_list_grow_if_needed (\<lambda>_. True) ptr = Ok (True, LiveArray l') \<and> list_inv n l' \<and>
    tl_waiting l' = (case ptr of LiveArray l \<Rightarrow> tl_waiting l | _ \<Rightarrow> [])"
proof (cases ptr)
  case (LiveArray l)
  note li = ptr(2) [OF LiveArray]
  note len = list_inv_length [OF li]
  show ?thesis
  proof (cases "length (tl_waiting l) < tl_cap l")
    case True
    then show ?thesis
      using len n li LiveArray by simp
  next
    case False
    then have cap: "0 < tl_cap l" "tl_cap l \<le> n"
      using len li by (simp_all add: list_inv_def)
    then have "tl_cap l * 3 mod 2 ^ 64 = tl_cap l * 3"
      using n by (intro mod_less) simp
    moreover have "tl_cap l \<le> tl_cap l * 3 div 2" "tl_cap l * 3 div 2 \<le> 128 + 2 * n"
      using cap by linarith+
    ultimately show ?thesis
      using False len n li cap LiveArray by (simp add: Let_def list_inv_def)
  qed
qed (use ptr in \<open>simp_all add: list_inv_def BASE_CAP_def\<close>)

lemma append_ok:
  assumes inv: "loop_inv n lp" and n: "n < 2 ^ 60"
    and req: "runnable lp req" "req < loop_fresh lp"
      "req \<notin> set (map te_data (pending_entries lp) @ q_list (loop_queue lp) @ ended_tasks lp)"
  shows "\<exists>l' e. dicey_task_list_append (\<lambda>_. True) now (loop_pending lp) req delay = Ok (te_id e, LiveArray l') \<and>
    loop_inv (Suc n) (lp\<lparr>loop_pending := LiveArray l'\<rparr>) \<and> e \<in> set (tl_waiting l') \<and> te_data e = req \<and> 0 \<le> te_id e"
proof -
  obtain l where l: "task_list_grow_if_needed (\<lambda>_. True) (loop_pending lp) = Ok (True, LiveArray l)" "list_inv n l"
    "tl_waiting l = pending_entries lp"
    using grow_ok [OF loop_invD(1) [OF inv] loop_invD(2) [OF inv] n] by (auto simp: pending_entries_def)
  define e where "e = \<lparr>te_id = tl_next_id l,
    te_expires_at = (if delay = WAIT_FOREVER then FOREVER_TIME else now_plus now delay), te_data = req\<rparr>"
  let ?l = "l\<lparr>tl_next_id := tl_next_id l + 1, tl_waiting := tl_waiting l @ [e]\<rparr>"
  let ?lp = "lp\<lparr>loop_pending := LiveArray ?l\<rparr>"
  note d = loop_invD [OF inv]
  have "tl_next_id l \<le> int n" "int n < int (2 ^ 60)"
    using l(2) n by (simp_all only: list_inv_def of_nat_less_iff)
  then have below: "tl_next_id l \<noteq> 2 ^ 63 - 1"
    by simp
  have li: "list_inv (Suc n) ?l"
    using l(2) by (fastforce simp: list_inv_def e_def)
  have p: "pending_entries ?lp = pending_entries lp @ [e]" "ended_tasks ?lp = ended_tasks lp" "te_data e = req"
    using l(3) by (simp_all add: pending_entries_def ended_tasks_def e_def)
  have same: "runnable ?lp = runnable lp"
    by (simp add: runnable_def fun_eq_iff)
  have "loop_inv (Suc n) ?lp"
    unfolding loop_inv_def p same using d(3-7) li req p(3) by auto
  then show ?thesis
    using l(1) below l(2)
    by (intro exI [of _ ?l] exI [of _ e]) (simp add: dicey_task_list_append_def e_def list_inv_def)
qed

lemma process_request_ok:
  assumes inv: "loop_inv n lp" and n: "n < 2 ^ 60"
    and req: "runnable lp req" "req < loop_fresh lp"
      "req \<notin> set (map te_data (pending_entries lp) @ q_list (loop_queue lp) @ ended_tasks lp)"
  shows "\<exists>lp'. process_request ndebug (\<lambda>_. True) now lp req = Ok lp' \<and> loop_inv (Suc n) lp' \<and>
    loop_queue lp' = loop_queue lp"
proof -
  obtain t where t: "loop_tasks lp req = Some t"
    using req(1) by (auto simp: runnable_def)
  obtain l' e where a: "dicey_task_list_append (\<lambda>_. True) now (loop_pending lp) req (tr_timeout_ms t) = Ok (te_id e, LiveArray l')"
    "loop_inv (Suc n) (lp\<lparr>loop_pending := LiveArray l'\<rparr>)" "e \<in> set (tl_waiting l')" "te_data e = req" "0 \<le> te_id e"
    using append_ok [OF assms, of now "tr_timeout_ms t"] by blast
  have e: "e \<in> set (pending_entries (lp\<lparr>loop_pending := LiveArray l'\<rparr>))"
    using a(3) by (simp add: pending_entries_def)
  show ?thesis
    using step_and_erase_ok [OF a(2) e, of ndebug None] a(1,4,5) t
    by (auto simp: process_request_def start_task_def Let_def)
qed

lemma process_loop_ok:
  assumes "loop_inv n lp" and "n + q_len (loop_queue lp) < 2 ^ 60" and "q_len (loop_queue lp) < m"
  shows "\<exists>lp'. process_loop m ndebug (\<lambda>_. True) clock lp = Ok lp' \<and> loop_inv (n + q_len (loop_queue lp)) lp'"
  using assms
proof (induction m arbitrary: n lp)
  case (Suc m)
  note d = loop_invD [OF Suc.prems(1)]
  show ?case
  proof (cases "q_len (loop_queue lp) = 0")
    case True
    then have "dicey_queue_pop (loop_queue lp) DICEY_LOCKING_POLICY_NONBLOCKING = (Returned None, loop_queue lp)"
      using empty_iff [OF d(3)] by (simp add: dicey_queue_pop_def)
    with True show ?thesis
      using Suc.prems(1) by simp
  next
    case False
    obtain req q where pop: "dicey_queue_pop (loop_queue lp) DICEY_LOCKING_POLICY_NONBLOCKING = (Returned (Some (Some req)), q)"
      "queue_inv q" "q_list (loop_queue lp) = req # q_list q"
      using pop_some [OF d(3) False] by metis
    let ?lp = "lp\<lparr>loop_queue := q\<rparr>"
    have same: "pending_entries ?lp = pending_entries lp" "ended_tasks ?lp = ended_tasks lp" "runnable ?lp = runnable lp"
      by (simp_all add: pending_entries_def ended_tasks_def runnable_def fun_eq_iff)
    have inv: "loop_inv n ?lp"
      unfolding loop_inv_def same using d pop(2,3) by simp
    have len: "q_len (loop_queue lp) = Suc (q_len q)"
      using arg_cong [OF pop(3), of length] by simp
    have req: "runnable ?lp req" "req < loop_fresh ?lp"
      "req \<notin> set (map te_data (pending_entries ?lp) @ q_list (loop_queue ?lp) @ ended_tasks ?lp)"
      unfolding same using d(4,5,7) pop(3) by auto
    have "n < 2 ^ 60"
      using Suc.prems(2) by linarith
    then obtain lp1 where lp1: "process_request ndebug (\<lambda>_. True) (clock m) ?lp req = Ok lp1" "loop_inv (Suc n) lp1"
      "loop_queue lp1 = q"
      using process_request_ok [OF inv _ req, of ndebug "clock m"] by auto
    then show ?thesis
      using Suc.IH [OF lp1(2)] Suc.prems(2,3) len pop(1) by simp
  qed
qed simp

lemma process_queue_ok:
  assumes "loop_inv n lp" and "n + 127 < 2 ^ 60"
  shows "\<exists>lp'. process_queue ndebug (\<lambda>_. True) clock lp = Ok lp' \<and> loop_inv (n + 127) lp'"
proof -
  have "q_len (loop_queue lp) \<le> 127" "q_len (loop_queue lp) < REQUEST_QUEUE_CAP"
    using q_len_less [of "loop_queue lp"] by (simp_all add: REQUEST_QUEUE_CAP_def)
  then show ?thesis
    using process_loop_ok [OF assms(1), of REQUEST_QUEUE_CAP ndebug clock] assms(2)
      loop_inv_mono [of "n + q_len (loop_queue lp)" _ "n + 127"]
    by (auto simp: process_queue_def)
qed

section \<open>Stopping\<close>

lemma cancel_pending_ok:
  assumes "loop_inv n lp" and "loop_pending lp = LiveArray l"
  shows "\<exists>lp'. cancel_pending ndebug err (length (tl_waiting l)) lp = Ok lp' \<and> loop_inv n lp' \<and>
    loop_queue lp' = loop_queue lp \<and>
    loop_ended lp' = loop_ended lp @ rev (map (\<lambda>e. (te_id e, te_data e, err)) (tl_waiting l))"
  using assms
proof (induction "tl_waiting l" arbitrary: lp l rule: rev_induct)
  case Nil
  then have "tl_waiting l = []"
    by simp
  with Nil.prems show ?case
    by simp
next
  case (snoc e es)
  have es: "tl_waiting l = es @ [e]"
    using snoc.hyps(2) by simp
  have e: "e \<in> set (pending_entries lp)"
    using es snoc.prems(2) by (simp add: pending_entries_def)
  note li = loop_invD(2) [OF snoc.prems]
  have idx: "task_list_find_index l (te_id e) = Some (length es)"
    unfolding task_list_find_index_def es using li es
    by (intro first_index_append) (auto simp: list_inv_def image_iff)
  obtain lp1 l1 where lp1: "complete_task ndebug lp (te_id e) (te_data e) err = Ok lp1" "loop_inv n lp1"
    "loop_queue lp1 = loop_queue lp" "loop_ended lp1 = loop_ended lp @ [(te_id e, te_data e, err)]"
    using complete_pending [OF snoc.prems(1) e, of ndebug err] by blast
  have l1: "loop_pending lp1 = LiveArray (l\<lparr>tl_waiting := es\<rparr>)"
    using lp1(1) idx snoc.prems(2) es
    by (auto simp: complete_task_def c_assert_def task_list_erase_at_def remove_at_def split: option.splits if_splits)
  show ?case
    using snoc.hyps(1) [OF _ lp1(2) l1] lp1 es snoc.prems(2) by auto
qed

section \<open>Runs\<close>

text \<open>
  What happens to a running loop: a client allocates a request and submits it (and is blocked, for good here, when
  the queue is full); the loop drains the queue; the completion of an operation advances or fails a task,
  which the loop can only see after it has listed one; the timer checks the deadlines.
\<close>

datatype ('c, 'i) loop_event =
    Submit "('c, 'i) dicey_task_request"
  | Process "nat \<Rightarrow> timespec"
  | Advance int "'i option"
  | Fail int dicey_task_error
  | Timer timespec

fun loop_step :: "bool \<Rightarrow> (nat \<Rightarrow> bool) \<Rightarrow> ('c, 'i) dicey_task_loop \<Rightarrow> ('c, 'i) loop_event \<Rightarrow> ('c, 'i) dicey_task_loop result" where
  "loop_step ndebug alloc lp (Submit t) =
     and_then (dicey_task_loop_submit ndebug
         (lp\<lparr>loop_tasks := (loop_tasks lp)(loop_fresh lp \<mapsto> t), loop_fresh := Suc (loop_fresh lp)\<rparr>) (loop_fresh lp))
       (\<lambda>(_, lp'). Ok lp')"
| "loop_step ndebug alloc lp (Process clock) = process_queue ndebug alloc clock lp"
| "loop_step ndebug alloc lp (Advance tid input) =
     (if loop_pending lp = NullArray then Ok lp else dicey_task_loop_advance ndebug lp tid input)"
| "loop_step ndebug alloc lp (Fail tid err) =
     (if loop_pending lp = NullArray then Ok lp else dicey_task_loop_fail_with ndebug lp tid (Some err))"
| "loop_step ndebug alloc lp (Timer now) = check_timeout ndebug alloc now lp"

fun loop_run :: "bool \<Rightarrow> (nat \<Rightarrow> bool) \<Rightarrow> ('c, 'i) dicey_task_loop \<Rightarrow> ('c, 'i) loop_event list \<Rightarrow> ('c, 'i) dicey_task_loop result" where
  "loop_run ndebug alloc lp [] = Ok lp"
| "loop_run ndebug alloc lp (ev # evs) = and_then (loop_step ndebug alloc lp ev) (\<lambda>lp'. loop_run ndebug alloc lp' evs)"

definition loop_init :: "'c \<Rightarrow> ('c, 'i) dicey_task_loop" where
  "loop_init c = dicey_task_loop_start
     \<lparr>loop_running = False, loop_queue = snd (dicey_queue_init 0 0), loop_pending = NullArray, loop_tasks = Map.empty,
      loop_fresh = 0, loop_ended = [], loop_world = c\<rparr>"

fun event_ok :: "('c, 'i) loop_event \<Rightarrow> bool" where
  "event_ok (Submit t) \<longleftrightarrow> tr_work t \<noteq> [] \<and> wf_work (tr_work t)"
| "event_ok _ \<longleftrightarrow> True"

lemma loop_init_inv: "loop_inv 0 (loop_init c)"
  by (simp add: loop_inv_def loop_init_def dicey_task_loop_start_def pending_entries_def ended_tasks_def queue_inv_init)

lemma submit_ok:
  assumes inv: "loop_inv n lp" and t: "tr_work t \<noteq> []" "wf_work (tr_work t)"
  shows "\<exists>lp'. loop_step ndebug alloc lp (Submit t) = Ok lp' \<and> loop_inv n lp'"
proof -
  let ?a = "loop_fresh lp"
  let ?lp = "lp\<lparr>loop_tasks := (loop_tasks lp)(?a \<mapsto> t), loop_fresh := Suc ?a\<rparr>"
  note d = loop_invD [OF inv]
  have same: "pending_entries ?lp = pending_entries lp" "ended_tasks ?lp = ended_tasks lp"
    by (simp_all add: pending_entries_def ended_tasks_def)
  have run: "runnable lp b \<Longrightarrow> runnable ?lp b" "runnable ?lp ?a" for b
    using t by (auto simp: runnable_def)
  have inv1: "loop_inv n ?lp"
    unfolding loop_inv_def same using d run(1) by (auto simp: list_all_iff less_Suc_eq)
  show ?thesis
  proof (cases "loop_running lp \<and> next_tail (loop_queue lp) \<noteq> q_head (loop_queue lp)")
    case True
    let ?q = "(loop_queue lp)\<lparr>q_data := (q_data (loop_queue lp))[q_tail (loop_queue lp) := Some ?a],
      q_tail := next_tail (loop_queue lp)\<rparr>"
    let ?lq = "?lp\<lparr>loop_queue := ?q\<rparr>"
    note push = push_cells(3,4) [OF d(3) conjunct2 [OF True], where x = ?a]
    have same': "pending_entries ?lq = pending_entries lp" "ended_tasks ?lq = ended_tasks lp" "runnable ?lq = runnable ?lp"
      by (simp_all add: pending_entries_def ended_tasks_def runnable_def fun_eq_iff)
    have "loop_inv n ?lq"
      unfolding loop_inv_def same' using loop_invD [OF inv1, unfolded same] d(7) run(2) push
      by (auto simp: list_all_iff)
    moreover have "loop_step ndebug alloc lp (Submit t) = Ok ?lq"
      using push_check_room [OF d(3) conjunct2 [OF True]] True
      by (simp add: dicey_task_loop_submit_def dicey_queue_push_def)
    ultimately show ?thesis
      by blast
  next
    case False
    then have "loop_step ndebug alloc lp (Submit t) = Ok ?lp"
      by (auto simp: dicey_task_loop_submit_def dicey_queue_push_def push_check_def)
    with inv1 show ?thesis
      by blast
  qed
qed

lemma loop_step_ok:
  assumes inv: "loop_inv n lp" and ev: "event_ok ev" and n: "n + 127 < 2 ^ 60"
  shows "\<exists>lp'. loop_step ndebug (\<lambda>_. True) lp ev = Ok lp' \<and> loop_inv (n + 127) lp'"
proof -
  have grown: "\<exists>lp'. r = Ok lp' \<and> loop_inv n lp' \<Longrightarrow> \<exists>lp'. r = Ok lp' \<and> loop_inv (n + 127) lp'" for r
    using loop_inv_mono [of n _ "n + 127"] by auto
  have live: "\<exists>l. loop_pending lp = LiveArray l" if "loop_pending lp \<noteq> NullArray"
    using that loop_invD(1) [OF inv] by (cases "loop_pending lp") auto
  show ?thesis
  proof (cases ev)
    case (Submit t)
    then show ?thesis
      using grown [OF submit_ok [OF inv]] ev by simp
  next
    case (Process clock)
    then show ?thesis
      using process_queue_ok [OF inv n] by simp
  next
    case (Advance tid input)
    have "\<exists>lp'. loop_step ndebug (\<lambda>_. True) lp ev = Ok lp' \<and> loop_inv n lp'"
      using Advance advance_ok [OF inv, of _ ndebug tid input] live inv
      by (cases "loop_pending lp = NullArray") auto
    then show ?thesis
      by (rule grown)
  next
    case (Fail tid err)
    have "\<exists>lp'. loop_step ndebug (\<lambda>_. True) lp ev = Ok lp' \<and> loop_inv n lp'"
      using Fail fail_with_ok [OF inv, of _ ndebug tid err] live inv
      by (cases "loop_pending lp = NullArray") auto
    then show ?thesis
      by (rule grown)
  next
    case (Timer now)
    then show ?thesis
      using grown [OF timeout_ok [OF inv, of ndebug now]] by simp
  qed
qed

lemma loop_run_ok:
  assumes "loop_inv n lp" and "list_all event_ok evs" and "n + 127 * length evs < 2 ^ 60"
  shows "\<exists>lp'. loop_run ndebug (\<lambda>_. True) lp evs = Ok lp' \<and> loop_inv (n + 127 * length evs) lp'"
  using assms
proof (induction evs arbitrary: n lp)
  case (Cons ev evs)
  obtain lp1 where lp1: "loop_step ndebug (\<lambda>_. True) lp ev = Ok lp1" "loop_inv (n + 127) lp1"
    using loop_step_ok [OF Cons.prems(1), of ev ndebug] Cons.prems(2,3) by auto
  show ?case
    using Cons.IH [OF lp1(2)] Cons.prems(2,3) lp1(1) by (auto simp: algebra_simps)
qed simp

end
