(* ===== verification/Task_Properties.thy ===== *)
theory Task_Properties
  imports Dicey_Task_Facts
begin

text \<open>What the task loop of the client guarantees, and where it fails.\<close>

text \<open>
  C27: whatever is submitted, completed, failed or timed out, in any order, the loop does not leave the
  defined behaviour while memory can be allocated, no task ends twice, and a task that has ended is neither
  allocated nor still listed: its callback is called at most once and nothing touches it afterwards.
\<close>

theorem tasks_end_at_most_once:
  assumes "list_all event_ok evs" and "length evs < 2 ^ 50"
  shows "\<exists>lp. loop_run ndebug (\<lambda>_. True) (loop_init c) evs = Ok lp \<and> distinct (ended_tasks lp) \<and>
    (\<forall>a \<in> set (ended_tasks lp). loop_tasks lp a = None \<and> a \<notin> te_data ` set (pending_entries lp))"
proof -
  obtain lp where lp: "loop_run ndebug (\<lambda>_. True) (loop_init c) evs = Ok lp" "loop_inv (0 + 127 * length evs) lp"
    using loop_run_ok [OF loop_init_inv assms(1), of ndebug c] assms(2) by auto
  show ?thesis
    using lp(1) loop_invD(4,6) [OF lp(2)] by (auto simp: list_all_iff)
qed

definition one_step_task :: "(unit, unit) dicey_task_request" where
  "one_step_task = \<lparr>tr_work = [dicey_task_noop], tr_timeout_ms = WAIT_FOREVER\<rparr>"

theorem tasks_end_at_most_once_witness:
  "\<exists>lp. loop_run False (\<lambda>_. True) (loop_init ()) [Submit one_step_task, Process (\<lambda>_. FOREVER_TIME), Advance 0 None] = Ok lp \<and>
    distinct (ended_tasks lp)"
  using tasks_end_at_most_once
    [of "[Submit one_step_task, Process (\<lambda>_. FOREVER_TIME), Advance 0 None]" False "()"]
  by (auto simp: one_step_task_def dicey_task_noop_def dicey_task_continue_def)

text \<open>
  the deadline of a task that may run for \<open>ms\<close> milliseconds is that far in the future only while the
  nanoseconds do not carry into the seconds; when they do, the deadline is one second early, and a timeout below
  one second is over when it is set.
\<close>

theorem deadline_loses_the_carry:
  assumes "0 \<le> tv_nsec now" "tv_nsec now < 1000000000" "0 \<le> ms" "ms < 2 ^ 31"
  shows "nanos (now_plus now ms) =
      nanos now + ms * 1000000 - (if tv_nsec now + (ms mod 1000) * 1000000 \<ge> 1000000000 then 1000000000 else 0) \<and>
    (ms < 1000 \<and> tv_nsec now + ms * 1000000 \<ge> 1000000000 \<longrightarrow> timespec_cmp (now_plus now ms) now < 0)"
proof (intro conjI impI)
  show exact: "nanos (now_plus now ms) =
      nanos now + ms * 1000000 - (if tv_nsec now + (ms mod 1000) * 1000000 \<ge> 1000000000 then 1000000000 else 0)"
    by (rule now_plus_nanos [OF assms])
  assume "ms < 1000 \<and> tv_nsec now + ms * 1000000 \<ge> 1000000000"
  with exact assms show "timespec_cmp (now_plus now ms) now < 0"
    by (subst timespec_cmp_nanos) (simp_all add: now_plus_eq [OF assms])
qed

theorem deadline_loses_the_carry_witness:
  "timespec_cmp (now_plus \<lparr>tv_sec = 10, tv_nsec = 500000000\<rparr> 999) \<lparr>tv_sec = 10, tv_nsec = 500000000\<rparr> < 0"
  using deadline_loses_the_carry [of "\<lparr>tv_sec = 10, tv_nsec = 500000000\<rparr>" 999] by simp


text \<open>Two pending tasks, the first with a deadline.\<close>

definition first_entry :: "nat dicey_task_entry" where
  "first_entry = \<lparr>te_id = 0, te_expires_at = \<lparr>tv_sec = 1, tv_nsec = 0\<rparr>, te_data = 0\<rparr>"

definition second_entry :: "nat dicey_task_entry" where
  "second_entry = \<lparr>te_id = 1, te_expires_at = FOREVER_TIME, te_data = 1\<rparr>"

definition two_entries :: "nat dicey_task_list" where
  "two_entries = \<lparr>tl_next_id = 2, tl_waiting = [first_entry, second_entry], tl_cap = 128\<rparr>"

definition two_tasks :: "(unit, unit) dicey_task_loop" where
  "two_tasks = (loop_init ())\<lparr>loop_fresh := 2, loop_tasks := [0 \<mapsto> one_step_task, 1 \<mapsto> one_step_task],
     loop_pending := LiveArray two_entries\<rparr>"

lemma two_tasks_inv: "loop_inv 2 two_tasks"
  by (simp add: loop_inv_def two_tasks_def loop_init_def dicey_task_loop_start_def pending_entries_def ended_tasks_def
      queue_inv_init list_inv_def runnable_def one_step_task_def dicey_task_noop_def dicey_task_continue_def
      two_entries_def first_entry_def second_entry_def)

lemma two_tasks_simps:
  "loop_pending two_tasks = LiveArray two_entries" "tl_waiting two_entries = [] @ first_entry # second_entry # []"
  "list_all (\<lambda>x. \<not> expired now x) []" "expired \<lparr>tv_sec = 2, tv_nsec = 0\<rparr> first_entry" "ended_tasks two_tasks = []"
  by (simp_all add: two_tasks_def two_entries_def first_entry_def expired_def is_wait_forever_def timespec_cmp_def
      ended_tasks_def loop_init_def dicey_task_loop_start_def)


text \<open>
  stopping the loop cancels every pending task, from the last to the first, when no submission is waiting in
  the queue; when one is, the loop reads the list of pending tasks after it has been freed (or through a
  null pointer, if there never was one).
\<close>

theorem stopping_with_queued_tasks_is_undefined:
  assumes "loop_inv n lp"
  shows "(q_list (loop_queue lp) = [] \<longrightarrow>
      (\<exists>lp'. cancel_all_pending ndebug alloc lp = Ok lp' \<and>
        ended_tasks lp' = ended_tasks lp @ rev (map te_data (pending_entries lp)))) \<and>
    (q_list (loop_queue lp) \<noteq> [] \<longrightarrow> cancel_all_pending ndebug alloc lp = Undef)"
proof -
  let ?err = "dicey_task_error_new alloc DICEY_ECANCELLED (cs ''task loop cancelled'')"
  obtain lp1 where lp1: "(case loop_pending lp of NullArray \<Rightarrow> Ok lp | FreedArray \<Rightarrow> Undef
      | LiveArray l \<Rightarrow> cancel_pending ndebug ?err (length (tl_waiting l)) lp) = Ok lp1"
    "loop_queue lp1 = loop_queue lp" "ended_tasks lp1 = ended_tasks lp @ rev (map te_data (pending_entries lp))"
  proof (cases "loop_pending lp")
    case (LiveArray l)
    then show thesis
      using that cancel_pending_ok [OF assms LiveArray, of ndebug ?err]
      by (auto simp: ended_tasks_def pending_entries_def rev_map)
  qed (use that loop_invD(1) [OF assms] in \<open>auto simp: pending_entries_def\<close>)
  have rest: "cancel_all_pending ndebug alloc lp =
      cancel_queued ndebug ?err (map Some (q_list (loop_queue lp))) (free_pending lp1)"
    using lp1(1,2) deinit_list [OF loop_invD(3) [OF assms]] by (simp add: cancel_all_pending_def)
  have freed: "complete_task ndebug (free_pending lp1) (-1) req ?err = Undef" for req
    by (cases "loop_pending lp1") (auto simp: complete_task_def free_pending_def split: option.splits)
  show ?thesis
    using rest lp1(3) freed by (cases "q_list (loop_queue lp)") (auto simp: ended_tasks_def free_pending_def)
qed

theorem stopping_with_queued_tasks_is_undefined_witness:
  "\<exists>lp'. cancel_all_pending False (\<lambda>_. True) two_tasks = Ok lp' \<and> ended_tasks lp' = [1, 0]"
proof -
  have "q_list (loop_queue two_tasks) = []" "pending_entries two_tasks = [first_entry, second_entry]"
    by (simp_all add: two_tasks_def loop_init_def dicey_task_loop_start_def queue_inv_init pending_entries_def two_entries_def)
  then show ?thesis
    using stopping_with_queued_tasks_is_undefined [OF two_tasks_inv, of False "\<lambda>_. True"]
    by (simp add: two_tasks_simps(5) first_entry_def second_entry_def)
qed

end
