(* ===== verification/Dicey_Pending.thy ===== *)
theory Dicey_Pending
  imports Dicey_Packet
begin

text \<open>
  The ring of requests a client of the server is waiting for, \<^verbatim>\<open>src/ipc/server/pending-reqs.c\<close>.
\<close>

section \<open>Requests\<close>

text \<open>
  A request as the ring sees it; \<open>rq_rest\<close> is the rest of the structure.  The zeroed message, with a null
  path, is \<open>None\<close>.
\<close>

record 'x dicey_request =
  rq_packet_seq :: "32 word"
  rq_op :: dicey_op
  rq_message :: "dicey_message option"
  rq_rest :: "'x option"

definition zero_request :: "'x dicey_request" where
  "zero_request = \<lparr>rq_packet_seq = 0, rq_op = DICEY_OP_INVALID, rq_message = None, rq_rest = None\<rparr>"

section \<open>The ring\<close>

definition FIRST_SEQ :: "32 word" where "FIRST_SEQ = 2"

definition STARTING_CAP :: nat where "STARTING_CAP = 12"

record 'x dicey_pending_requests =
  pr_last_seq :: "32 word"
  pr_start :: nat
  pr_end :: nat
  pr_len :: nat
  pr_cap :: nat
  pr_reqs :: "'x dicey_request list"

text \<open>Indices are of type \<open>size_t\<close>; the arithmetic on them wraps.\<close>

definition index_of :: "'x dicey_pending_requests \<Rightarrow> nat \<Rightarrow> nat" where
  "index_of reqs i = (pr_start reqs + i) mod 2 ^ 64 mod pr_cap reqs"

definition is_hole :: "'x dicey_request \<Rightarrow> bool" where
  "is_hole req \<longleftrightarrow> rq_message req = None"

definition next_index :: "'x dicey_pending_requests \<Rightarrow> nat \<Rightarrow> nat" where
  "next_index reqs i = (i + 1) mod 2 ^ 64 mod pr_cap reqs"

definition next_seq :: "32 word \<Rightarrow> 32 word" where
  "next_seq cur_seq = (if cur_seq < 0xFFFFFFFF - 2 then cur_seq + 2 else FIRST_SEQ)"

definition size_dec :: "nat \<Rightarrow> nat" where
  "size_dec n = (n + 2 ^ 64 - 1) mod 2 ^ 64"

definition pending_request_invalidate ::
  "bool \<Rightarrow> 'x dicey_pending_requests \<Rightarrow> nat \<Rightarrow> 'x dicey_pending_requests result"
where
  "pending_request_invalidate ndebug reqs m =
     (let i = index_of reqs m; req = pr_reqs reqs ! i in
      c_assert ndebug (\<not> is_hole req)
        (Ok (reqs\<lparr>pr_reqs := (pr_reqs reqs)[i := req\<lparr>rq_message := None\<rparr>],
                  pr_start := (if i = pr_start reqs then next_index reqs i else pr_start reqs),
                  pr_end := (if i \<noteq> pr_start reqs \<and> next_index reqs i = pr_end reqs
                             then next_index reqs (pr_end reqs) else pr_end reqs),
                  pr_len := size_dec (pr_len reqs)\<rparr>)))"

definition pending_request_is_valid :: "'x dicey_request \<Rightarrow> bool" where
  "pending_request_is_valid req \<longleftrightarrow>
     rq_op req \<noteq> DICEY_OP_INVALID \<and>
     (case rq_message req of None \<Rightarrow> False | Some m \<Rightarrow> dicey_selector_is_valid (msg_selector m))"

definition total_len :: "'x dicey_pending_requests \<Rightarrow> nat" where
  "total_len reqs =
     (if pr_end reqs \<ge> pr_start reqs then pr_end reqs - pr_start reqs
      else pr_cap reqs - (pr_start reqs - pr_end reqs))"

definition request_at :: "'x dicey_pending_requests \<Rightarrow> nat \<Rightarrow> 'x dicey_request" where
  "request_at reqs i = pr_reqs reqs ! index_of reqs i"

text \<open>
  The binary search.  \<open>None\<close>: the loop has not ended within \<open>n\<close> rounds; \<open>Some None\<close>: the sequence number was not
  found; \<open>Some (Some m)\<close>: it was found at offset \<open>m\<close>.
\<close>

fun search_loop :: "nat \<Rightarrow> 'x dicey_pending_requests \<Rightarrow> 32 word \<Rightarrow> nat \<Rightarrow> nat \<Rightarrow> nat option option" where
  "search_loop 0 reqs seq l r = None"
| "search_loop (Suc n) reqs seq l r =
     (if l \<le> r then
        (let m = (l + r) mod 2 ^ 64 div 2; req = request_at reqs m in
         if rq_packet_seq req < seq then search_loop n reqs seq ((m + 1) mod 2 ^ 64) r
         else if rq_packet_seq req > seq then search_loop n reqs seq l (size_dec m)
         else if pending_request_is_valid req then Some (Some m)
         else search_loop n reqs seq l r)
      else Some None)"

definition search_seq ::
  "bool \<Rightarrow> nat \<Rightarrow> 'x dicey_pending_requests \<Rightarrow> 32 word \<Rightarrow> nat option option result"
where
  "search_seq ndebug n reqs seq =
     c_assert ndebug (seq \<noteq> 0)
       (if pr_len reqs = 0 then Ok (Some None)
        else Ok (search_loop n reqs seq 0 (size_dec (total_len reqs))))"

definition sizeof_pending_requests :: nat where "sizeof_pending_requests = 40"

text \<open>
  Compaction: the loop from \<open>start\<close> to \<open>end\<close> over the old ring, writing the requests that are not holes from
  offset \<open>o\<close> of the new one, which is the old one unless it was reallocated (\<open>src = None\<close>).  It takes at most
  one round per cell.
\<close>

fun compact ::
  "nat \<Rightarrow> 'x dicey_request list option \<Rightarrow> nat \<Rightarrow> nat \<Rightarrow> nat \<Rightarrow> nat \<Rightarrow> nat \<Rightarrow> 'x dicey_request list
     \<Rightarrow> 'x dicey_request list option"
where
  "compact 0 src old_cap cap old_end i o' dest = None"
| "compact (Suc n) src old_cap cap old_end i o' dest =
     (let req = (case src of None \<Rightarrow> dest | Some cells \<Rightarrow> cells) ! i;
          dest' = (if is_hole req then dest else dest[o' := req]);
          o'' = (if is_hole req then o' else (o' + 1) mod cap);
          i' = (i + 1) mod old_cap in
      if i' = old_end then Some dest' else compact n src old_cap cap old_end i' o'' dest')"

definition pending_requests_make_room ::
  "(nat \<Rightarrow> bool) \<Rightarrow> nat \<Rightarrow> 'x dicey_pending_requests \<Rightarrow> (bool \<times> 'x dicey_pending_requests) result"
where
  "pending_requests_make_room alloc req_size reqs =
     (let occupation = (pr_len reqs * 100) mod 2 ^ 64 div pr_cap reqs in
      if occupation > 80 then
        (let new_cap = (pr_cap reqs * 3) mod 2 ^ 64 div 2 in
         if \<not> alloc (sizeof_pending_requests + new_cap * req_size) then Err DICEY_ENOMEM
         else
           (let new = reqs\<lparr>pr_cap := new_cap, pr_start := 0, pr_end := pr_len reqs,
                       pr_reqs := replicate new_cap zero_request\<rparr> in
            if pr_len reqs = 0 then Ok (True, new)
            else
              (case compact (pr_cap reqs) (Some (pr_reqs reqs)) (pr_cap reqs) new_cap (pr_end reqs) (pr_start reqs) 0
                      (pr_reqs new) of
                 None \<Rightarrow> Undef
               | Some cells \<Rightarrow> Ok (True, new\<lparr>pr_reqs := cells\<rparr>))))
      else if pr_len reqs = 0 then Ok (False, reqs)
      else
        (case compact (pr_cap reqs) None (pr_cap reqs) (pr_cap reqs) (pr_end reqs) (pr_start reqs) (pr_start reqs)
                (pr_reqs reqs) of
           None \<Rightarrow> Undef
         | Some cells \<Rightarrow> Ok (False, reqs\<lparr>pr_reqs := cells\<rparr>)))"

definition pending_requests_new :: "(nat \<Rightarrow> bool) \<Rightarrow> nat \<Rightarrow> 32 word \<Rightarrow> 'x dicey_pending_requests option" where
  "pending_requests_new alloc req_size last_seq =
     (if alloc (sizeof_pending_requests + STARTING_CAP * req_size) then
        Some \<lparr>pr_last_seq = last_seq, pr_start = 0, pr_end = 0, pr_len = 0, pr_cap = STARTING_CAP,
              pr_reqs = replicate STARTING_CAP zero_request\<rparr>
      else None)"

definition room_available :: "'x dicey_pending_requests \<Rightarrow> bool" where
  "room_available reqs \<longleftrightarrow> pr_cap reqs \<noteq> 0 \<and> pr_start reqs \<noteq> pr_end reqs"

definition validate_seqnum :: "'x dicey_pending_requests option \<Rightarrow> 32 word \<Rightarrow> bool" where
  "validate_seqnum reqs seq =
     (case reqs of None \<Rightarrow> seq = FIRST_SEQ | Some r \<Rightarrow> seq = next_seq (pr_last_seq r))"

definition store_request :: "'x dicey_pending_requests \<Rightarrow> 'x dicey_request \<Rightarrow> nat \<times> 'x dicey_pending_requests" where
  "store_request reqs req =
     (pr_end reqs,
      reqs\<lparr>pr_reqs := (pr_reqs reqs)[pr_end reqs := req], pr_end := next_index reqs (pr_end reqs),
           pr_len := (pr_len reqs + 1) mod 2 ^ 64\<rparr>)"

text \<open>The error, if any, the place of the new request, and the ring, which is kept in any case.\<close>

definition dicey_pending_requests_add ::
  "bool \<Rightarrow> (nat \<Rightarrow> bool) \<Rightarrow> nat \<Rightarrow> 'x dicey_pending_requests option \<Rightarrow> 'x dicey_request
     \<Rightarrow> ((dicey_error + nat) \<times> 'x dicey_pending_requests option) result"
where
  "dicey_pending_requests_add ndebug alloc req_size reqs_ptr req =
     c_assert ndebug (pending_request_is_valid req)
       (if \<not> validate_seqnum reqs_ptr (rq_packet_seq req) then Ok (Inl DICEY_ESEQNUM_MISMATCH, reqs_ptr)
        else case reqs_ptr of
          Some reqs \<Rightarrow>
            (let reqs1 = reqs\<lparr>pr_last_seq := rq_packet_seq req\<rparr> in
             if room_available reqs1 then
               (case store_request reqs1 req of (i, reqs2) \<Rightarrow> Ok (Inr i, Some reqs2))
             else
               (case pending_requests_make_room alloc req_size reqs1 of
                  Err e \<Rightarrow> Ok (Inl e, Some reqs1)
                | Undef \<Rightarrow> Undef
                | Ok (_, reqs2) \<Rightarrow> (case store_request reqs2 req of (i, reqs3) \<Rightarrow> Ok (Inr i, Some reqs3))))
        | None \<Rightarrow>
            (case pending_requests_new alloc req_size (rq_packet_seq req) of
               None \<Rightarrow> Ok (Inl DICEY_ENOMEM, None)
             | Some reqs \<Rightarrow> (case store_request reqs req of (i, reqs1) \<Rightarrow> Ok (Inr i, Some reqs1))))"

text \<open>The outer \<open>None\<close> of the searching operations: the search does not end within \<open>n\<close> rounds.\<close>

definition dicey_pending_requests_complete ::
  "bool \<Rightarrow> nat \<Rightarrow> 'x dicey_pending_requests option \<Rightarrow> 32 word
     \<Rightarrow> ((dicey_error + 'x dicey_request) \<times> 'x dicey_pending_requests option) option result"
where
  "dicey_pending_requests_complete ndebug n reqs_ptr seq =
     (case reqs_ptr of
        None \<Rightarrow> Ok (Some (Inl DICEY_ENOENT, None))
      | Some reqs \<Rightarrow>
          if pr_len reqs = 0 then Ok (Some (Inl DICEY_ENOENT, Some reqs))
          else
            and_then (search_seq ndebug n reqs seq) (\<lambda>res.
              case res of
                None \<Rightarrow> Ok None
              | Some None \<Rightarrow> Ok (Some (Inl DICEY_ENOENT, Some reqs))
              | Some (Some m) \<Rightarrow>
                  and_then (pending_request_invalidate ndebug reqs m) (\<lambda>reqs1.
                    Ok (Some (Inr (request_at reqs m), Some reqs1)))))"

definition dicey_pending_requests_get ::
  "bool \<Rightarrow> nat \<Rightarrow> 'x dicey_pending_requests option \<Rightarrow> 32 word \<Rightarrow> 'x dicey_request option option result"
where
  "dicey_pending_requests_get ndebug n reqs_ptr seq =
     (case reqs_ptr of
        None \<Rightarrow> Ok (Some None)
      | Some reqs \<Rightarrow>
          if pr_len reqs = 0 then Ok (Some None)
          else
            and_then (search_seq ndebug n reqs seq) (\<lambda>res.
              Ok (map_option (map_option (request_at reqs)) res)))"

definition dicey_pending_requests_is_pending ::
  "bool \<Rightarrow> nat \<Rightarrow> 'x dicey_pending_requests option \<Rightarrow> 32 word \<Rightarrow> bool option result"
where
  "dicey_pending_requests_is_pending ndebug n reqs_ptr seq =
     and_then (dicey_pending_requests_get ndebug n reqs_ptr seq) (\<lambda>r. Ok (map_option (\<lambda>x. x \<noteq> None) r))"

text \<open>
  Pruning.  The callback may change a state of its own.  The index of the cell is handed to
  \<open>pending_request_invalidate\<close>, which takes an offset from the start, and the length is decreased twice.
\<close>

fun prune_loop ::
  "nat \<Rightarrow> bool \<Rightarrow> ('x dicey_request \<Rightarrow> 's \<Rightarrow> (bool \<times> 's) result) \<Rightarrow> 'x dicey_pending_requests \<Rightarrow> nat \<Rightarrow> 's
     \<Rightarrow> ('x dicey_pending_requests \<times> 's) option result"
where
  "prune_loop 0 ndebug prune_fn reqs i ctx = Ok None"
| "prune_loop (Suc n) ndebug prune_fn reqs i ctx =
     (if i = pr_end reqs then Ok (Some (reqs, ctx))
      else if is_hole (pr_reqs reqs ! i) then prune_loop n ndebug prune_fn reqs (next_index reqs i) ctx
      else
        and_then (prune_fn (pr_reqs reqs ! i) ctx) (\<lambda>(prune, ctx1).
          if \<not> prune then prune_loop n ndebug prune_fn reqs (next_index reqs i) ctx1
          else
            and_then (pending_request_invalidate ndebug reqs i) (\<lambda>reqs1.
              prune_loop n ndebug prune_fn (reqs1\<lparr>pr_len := size_dec (pr_len reqs1)\<rparr>) (next_index reqs1 i) ctx1)))"

definition dicey_pending_requests_prune ::
  "bool \<Rightarrow> nat \<Rightarrow> ('x dicey_request \<Rightarrow> 's \<Rightarrow> (bool \<times> 's) result) \<Rightarrow> 'x dicey_pending_requests option \<Rightarrow> 's
     \<Rightarrow> ('x dicey_pending_requests option \<times> 's) option result"
where
  "dicey_pending_requests_prune ndebug n prune_fn reqs_ptr ctx =
     (case reqs_ptr of
        None \<Rightarrow> Ok (Some (None, ctx))
      | Some reqs \<Rightarrow>
          if pr_len reqs = 0 then Ok (Some (Some reqs, ctx))
          else
            and_then (prune_loop n ndebug prune_fn reqs (pr_start reqs) ctx) (\<lambda>r.
              Ok (map_option (\<lambda>(reqs1, ctx1). (Some reqs1, ctx1)) r)))"

definition dicey_pending_request_skip ::
  "(nat \<Rightarrow> bool) \<Rightarrow> nat \<Rightarrow> 'x dicey_pending_requests option \<Rightarrow> 32 word \<Rightarrow> dicey_error \<times> 'x dicey_pending_requests option"
where
  "dicey_pending_request_skip alloc req_size reqs_ptr seq =
     (if \<not> validate_seqnum reqs_ptr seq then (DICEY_ESEQNUM_MISMATCH, reqs_ptr)
      else case reqs_ptr of
        Some reqs \<Rightarrow> (DICEY_OK, Some (reqs\<lparr>pr_last_seq := seq\<rparr>))
      | None \<Rightarrow>
          (case pending_requests_new alloc req_size seq of
             None \<Rightarrow> (DICEY_ENOMEM, None)
           | Some reqs \<Rightarrow> (DICEY_OK, Some reqs)))"

end
