(* ===== verification/Dicey_Pending_Facts.thy ===== *)
theory Dicey_Pending_Facts
  imports Dicey_Pending
begin

text \<open>The window of the ring of pending requests, and the search in it.\<close>

section \<open>The window\<close>

definition ring_ok :: "'x dicey_pending_requests \<Rightarrow> bool" where
  "ring_ok reqs \<longleftrightarrow> 0 < pr_cap reqs \<and> pr_cap reqs < 2 ^ 62 \<and> length (pr_reqs reqs) = pr_cap reqs \<and>
     pr_start reqs < pr_cap reqs \<and> pr_end reqs < pr_cap reqs"

definition window :: "'x dicey_pending_requests \<Rightarrow> 'x dicey_request list" where
  "window reqs = map (request_at reqs) [0..<total_len reqs]"

text \<open>Sequence numbers grow along the window, holes keep theirs, and the length counts what is no hole.\<close>

definition pending_inv :: "'x dicey_pending_requests \<Rightarrow> bool" where
  "pending_inv reqs \<longleftrightarrow> ring_ok reqs \<and> sorted_wrt (<) (map rq_packet_seq (window reqs)) \<and>
     pr_len reqs = length (filter (\<lambda>r. \<not> is_hole r) (window reqs)) \<and>
     list_all (\<lambda>r. rq_packet_seq r \<noteq> 0) (window reqs)"

lemma length_window [simp]: "length (window reqs) = total_len reqs"
  by (simp add: window_def)

lemma window_nth [simp]: "i < total_len reqs \<Longrightarrow> window reqs ! i = request_at reqs i"
  by (simp add: window_def)

lemma total_len_less: "ring_ok reqs \<Longrightarrow> total_len reqs < pr_cap reqs"
  by (auto simp: ring_ok_def total_len_def)

lemma ring_mod_cap: "0 < c \<Longrightarrow> a < 2 * c \<Longrightarrow> a mod c = (if a < c then a else a - c)" for a c :: nat
  by (simp add: le_mod_geq)

lemma index_of_eq:
  assumes "ring_ok reqs" and "i < pr_cap reqs"
  shows "index_of reqs i =
    (if pr_start reqs + i < pr_cap reqs then pr_start reqs + i else pr_start reqs + i - pr_cap reqs)"
proof -
  have "pr_start reqs + i < 2 ^ 64"
    using assms by (simp add: ring_ok_def)
  then show ?thesis
    using assms by (simp add: index_of_def ring_mod_cap ring_ok_def)
qed

lemma next_index_eq:
  assumes "ring_ok reqs" and "i < pr_cap reqs"
  shows "next_index reqs i = (if Suc i = pr_cap reqs then 0 else Suc i)"
proof -
  have "i + 1 < 2 ^ 64"
    using assms by (simp add: ring_ok_def)
  then show ?thesis
    using assms by (simp add: next_index_def)
qed

lemma index_of_inj:
  "ring_ok reqs \<Longrightarrow> i < pr_cap reqs \<Longrightarrow> j < pr_cap reqs \<Longrightarrow> index_of reqs i = index_of reqs j \<Longrightarrow> i = j"
  by (auto simp: index_of_eq ring_ok_def split: if_splits)

lemma index_of_less: "ring_ok reqs \<Longrightarrow> index_of reqs i < pr_cap reqs"
  by (simp add: index_of_def ring_ok_def)

section \<open>The search\<close>

lemma size_dec_pos: "0 < n \<Longrightarrow> n < 2 ^ 64 \<Longrightarrow> size_dec n = n - 1"
proof -
  assume n: "0 < n" "n < 2 ^ 64"
  then have "n + 2 ^ 64 - 1 = (n - 1) + 2 ^ 64"
    by simp
  moreover have "n - 1 < 2 ^ 64"
    using n by simp
  ultimately show ?thesis
    unfolding size_dec_def by (simp only: mod_add_self2 mod_less)
qed

lemma search_step:
  assumes "l \<le> r" and "(l + r) mod 2 ^ 64 div 2 = m"
  shows "rq_packet_seq (request_at reqs m) < seq \<Longrightarrow>
      search_loop (Suc n) reqs seq l r = search_loop n reqs seq ((m + 1) mod 2 ^ 64) r"
    and "seq < rq_packet_seq (request_at reqs m) \<Longrightarrow>
      search_loop (Suc n) reqs seq l r = search_loop n reqs seq l (size_dec m)"
    and "seq = rq_packet_seq (request_at reqs m) \<Longrightarrow> pending_request_is_valid (request_at reqs m) \<Longrightarrow>
      search_loop (Suc n) reqs seq l r = Some (Some m)"
  unfolding search_loop.simps Let_def using assms by (simp_all add: less_le_not_le)

declare search_loop.simps(2) [simp del]

lemma search_finds:
  assumes inv: "pending_inv reqs" and m0: "m0 < total_len reqs" "pending_request_is_valid (request_at reqs m0)"
    and "l \<le> m0" "m0 \<le> r" "r < total_len reqs" "r - l < n"
  shows "search_loop n reqs (rq_packet_seq (request_at reqs m0)) l r = Some (Some m0)"
  using assms(4-7)
proof (induction n arbitrary: l r)
  case (Suc n)
  have ok: "ring_ok reqs"
    using inv by (simp add: pending_inv_def)
  have less: "rq_packet_seq (request_at reqs i) < rq_packet_seq (request_at reqs j)" if "i < j" "j < total_len reqs" for i j
    using inv that sorted_wrt_nth_less [of "(<)" "map rq_packet_seq (window reqs)" i j] by (simp add: pending_inv_def)
  define m where "m = (l + r) div 2"
  have small: "total_len reqs < 2 ^ 62"
    using total_len_less [OF ok] ok by (simp add: ring_ok_def)
  then have mid: "(l + r) mod 2 ^ 64 div 2 = m"
    using Suc.prems by (simp add: m_def)
  have m: "l \<le> m" "m \<le> r"
    using Suc.prems by (simp_all add: m_def)
  consider "m < m0" | "m = m0" | "m0 < m"
    by linarith
  then show ?case
  proof cases
    case 1
    then have "rq_packet_seq (request_at reqs m) < rq_packet_seq (request_at reqs m0)"
      using less m0(1) by simp
    moreover have "(m + 1) mod 2 ^ 64 = m + 1"
      using m Suc.prems small by simp
    moreover have "l \<le> r" "r - (m + 1) < n"
      using m 1 Suc.prems by linarith+
    ultimately show ?thesis
      using Suc.IH [of "m + 1" r] 1 Suc.prems by (subst search_step(1) [OF _ mid]) simp_all
  next
    case 2
    then show ?thesis
      using m0(2) m by (subst search_step(3) [OF _ mid]) simp_all
  next
    case 3
    then have "rq_packet_seq (request_at reqs m0) < rq_packet_seq (request_at reqs m)"
      using less m Suc.prems by simp
    moreover have "size_dec m = m - 1"
      using 3 m Suc.prems small by (intro size_dec_pos) simp_all
    moreover have "l \<le> r"
      using m by simp
    moreover have "m - 1 - l < n"
      using m Suc.prems(1,4) 3 by linarith
    ultimately show ?thesis
      using Suc.IH [of l "m - 1"] 3 m Suc.prems(1,3) search_step(2) [OF _ mid, of "rq_packet_seq (request_at reqs m0)" reqs n] by simp
  qed
qed simp

section \<open>Completing and adding\<close>

text \<open>The first request of the window, or one inside it; not the last of several.\<close>

lemma invalidate_first:
  assumes ok: "ring_ok reqs" and w: "window reqs = req # rest" "\<not> is_hole req"
  shows "\<exists>reqs'. pending_request_invalidate ndebug reqs 0 = Ok reqs' \<and> ring_ok reqs' \<and> window reqs' = rest \<and>
    pr_len reqs' = size_dec (pr_len reqs)"
proof -
  have t: "0 < total_len reqs"
    using arg_cong [OF w(1), of length] by simp
  have i: "index_of reqs 0 = pr_start reqs"
    using ok by (simp add: index_of_eq ring_ok_def)
  have req: "pr_reqs reqs ! pr_start reqs = req"
    using w(1) window_nth [OF t] i by (simp add: request_at_def)
  define reqs' where "reqs' = reqs\<lparr>pr_reqs := (pr_reqs reqs)[pr_start reqs := req\<lparr>rq_message := None\<rparr>],
    pr_start := next_index reqs (pr_start reqs), pr_len := size_dec (pr_len reqs)\<rparr>"
  have f: "pr_start reqs' = next_index reqs (pr_start reqs)" "pr_cap reqs' = pr_cap reqs"
    "pr_reqs reqs' = (pr_reqs reqs)[pr_start reqs := req\<lparr>rq_message := None\<rparr>]"
    by (simp_all add: reqs'_def)
  have inv: "pending_request_invalidate ndebug reqs 0 = Ok reqs'"
    using w(2) i req by (simp add: pending_request_invalidate_def Let_def reqs'_def)
  have ok': "ring_ok reqs'"
    using ok by (auto simp: ring_ok_def reqs'_def next_index_eq [OF ok])
  have total: "total_len reqs = Suc (total_len reqs')"
    using ok t by (auto simp: ring_ok_def reqs'_def total_len_def next_index_eq [OF ok])
  have "request_at reqs' j = request_at reqs (Suc j)" if "j < total_len reqs'" for j
  proof -
    have j: "Suc j < pr_cap reqs" "j < pr_cap reqs'"
      using that total total_len_less [OF ok] by (simp_all add: reqs'_def)
    have "index_of reqs' j = index_of reqs (Suc j)"
      using ok j by (auto simp: index_of_eq [OF ok'] index_of_eq [OF ok] f next_index_eq [OF ok] ring_ok_def)
    moreover have "index_of reqs (Suc j) \<noteq> pr_start reqs"
      using index_of_inj [OF ok j(1), of 0] i ok by (auto simp: ring_ok_def)
    ultimately show ?thesis
      by (simp add: request_at_def f)
  qed
  then have "window reqs' = tl (window reqs)"
    by (simp add: list_eq_iff_nth_eq total nth_tl)
  with inv ok' w(1) show ?thesis
    by (simp add: reqs'_def)
qed

lemma invalidate_inner:
  assumes ok: "ring_ok reqs" and m: "0 < m" "Suc m < total_len reqs" "\<not> is_hole (request_at reqs m)"
  shows "\<exists>reqs'. pending_request_invalidate ndebug reqs m = Ok reqs' \<and> ring_ok reqs' \<and>
    window reqs' = (window reqs)[m := (request_at reqs m)\<lparr>rq_message := None\<rparr>] \<and>
    pr_len reqs' = size_dec (pr_len reqs)"
proof -
  have cap: "Suc m < pr_cap reqs" "m < pr_cap reqs"
    using m total_len_less [OF ok] by simp_all
  have inner: "index_of reqs m \<noteq> pr_start reqs"
    using index_of_inj [OF ok cap(2), of 0] m(1) ok by (auto simp: index_of_eq ring_ok_def)
  have last: "next_index reqs (index_of reqs m) \<noteq> pr_end reqs"
    using ok m(2) cap index_of_less [OF ok, of m]
    by (auto simp: next_index_eq [OF ok] index_of_eq [OF ok] total_len_def ring_ok_def split: if_splits)
  define reqs' where "reqs' = reqs\<lparr>pr_reqs := (pr_reqs reqs)[index_of reqs m := (request_at reqs m)\<lparr>rq_message := None\<rparr>],
    pr_len := size_dec (pr_len reqs)\<rparr>"
  have inv: "pending_request_invalidate ndebug reqs m = Ok reqs'"
    using m(3) inner last by (simp add: pending_request_invalidate_def Let_def reqs'_def request_at_def)
  have ok': "ring_ok reqs'"
    using ok by (simp add: ring_ok_def reqs'_def)
  have total: "total_len reqs' = total_len reqs" and idx: "index_of reqs' = index_of reqs"
    by (simp_all add: total_len_def reqs'_def index_of_def fun_eq_iff)
  have "request_at reqs' j = (if j = m then (request_at reqs m)\<lparr>rq_message := None\<rparr> else request_at reqs j)"
    if "j < total_len reqs" for j
  proof -
    have "index_of reqs j = index_of reqs m \<longleftrightarrow> j = m"
      using that index_of_inj [OF ok _ cap(2), of j] total_len_less [OF ok] by auto
    moreover have "pr_reqs reqs' = (pr_reqs reqs)[index_of reqs m := (request_at reqs m)\<lparr>rq_message := None\<rparr>]"
      by (simp add: reqs'_def)
    ultimately show ?thesis
      using index_of_less [OF ok, of m] ok unfolding request_at_def [of reqs'] idx
      by (auto simp: nth_list_update ring_ok_def request_at_def)
  qed
  then have "window reqs' = (window reqs)[m := (request_at reqs m)\<lparr>rq_message := None\<rparr>]"
    by (simp add: list_eq_iff_nth_eq total nth_list_update)
  with inv ok' show ?thesis
    by (simp add: reqs'_def)
qed

lemma store_window:
  fixes req :: "'x dicey_request"
  assumes ok: "ring_ok reqs" and room: "Suc (total_len reqs) < pr_cap reqs"
  defines "reqs' \<equiv> snd (store_request reqs req)"
  shows "ring_ok reqs'" "window reqs' = window reqs @ [req]"
proof -
  have f: "pr_start reqs' = pr_start reqs" "pr_cap reqs' = pr_cap reqs" "pr_end reqs' = next_index reqs (pr_end reqs)"
    "pr_reqs reqs' = (pr_reqs reqs)[pr_end reqs := req]"
    by (simp_all add: reqs'_def store_request_def)
  show ok': "ring_ok reqs'"
    using ok by (auto simp: ring_ok_def f next_index_eq [OF ok])
  have total: "total_len reqs' = Suc (total_len reqs)"
    using ok room by (auto simp: total_len_def f next_index_eq [OF ok] ring_ok_def)
  have idx: "index_of reqs' = index_of reqs"
    by (simp add: index_of_def f fun_eq_iff)
  have last: "pr_end reqs = index_of reqs (total_len reqs)"
    using ok total_len_less [OF ok] by (auto simp: index_of_eq [OF ok] total_len_def ring_ok_def)
  have "request_at reqs' j = (if j = total_len reqs then req else request_at reqs j)" if "j < total_len reqs'" for j
  proof -
    have "index_of reqs j = pr_end reqs \<longleftrightarrow> j = total_len reqs"
      using that total room index_of_inj [OF ok, of j "total_len reqs"] unfolding last by auto
    then show ?thesis
      using ok unfolding request_at_def idx f by (auto simp: nth_list_update ring_ok_def)
  qed
  then show "window reqs' = window reqs @ [req]"
    by (simp add: list_eq_iff_nth_eq total nth_append)
qed

lemma valid_not_hole: "pending_request_is_valid req \<Longrightarrow> \<not> is_hole req"
  by (auto simp: pending_request_is_valid_def is_hole_def split: option.splits)

lemma pending_nonempty:
  assumes "pending_inv reqs" and "m < total_len reqs" and "pending_request_is_valid (request_at reqs m)"
  shows "pr_len reqs \<noteq> 0" "rq_packet_seq (request_at reqs m) \<noteq> 0"
proof -
  have "request_at reqs m \<in> set (window reqs)"
    using assms(2) nth_mem [of m "window reqs"] by simp
  then show "pr_len reqs \<noteq> 0" "rq_packet_seq (request_at reqs m) \<noteq> 0"
    using assms(1) valid_not_hole [OF assms(3)] by (auto simp: pending_inv_def filter_empty_conv list_all_iff)
qed

lemma search_pending:
  assumes "pending_inv reqs" and "m < total_len reqs" and "pending_request_is_valid (request_at reqs m)"
    and "total_len reqs \<le> n"
  shows "search_seq ndebug n reqs (rq_packet_seq (request_at reqs m)) = Ok (Some (Some m))"
proof -
  have "total_len reqs < 2 ^ 64"
    using assms(1) total_len_less [of reqs] by (simp add: pending_inv_def ring_ok_def)
  then have "size_dec (total_len reqs) = total_len reqs - 1"
    using assms(2) by (intro size_dec_pos) simp_all
  then show ?thesis
    using search_finds [OF assms(1-3), of 0 "total_len reqs - 1" n] pending_nonempty [OF assms(1-3)] assms(2,4)
    by (simp add: search_seq_def)
qed

lemma get_pending:
  assumes "pending_inv reqs" and "req \<in> set (window reqs)" and "pending_request_is_valid req" and "total_len reqs \<le> n"
  shows "dicey_pending_requests_get ndebug n (Some reqs) (rq_packet_seq req) = Ok (Some (Some req))"
proof -
  obtain m where m: "m < total_len reqs" "req = request_at reqs m"
    using assms(2) by (auto simp: in_set_conv_nth)
  then show ?thesis
    using search_pending [OF assms(1) m(1), of n ndebug] pending_nonempty(1) [OF assms(1) m(1)] assms(3,4)
    by (simp add: dicey_pending_requests_get_def)
qed

lemma filter_hole:
  assumes "m < length xs" and "P (xs ! m)" and "\<not> P y"
  shows "length (filter P xs) = Suc (length (filter P (xs[m := y])))"
proof -
  have "length (filter P (take m xs @ xs ! m # drop (Suc m) xs)) =
      Suc (length (filter P (take m xs @ y # drop (Suc m) xs)))"
    using assms(2,3) by simp
  then show ?thesis
    using assms(1) by (simp flip: id_take_nth_drop upd_conv_take_nth_drop)
qed

lemma pending_len_dec:
  assumes "pending_inv reqs" and "length (filter (\<lambda>r. \<not> is_hole r) (window reqs)) = Suc k"
  shows "size_dec (pr_len reqs) = k"
proof -
  have "pr_len reqs = Suc k" "ring_ok reqs"
    using assms by (simp_all add: pending_inv_def)
  moreover have "pr_len reqs \<le> total_len reqs"
    using assms(1) length_filter_le [of "\<lambda>r. \<not> is_hole r" "window reqs"] by (simp add: pending_inv_def)
  ultimately show ?thesis
    using total_len_less [of reqs] size_dec_pos [of "Suc k"] by (simp add: ring_ok_def)
qed

lemma update_keeps: "set xs - {xs ! m} \<subseteq> set (xs[m := y])"
proof
  fix x
  assume "x \<in> set xs - {xs ! m}"
  then obtain i where i: "i < length xs" "x = xs ! i" "i \<noteq> m"
    by (auto simp: in_set_conv_nth)
  then have "xs[m := y] ! i = x"
    by simp
  then show "x \<in> set (xs[m := y])"
    using i(1) nth_mem [of i "xs[m := y]"] by simp
qed

lemma complete_keeps_inv:
  assumes inv: "pending_inv reqs" and m: "m < total_len reqs" "m = 0 \<or> Suc m < total_len reqs"
    and valid: "pending_request_is_valid (request_at reqs m)"
  shows "\<exists>reqs'. pending_request_invalidate ndebug reqs m = Ok reqs' \<and> pending_inv reqs' \<and>
    total_len reqs' \<le> total_len reqs \<and> set (window reqs) - {request_at reqs m} \<subseteq> set (window reqs')"
proof -
  have ok: "ring_ok reqs" and sorted: "sorted_wrt (<) (map rq_packet_seq (window reqs))"
    and nz: "list_all (\<lambda>r. rq_packet_seq r \<noteq> 0) (window reqs)"
    using inv by (simp_all add: pending_inv_def)
  note hole = valid_not_hole [OF valid]
  show ?thesis
  proof (cases "m = 0")
    case True
    obtain rest where w: "window reqs = request_at reqs 0 # rest"
      using m(1) window_nth [of 0 reqs] length_window [of reqs] by (cases "window reqs") (auto simp: True)
    obtain reqs' where r: "pending_request_invalidate ndebug reqs 0 = Ok reqs'" "ring_ok reqs'" "window reqs' = rest"
      "pr_len reqs' = size_dec (pr_len reqs)"
      using invalidate_first [OF ok w, of ndebug] hole True by auto
    have "total_len reqs = Suc (total_len reqs')"
      using arg_cong [OF w, of length] arg_cong [OF r(3), of length] by simp
    then show ?thesis
      using r sorted nz w True hole pending_len_dec [OF inv, of "length (filter (\<lambda>r. \<not> is_hole r) rest)"]
      by (auto simp: pending_inv_def)
  next
    case False
    let ?h = "(request_at reqs m)\<lparr>rq_message := None\<rparr>"
    obtain reqs' where r: "pending_request_invalidate ndebug reqs m = Ok reqs'" "ring_ok reqs'"
      "window reqs' = (window reqs)[m := ?h]" "pr_len reqs' = size_dec (pr_len reqs)"
      using invalidate_inner [OF ok _ _ hole, of ndebug] False m(2) by auto
    have seqs: "map rq_packet_seq (window reqs') = map rq_packet_seq (window reqs)"
      using r(3) m(1) by (simp add: list_eq_iff_nth_eq nth_list_update)
    have "length (filter (\<lambda>r. \<not> is_hole r) (window reqs)) = Suc (length (filter (\<lambda>r. \<not> is_hole r) (window reqs')))"
      unfolding r(3) using m(1) hole by (intro filter_hole) (simp_all add: is_hole_def)
    then have len: "pr_len reqs' = length (filter (\<lambda>r. \<not> is_hole r) (window reqs'))"
      using pending_len_dec [OF inv] r(4) by simp
    have "rq_packet_seq ` set (window reqs') = rq_packet_seq ` set (window reqs)"
      using arg_cong [OF seqs, of set] by simp
    moreover have "0 \<notin> rq_packet_seq ` set (window reqs)"
      using nz by (force simp: list_all_iff)
    ultimately have "list_all (\<lambda>r. rq_packet_seq r \<noteq> 0) (window reqs')"
      unfolding list_all_iff by (metis imageI)
    then have "pending_inv reqs'"
      using r(2) len seqs sorted by (simp add: pending_inv_def)
    moreover have "set (window reqs) - {request_at reqs m} \<subseteq> set (window reqs')"
      unfolding r(3) using update_keeps [of "window reqs" m ?h] m(1) by simp
    moreover have "total_len reqs' = total_len reqs"
      using arg_cong [OF r(3), of length] by simp
    ultimately show ?thesis
      using r(1) by auto
  qed
qed

section \<open>Making room\<close>

text \<open>In place, compaction never moves anything away from the first cell but what was there.\<close>

lemma compact_in_place:
  assumes "i < cap" "s < cap" "i \<noteq> s" "length dest = cap" "(if i < s then s - i else s + cap - i) \<le> n"
    and "\<forall>j < cap. j \<noteq> s \<longrightarrow> dest ! j \<in> D"
  shows "\<exists>dest'. compact n None cap cap s i o' dest = Some dest' \<and> length dest' = cap \<and>
    (\<forall>j < cap. j \<noteq> s \<longrightarrow> dest' ! j \<in> D)"
  using assms
proof (induction n arbitrary: i o' dest)
  case (Suc n)
  define i' where "i' = (i + 1) mod cap"
  define d where "d = (if is_hole (dest ! i) then dest else dest[o' := dest ! i])"
  have at: "dest[o' := dest ! i] ! j = (if o' = j then dest ! i else dest ! j)" if "j < length dest" for j
    using that by (cases "o' = j") simp_all
  have d: "length d = cap" "\<forall>j < cap. j \<noteq> s \<longrightarrow> d ! j \<in> D"
    using Suc.prems by (auto simp: d_def at)
  have i': "i' = (if Suc i = cap then 0 else Suc i)" "i' < cap"
    using Suc.prems(1) by (simp_all add: i'_def)
  show ?case
  proof (cases "i' = s")
    case True
    then show ?thesis
      using d by (auto simp: Let_def i'_def [symmetric, simplified] d_def)
  next
    case False
    have "(if i' < s then s - i' else s + cap - i') \<le> n"
      using False i'(1) Suc.prems(1-3,5) by (auto split: if_splits)
    then show ?thesis
      using Suc.IH [OF i'(2) Suc.prems(2) False d(1) _ d(2)] False
      by (auto simp: Let_def i'_def [symmetric, simplified] d_def)
  qed
qed (auto split: if_splits)

lemma make_room_in_place:
  assumes ok: "ring_ok reqs" and full: "pr_start reqs = pr_end reqs" and len: "0 < pr_len reqs" "pr_len reqs < 2 ^ 50"
    and load: "pr_len reqs * 100 div pr_cap reqs \<le> 80" and first: "\<not> is_hole (pr_reqs reqs ! pr_start reqs)"
  shows "\<exists>cells. pending_requests_make_room alloc req_size reqs = Ok (False, reqs\<lparr>pr_reqs := cells\<rparr>) \<and>
    length cells = pr_cap reqs \<and>
    (\<forall>j < pr_cap reqs. j \<noteq> pr_start reqs \<longrightarrow> cells ! j \<in> {pr_reqs reqs ! k | k. k < pr_cap reqs \<and> k \<noteq> pr_start reqs})"
    (is "\<exists>cells. _ \<and> _ \<and> (\<forall>j < _. _ \<longrightarrow> cells ! j \<in> ?D)")
proof -
  let ?s = "pr_start reqs" and ?cap = "pr_cap reqs"
  have c: "0 < ?cap" "?s < ?cap" "length (pr_reqs reqs) = ?cap"
    using ok by (simp_all add: ring_ok_def)
  have occ: "(pr_len reqs * 100) mod 2 ^ 64 = pr_len reqs * 100"
    using len(2) by simp
  have step: "compact (Suc n) None ?cap ?cap ?s ?s ?s (pr_reqs reqs) =
      (let i' = (?s + 1) mod ?cap in
       if i' = ?s then Some (pr_reqs reqs) else compact n None ?cap ?cap ?s i' i' (pr_reqs reqs))" for n
    using first by (simp add: Let_def)
  obtain n where n: "?cap = Suc n"
    using c(1) gr0_implies_Suc by blast
  have "\<exists>cells. compact ?cap None ?cap ?cap ?s ?s ?s (pr_reqs reqs) = Some cells \<and> length cells = ?cap \<and>
      (\<forall>j < ?cap. j \<noteq> ?s \<longrightarrow> cells ! j \<in> ?D)"
  proof (cases "(?s + 1) mod ?cap = ?s")
    case True
    then show ?thesis
      using step [of n] n c(3) by (auto simp: Let_def)
  next
    case False
    have i: "(?s + 1) mod ?cap = (if Suc ?s = ?cap then 0 else Suc ?s)" "(?s + 1) mod ?cap < ?cap"
      using c(2) by simp_all
    have near: "(if (?s + 1) mod ?cap < ?s then ?s - (?s + 1) mod ?cap else ?s + ?cap - (?s + 1) mod ?cap) \<le> n"
      unfolding i(1) using c(2) n False i(1) by (auto split: if_splits)
    show ?thesis
      using compact_in_place [OF i(2) c(2) False c(3) near, of ?D] step [of n] False n by (auto simp: Let_def)
  qed
  then show ?thesis
    using occ load len(1) full by (auto simp: pending_requests_make_room_def Let_def)
qed

section \<open>A search that does not end\<close>

text \<open>
  On a full ring the window looks empty, and the search starts with the largest \<open>size_t\<close> as its right end.  Looking
  for the last of twelve requests it moves its left end down through the powers of two and stays at one.
\<close>

lemma pow2_mod12: "(2::nat) ^ k mod 12 \<in> {1, 2, 4, 8}"
proof (induction k)
  case (Suc k)
  have "(2::nat) ^ Suc k mod 12 = 2 * (2 ^ k mod 12) mod 12"
    by (simp add: mod_mult_right_eq)
  then show ?case
    using Suc by auto
qed simp

lemma pow2_index: "((2::nat) ^ k - 1) mod 12 \<noteq> 11"
proof -
  define q r :: nat where "q = 2 ^ k div 12" and "r = 2 ^ k mod 12"
  have "2 ^ k = 12 * q + r" "r \<in> {1, 2, 4, 8}"
    using pow2_mod12 [of k] by (simp_all add: q_def r_def)
  then have "(2::nat) ^ k - 1 = (r - 1) + 12 * q" "r - 1 < 11"
    by auto
  then show ?thesis
    by simp
qed

definition full_of :: "'x dicey_pending_requests \<Rightarrow> bool" where
  "full_of reqs \<longleftrightarrow> pr_cap reqs = 12 \<and> pr_start reqs = 0 \<and> pr_end reqs = 0 \<and> pr_len reqs = 12 \<and>
     map rq_packet_seq (pr_reqs reqs) = [2, 4, 6, 8, 10, 12, 14, 16, 18, 20, 22, 24]"

lemma full_of_less:
  assumes "full_of reqs" and "i mod 12 \<noteq> 11" and "i < 2 ^ 64"
  shows "rq_packet_seq (request_at reqs i) < 24"
proof -
  define j where "j = i mod 12"
  have seqs: "map rq_packet_seq (pr_reqs reqs) = [2, 4, 6, 8, 10, 12, 14, 16, 18, 20, 22, 24]"
    using assms(1) by (simp add: full_of_def)
  have "length (pr_reqs reqs) = 12"
    using arg_cong [OF seqs, of length] by simp
  moreover have "j < 12" "j \<noteq> 11"
    using assms(2) by (simp_all add: j_def)
  ultimately have "rq_packet_seq (pr_reqs reqs ! j) = [2, 4, 6, 8, 10, 12, 14, 16, 18, 20, 22, 24] ! j"
    using assms(1) nth_map [of j "pr_reqs reqs" rq_packet_seq] by (simp add: full_of_def)
  moreover have "[2, 4, 6, 8, 10, 12, 14, 16, 18, 20, 22, 24] ! j < (24 :: 32 word)"
  proof -
    let ?l = "[2, 4, 6, 8, 10, 12, 14, 16, 18, 20, 22, 24] :: 32 word list"
    have "list_all (\<lambda>s. s < 24) (take 11 ?l)"
      by simp
    then have "take 11 ?l ! j < 24"
      using \<open>j < 12\<close> \<open>j \<noteq> 11\<close> unfolding list_all_length by simp
    moreover have "take 11 ?l ! j = ?l ! j"
      using \<open>j < 12\<close> \<open>j \<noteq> 11\<close> by (intro nth_take) simp
    ultimately show ?thesis
      by simp
  qed
  ultimately have "rq_packet_seq (pr_reqs reqs ! j) < 24"
    by simp
  then show ?thesis
    using assms(1,3) by (simp add: request_at_def index_of_def full_of_def j_def)
qed

lemma search_stuck:
  assumes "full_of reqs" and "k \<le> 63"
  shows "search_loop n reqs 24 (2 ^ k) (2 ^ 64 - 1) = None"
  using assms(2)
proof (induction n arbitrary: k)
  case (Suc n)
  define m :: nat where "m = (2 ^ k - 1) div 2"
  have pow: "(2::nat) ^ k \<le> 2 ^ 63"
    using Suc.prems by (intro power_increasing) simp_all
  have mid: "(2 ^ k + (2 ^ 64 - 1)) mod 2 ^ 64 div 2 = m"
  proof -
    have "2 ^ k + (2 ^ 64 - 1) = (2 ^ k - 1) + (2 ^ 64 :: nat)"
      using one_le_power [of "2::nat" k] by simp
    moreover have "(2::nat) ^ k - 1 < 2 ^ 64"
      using pow by (simp add: less_le_trans)
    ultimately show ?thesis
      unfolding m_def by (simp only: mod_add_self2 mod_less)
  qed
  have half: "(2 * x - 1) div 2 = x - 1" for x :: nat
    by arith
  have m: "m = 2 ^ (k - 1) - 1"
    using half [of "2 ^ (k - 1)"] by (cases k) (simp_all add: m_def)
  have small: "m < 2 ^ 64"
    using pow by (simp add: m_def)
  have "rq_packet_seq (request_at reqs m) < 24"
    using full_of_less [OF assms(1) _ small] pow2_index [of "k - 1"] m by simp
  moreover have "(m + 1) mod 2 ^ 64 = 2 ^ (k - 1)"
  proof -
    have "m + 1 = 2 ^ (k - 1)"
      using one_le_power [of "2::nat" "k - 1"] m by simp
    moreover have "(2::nat) ^ (k - 1) < 2 ^ 64"
      using Suc.prems by (intro power_strict_increasing) simp_all
    ultimately show ?thesis
      by (simp only: mod_less)
  qed
  moreover have "(2::nat) ^ k \<le> 2 ^ 64 - 1"
    using pow by simp
  ultimately show ?case
    using Suc.IH [of "k - 1"] Suc.prems by (subst search_step(1) [OF _ mid]) simp_all
qed simp

end
