(* ===== verification/Pending_Properties.thy ===== *)
theory Pending_Properties
  imports Dicey_Pending_Facts
begin

text \<open>What the ring of pending requests guarantees, and where it fails.\<close>

section \<open>Sample rings\<close>

definition sample_request :: "32 word \<Rightarrow> unit dicey_request" where
  "sample_request seq =
     \<lparr>rq_packet_seq = seq, rq_op = DICEY_OP_GET,
      rq_message = Some \<lparr>msg_type = DICEY_OP_GET, msg_path = cs ''/p'',
        msg_selector = \<lparr>sel_trait = Some (cs ''t''), sel_elem = Some (cs ''e'')\<rparr>, msg_value = no_value\<rparr>,
      rq_rest = None\<rparr>"

definition two_pending :: "unit dicey_pending_requests" where
  "two_pending = \<lparr>pr_last_seq = 4, pr_start = 0, pr_end = 2, pr_len = 2, pr_cap = 12,
     pr_reqs = [sample_request 2, sample_request 4] @ replicate 10 zero_request\<rparr>"

lemma sample_request_valid [simp]: "pending_request_is_valid (sample_request seq)" "rq_packet_seq (sample_request seq) = seq"
  by (simp_all add: sample_request_def pending_request_is_valid_def dicey_selector_is_valid_def)

lemma two_pending_facts:
  "total_len two_pending = 2" "request_at two_pending 0 = sample_request 2" "request_at two_pending 1 = sample_request 4"
  "window two_pending = [sample_request 2, sample_request 4]" "pending_inv two_pending"
proof -
  show t: "total_len two_pending = 2" and r: "request_at two_pending 0 = sample_request 2"
    "request_at two_pending 1 = sample_request 4"
    by (simp_all add: two_pending_def total_len_def request_at_def index_of_def)
  show w: "window two_pending = [sample_request 2, sample_request 4]"
    using r by (simp add: window_def t upt_rec)
  show "pending_inv two_pending"
    by (simp add: pending_inv_def w ring_ok_def) (simp add: two_pending_def is_hole_def sample_request_def)
qed





text \<open>
  C35: when the ring has wrapped round to its start and at most four fifths of it are in use, a new request
  overwrites the oldest pending one: the ring is compacted in place but its end is not moved.  The add reports success,
  the length counts the lost request, and no cell holds it any more.
\<close>

theorem making_room_overwrites_the_oldest:
  assumes "ring_ok reqs" and "pr_start reqs = pr_end reqs" and "0 < pr_len reqs" and "pr_len reqs < 2 ^ 50"
    and "pr_len reqs * 100 div pr_cap reqs \<le> 80" and "pr_reqs reqs ! pr_start reqs = oldest" and "\<not> is_hole oldest"
    and "\<forall>k < pr_cap reqs. k \<noteq> pr_start reqs \<longrightarrow> rq_packet_seq (pr_reqs reqs ! k) \<noteq> rq_packet_seq oldest"
    and "pending_request_is_valid req" and "rq_packet_seq req = next_seq (pr_last_seq reqs)"
    and "rq_packet_seq req \<noteq> rq_packet_seq oldest"
  shows "\<exists>reqs'. dicey_pending_requests_add ndebug alloc req_size (Some reqs) req = Ok (Inr (pr_start reqs), Some reqs') \<and>
    pr_len reqs' = pr_len reqs + 1 \<and> pr_reqs reqs' ! pr_start reqs = req \<and>
    (\<forall>r \<in> set (pr_reqs reqs'). rq_packet_seq r \<noteq> rq_packet_seq oldest)"
proof -
  let ?r1 = "reqs\<lparr>pr_last_seq := rq_packet_seq req\<rparr>"
  have ok1: "ring_ok ?r1"
    using assms(1) by (simp add: ring_ok_def)
  obtain cells where cells: "pending_requests_make_room alloc req_size ?r1 = Ok (False, ?r1\<lparr>pr_reqs := cells\<rparr>)"
    "length cells = pr_cap reqs"
    "\<forall>j < pr_cap reqs. j \<noteq> pr_start reqs \<longrightarrow> cells ! j \<in> {pr_reqs reqs ! k | k. k < pr_cap reqs \<and> k \<noteq> pr_start reqs}"
    using make_room_in_place [OF ok1, of alloc req_size] assms(2-7) by auto
  define reqs' where "reqs' = snd (store_request (?r1\<lparr>pr_reqs := cells\<rparr>) req)"
  have f: "pr_reqs reqs' = cells[pr_start reqs := req]" "pr_len reqs' = pr_len reqs + 1"
    using assms(2,4) by (simp_all add: reqs'_def store_request_def)
  have start: "pr_start reqs < pr_cap reqs"
    using assms(1) by (simp add: ring_ok_def)
  have "rq_packet_seq r \<noteq> rq_packet_seq oldest" if "r \<in> set (pr_reqs reqs')" for r
  proof -
    obtain j where j: "j < pr_cap reqs" "r = cells[pr_start reqs := req] ! j"
      using \<open>r \<in> set (pr_reqs reqs')\<close> cells(2) unfolding f by (auto simp: in_set_conv_nth)
    show ?thesis
      using j cells(2,3) assms(8,11) start by (cases "j = pr_start reqs") auto
  qed
  moreover have "dicey_pending_requests_add ndebug alloc req_size (Some reqs) req = Ok (Inr (pr_start reqs), Some reqs')"
    using cells(1) assms(2,9,10)
    by (simp add: dicey_pending_requests_add_def validate_seqnum_def room_available_def Let_def reqs'_def store_request_def)
  ultimately show ?thesis
    using f cells(2) start by auto
qed

text \<open>Twelve requests of which the second to the fourth have been completed.\<close>

definition holed_ring :: "unit dicey_pending_requests" where
  "holed_ring = \<lparr>pr_last_seq = 24, pr_start = 0, pr_end = 0, pr_len = 9, pr_cap = 12,
     pr_reqs = sample_request 2 # map (\<lambda>s. (sample_request s)\<lparr>rq_message := None\<rparr>) [4, 6, 8] @
       map sample_request [10, 12, 14, 16, 18, 20, 22, 24]\<rparr>"

theorem making_room_overwrites_the_oldest_witness:
  "\<exists>reqs'. dicey_pending_requests_add False (\<lambda>_. True) 64 (Some holed_ring) (sample_request 26) = Ok (Inr 0, Some reqs') \<and>
    (\<forall>r \<in> set (pr_reqs reqs'). rq_packet_seq r \<noteq> 2)"
proof -
  have rest: "list_all (\<lambda>r. rq_packet_seq r \<noteq> 2) (tl (pr_reqs holed_ring))" and len: "length (pr_reqs holed_ring) = 12"
    by (simp_all add: holed_ring_def)
  have cell: "\<forall>k < 12. k \<noteq> 0 \<longrightarrow> rq_packet_seq (pr_reqs holed_ring ! k) \<noteq> 2"
  proof (intro allI impI)
    fix k :: nat
    assume k: "k < 12" "k \<noteq> 0"
    then have "tl (pr_reqs holed_ring) ! (k - 1) = pr_reqs holed_ring ! k"
      using len by (subst nth_tl) simp_all
    moreover have "rq_packet_seq (tl (pr_reqs holed_ring) ! (k - 1)) \<noteq> 2"
      using rest k len unfolding list_all_length by simp
    ultimately show "rq_packet_seq (pr_reqs holed_ring ! k) \<noteq> 2"
      by simp
  qed
  have simps: "pr_start holed_ring = 0" "pr_end holed_ring = 0" "pr_len holed_ring = 9" "pr_cap holed_ring = 12"
    "ring_ok holed_ring" "pr_reqs holed_ring ! 0 = sample_request 2" "\<not> is_hole (sample_request 2)"
    "pr_last_seq holed_ring = 24" "next_seq 24 = 26"
    by (simp_all add: holed_ring_def ring_ok_def is_hole_def sample_request_def next_seq_def)
  show ?thesis
    using making_room_overwrites_the_oldest [of holed_ring "sample_request 2" "sample_request 26" False "\<lambda>_. True" 64] cell simps(5,7)
    unfolding simps(1-4,6,8,9) by auto
qed

text \<open>
  C36: with twelve requests pending, the initial capacity, looking for the last one never returns: start and
  end coincide, the window looks empty and the search runs over the whole range of \<open>size_t\<close>.  Completing
  the last request hangs the server.
\<close>

theorem full_ring_search_never_returns:
  assumes "full_of reqs"
  shows "dicey_pending_requests_get ndebug n (Some reqs) 24 = Ok None \<and>
    dicey_pending_requests_complete ndebug n (Some reqs) 24 = Ok None"
proof -
  have "search_loop n reqs 24 0 (2 ^ 64 - 1) = None"
  proof (cases n)
    case (Suc m)
    have mid: "(0 + (2 ^ 64 - 1)) mod 2 ^ 64 div 2 = (2 ^ 63 - 1 :: nat)"
      by simp
    have "rq_packet_seq (request_at reqs (2 ^ 63 - 1)) < 24"
      using full_of_less [OF assms, of "2 ^ 63 - 1"] by simp
    then have "search_loop n reqs 24 0 (2 ^ 64 - 1) = search_loop m reqs 24 (2 ^ 63) (2 ^ 64 - 1)"
      unfolding Suc by (subst search_step(1) [OF _ mid]) simp_all
    then show ?thesis
      using search_stuck [OF assms, of 63 m] by simp
  qed simp
  moreover have "size_dec (total_len reqs) = 2 ^ 64 - 1" "pr_len reqs \<noteq> 0"
    using assms by (simp_all add: full_of_def total_len_def size_dec_def)
  ultimately show ?thesis
    by (simp add: dicey_pending_requests_get_def dicey_pending_requests_complete_def search_seq_def)
qed

fun add_requests :: "32 word list \<Rightarrow> unit dicey_pending_requests option \<Rightarrow> unit dicey_pending_requests option result" where
  "add_requests [] reqs = Ok reqs"
| "add_requests (s # ss) reqs =
     and_then (dicey_pending_requests_add False (\<lambda>_. True) 64 reqs (sample_request s)) (\<lambda>(_, reqs'). add_requests ss reqs')"

lemma cells12: "replicate 12 x = [x, x, x, x, x, x, x, x, x, x, x, x]"
  by (simp add: numeral_eq_Suc)

theorem full_ring_search_never_returns_witness:
  "\<exists>reqs. add_requests [2, 4, 6, 8, 10, 12, 14, 16, 18, 20, 22, 24] None = Ok (Some reqs) \<and>
     (\<forall>n. dicey_pending_requests_get False n (Some reqs) 24 = Ok None)"
proof -
  define reqs where "reqs = \<lparr>pr_last_seq = 24, pr_start = 0, pr_end = 0, pr_len = 12, pr_cap = 12,
    pr_reqs = map sample_request [2, 4, 6, 8, 10, 12, 14, 16, 18, 20, 22, 24]\<rparr>"
  have "add_requests [2, 4, 6, 8, 10, 12, 14, 16, 18, 20, 22, 24] None = Ok (Some reqs)"
    by (simp add: reqs_def dicey_pending_requests_add_def validate_seqnum_def pending_requests_new_def store_request_def
        room_available_def FIRST_SEQ_def STARTING_CAP_def next_index_def next_seq_def Let_def cells12
        upd_conv_take_nth_drop)
  moreover have "full_of reqs"
    by (simp add: full_of_def reqs_def)
  ultimately show ?thesis
    using full_ring_search_never_returns [of reqs False] by blast
qed

end
