(* ===== verification/Dicey_Traits.thy ===== *)
theory Dicey_Traits
  imports Dicey_Typedescr Dicey_Hashset
begin

text \<open>
  Traits and their elements: \<^verbatim>\<open>src/ipc/server/traits.c\<close> and \<^verbatim>\<open>include/dicey/ipc/traits.h\<close>.  A call that
  reports an error keeps what it has changed, so operations return the error code with the new state.
\<close>

section \<open>Elements and traits\<close>

datatype dicey_element_type =
  DICEY_ELEMENT_TYPE_INVALID
| DICEY_ELEMENT_TYPE_OPERATION
| DICEY_ELEMENT_TYPE_PROPERTY
| DICEY_ELEMENT_TYPE_SIGNAL

record dicey_element =
  el_type :: dicey_element_type
  el_signature :: cstring
  el_flags :: int
  el_tag :: nat

record dicey_element_entry =
  ee_trait :: cstring
  ee_elem :: cstring
  ee_element :: dicey_element

record dicey_trait =
  trait_name :: cstring
  trait_elems :: "dicey_element dicey_hashtable option"

definition sizeof_element :: nat where "sizeof_element = 32"

definition sizeof_trait :: nat where "sizeof_trait = 16"

text \<open>\<open>strdup\<close> of a string that is not null.\<close>

definition strdup_ok :: "(nat \<Rightarrow> bool) \<Rightarrow> cstring \<Rightarrow> bool" where
  "strdup_ok alloc s \<longleftrightarrow> alloc (length s + 1)"

definition elem_dup :: "(nat \<Rightarrow> bool) \<Rightarrow> dicey_element \<Rightarrow> dicey_element option" where
  "elem_dup alloc elem =
     (if \<not> alloc sizeof_element then None
      else if \<not> strdup_ok alloc (el_signature elem) then None
      else Some elem)"

fun dicey_element_type_name :: "bool \<Rightarrow> dicey_element_type \<Rightarrow> cstring result" where
  "dicey_element_type_name ndebug DICEY_ELEMENT_TYPE_OPERATION = Ok (cs ''operation'')"
| "dicey_element_type_name ndebug DICEY_ELEMENT_TYPE_PROPERTY = Ok (cs ''property'')"
| "dicey_element_type_name ndebug DICEY_ELEMENT_TYPE_SIGNAL = Ok (cs ''signal'')"
| "dicey_element_type_name ndebug DICEY_ELEMENT_TYPE_INVALID = c_assert ndebug False (Ok (cs ''>>invalid<<''))"

section \<open>Operations\<close>

definition is_functional :: "dicey_typedescr \<Rightarrow> bool" where
  "is_functional descr = (case descr of DICEY_TYPEDESCR_VALUE _ \<Rightarrow> False | DICEY_TYPEDESCR_FUNCTIONAL _ _ \<Rightarrow> True)"

definition dicey_trait_add_element ::
  "bool \<Rightarrow> (nat \<Rightarrow> bool) \<Rightarrow> dicey_trait \<Rightarrow> cstring \<Rightarrow> dicey_element \<Rightarrow> (dicey_error \<times> dicey_trait) result"
where
  "dicey_trait_add_element ndebug alloc trait name elem =
     c_assert ndebug (el_signature elem \<noteq> [] \<and> el_type elem \<noteq> DICEY_ELEMENT_TYPE_INVALID)
       (and_then (dicey_typedescr_parse (el_signature elem)) (\<lambda>parsed.
          case parsed of
            None \<Rightarrow> Ok (DICEY_ESIGNATURE_MALFORMED, trait)
          | Some descr \<Rightarrow>
              if (el_type elem = DICEY_ELEMENT_TYPE_OPERATION) \<noteq> is_functional descr
              then Ok (DICEY_ESIGNATURE_MISMATCH, trait)
              else
                and_then (dicey_hashtable_contains (trait_elems trait) (Some name)) (\<lambda>present.
                  if present then Ok (DICEY_EINVAL, trait)
                  else
                    (case elem_dup alloc elem of
                       None \<Rightarrow> Ok (DICEY_ENOMEM, trait)
                     | Some elem_val \<Rightarrow>
                         and_then (set_object alloc (trait_elems trait) name elem_val) (\<lambda>(res, elems).
                           case res of
                             DICEY_HASH_SET_FAILED \<Rightarrow> Ok (DICEY_ENOMEM, trait\<lparr>trait_elems := elems\<rparr>)
                           | DICEY_HASH_SET_UPDATED \<Rightarrow>
                               c_assert ndebug False (Ok (DICEY_EINVAL, trait\<lparr>trait_elems := elems\<rparr>))
                           | DICEY_HASH_SET_ADDED \<Rightarrow> Ok (DICEY_OK, trait\<lparr>trait_elems := elems\<rparr>))))))"

text \<open>\<open>dicey_trait_delete\<close> asserts that the trait has a table of elements before it releases it.\<close>

definition dicey_trait_delete :: "bool \<Rightarrow> dicey_trait option \<Rightarrow> unit result" where
  "dicey_trait_delete ndebug trait =
     (case trait of
        None \<Rightarrow> Ok ()
      | Some t \<Rightarrow> c_assert ndebug (trait_elems t \<noteq> None) (Ok ()))"

definition dicey_trait_get_element :: "bool \<Rightarrow> dicey_trait \<Rightarrow> cstring \<Rightarrow> dicey_element option result" where
  "dicey_trait_get_element ndebug trait name =
     c_assert ndebug (name \<noteq> []) (dicey_hashtable_get (trait_elems trait) (Some name))"

definition dicey_trait_contains_element :: "bool \<Rightarrow> dicey_trait \<Rightarrow> cstring \<Rightarrow> bool result" where
  "dicey_trait_contains_element ndebug trait name =
     c_assert ndebug (name \<noteq> []) (and_then (dicey_trait_get_element ndebug trait name) (\<lambda>e. Ok (e \<noteq> None)))"

definition dicey_trait_get_element_entry ::
  "bool \<Rightarrow> dicey_trait \<Rightarrow> cstring \<Rightarrow> dicey_element_entry option result"
where
  "dicey_trait_get_element_entry ndebug trait name =
     c_assert ndebug (name \<noteq> [])
       (and_then (dicey_hashtable_get_entry (trait_elems trait) (Some name)) (\<lambda>found.
          case found of
            Some (key, Some element) \<Rightarrow>
              Ok (Some \<lparr>ee_trait = trait_name trait, ee_elem = key, ee_element = element\<rparr>)
          | _ \<Rightarrow> Ok None))"

definition dicey_trait_new :: "bool \<Rightarrow> (nat \<Rightarrow> bool) \<Rightarrow> cstring \<Rightarrow> dicey_trait option result" where
  "dicey_trait_new ndebug alloc name =
     c_assert ndebug (name \<noteq> [])
       (if \<not> strdup_ok alloc name then Ok None
        else if \<not> alloc sizeof_trait then Ok None
        else Ok (Some \<lparr>trait_name = name, trait_elems = None\<rparr>))"

definition dicey_trait_iter_start :: "dicey_trait option \<Rightarrow> nat option" where
  "dicey_trait_iter_start trait = dicey_hashtable_iter_start (Option.bind trait trait_elems)"

definition dicey_trait_iter_next ::
  "dicey_trait \<Rightarrow> nat option \<Rightarrow> ((cstring \<times> dicey_element) option \<times> nat option) result"
where
  "dicey_trait_iter_next trait cur =
     (case dicey_hashtable_iter_next (trait_elems trait) cur of
        (None, cur') \<Rightarrow> Ok (None, cur')
      | (Some (name, Some elem), cur') \<Rightarrow> Ok (Some (name, elem), cur')
      | (Some (name, None), cur') \<Rightarrow> Undef)"

section \<open>Facts\<close>

text \<open>
  A trait is well formed when its table is, and every element has a signature of the kind its type
  asks for.
\<close>

definition element_ok :: "dicey_element \<Rightarrow> bool" where
  "element_ok e \<longleftrightarrow>
     (\<exists>d. dicey_typedescr_parse (el_signature e) = Ok (Some d) \<and>
          (el_type e = DICEY_ELEMENT_TYPE_OPERATION \<longleftrightarrow> is_functional d))"

definition trait_ok :: "dicey_trait \<Rightarrow> bool" where
  "trait_ok t \<longleftrightarrow> objects_ok (trait_elems t) \<and> (\<forall>e \<in> ran (objects (trait_elems t)). element_ok e)"

lemma contains_objects: "objects_ok t \<Longrightarrow> dicey_hashtable_contains t (Some k) = Ok (objects t k \<noteq> None)"
  using hashtable_contains_map [of t k] by (auto simp: objects_ok_def objects_def split: option.splits)

lemma lookup_objects: "objects_ok t \<Longrightarrow> dicey_hashtable_get t (Some k) = Ok (objects t k)"
  using ht.lookup_content [of t k] by (simp add: get_object_def)

lemma get_entry_objects:
  assumes "objects_ok t"
  shows "\<exists>r. dicey_hashtable_get_entry t (Some k) = Ok r \<and>
    (case objects t k of None \<Rightarrow> r = None | Some v \<Rightarrow> r = Some (k, Some v))"
proof -
  have inv: "table_inv t" and nn: "table_map t k \<noteq> Some None"
    using assms by (simp_all add: objects_ok_def)
  show ?thesis
    using get_entry_map [OF inv, of k] nn
    by (auto simp: dicey_hashtable_get_entry_def objects_def split: option.splits)
qed

lemma set_objects:
  assumes "objects_ok t"
  obtains res t' where "set_object alloc t k v = Ok (res, t')" "objects_ok t'"
    "objects t' = (if res = DICEY_HASH_SET_FAILED then objects t else (objects t)(k \<mapsto> v))"
    "objects t k = None \<longrightarrow> res \<noteq> DICEY_HASH_SET_UPDATED" "objects t k \<noteq> None \<longrightarrow> res \<noteq> DICEY_HASH_SET_ADDED"
proof -
  obtain res t' where "set_object alloc t k v = Ok (res, t')"
    using ht.store_content [OF assms, of alloc k v] by blast
  then show thesis
    using ht.store_OkD [OF assms, of alloc k v res t'] by (intro that) auto
qed

lemma trait_ok_new: "trait_ok \<lparr>trait_name = n, trait_elems = None\<rparr>"
  by (simp add: trait_ok_def ran_def)

text \<open>Adding an element either refuses and leaves the elements as they were, or adds exactly that one.\<close>

lemma trait_add_element_spec:
  assumes ok: "trait_ok t" and pre: "el_signature e \<noteq> []" "el_type e \<noteq> DICEY_ELEMENT_TYPE_INVALID"
    and parsed: "dicey_typedescr_parse (el_signature e) = Ok parsed"
  shows "\<exists>err t'. dicey_trait_add_element ndebug alloc t name e = Ok (err, t') \<and> trait_ok t' \<and>
    trait_name t' = trait_name t \<and>
    (if err = DICEY_OK
     then element_ok e \<and> objects (trait_elems t) name = None \<and>
          objects (trait_elems t') = (objects (trait_elems t))(name \<mapsto> e)
     else objects (trait_elems t') = objects (trait_elems t))"
proof -
  have elems: "objects_ok (trait_elems t)"
    using ok by (simp add: trait_ok_def)
  show ?thesis
  proof (cases "element_ok e \<and> objects (trait_elems t) name = None \<and> elem_dup alloc e \<noteq> None")
    case True
    then obtain d where d: "parsed = Some d" "el_type e = DICEY_ELEMENT_TYPE_OPERATION \<longleftrightarrow> is_functional d"
      using parsed by (auto simp: element_ok_def)
    obtain e' where "elem_dup alloc e = Some e'"
      using True by blast
    then have dup: "elem_dup alloc e = Some e"
      by (simp add: elem_dup_def split: if_splits)
    obtain res u where set: "set_object alloc (trait_elems t) name e = Ok (res, u)" "objects_ok u"
      "objects u = (if res = DICEY_HASH_SET_FAILED then objects (trait_elems t) else (objects (trait_elems t))(name \<mapsto> e))"
      "objects (trait_elems t) name = None \<longrightarrow> res \<noteq> DICEY_HASH_SET_UPDATED"
      by (rule set_objects [OF elems])
    have ok': "trait_ok (t\<lparr>trait_elems := u\<rparr>)"
      using ok set(2,3) True by (auto simp: trait_ok_def ran_def split: if_splits)
    show ?thesis
      using set ok' True pre parsed d dup contains_objects [OF elems, of name]
      by (cases res) (simp_all add: dicey_trait_add_element_def)
  next
    case False
    have "\<exists>err. dicey_trait_add_element ndebug alloc t name e = Ok (err, t) \<and> err \<noteq> DICEY_OK"
      using False pre parsed contains_objects [OF elems, of name]
      by (auto simp: dicey_trait_add_element_def element_ok_def split: option.splits)
    then show ?thesis
      using ok by auto
  qed
qed

lemma trait_get_element_objects:
  "trait_ok t \<Longrightarrow> name \<noteq> [] \<Longrightarrow> dicey_trait_get_element ndebug t name = Ok (objects (trait_elems t) name)"
  by (simp add: dicey_trait_get_element_def trait_ok_def lookup_objects)

lemma trait_get_entry_objects:
  assumes "trait_ok t" and "name \<noteq> []"
  shows "dicey_trait_get_element_entry ndebug t name =
    Ok (map_option (\<lambda>e. \<lparr>ee_trait = trait_name t, ee_elem = name, ee_element = e\<rparr>) (objects (trait_elems t) name))"
  using get_entry_objects [of "trait_elems t" name] assms
  by (auto simp: dicey_trait_get_element_entry_def trait_ok_def split: option.splits)

end
