(* ===== verification/Dicey_Registry.thy ===== *)
theory Dicey_Registry
  imports Dicey_Traits
begin

text \<open>
  The registry of objects and traits: \<^verbatim>\<open>src/ipc/server/registry.c\<close> and \<^verbatim>\<open>registry-internal.h\<close>.

  Objects are shared between their paths, so the registry carries the memory of objects and traits, where
  released ones are \<open>None\<close>, and the tables hold their addresses.  The main path of an object is a pointer to the
  key of the table of paths, which goes when the path is removed (\<open>FreedKey\<close>).  Reading what was released
  is \<open>Undef\<close>.  Operations return the error code with the new registry.
\<close>

section \<open>State\<close>

datatype key_ptr = NullKey | Key cstring | FreedKey

record dicey_object =
  ob_traits :: dicey_hashset
  ob_main_path :: key_ptr
  ob_aliases :: dicey_hashset
  ob_cached_xml :: "cstring option"
  ob_refcount :: int

text \<open>\<open>rg_buffer\<close> is the length of the scratchpad, \<open>rg_next\<close> the next address the allocator hands out.\<close>

record dicey_registry =
  rg_paths :: "nat dicey_hashtable option"
  rg_traits :: "nat dicey_hashtable option"
  rg_buffer :: nat
  rg_objects :: "nat \<Rightarrow> dicey_object option"
  rg_trait_mem :: "nat \<Rightarrow> dicey_trait option"
  rg_next :: nat

definition empty_registry :: dicey_registry where
  "empty_registry = \<lparr>rg_paths = None, rg_traits = None, rg_buffer = 0, rg_objects = Map.empty,
     rg_trait_mem = Map.empty, rg_next = 0\<rparr>"

definition DICEY_REGISTRY_TRAITS_PATH :: cstring where
  "DICEY_REGISTRY_TRAITS_PATH = cs ''/dicey/registry/traits''"

definition DICEY_INTROSPECTION_TRAIT_NAME :: cstring where
  "DICEY_INTROSPECTION_TRAIT_NAME = cs ''dicey.Introspection''"

definition DICEY_TRAIT_TRAIT_NAME :: cstring where
  "DICEY_TRAIT_TRAIT_NAME = cs ''dicey.Trait''"

definition METATRAIT_FORMAT :: "cstring \<Rightarrow> cstring" where
  "METATRAIT_FORMAT name = DICEY_REGISTRY_TRAITS_PATH @ cs ''/'' @ name"

definition sizeof_object :: nat where "sizeof_object = 40"

definition obj_at :: "dicey_registry \<Rightarrow> nat \<Rightarrow> dicey_object result" where
  "obj_at reg o1 = (case rg_objects reg o1 of None \<Rightarrow> Undef | Some ob \<Rightarrow> Ok ob)"

definition put_obj :: "dicey_registry \<Rightarrow> nat \<Rightarrow> dicey_object \<Rightarrow> dicey_registry" where
  "put_obj reg o1 ob = reg\<lparr>rg_objects := (rg_objects reg)(o1 \<mapsto> ob)\<rparr>"

definition trait_at :: "dicey_registry \<Rightarrow> nat \<Rightarrow> dicey_trait result" where
  "trait_at reg t = (case rg_trait_mem reg t of None \<Rightarrow> Undef | Some tr \<Rightarrow> Ok tr)"

definition key_str :: "key_ptr \<Rightarrow> cstring result" where
  "key_str k = (case k of Key s \<Rightarrow> Ok s | _ \<Rightarrow> Undef)"

text \<open>The key of a removed path is released: whoever points to it is left with a dangling pointer.\<close>

definition drop_key :: "cstring \<Rightarrow> dicey_object \<Rightarrow> dicey_object" where
  "drop_key path ob = (if ob_main_path ob = Key path then ob\<lparr>ob_main_path := FreedKey\<rparr> else ob)"

definition set_paths :: "dicey_registry \<Rightarrow> cstring \<Rightarrow> nat dicey_hashtable option \<Rightarrow> dicey_registry" where
  "set_paths reg path paths =
     reg\<lparr>rg_paths := paths, rg_objects := (\<lambda>o1. map_option (drop_key path) (rg_objects reg o1))\<rparr>"

text \<open>The strings that the loop \<open>while (dicey_hashset_iter_next(\<dots>))\<close> visits.\<close>

definition visited :: "dicey_hashset \<Rightarrow> nat option \<Rightarrow> cstring list" where
  "visited s cur = map fst (iterate_table (Suc (case s of None \<Rightarrow> 0 | Some t \<Rightarrow> ht_cap t)) s cur)"

section \<open>Objects\<close>

definition object_ref :: "bool \<Rightarrow> dicey_registry \<Rightarrow> nat \<Rightarrow> dicey_registry result" where
  "object_ref ndebug reg o1 =
     and_then (obj_at reg o1) (\<lambda>ob.
       c_assert ndebug (0 < ob_refcount ob) (Ok (put_obj reg o1 (ob\<lparr>ob_refcount := ob_refcount ob + 1\<rparr>))))"

definition object_deref :: "bool \<Rightarrow> dicey_registry \<Rightarrow> nat option \<Rightarrow> dicey_registry result" where
  "object_deref ndebug reg ptr =
     (case ptr of
        None \<Rightarrow> Ok reg
      | Some o1 \<Rightarrow>
          and_then (obj_at reg o1) (\<lambda>ob.
            c_assert ndebug (0 < ob_refcount ob)
              (if ob_refcount ob - 1 \<le> 0 then Ok (reg\<lparr>rg_objects := (rg_objects reg)(o1 := None)\<rparr>)
               else Ok (put_obj reg o1 (ob\<lparr>ob_refcount := ob_refcount ob - 1\<rparr>)))))"

definition object_new_with ::
  "(nat \<Rightarrow> bool) \<Rightarrow> dicey_registry \<Rightarrow> dicey_hashset \<Rightarrow> (nat option \<times> dicey_registry) result"
where
  "object_new_with alloc reg traits =
     (if \<not> alloc sizeof_object then Ok (None, reg)
      else
        and_then (dicey_hashset_add alloc traits DICEY_INTROSPECTION_TRAIT_NAME) (\<lambda>(res, traits').
          if res = DICEY_HASH_SET_FAILED then Ok (None, reg)
          else
            Ok (Some (rg_next reg),
                (put_obj reg (rg_next reg)
                   \<lparr>ob_traits = traits', ob_main_path = NullKey, ob_aliases = None, ob_cached_xml = None,
                    ob_refcount = 1\<rparr>)\<lparr>rg_next := Suc (rg_next reg)\<rparr>)))"

definition object_new :: "(nat \<Rightarrow> bool) \<Rightarrow> dicey_registry \<Rightarrow> (nat option \<times> dicey_registry) result" where
  "object_new alloc reg = object_new_with alloc reg None"

definition path_is_valid :: "cstring \<Rightarrow> bool" where
  "path_is_valid path = (case path of [] \<Rightarrow> False | c # _ \<Rightarrow> c = 47 \<and> last path \<noteq> 47)"

definition dicey_object_has_alias :: "dicey_object \<Rightarrow> cstring \<Rightarrow> bool result" where
  "dicey_object_has_alias object alias = dicey_hashset_contains (ob_aliases object) alias"

definition dicey_object_implements :: "bool \<Rightarrow> dicey_object \<Rightarrow> cstring \<Rightarrow> bool result" where
  "dicey_object_implements ndebug object trait =
     c_assert ndebug (ob_traits object \<noteq> None) (dicey_hashset_contains (ob_traits object) trait)"

section \<open>Lookups\<close>

definition registry_get_object_entry ::
  "dicey_registry \<Rightarrow> cstring \<Rightarrow> (dicey_error + cstring \<times> nat) result"
where
  "registry_get_object_entry reg path =
     (if \<not> path_is_valid path then Ok (Inl DICEY_EPATH_MALFORMED)
      else
        and_then (dicey_hashtable_get_entry (rg_paths reg) (Some path)) (\<lambda>found.
          case found of
            Some (key, Some o1) \<Rightarrow> Ok (Inr (key, o1))
          | _ \<Rightarrow> Ok (Inl DICEY_EPATH_NOT_FOUND)))"

definition registry_trait_exists :: "dicey_registry \<Rightarrow> cstring \<Rightarrow> bool result" where
  "registry_trait_exists reg trait = dicey_hashtable_contains (rg_traits reg) (Some trait)"

definition dicey_registry_get_object_entry ::
  "bool \<Rightarrow> dicey_registry \<Rightarrow> cstring \<Rightarrow> (cstring \<times> nat) option result"
where
  "dicey_registry_get_object_entry ndebug reg path =
     and_then (registry_get_object_entry reg path) (\<lambda>r.
       case r of
         Inl err \<Rightarrow> Ok None
       | Inr (key, o1) \<Rightarrow> c_assert ndebug (key = path) (Ok (Some (key, o1))))"

definition dicey_registry_get_object :: "bool \<Rightarrow> dicey_registry \<Rightarrow> cstring \<Rightarrow> nat option result" where
  "dicey_registry_get_object ndebug reg path =
     and_then (dicey_registry_get_object_entry ndebug reg path) (\<lambda>e. Ok (map_option snd e))"

definition dicey_registry_get_object_mut :: "dicey_registry \<Rightarrow> cstring \<Rightarrow> nat option result" where
  "dicey_registry_get_object_mut reg path =
     (if \<not> path_is_valid path then Ok None else dicey_hashtable_get (rg_paths reg) (Some path))"

definition dicey_registry_contains_object :: "bool \<Rightarrow> dicey_registry \<Rightarrow> cstring \<Rightarrow> bool result" where
  "dicey_registry_contains_object ndebug reg path =
     and_then (dicey_registry_get_object ndebug reg path) (\<lambda>o1. Ok (o1 \<noteq> None))"

definition dicey_registry_contains_trait :: "dicey_registry \<Rightarrow> cstring \<Rightarrow> bool result" where
  "dicey_registry_contains_trait reg name = registry_trait_exists reg name"

definition dicey_registry_get_main_path :: "bool \<Rightarrow> dicey_registry \<Rightarrow> cstring \<Rightarrow> key_ptr result" where
  "dicey_registry_get_main_path ndebug reg path =
     and_then (dicey_registry_get_object ndebug reg path) (\<lambda>found.
       case found of
         None \<Rightarrow> Ok NullKey
       | Some o1 \<Rightarrow> and_then (obj_at reg o1) (\<lambda>ob. Ok (ob_main_path ob)))"

definition dicey_registry_get_trait :: "dicey_registry \<Rightarrow> cstring \<Rightarrow> nat option result" where
  "dicey_registry_get_trait reg name = dicey_hashtable_get (rg_traits reg) (Some name)"

record dicey_object_element_entry =
  oe_main_path :: key_ptr
  oe_trait :: cstring
  oe_elem :: cstring
  oe_element :: dicey_element

definition dicey_registry_get_element_entry ::
  "bool \<Rightarrow> dicey_registry \<Rightarrow> cstring \<Rightarrow> cstring \<Rightarrow> cstring \<Rightarrow> dicey_object_element_entry option result"
where
  "dicey_registry_get_element_entry ndebug reg path trait elem =
     and_then (registry_get_object_entry reg path) (\<lambda>r.
       case r of
         Inl err \<Rightarrow> Ok None
       | Inr (key, o1) \<Rightarrow>
           c_assert ndebug (key = path)
             (and_then (obj_at reg o1) (\<lambda>ob.
              and_then (dicey_object_implements ndebug ob trait) (\<lambda>implements.
                if \<not> implements then Ok None
                else
                  and_then (dicey_registry_get_trait reg trait) (\<lambda>found.
                    case found of
                      None \<Rightarrow> Ok None
                    | Some t \<Rightarrow>
                        and_then (trait_at reg t) (\<lambda>tr.
                        and_then (dicey_trait_get_element_entry ndebug tr elem) (\<lambda>entry.
                          case entry of
                            None \<Rightarrow> Ok None
                          | Some e \<Rightarrow>
                              Ok (Some \<lparr>oe_main_path = ob_main_path ob, oe_trait = ee_trait e,
                                        oe_elem = ee_elem e, oe_element = ee_element e\<rparr>))))))))"

definition dicey_object_element_entry_to_element_entry :: "dicey_object_element_entry \<Rightarrow> dicey_element_entry" where
  "dicey_object_element_entry_to_element_entry entry =
     \<lparr>ee_trait = oe_trait entry, ee_elem = oe_elem entry, ee_element = oe_element entry\<rparr>"

definition dicey_registry_get_element ::
  "bool \<Rightarrow> dicey_registry \<Rightarrow> cstring \<Rightarrow> cstring \<Rightarrow> cstring \<Rightarrow> dicey_element option result"
where
  "dicey_registry_get_element ndebug reg path trait elem =
     and_then (dicey_registry_get_element_entry ndebug reg path trait elem) (\<lambda>e. Ok (map_option oe_element e))"

definition dicey_registry_contains_element ::
  "bool \<Rightarrow> dicey_registry \<Rightarrow> cstring \<Rightarrow> cstring \<Rightarrow> cstring \<Rightarrow> bool result"
where
  "dicey_registry_contains_element ndebug reg path trait elem =
     and_then (dicey_registry_get_element ndebug reg path trait elem) (\<lambda>e. Ok (e \<noteq> None))"

definition dicey_registry_is_alias :: "bool \<Rightarrow> dicey_registry \<Rightarrow> cstring \<Rightarrow> dicey_error result" where
  "dicey_registry_is_alias ndebug reg path =
     (if \<not> path_is_valid path then Ok DICEY_EPATH_MALFORMED
      else
        and_then (dicey_registry_get_object ndebug reg path) (\<lambda>found.
          case found of
            None \<Rightarrow> Ok DICEY_EPATH_NOT_FOUND
          | Some o1 \<Rightarrow>
              and_then (obj_at reg o1) (\<lambda>ob.
                c_assert ndebug (ob_main_path ob \<noteq> NullKey)
                  (and_then (key_str (ob_main_path ob)) (\<lambda>main.
                     Ok (if main \<noteq> path then DICEY_OK else DICEY_EPATH_NOT_ALIAS))))))"

definition dicey_registry_get_element_from_sel ::
  "bool \<Rightarrow> dicey_registry \<Rightarrow> cstring \<Rightarrow> cstring \<times> cstring \<Rightarrow> dicey_element option result"
where
  "dicey_registry_get_element_from_sel ndebug reg path sel = dicey_registry_get_element ndebug reg path (fst sel) (snd sel)"

definition dicey_registry_get_element_entry_from_sel ::
  "bool \<Rightarrow> dicey_registry \<Rightarrow> cstring \<Rightarrow> cstring \<times> cstring \<Rightarrow> dicey_object_element_entry option result"
where
  "dicey_registry_get_element_entry_from_sel ndebug reg path sel =
     dicey_registry_get_element_entry ndebug reg path (fst sel) (snd sel)"

section \<open>Adding objects\<close>

definition registry_add_object ::
  "bool \<Rightarrow> (nat \<Rightarrow> bool) \<Rightarrow> dicey_registry \<Rightarrow> cstring \<Rightarrow> nat \<Rightarrow> (dicey_error \<times> dicey_registry) result"
where
  "registry_add_object ndebug alloc reg path o1 =
     and_then (set_object alloc (rg_paths reg) path o1) (\<lambda>(res, paths).
       let reg' = reg\<lparr>rg_paths := paths\<rparr> in
       case res of
         DICEY_HASH_SET_FAILED \<Rightarrow> Ok (DICEY_ENOMEM, reg')
       | DICEY_HASH_SET_UPDATED \<Rightarrow> c_assert ndebug False (Ok (DICEY_OK, reg'))
       | DICEY_HASH_SET_ADDED \<Rightarrow>
           and_then (obj_at reg' o1) (\<lambda>ob.
             if ob_main_path ob \<noteq> NullKey then Ok (DICEY_OK, reg')
             else
               and_then (registry_get_object_entry reg' path) (\<lambda>r.
                 case r of
                   Inl err \<Rightarrow> c_assert ndebug False (Ok (DICEY_OK, reg'))
                 | Inr (key, _) \<Rightarrow> Ok (DICEY_OK, put_obj reg' o1 (ob\<lparr>ob_main_path := Key key\<rparr>)))))"

fun add_object_traits ::
  "(nat \<Rightarrow> bool) \<Rightarrow> dicey_registry \<Rightarrow> nat \<Rightarrow> cstring list \<Rightarrow> (dicey_error \<times> dicey_registry) result"
where
  "add_object_traits alloc reg o1 [] = Ok (DICEY_OK, reg)"
| "add_object_traits alloc reg o1 (trait # traits) =
     and_then (registry_trait_exists reg trait) (\<lambda>known.
       if \<not> known then Ok (DICEY_ETRAIT_NOT_FOUND, reg)
       else
         and_then (obj_at reg o1) (\<lambda>ob.
         and_then (dicey_hashset_add alloc (ob_traits ob) trait) (\<lambda>(res, names).
           let reg' = put_obj reg o1 (ob\<lparr>ob_traits := names\<rparr>) in
           case res of
             DICEY_HASH_SET_ADDED \<Rightarrow> add_object_traits alloc reg' o1 traits
           | DICEY_HASH_SET_UPDATED \<Rightarrow> Ok (DICEY_EINVAL, reg')
           | DICEY_HASH_SET_FAILED \<Rightarrow> Ok (DICEY_ENOMEM, reg'))))"

text \<open>An object that could not be registered is released.\<close>

definition or_deref ::
  "bool \<Rightarrow> nat \<Rightarrow> (dicey_error \<times> dicey_registry) result \<Rightarrow> (dicey_error \<times> dicey_registry) result"
where
  "or_deref ndebug o1 r =
     and_then r (\<lambda>(err, reg).
       if err = DICEY_OK then Ok (err, reg)
       else and_then (object_deref ndebug reg (Some o1)) (\<lambda>reg'. Ok (err, reg')))"

definition dicey_registry_add_object_with ::
  "bool \<Rightarrow> (nat \<Rightarrow> bool) \<Rightarrow> dicey_registry \<Rightarrow> cstring \<Rightarrow> cstring list \<Rightarrow> (dicey_error \<times> dicey_registry) result"
where
  "dicey_registry_add_object_with ndebug alloc reg path traits =
     (if \<not> path_is_valid path then Ok (DICEY_EPATH_MALFORMED, reg)
      else
        and_then (dicey_registry_contains_object ndebug reg path) (\<lambda>present.
          if present then Ok (DICEY_EEXIST, reg)
          else
            and_then (object_new alloc reg) (\<lambda>(object, reg1).
              case object of
                None \<Rightarrow> Ok (DICEY_ENOMEM, reg1)
              | Some o1 \<Rightarrow>
                  or_deref ndebug o1
                    (and_then (add_object_traits alloc reg1 o1 traits) (\<lambda>(err, reg2).
                       if err \<noteq> DICEY_OK then Ok (err, reg2)
                       else registry_add_object ndebug alloc reg2 path o1)))))"

text \<open>The variant with a null-terminated array makes the same calls in the same order.\<close>

definition dicey_registry_add_object_with_trait_list ::
  "bool \<Rightarrow> (nat \<Rightarrow> bool) \<Rightarrow> dicey_registry \<Rightarrow> cstring \<Rightarrow> cstring list \<Rightarrow> (dicey_error \<times> dicey_registry) result"
where
  "dicey_registry_add_object_with_trait_list ndebug alloc reg path traits =
     dicey_registry_add_object_with ndebug alloc reg path traits"

fun check_traits :: "dicey_registry \<Rightarrow> cstring list \<Rightarrow> bool result" where
  "check_traits reg [] = Ok True"
| "check_traits reg (trait # traits) =
     and_then (registry_trait_exists reg trait) (\<lambda>known. if known then check_traits reg traits else Ok False)"

text \<open>The variant with a set: the iterator of its loop is zeroed, not started on the set.\<close>

definition dicey_registry_add_object_with_trait_set ::
  "bool \<Rightarrow> (nat \<Rightarrow> bool) \<Rightarrow> dicey_registry \<Rightarrow> cstring \<Rightarrow> dicey_hashset \<Rightarrow> (dicey_error \<times> dicey_registry) result"
where
  "dicey_registry_add_object_with_trait_set ndebug alloc reg path names =
     c_assert ndebug (names \<noteq> None)
       (if \<not> path_is_valid path then Ok (DICEY_EPATH_MALFORMED, reg)
        else
          and_then (dicey_registry_contains_object ndebug reg path) (\<lambda>present.
            if present then Ok (DICEY_EEXIST, reg)
            else
              and_then (check_traits reg (visited None None)) (\<lambda>known.
                if \<not> known then Ok (DICEY_ETRAIT_NOT_FOUND, reg)
                else
                  and_then (object_new_with alloc reg names) (\<lambda>(object, reg1).
                    case object of
                      None \<Rightarrow> Ok (DICEY_ENOMEM, reg1)
                    | Some o1 \<Rightarrow> or_deref ndebug o1 (registry_add_object ndebug alloc reg1 path o1)))))"

section \<open>Adding traits\<close>

text \<open>
  \<open>dicey_metaname_vformat_to\<close>: the formatted text is given, the buffer is its length, \<open>None\<close> for a null
  view.  It asserts a view although \<open>dicey_metaname_format\<close> passes none.
\<close>

definition dicey_metaname_vformat_to ::
  "bool \<Rightarrow> (nat \<Rightarrow> bool) \<Rightarrow> nat option \<Rightarrow> cstring \<Rightarrow> (cstring option \<times> nat option) result"
where
  "dicey_metaname_vformat_to ndebug alloc buffer text =
     c_assert ndebug (buffer \<noteq> None)
       (let needed = length text + 1 in
        case buffer of
          None \<Rightarrow> Ok (if alloc needed then Some text else None, None)
        | Some len \<Rightarrow>
            if len < needed then
              (if alloc needed then Ok (Some text, Some needed) else Ok (None, Some len))
            else Ok (Some text, Some len))"

definition dicey_metaname_format :: "bool \<Rightarrow> (nat \<Rightarrow> bool) \<Rightarrow> cstring \<Rightarrow> cstring option result" where
  "dicey_metaname_format ndebug alloc text =
     and_then (dicey_metaname_vformat_to ndebug alloc None text) (\<lambda>(r, _). Ok r)"

definition dicey_metaname_format_to ::
  "bool \<Rightarrow> (nat \<Rightarrow> bool) \<Rightarrow> nat \<Rightarrow> cstring \<Rightarrow> (cstring option \<times> nat option) result"
where
  "dicey_metaname_format_to ndebug alloc buffer text = dicey_metaname_vformat_to ndebug alloc (Some buffer) text"

definition dicey_registry_format_metaname ::
  "bool \<Rightarrow> (nat \<Rightarrow> bool) \<Rightarrow> dicey_registry \<Rightarrow> cstring \<Rightarrow> (cstring option \<times> dicey_registry) result"
where
  "dicey_registry_format_metaname ndebug alloc reg text =
     and_then (dicey_metaname_vformat_to ndebug alloc (Some (rg_buffer reg)) text) (\<lambda>(r, buffer).
       Ok (r, reg\<lparr>rg_buffer := (case buffer of None \<Rightarrow> rg_buffer reg | Some n \<Rightarrow> n)\<rparr>))"

definition registry_add_trait ::
  "bool \<Rightarrow> (nat \<Rightarrow> bool) \<Rightarrow> dicey_registry \<Rightarrow> cstring \<Rightarrow> nat \<Rightarrow> (dicey_error \<times> dicey_registry) result"
where
  "registry_add_trait ndebug alloc reg name t =
     and_then (dicey_registry_format_metaname ndebug alloc reg (METATRAIT_FORMAT name)) (\<lambda>(metapath, reg1).
       case metapath of
         None \<Rightarrow> Ok (DICEY_ENOMEM, reg1)
       | Some mp \<Rightarrow>
           and_then (set_object alloc (rg_traits reg1) name t) (\<lambda>(res, traits).
             let reg2 = reg1\<lparr>rg_traits := traits\<rparr> in
             if res = DICEY_HASH_SET_FAILED then Ok (DICEY_ENOMEM, reg2)
             else
               c_assert ndebug (res \<noteq> DICEY_HASH_SET_UPDATED)
                 (dicey_registry_add_object_with ndebug alloc reg2 mp [DICEY_TRAIT_TRAIT_NAME])))"

definition dicey_registry_add_trait ::
  "bool \<Rightarrow> (nat \<Rightarrow> bool) \<Rightarrow> dicey_registry \<Rightarrow> nat \<Rightarrow> (dicey_error \<times> dicey_registry) result"
where
  "dicey_registry_add_trait ndebug alloc reg t =
     and_then (trait_at reg t) (\<lambda>tr.
     and_then (dicey_registry_contains_trait reg (trait_name tr)) (\<lambda>present.
       if present then Ok (DICEY_EEXIST, reg)
       else registry_add_trait ndebug alloc reg (trait_name tr) t))"

fun add_trait_elements ::
  "bool \<Rightarrow> (nat \<Rightarrow> bool) \<Rightarrow> dicey_trait \<Rightarrow> (cstring \<times> dicey_element) list \<Rightarrow> (dicey_error \<times> dicey_trait) result"
where
  "add_trait_elements ndebug alloc tr [] = Ok (DICEY_OK, tr)"
| "add_trait_elements ndebug alloc tr ((name, elem) # elems) =
     and_then (dicey_trait_add_element ndebug alloc tr name elem) (\<lambda>(err, tr').
       if err \<noteq> DICEY_OK then Ok (err, tr') else add_trait_elements ndebug alloc tr' elems)"

definition put_trait :: "dicey_registry \<Rightarrow> dicey_trait \<Rightarrow> dicey_registry" where
  "put_trait reg tr = reg\<lparr>rg_trait_mem := (rg_trait_mem reg)(rg_next reg \<mapsto> tr), rg_next := Suc (rg_next reg)\<rparr>"

definition free_trait :: "bool \<Rightarrow> dicey_registry \<Rightarrow> nat \<Rightarrow> dicey_registry result" where
  "free_trait ndebug reg t =
     and_then (trait_at reg t) (\<lambda>tr.
     and_then (dicey_trait_delete ndebug (Some tr)) (\<lambda>_.
       Ok (reg\<lparr>rg_trait_mem := (rg_trait_mem reg)(t := None)\<rparr>)))"

text \<open>What the two functions that build a trait from its elements have in common: the code of the result is the last argument.\<close>

definition build_trait ::
  "bool \<Rightarrow> (nat \<Rightarrow> bool) \<Rightarrow> dicey_registry \<Rightarrow> cstring \<Rightarrow> (cstring \<times> dicey_element) list
     \<Rightarrow> (dicey_error \<Rightarrow> dicey_error) \<Rightarrow> (dicey_error \<times> dicey_registry) result"
where
  "build_trait ndebug alloc reg name elems code =
     and_then (dicey_trait_new ndebug alloc name) (\<lambda>created.
       case created of
         None \<Rightarrow> Ok (DICEY_ENOMEM, reg)
       | Some tr \<Rightarrow>
           and_then (add_trait_elements ndebug alloc tr elems) (\<lambda>(add_err, tr').
             if add_err \<noteq> DICEY_OK then
               and_then (dicey_trait_delete ndebug (Some tr')) (\<lambda>_. Ok (add_err, reg))
             else
               and_then (registry_add_trait ndebug alloc (put_trait reg tr') name (rg_next reg)) (\<lambda>(err, reg').
                 if err \<noteq> DICEY_OK then
                   and_then (free_trait ndebug reg' (rg_next reg)) (\<lambda>reg''. Ok (code err, reg''))
                 else Ok (DICEY_OK, reg'))))"

definition dicey_registry_add_trait_with ::
  "bool \<Rightarrow> (nat \<Rightarrow> bool) \<Rightarrow> dicey_registry \<Rightarrow> cstring \<Rightarrow> (cstring \<times> dicey_element) list
     \<Rightarrow> (dicey_error \<times> dicey_registry) result"
where
  "dicey_registry_add_trait_with ndebug alloc reg name elems =
     and_then (dicey_registry_contains_trait reg name) (\<lambda>present.
       if present then Ok (DICEY_EEXIST, reg)
       else build_trait ndebug alloc reg name elems (\<lambda>_. DICEY_OK))"

definition dicey_registry_add_trait_with_element_list ::
  "bool \<Rightarrow> (nat \<Rightarrow> bool) \<Rightarrow> dicey_registry \<Rightarrow> cstring \<Rightarrow> (cstring \<times> cstring \<times> dicey_element_type) list
     \<Rightarrow> (dicey_error \<times> dicey_registry) result"
where
  "dicey_registry_add_trait_with_element_list ndebug alloc reg name elems =
     build_trait ndebug alloc reg name
       (map (\<lambda>(n, s, k). (n, \<lparr>el_type = k, el_signature = s, el_flags = 0, el_tag = 0\<rparr>)) elems) (\<lambda>err. err)"

section \<open>Removing objects\<close>

definition registry_remove_path :: "bool \<Rightarrow> dicey_registry \<Rightarrow> cstring \<Rightarrow> (dicey_error \<times> dicey_registry) result" where
  "registry_remove_path ndebug reg path =
     and_then (remove_object (rg_paths reg) path) (\<lambda>(removed, paths).
       case removed of
         None \<Rightarrow> Ok (DICEY_EPATH_NOT_FOUND, reg)
       | Some o1 \<Rightarrow>
           and_then (object_deref ndebug (set_paths reg path paths) (Some o1)) (\<lambda>reg'. Ok (DICEY_OK, reg')))"

text \<open>The loop over the aliases of an object reads the set of the object, which must still be there after each round.\<close>

fun remove_aliases :: "bool \<Rightarrow> dicey_registry \<Rightarrow> nat \<Rightarrow> cstring list \<Rightarrow> dicey_registry result" where
  "remove_aliases ndebug reg o1 [] = Ok reg"
| "remove_aliases ndebug reg o1 (alias # aliases) =
     and_then (registry_remove_path ndebug reg alias) (\<lambda>(err, reg').
       c_assert ndebug (err = DICEY_OK)
         (and_then (obj_at reg' o1) (\<lambda>_. remove_aliases ndebug reg' o1 aliases)))"

definition registry_del_object :: "bool \<Rightarrow> dicey_registry \<Rightarrow> cstring \<Rightarrow> (dicey_error \<times> dicey_registry) result" where
  "registry_del_object ndebug reg path =
     (if \<not> path_is_valid path then Ok (DICEY_EPATH_MALFORMED, reg)
      else
        and_then (dicey_registry_get_object_mut reg path) (\<lambda>found.
          case found of
            None \<Rightarrow> Ok (DICEY_EPATH_NOT_FOUND, reg)
          | Some o1 \<Rightarrow>
              and_then (obj_at reg o1) (\<lambda>ob.
              and_then (remove_aliases ndebug reg o1 (visited (ob_aliases ob) (dicey_hashset_iter_start (ob_aliases ob)))) (\<lambda>reg1.
              and_then (obj_at reg1 o1) (\<lambda>ob1.
              and_then (key_str (ob_main_path ob1)) (\<lambda>main.
              and_then (remove_object (rg_paths reg1) main) (\<lambda>(removed, paths).
                c_assert ndebug (removed \<noteq> None)
                  (and_then (object_deref ndebug (set_paths reg1 main paths) (Some o1)) (\<lambda>reg2. Ok (DICEY_OK, reg2)))))))))) "

definition dicey_registry_delete_object ::
  "bool \<Rightarrow> dicey_registry \<Rightarrow> cstring \<Rightarrow> (dicey_error \<times> dicey_registry) result"
where
  "dicey_registry_delete_object ndebug reg name = registry_del_object ndebug reg name"

definition dicey_registry_remove_object ::
  "bool \<Rightarrow> dicey_registry \<Rightarrow> cstring \<Rightarrow> (dicey_error \<times> dicey_registry) result"
where
  "dicey_registry_remove_object ndebug reg path =
     (if \<not> path_is_valid path then Ok (DICEY_EPATH_MALFORMED, reg) else registry_remove_path ndebug reg path)"

definition dicey_registry_remove_all_object_aliases ::
  "bool \<Rightarrow> dicey_registry \<Rightarrow> cstring \<Rightarrow> (dicey_error \<times> dicey_registry) result"
where
  "dicey_registry_remove_all_object_aliases ndebug reg path =
     (if \<not> path_is_valid path then Ok (DICEY_EPATH_MALFORMED, reg)
      else
        and_then (dicey_registry_get_object_mut reg path) (\<lambda>found.
          case found of
            None \<Rightarrow> Ok (DICEY_EPATH_NOT_FOUND, reg)
          | Some o1 \<Rightarrow>
              and_then (obj_at reg o1) (\<lambda>ob.
              and_then (key_str (ob_main_path ob)) (\<lambda>main.
                if main \<noteq> path then Ok (DICEY_EINVAL, reg)
                else
                  and_then (remove_aliases ndebug reg o1 (visited (ob_aliases ob) (dicey_hashset_iter_start (ob_aliases ob)))) (\<lambda>reg1.
                  and_then (obj_at reg1 o1) (\<lambda>ob1.
                    Ok (DICEY_OK, put_obj reg1 o1 (ob1\<lparr>ob_aliases := None\<rparr>))))))))"

section \<open>Aliases\<close>

text \<open>
  The end of \<open>dicey_registry_alias_object\<close>: the new path is bound to the object, whose set of aliases does not
  hold it yet.  When the set cannot take it the path is removed again, and the call still reports success.
\<close>

definition record_alias ::
  "bool \<Rightarrow> (nat \<Rightarrow> bool) \<Rightarrow> dicey_registry \<Rightarrow> nat \<Rightarrow> cstring \<Rightarrow> (dicey_error \<times> dicey_registry) result"
where
  "record_alias ndebug alloc reg2 o1 alias =
     and_then (dicey_registry_get_object_entry ndebug reg2 alias) (\<lambda>entry.
       c_assert ndebug (entry = Some (alias, o1))
         (and_then (obj_at reg2 o1) (\<lambda>ob.
          and_then (dicey_hashset_add alloc (ob_aliases ob) alias) (\<lambda>(res, aliases).
            let reg3 = put_obj reg2 o1 (ob\<lparr>ob_aliases := aliases\<rparr>) in
            case res of
              DICEY_HASH_SET_ADDED \<Rightarrow> Ok (DICEY_OK, reg3)
            | DICEY_HASH_SET_UPDATED \<Rightarrow> c_assert ndebug False (Ok (DICEY_EINVAL, reg3))
            | DICEY_HASH_SET_FAILED \<Rightarrow> dicey_registry_remove_object ndebug reg3 alias))))"

definition dicey_registry_alias_object ::
  "bool \<Rightarrow> (nat \<Rightarrow> bool) \<Rightarrow> dicey_registry \<Rightarrow> cstring \<Rightarrow> cstring \<Rightarrow> (dicey_error \<times> dicey_registry) result"
where
  "dicey_registry_alias_object ndebug alloc reg path alias =
     (if \<not> path_is_valid path \<or> \<not> path_is_valid alias then Ok (DICEY_EPATH_MALFORMED, reg)
      else if path = alias then Ok (DICEY_EINVAL, reg)
      else
        and_then (dicey_hashtable_get (rg_paths reg) (Some path)) (\<lambda>found.
          case found of
            None \<Rightarrow> Ok (DICEY_EPATH_NOT_FOUND, reg)
          | Some o1 \<Rightarrow>
              and_then (dicey_registry_get_main_path ndebug reg alias) (\<lambda>existing.
                if existing \<noteq> NullKey then
                  and_then (key_str existing) (\<lambda>e.
                    if e = alias then Ok (DICEY_EINVAL, reg)
                    else
                      and_then (obj_at reg o1) (\<lambda>ob.
                      and_then (key_str (ob_main_path ob)) (\<lambda>main.
                        Ok (if e = main then DICEY_EEXIST else DICEY_EINVAL, reg))))
                else
                  and_then (object_ref ndebug reg o1) (\<lambda>reg1.
                  and_then (registry_add_object ndebug alloc reg1 alias o1) (\<lambda>(err, reg2).
                    if err \<noteq> DICEY_OK then Ok (err, reg2)
                    else
                      record_alias ndebug alloc reg2 o1 alias)))))"

definition dicey_registry_unalias_object ::
  "bool \<Rightarrow> dicey_registry \<Rightarrow> cstring \<Rightarrow> (dicey_error \<times> dicey_registry) result"
where
  "dicey_registry_unalias_object ndebug reg alias =
     (if \<not> path_is_valid alias then Ok (DICEY_EPATH_MALFORMED, reg)
      else
        and_then (dicey_registry_get_object_mut reg alias) (\<lambda>found.
          case found of
            None \<Rightarrow> Ok (DICEY_EPATH_NOT_FOUND, reg)
          | Some o1 \<Rightarrow>
              and_then (obj_at reg o1) (\<lambda>ob.
              and_then (dicey_hashset_remove (ob_aliases ob) alias) (\<lambda>(success, aliases).
                let reg1 = put_obj reg o1 (ob\<lparr>ob_aliases := aliases\<rparr>) in
                if \<not> success then Ok (DICEY_EPATH_NOT_ALIAS, reg1)
                else
                  and_then (registry_remove_path ndebug reg1 alias) (\<lambda>(err, reg2).
                    c_assert ndebug (err = DICEY_OK) (Ok (err, reg2)))))))"

section \<open>Walking the elements of an object and releasing the registry\<close>

datatype dicey_registry_walk_event =
  DICEY_REGISTRY_WALK_EVENT_OBJECT_START
| DICEY_REGISTRY_WALK_EVENT_OBJECT_END
| DICEY_REGISTRY_WALK_EVENT_TRAIT_START
| DICEY_REGISTRY_WALK_EVENT_TRAIT_END
| DICEY_REGISTRY_WALK_EVENT_ELEMENT

text \<open>The callback gets the event, the selector and the element, and the user data, which it may change.\<close>

type_synonym 'u dicey_registry_walk_fn =
  "dicey_registry_walk_event \<Rightarrow> cstring option \<times> cstring option \<Rightarrow> dicey_element option \<Rightarrow> 'u \<Rightarrow> bool \<times> 'u"

fun walk_elements ::
  "'u dicey_registry_walk_fn \<Rightarrow> cstring \<Rightarrow> (cstring \<times> dicey_element option) list \<Rightarrow> 'u \<Rightarrow> (bool \<times> 'u) result"
where
  "walk_elements callback trait [] u = Ok (True, u)"
| "walk_elements callback trait ((name, elem) # elems) u =
     (case elem of
        None \<Rightarrow> Undef
      | Some e \<Rightarrow>
          (case callback DICEY_REGISTRY_WALK_EVENT_ELEMENT (Some trait, Some name) (Some e) u of
             (False, u') \<Rightarrow> Ok (False, u')
           | (True, u') \<Rightarrow> walk_elements callback trait elems u'))"

fun walk_traits ::
  "bool \<Rightarrow> dicey_registry \<Rightarrow> 'u dicey_registry_walk_fn \<Rightarrow> cstring list \<Rightarrow> 'u \<Rightarrow> (bool \<times> 'u) result"
where
  "walk_traits ndebug reg callback [] u = Ok (True, u)"
| "walk_traits ndebug reg callback (name # names) u =
     and_then (dicey_registry_get_trait reg name) (\<lambda>found.
       c_assert ndebug (found \<noteq> None)
         (case callback DICEY_REGISTRY_WALK_EVENT_TRAIT_START (Some name, None) None u of
            (False, u1) \<Rightarrow> Ok (False, u1)
          | (True, u1) \<Rightarrow>
              and_then
                (case found of
                   None \<Rightarrow> Ok (True, u1)
                 | Some t \<Rightarrow>
                     and_then (trait_at reg t) (\<lambda>tr.
                       walk_elements callback name
                         (iterate_table (Suc (case trait_elems tr of None \<Rightarrow> 0 | Some h \<Rightarrow> ht_cap h))
                           (trait_elems tr) (dicey_trait_iter_start (Some tr))) u1))
                (\<lambda>(go_on, u2).
                   if \<not> go_on then Ok (False, u2)
                   else
                     (case callback DICEY_REGISTRY_WALK_EVENT_TRAIT_END (Some name, None) None u2 of
                        (False, u3) \<Rightarrow> Ok (False, u3)
                      | (True, u3) \<Rightarrow> walk_traits ndebug reg callback names u3))))"

definition dicey_registry_walk_object_elements ::
  "bool \<Rightarrow> dicey_registry \<Rightarrow> cstring \<Rightarrow> 'u dicey_registry_walk_fn \<Rightarrow> 'u \<Rightarrow> (dicey_error \<times> 'u) result"
where
  "dicey_registry_walk_object_elements ndebug reg path callback u =
     and_then (dicey_registry_get_object ndebug reg path) (\<lambda>found.
       case found of
         None \<Rightarrow> Ok (DICEY_EPATH_NOT_FOUND, u)
       | Some o1 \<Rightarrow>
           (case callback DICEY_REGISTRY_WALK_EVENT_OBJECT_START (None, None) None u of
              (False, u1) \<Rightarrow> Ok (DICEY_OK, u1)
            | (True, u1) \<Rightarrow>
                and_then (obj_at reg o1) (\<lambda>ob.
                and_then (walk_traits ndebug reg callback (visited (ob_traits ob) (dicey_hashset_iter_start (ob_traits ob))) u1)
                  (\<lambda>(go_on, u2).
                     if \<not> go_on then Ok (DICEY_OK, u2)
                     else Ok (DICEY_OK, snd (callback DICEY_REGISTRY_WALK_EVENT_OBJECT_END (None, None) None u2))))))"

fun deref_all :: "bool \<Rightarrow> dicey_registry \<Rightarrow> nat option list \<Rightarrow> dicey_registry result" where
  "deref_all ndebug reg [] = Ok reg"
| "deref_all ndebug reg (p # ps) = and_then (object_deref ndebug reg p) (\<lambda>reg'. deref_all ndebug reg' ps)"

fun free_traits :: "bool \<Rightarrow> dicey_registry \<Rightarrow> nat option list \<Rightarrow> dicey_registry result" where
  "free_traits ndebug reg [] = Ok reg"
| "free_traits ndebug reg (None # ts) = free_traits ndebug reg ts"
| "free_traits ndebug reg (Some t # ts) = and_then (free_trait ndebug reg t) (\<lambda>reg'. free_traits ndebug reg' ts)"

definition dicey_registry_deinit :: "bool \<Rightarrow> dicey_registry \<Rightarrow> dicey_registry result" where
  "dicey_registry_deinit ndebug reg =
     and_then (deref_all ndebug reg (dicey_hashtable_delete (rg_paths reg))) (\<lambda>reg1.
     and_then (free_traits ndebug reg1 (dicey_hashtable_delete (rg_traits reg1))) (\<lambda>reg2.
       Ok (reg2\<lparr>rg_paths := None, rg_traits := None, rg_buffer := 0\<rparr>)))"

end
