(* ===== verification/Dicey_Registry_Facts.thy ===== *)
theory Dicey_Registry_Facts
  imports Dicey_Registry
begin

text \<open>
  The invariant of the registry and what each operation does to the map from paths to objects.  The invariant
  is split into what concerns one object and the rest of the registry, because every operation works on one
  object: \<open>inv_but reg o1\<close> says that everything but object \<open>o1\<close> is in order.
\<close>

section \<open>Iterating a set\<close>

lemma visited_null: "visited None cur = []"
  by (simp add: visited_def dicey_hashtable_iter_next_def)

lemma visited_members:
  assumes "objects_ok s"
  shows "distinct (visited s (dicey_hashset_iter_start s))" "set (visited s (dicey_hashset_iter_start s)) = members s"
proof -
  have "distinct (visited s (dicey_hashset_iter_start s)) \<and> set (visited s (dicey_hashset_iter_start s)) = members s"
  proof (cases s)
    case None
    then show ?thesis
      by (auto simp: visited_null members_def)
  next
    case (Some u)
    let ?l = "iterate_table (Suc (ht_cap u)) s (dicey_hashset_iter_start s)"
    have inv: "hashtable_inv u"
      using assms Some by (simp add: objects_ok_def)
    have l: "?l = cell_pairs (ht_entries u)"
      using iterate_from [of u 0 "Suc (ht_cap u)"] Some
      by (simp add: dicey_hashset_iter_start_def dicey_hashtable_iter_start_def)
    have pairs: "distinct (map fst ?l)" "map_of ?l = table_map s"
      using cell_pairs_map [OF inv_unique_keys [OF inv]] Some unfolding l
      by (simp_all add: ht_map_def fun_eq_iff)
    have "fst ` set ?l = dom (table_map s)"
      using pairs(2) by (metis dom_map_of_conv_image_fst)
    moreover have "members s = dom (table_map s)"
      using objects_eq_None [OF assms] by (auto simp: members_def dom_def)
    ultimately show ?thesis
      using pairs(1) Some by (simp add: visited_def)
  qed
  then show "distinct (visited s (dicey_hashset_iter_start s))" "set (visited s (dicey_hashset_iter_start s)) = members s"
    by simp_all
qed

section \<open>The invariant\<close>

abbreviation paths_map :: "dicey_registry \<Rightarrow> cstring \<Rightarrow> nat option" where
  "paths_map reg \<equiv> objects (rg_paths reg)"

definition paths_of :: "dicey_registry \<Rightarrow> nat \<Rightarrow> cstring set" where
  "paths_of reg o1 = {p. paths_map reg p = Some o1}"

text \<open>The reference count may only be too high: a failed call of \<open>dicey_registry_alias_object\<close> can leave it so.\<close>

definition object_inv :: "dicey_registry \<Rightarrow> nat \<Rightarrow> dicey_object \<Rightarrow> bool" where
  "object_inv reg o1 ob \<longleftrightarrow>
     (\<exists>main. ob_main_path ob = Key main \<and> main \<in> paths_of reg o1 \<and>
        members (ob_aliases ob) = paths_of reg o1 - {main}) \<and>
     objects_ok (ob_aliases ob) \<and> objects_ok (ob_traits ob) \<and> ob_traits ob \<noteq> None \<and>
     int (card (paths_of reg o1)) \<le> ob_refcount ob"

definition traits_inv :: "dicey_registry \<Rightarrow> bool" where
  "traits_inv reg \<longleftrightarrow> objects_ok (rg_traits reg) \<and>
     (\<forall>n t. objects (rg_traits reg) n = Some t \<longrightarrow>
        (\<exists>tr. rg_trait_mem reg t = Some tr \<and> trait_ok tr \<and> trait_name tr = n))"

definition live :: "dicey_registry \<Rightarrow> nat \<Rightarrow> bool" where
  "live reg o1 \<longleftrightarrow> (paths_of reg o1 \<noteq> {} \<longrightarrow> (\<exists>ob. rg_objects reg o1 = Some ob \<and> object_inv reg o1 ob))"

definition base_inv :: "dicey_registry \<Rightarrow> bool" where
  "base_inv reg \<longleftrightarrow>
     objects_ok (rg_paths reg) \<and> (\<forall>p \<in> dom (paths_map reg). path_is_valid p) \<and>
     (\<forall>o1 \<ge> rg_next reg. rg_objects reg o1 = None \<and> rg_trait_mem reg o1 = None) \<and> traits_inv reg"

definition registry_inv :: "dicey_registry \<Rightarrow> bool" where
  "registry_inv reg \<longleftrightarrow> base_inv reg \<and> (\<forall>o1. live reg o1)"

definition inv_but :: "dicey_registry \<Rightarrow> nat \<Rightarrow> bool" where
  "inv_but reg o1 \<longleftrightarrow> base_inv reg \<and> (\<forall>o2. o2 \<noteq> o1 \<longrightarrow> live reg o2)"

lemma registry_inv_but: "registry_inv reg \<longleftrightarrow> inv_but reg o1 \<and> live reg o1"
  unfolding registry_inv_def inv_but_def by metis

lemma inv_butD:
  assumes "inv_but reg o1"
  shows "objects_ok (rg_paths reg)" "paths_map reg p = Some o2 \<Longrightarrow> path_is_valid p" "traits_inv reg"
    "rg_next reg \<le> o2 \<Longrightarrow> rg_objects reg o2 = None"
  using assms by (auto simp: inv_but_def base_inv_def)

lemma registry_invD:
  assumes "registry_inv reg"
  shows "objects_ok (rg_paths reg)" "paths_map reg p = Some o2 \<Longrightarrow> path_is_valid p" "traits_inv reg"
    "rg_next reg \<le> o2 \<Longrightarrow> rg_objects reg o2 = None"
  using assms by (auto simp: registry_inv_def base_inv_def)

lemma registered:
  assumes "registry_inv reg" and "paths_map reg p = Some o1"
  obtains ob where "rg_objects reg o1 = Some ob" "object_inv reg o1 ob"
proof -
  have "paths_of reg o1 \<noteq> {}"
    using assms(2) by (auto simp: paths_of_def)
  then show thesis
    using assms(1) that unfolding registry_inv_def live_def by blast
qed

lemma registered_inv:
  assumes "registry_inv reg" and "paths_map reg p = Some o1" and "rg_objects reg o1 = Some ob"
  shows "object_inv reg o1 ob"
  by (rule registered [OF assms(1,2)]) (simp add: assms(3))

lemma paths_of_finite:
  assumes "objects_ok (rg_paths reg)"
  shows "finite (paths_of reg o1)"
proof (rule finite_subset)
  show "paths_of reg o1 \<subseteq> dom (table_map (rg_paths reg))"
    using objects_eq_None [OF assms] by (metis (mono_tags) domIff mem_Collect_eq option.distinct(1) paths_of_def subsetI)
  show "finite (dom (table_map (rg_paths reg)))"
    using finite_table_map [of "rg_paths reg"] assms by (simp add: objects_ok_def)
qed

text \<open>Changes to one object and to its paths leave the rest in order.\<close>

lemma inv_but_frame:
  assumes but: "inv_but reg o1" and ok: "objects_ok (rg_paths reg')"
    and others: "\<And>p o2. o2 \<noteq> o1 \<Longrightarrow> paths_map reg' p = Some o2 \<longleftrightarrow> paths_map reg p = Some o2"
    and valid: "\<And>p. paths_map reg' p = Some o1 \<Longrightarrow> path_is_valid p"
    and objs: "\<And>o2. o2 \<noteq> o1 \<Longrightarrow> paths_of reg o2 \<noteq> {} \<Longrightarrow> rg_objects reg' o2 = rg_objects reg o2"
    and fresh: "\<And>o2. rg_next reg' \<le> o2 \<Longrightarrow> rg_objects reg' o2 = None \<and> rg_trait_mem reg' o2 = None"
    and traits: "traits_inv reg'"
  shows "inv_but reg' o1"
proof -
  have paths: "paths_of reg' o2 = paths_of reg o2" if "o2 \<noteq> o1" for o2
    using others [OF that] by (simp add: paths_of_def)
  have "path_is_valid p" if "paths_map reg' p = Some o2" for p o2
    using that valid [of p] others [of o2 p] inv_butD(2) [OF but, of p o2] by (cases "o2 = o1") auto
  moreover have "live reg' o2" if ne: "o2 \<noteq> o1" for o2
    using but ne objs [OF ne] paths [OF ne] by (simp add: inv_but_def live_def object_inv_def)
  ultimately show ?thesis
    using ok fresh traits unfolding inv_but_def base_inv_def by blast
qed

lemma traits_inv_cong:
  "traits_inv reg \<Longrightarrow> rg_traits reg' = rg_traits reg \<Longrightarrow> rg_trait_mem reg' = rg_trait_mem reg \<Longrightarrow> traits_inv reg'"
  by (simp add: traits_inv_def)

lemma inv_but_put:
  assumes "inv_but reg o1" and "rg_objects reg o1 \<noteq> None"
  shows "inv_but (put_obj reg o1 ob) o1"
proof (rule inv_but_frame [OF assms(1)])
  fix o2
  assume "rg_next (put_obj reg o1 ob) \<le> o2"
  then show "rg_objects (put_obj reg o1 ob) o2 = None \<and> rg_trait_mem (put_obj reg o1 ob) o2 = None"
    using assms by (auto simp: put_obj_def inv_but_def base_inv_def)
qed (use assms inv_butD [OF assms(1)] in \<open>auto simp: put_obj_def elim: traits_inv_cong\<close>)

lemma put_obj_simps [simp]:
  "rg_paths (put_obj reg o1 ob) = rg_paths reg" "rg_traits (put_obj reg o1 ob) = rg_traits reg"
  "rg_trait_mem (put_obj reg o1 ob) = rg_trait_mem reg" "rg_next (put_obj reg o1 ob) = rg_next reg"
  "rg_objects (put_obj reg o1 ob) = (rg_objects reg)(o1 \<mapsto> ob)" "paths_of (put_obj reg o1 ob) o2 = paths_of reg o2"
  by (simp_all add: put_obj_def paths_of_def)

lemma obj_at_Some [simp]: "rg_objects reg o1 = Some ob \<Longrightarrow> obj_at reg o1 = Ok ob"
  by (simp add: obj_at_def)

section \<open>Lookups\<close>

lemma get_entry_paths:
  assumes "objects_ok (rg_paths reg)" and "\<And>o1. paths_map reg p = Some o1 \<Longrightarrow> path_is_valid p"
  shows "\<exists>r. registry_get_object_entry reg p = Ok r \<and>
    (case paths_map reg p of None \<Rightarrow> \<exists>e. r = Inl e | Some o1 \<Rightarrow> r = Inr (p, o1))"
  using get_entry_objects [OF assms(1), of p] assms(2)
  by (cases "paths_map reg p") (auto simp: registry_get_object_entry_def)

lemma get_object_entry_paths:
  assumes "objects_ok (rg_paths reg)" and "\<And>o1. paths_map reg p = Some o1 \<Longrightarrow> path_is_valid p"
  shows "dicey_registry_get_object_entry ndebug reg p = Ok (map_option (Pair p) (paths_map reg p))"
  using get_entry_paths [OF assms] by (cases "paths_map reg p") (auto simp: dicey_registry_get_object_entry_def)

lemma get_object_paths:
  assumes "objects_ok (rg_paths reg)" and "\<And>o1. paths_map reg p = Some o1 \<Longrightarrow> path_is_valid p"
  shows "dicey_registry_get_object ndebug reg p = Ok (paths_map reg p)"
  using get_object_entry_paths [OF assms] by (simp add: dicey_registry_get_object_def option.map_comp comp_def option.map_ident)

lemma get_object_mut_paths:
  assumes "objects_ok (rg_paths reg)" and "path_is_valid p"
  shows "dicey_registry_get_object_mut reg p = Ok (paths_map reg p)"
  using assms by (simp add: dicey_registry_get_object_mut_def lookup_objects)

lemma get_main_path_inv:
  assumes inv: "registry_inv reg"
  shows "dicey_registry_get_main_path ndebug reg p =
    Ok (case paths_map reg p of None \<Rightarrow> NullKey | Some o1 \<Rightarrow> ob_main_path (the (rg_objects reg o1)))"
proof -
  have get: "dicey_registry_get_object ndebug reg p = Ok (paths_map reg p)"
    using get_object_paths registry_invD(1,2) [OF inv] by blast
  show ?thesis
  proof (cases "paths_map reg p")
    case (Some o1)
    from inv Some obtain ob where "rg_objects reg o1 = Some ob"
      by (rule registered)
    then show ?thesis
      using get Some by (simp add: dicey_registry_get_main_path_def)
  qed (simp add: dicey_registry_get_main_path_def get)
qed

section \<open>One path, one object\<close>

lemma paths_of_map: "paths_of reg o1 = {p. paths_map reg p = Some o1}"
  by (simp add: paths_of_def)

lemma set_paths_but:
  assumes but: "inv_but reg o1" and p: "paths_map reg p = Some o1"
    and t: "objects_ok t" "objects t = (paths_map reg)(p := None)"
  shows "inv_but (set_paths reg p t) o1"
proof (rule inv_but_frame [OF but])
  show "objects_ok (rg_paths (set_paths reg p t))"
    using t(1) by (simp add: set_paths_def)
  show "traits_inv (set_paths reg p t)"
    using inv_butD(3) [OF but] by (rule traits_inv_cong) (simp_all add: set_paths_def)
  show "path_is_valid q" if "paths_map (set_paths reg p t) q = Some o1" for q
    using that t(2) inv_butD(2) [OF but, of q o1] by (simp add: set_paths_def split: if_splits)
  show "paths_map (set_paths reg p t) q = Some o2 \<longleftrightarrow> paths_map reg q = Some o2" if "o2 \<noteq> o1" for q o2
    using that t(2) p by (simp add: set_paths_def)
  show "rg_objects (set_paths reg p t) o2 = None \<and> rg_trait_mem (set_paths reg p t) o2 = None"
    if "rg_next (set_paths reg p t) \<le> o2" for o2
    using that but by (simp add: set_paths_def inv_but_def base_inv_def)
  show "rg_objects (set_paths reg p t) o2 = rg_objects reg o2" if ne: "o2 \<noteq> o1" "paths_of reg o2 \<noteq> {}" for o2
  proof -
    obtain ob main where ob: "rg_objects reg o2 = Some ob" "ob_main_path ob = Key main" "main \<in> paths_of reg o2"
      using but ne unfolding inv_but_def live_def object_inv_def by blast
    then have "drop_key p ob = ob"
      using p ne(1) by (auto simp: drop_key_def paths_of_def)
    with ob(1) show ?thesis
      by (simp add: set_paths_def)
  qed
qed

lemma remove_path_local:
  assumes but: "inv_but reg o1" and p: "paths_map reg p = Some o1"
    and ob: "rg_objects reg o1 = Some ob" "1 < ob_refcount ob"
  obtains reg' where "registry_remove_path ndebug reg p = Ok (DICEY_OK, reg')" "inv_but reg' o1"
    "paths_map reg' = (paths_map reg)(p := None)"
    "rg_objects reg' o1 = Some ((drop_key p ob)\<lparr>ob_refcount := ob_refcount ob - 1\<rparr>)"
proof -
  obtain t where t: "remove_object (rg_paths reg) p = Ok (Some o1, t)" "objects_ok t" "objects t = (paths_map reg)(p := None)"
    using ht.delete_content [OF inv_butD(1) [OF but], of p] p by auto
  let ?reg = "set_paths reg p t"
  let ?ob = "(drop_key p ob)\<lparr>ob_refcount := ob_refcount ob - 1\<rparr>"
  have obj: "rg_objects ?reg o1 = Some (drop_key p ob)" and ref: "ob_refcount (drop_key p ob) = ob_refcount ob"
    using ob(1) by (simp_all add: set_paths_def drop_key_def)
  have "registry_remove_path ndebug reg p = Ok (DICEY_OK, put_obj ?reg o1 ?ob)"
    using t(1) obj ref ob(2) by (simp add: registry_remove_path_def object_deref_def c_assert_def)
  moreover have "inv_but (put_obj ?reg o1 ?ob) o1"
    using set_paths_but [OF but p t(2,3)] obj by (intro inv_but_put) simp_all
  ultimately show thesis
    using that t(3) by (simp add: set_paths_def)
qed

text \<open>Removing every path of a list, as the loops over the aliases do.\<close>

lemma remove_aliases_local:
  assumes "inv_but reg o1" and "rg_objects reg o1 = Some ob" and "ob_main_path ob = Key main"
    and "distinct as" and "set as \<subseteq> paths_of reg o1 - {main}" and "int (length as) < ob_refcount ob"
  shows "\<exists>reg'. remove_aliases ndebug reg o1 as = Ok reg' \<and> inv_but reg' o1 \<and>
    paths_map reg' = (\<lambda>p. if p \<in> set as then None else paths_map reg p) \<and>
    rg_objects reg' o1 = Some (ob\<lparr>ob_refcount := ob_refcount ob - int (length as)\<rparr>)"
  using assms
proof (induction as arbitrary: reg ob)
  case (Cons a as)
  have a: "paths_map reg a = Some o1" "a \<noteq> main" "1 < ob_refcount ob"
    using Cons.prems(5,6) by (auto simp: paths_of_def)
  have keep: "drop_key a ob = ob"
    using a(2) Cons.prems(3) by (simp add: drop_key_def)
  obtain reg1 where reg1: "registry_remove_path ndebug reg a = Ok (DICEY_OK, reg1)" "inv_but reg1 o1"
    "paths_map reg1 = (paths_map reg)(a := None)"
    "rg_objects reg1 o1 = Some (ob\<lparr>ob_refcount := ob_refcount ob - 1\<rparr>)"
    using remove_path_local [OF Cons.prems(1) a(1) Cons.prems(2) a(3), of ndebug] unfolding keep by metis
  have "set as \<subseteq> paths_of reg1 o1 - {main}"
    using Cons.prems(4,5) reg1(3) by (auto simp: paths_of_def)
  then obtain reg' where reg': "remove_aliases ndebug reg1 o1 as = Ok reg'" "inv_but reg' o1"
    "paths_map reg' = (\<lambda>p. if p \<in> set as then None else paths_map reg1 p)"
    "rg_objects reg' o1 = Some (ob\<lparr>ob_refcount := ob_refcount ob - 1 - int (length as)\<rparr>)"
    using Cons.IH [OF reg1(2,4)] Cons.prems(3,4,6) by auto
  have "paths_map reg' = (\<lambda>p. if p \<in> set (a # as) then None else paths_map reg p)"
    unfolding reg'(3) reg1(3) by auto
  moreover have "ob_refcount ob - 1 - int (length as) = ob_refcount ob - int (length (a # as))"
    by simp
  ultimately show ?case
    using reg1(1,4) reg'(1,2,4) by simp
qed simp

lemma object_invD:
  assumes "object_inv reg o1 ob"
  obtains main where "ob_main_path ob = Key main" "paths_map reg main = Some o1"
    "members (ob_aliases ob) = paths_of reg o1 - {main}" "objects_ok (ob_aliases ob)" "objects_ok (ob_traits ob)"
    "ob_traits ob \<noteq> None" "int (card (paths_of reg o1)) \<le> ob_refcount ob"
  using assms by (auto simp: object_inv_def paths_of_def)

text \<open>The loop over the aliases of a registered object leaves it with its main path only.\<close>

lemma remove_all_aliases:
  assumes inv: "registry_inv reg" and p: "paths_map reg p = Some o1" and ob: "rg_objects reg o1 = Some ob"
    and main: "ob_main_path ob = Key main"
  obtains reg' n where
    "remove_aliases ndebug reg o1 (visited (ob_aliases ob) (dicey_hashset_iter_start (ob_aliases ob))) = Ok reg'"
    "inv_but reg' o1" "paths_map reg' = (\<lambda>q. if paths_map reg q = Some o1 \<and> q \<noteq> main then None else paths_map reg q)"
    "rg_objects reg' o1 = Some (ob\<lparr>ob_refcount := n\<rparr>)" "n = ob_refcount ob + 1 - int (card (paths_of reg o1))"
    "1 \<le> n" "paths_map reg main = Some o1"
proof -
  have but: "inv_but reg o1"
    using inv registry_inv_but by blast
  have oi: "object_inv reg o1 ob"
    by (rule registered_inv [OF inv p ob])
  have main': "paths_map reg main = Some o1" and mem: "members (ob_aliases ob) = paths_of reg o1 - {main}"
    and ok: "objects_ok (ob_aliases ob)" and ref: "int (card (paths_of reg o1)) \<le> ob_refcount ob"
    using object_invD [OF oi] main by (metis key_ptr.inject)+
  let ?as = "visited (ob_aliases ob) (dicey_hashset_iter_start (ob_aliases ob))"
  have set: "distinct ?as" "set ?as = paths_of reg o1 - {main}"
    using visited_members [OF ok] mem by simp_all
  have "length ?as = card (paths_of reg o1 - {main})"
    using distinct_card [OF set(1)] set(2) by simp
  also have "Suc \<dots> = card (paths_of reg o1)"
    by (rule card_Suc_Diff1) (use paths_of_finite [OF inv_butD(1) [OF but]] main' in \<open>simp_all add: paths_of_def\<close>)
  finally have len: "Suc (length ?as) = card (paths_of reg o1)"
    by simp
  have "int (length ?as) < ob_refcount ob"
    using len ref by simp
  then obtain reg' where reg': "remove_aliases ndebug reg o1 ?as = Ok reg'" "inv_but reg' o1"
    "paths_map reg' = (\<lambda>q. if q \<in> set ?as then None else paths_map reg q)"
    "rg_objects reg' o1 = Some (ob\<lparr>ob_refcount := ob_refcount ob - int (length ?as)\<rparr>)"
    using remove_aliases_local [OF but ob main set(1)] set(2) by auto
  have "paths_map reg' = (\<lambda>q. if paths_map reg q = Some o1 \<and> q \<noteq> main then None else paths_map reg q)"
    unfolding reg'(3) set(2) by (auto simp: paths_of_def)
  then show thesis
    using that [OF reg'(1,2) _ reg'(4)] len ref main' by simp
qed

section \<open>Deletion and removal of aliases\<close>

lemma inv_but_free:
  assumes "inv_but reg o1"
  shows "inv_but (reg\<lparr>rg_objects := (rg_objects reg)(o1 := None)\<rparr>) o1"
proof (rule inv_but_frame [OF assms])
  fix o2
  assume "rg_next (reg\<lparr>rg_objects := (rg_objects reg)(o1 := None)\<rparr>) \<le> o2"
  then show "rg_objects (reg\<lparr>rg_objects := (rg_objects reg)(o1 := None)\<rparr>) o2 = None \<and>
      rg_trait_mem (reg\<lparr>rg_objects := (rg_objects reg)(o1 := None)\<rparr>) o2 = None"
    using assms by (auto simp: inv_but_def base_inv_def)
qed (use inv_butD [OF assms] in \<open>auto elim: traits_inv_cong\<close>)

text \<open>Releasing a reference: the object goes with the last one.\<close>

lemma deref_local:
  assumes "inv_but reg o1" and "rg_objects reg o1 = Some ob" and "1 \<le> ob_refcount ob"
  obtains reg' where "object_deref ndebug reg (Some o1) = Ok reg'" "inv_but reg' o1" "rg_paths reg' = rg_paths reg"
    "rg_objects reg' o1 = (if ob_refcount ob = 1 then None else Some (ob\<lparr>ob_refcount := ob_refcount ob - 1\<rparr>))"
    "rg_traits reg' = rg_traits reg" "rg_trait_mem reg' = rg_trait_mem reg"
proof (cases "ob_refcount ob = 1")
  case True
  then show thesis
    using assms inv_but_free [OF assms(1)]
    by (intro that [of "reg\<lparr>rg_objects := (rg_objects reg)(o1 := None)\<rparr>"]) (simp_all add: object_deref_def)
next
  case False
  then show thesis
    using assms inv_but_put [OF assms(1)]
    by (intro that [of "put_obj reg o1 (ob\<lparr>ob_refcount := ob_refcount ob - 1\<rparr>)"]) (simp_all add: object_deref_def c_assert_def)
qed

lemma delete_object_spec:
  assumes inv: "registry_inv reg" and p: "paths_map reg p = Some o1" and ob: "rg_objects reg o1 = Some ob"
  obtains reg' where "dicey_registry_delete_object ndebug reg p = Ok (DICEY_OK, reg')" "registry_inv reg'"
    "paths_map reg' = (\<lambda>q. if paths_map reg q = Some o1 then None else paths_map reg q)"
    "ob_refcount ob = int (card (paths_of reg o1)) \<longrightarrow> rg_objects reg' o1 = None"
proof -
  have valid: "path_is_valid p" and ok: "objects_ok (rg_paths reg)"
    using registry_invD(1,2) [OF inv] p by blast+
  obtain main where main: "ob_main_path ob = Key main"
    by (rule object_invD [OF registered_inv [OF inv p ob]])
  obtain reg1 n where reg1:
    "remove_aliases ndebug reg o1 (visited (ob_aliases ob) (dicey_hashset_iter_start (ob_aliases ob))) = Ok reg1"
    "inv_but reg1 o1" "paths_map reg1 = (\<lambda>q. if paths_map reg q = Some o1 \<and> q \<noteq> main then None else paths_map reg q)"
    "rg_objects reg1 o1 = Some (ob\<lparr>ob_refcount := n\<rparr>)" "n = ob_refcount ob + 1 - int (card (paths_of reg o1))" "1 \<le> n"
    "paths_map reg main = Some o1"
    by (rule remove_all_aliases [OF inv p ob main])
  have main1: "paths_map reg1 main = Some o1"
    using reg1(3,7) by simp
  obtain t where t: "remove_object (rg_paths reg1) main = Ok (Some o1, t)" "objects_ok t"
    "objects t = (paths_map reg1)(main := None)"
    using ht.delete_content [OF inv_butD(1) [OF reg1(2)], of main] main1 by auto
  let ?reg = "set_paths reg1 main t"
  have but: "inv_but ?reg o1"
    by (rule set_paths_but [OF reg1(2) main1 t(2,3)])
  have obj: "rg_objects ?reg o1 = Some (drop_key main (ob\<lparr>ob_refcount := n\<rparr>))"
    and ref: "ob_refcount (drop_key main (ob\<lparr>ob_refcount := n\<rparr>)) = n"
    using reg1(4) by (simp_all add: set_paths_def drop_key_def)
  obtain reg2 where reg2: "object_deref ndebug ?reg (Some o1) = Ok reg2" "inv_but reg2 o1" "rg_paths reg2 = rg_paths ?reg"
    "rg_objects reg2 o1 = (if n = 1 then None else Some ((drop_key main (ob\<lparr>ob_refcount := n\<rparr>))\<lparr>ob_refcount := n - 1\<rparr>))"
    by (rule deref_local [OF but obj, of ndebug, unfolded ref, OF reg1(6)])
  have map2: "paths_map reg2 = (\<lambda>q. if paths_map reg q = Some o1 then None else paths_map reg q)"
    unfolding reg2(3) using t(3) reg1(3,7) by (auto simp: set_paths_def)
  then have "paths_of reg2 o1 = {}"
    by (auto simp: paths_of_def)
  then have "registry_inv reg2"
    using reg2(2) registry_inv_but [of reg2 o1] by (simp add: live_def)
  moreover have "dicey_registry_delete_object ndebug reg p = Ok (DICEY_OK, reg2)"
    using valid get_object_mut_paths [OF ok valid] p ob reg1(1,4) main t(1) reg2(1)
    by (simp add: dicey_registry_delete_object_def registry_del_object_def key_str_def)
  ultimately show thesis
    using that map2 reg2(4) reg1(5) by simp
qed

lemma remove_all_object_aliases_spec:
  assumes inv: "registry_inv reg" and p: "paths_map reg p = Some o1" and ob: "rg_objects reg o1 = Some ob"
    and main: "ob_main_path ob = Key p"
  obtains reg' where "dicey_registry_remove_all_object_aliases ndebug reg p = Ok (DICEY_OK, reg')" "registry_inv reg'"
    "paths_map reg' = (\<lambda>q. if paths_map reg q = Some o1 \<and> q \<noteq> p then None else paths_map reg q)"
proof -
  have valid: "path_is_valid p" and ok: "objects_ok (rg_paths reg)"
    using registry_invD(1,2) [OF inv] p by blast+
  obtain reg1 n where reg1:
    "remove_aliases ndebug reg o1 (visited (ob_aliases ob) (dicey_hashset_iter_start (ob_aliases ob))) = Ok reg1"
    "inv_but reg1 o1" "paths_map reg1 = (\<lambda>q. if paths_map reg q = Some o1 \<and> q \<noteq> p then None else paths_map reg q)"
    "rg_objects reg1 o1 = Some (ob\<lparr>ob_refcount := n\<rparr>)" "1 \<le> n"
    by (rule remove_all_aliases [OF inv p ob main])
  let ?ob = "ob\<lparr>ob_refcount := n, ob_aliases := None\<rparr>"
  let ?reg = "put_obj reg1 o1 ?ob"
  have only: "paths_of reg1 o1 = {p}"
    using reg1(3) p by (auto simp: paths_of_def)
  have "object_inv reg o1 ob"
    by (rule registered_inv [OF inv p ob])
  then have "object_inv ?reg o1 ?ob"
    using reg1(5) only main by (auto simp: object_inv_def members_def)
  then have "registry_inv ?reg"
    using inv_but_put [OF reg1(2), of ?ob] reg1(4) registry_inv_but [of ?reg o1] by (simp add: live_def)
  moreover have "dicey_registry_remove_all_object_aliases ndebug reg p = Ok (DICEY_OK, ?reg)"
    using valid get_object_mut_paths [OF ok valid] p ob reg1(1,4) main
    by (simp add: dicey_registry_remove_all_object_aliases_def key_str_def)
  ultimately show thesis
    using that reg1(3) by simp
qed

lemma refcount_pos:
  assumes "object_inv reg o1 ob" and "objects_ok (rg_paths reg)" and "paths_map reg p = Some o1"
  shows "1 \<le> ob_refcount ob" "ob_main_path ob \<noteq> Key p \<Longrightarrow> 1 < ob_refcount ob"
proof -
  obtain main where main: "ob_main_path ob = Key main" "paths_map reg main = Some o1"
    and card: "int (card (paths_of reg o1)) \<le> ob_refcount ob"
    by (rule object_invD [OF assms(1)])
  have fin: "finite (paths_of reg o1)"
    by (rule paths_of_finite [OF assms(2)])
  have "{p, main} \<subseteq> paths_of reg o1"
    using main(2) assms(3) by (simp add: paths_of_def)
  then have le: "int (card {p, main}) \<le> ob_refcount ob"
    using card_mono [OF fin] card by (meson order_trans of_nat_mono)
  show "1 \<le> ob_refcount ob"
    using le by (cases "p = main") auto
  show "1 < ob_refcount ob" if "ob_main_path ob \<noteq> Key p"
    using that main(1) le by auto
qed

lemma registry_inv_put:
  assumes "registry_inv reg" and "rg_objects reg o1 \<noteq> None" and "object_inv reg o1 ob"
  shows "registry_inv (put_obj reg o1 ob)"
proof -
  have "inv_but reg o1"
    using assms(1) registry_inv_but by blast
  then have "inv_but (put_obj reg o1 ob) o1"
    by (rule inv_but_put) (rule assms(2))
  moreover have "object_inv (put_obj reg o1 ob) o1 ob"
    using assms(3) by (simp add: object_inv_def)
  ultimately show ?thesis
    using registry_inv_but [of "put_obj reg o1 ob" o1] by (simp add: live_def)
qed

lemma unalias_object_spec:
  assumes inv: "registry_inv reg" and p: "paths_map reg al = Some o1" and ob: "rg_objects reg o1 = Some ob"
  obtains err reg' where "dicey_registry_unalias_object ndebug reg al = Ok (err, reg')" "registry_inv reg'"
    "if ob_main_path ob = Key al then err = DICEY_EPATH_NOT_ALIAS \<and> paths_map reg' = paths_map reg
     else err = DICEY_OK \<and> paths_map reg' = (paths_map reg)(al := None)"
proof -
  have valid: "path_is_valid al" and ok: "objects_ok (rg_paths reg)"
    using registry_invD(1,2) [OF inv] p by blast+
  have oi: "object_inv reg o1 ob"
    by (rule registered_inv [OF inv p ob])
  obtain main where main: "ob_main_path ob = Key main" "paths_map reg main = Some o1"
    "members (ob_aliases ob) = paths_of reg o1 - {main}" "objects_ok (ob_aliases ob)"
    by (rule object_invD [OF oi])
  obtain s' where s': "dicey_hashset_remove (ob_aliases ob) al = Ok (al \<in> members (ob_aliases ob), s')"
    "objects_ok s'" "members s' = members (ob_aliases ob) - {al}"
    using hashset_remove_members [OF main(4), of al] by blast
  have isin: "al \<in> members (ob_aliases ob) \<longleftrightarrow> al \<noteq> main"
    using main(3) p by (simp add: paths_of_def)
  let ?ob = "ob\<lparr>ob_aliases := s'\<rparr>"
  let ?reg = "put_obj reg o1 ?ob"
  show thesis
  proof (cases "al = main")
    case True
    then have "object_inv reg o1 ?ob"
      using oi s' isin main by (simp add: object_inv_def)
    then have "registry_inv ?reg"
      using registry_inv_put [OF inv] ob by simp
    moreover have "dicey_registry_unalias_object ndebug reg al = Ok (DICEY_EPATH_NOT_ALIAS, ?reg)"
      using valid get_object_mut_paths [OF ok valid] p ob s'(1) isin True
      by (simp add: dicey_registry_unalias_object_def Let_def)
    ultimately show ?thesis
      using that True main(1) by simp
  next
    case False
    have but: "inv_but ?reg o1"
      using inv registry_inv_but [of reg o1] inv_but_put [of reg o1 ?ob] ob by blast
    have "1 < ob_refcount ?ob"
      using refcount_pos(2) [OF oi ok p] False main(1) by simp
    then obtain reg' where reg': "registry_remove_path ndebug ?reg al = Ok (DICEY_OK, reg')" "inv_but reg' o1"
      "paths_map reg' = (paths_map ?reg)(al := None)"
      "rg_objects reg' o1 = Some ((drop_key al ?ob)\<lparr>ob_refcount := ob_refcount ?ob - 1\<rparr>)"
      using remove_path_local [OF but, of al ?ob ndebug] p by auto
    have keep: "drop_key al ?ob = ?ob"
      using False main(1) by (simp add: drop_key_def)
    have paths: "paths_of reg' o1 = paths_of reg o1 - {al}"
      using reg'(3) by (auto simp: paths_of_def)
    have "card (paths_of reg o1 - {al}) = card (paths_of reg o1) - 1"
      by (rule card_Diff_singleton) (use p in \<open>simp add: paths_of_def\<close>)
    moreover have "0 < card (paths_of reg o1)"
      using paths_of_finite [OF ok] p by (metis card_gt_0_iff empty_iff mem_Collect_eq paths_of_def)
    ultimately have "object_inv reg' o1 (?ob\<lparr>ob_refcount := ob_refcount ob - 1\<rparr>)"
      using oi s'(2,3) main False unfolding object_inv_def paths by auto
    then have "registry_inv reg'"
      using reg'(2,4) keep registry_inv_but [of reg' o1] by (simp add: live_def)
    moreover have "dicey_registry_unalias_object ndebug reg al = Ok (DICEY_OK, reg')"
      using valid get_object_mut_paths [OF ok valid] p ob s'(1) isin False reg'(1)
      by (simp add: dicey_registry_unalias_object_def Let_def)
    ultimately show ?thesis
      using that False main(1) reg'(3) by simp
  qed
qed

section \<open>Registering paths\<close>

lemma inv_but_paths:
  assumes but: "inv_but reg o1" and t: "objects_ok t" "objects t = paths_map reg \<or> objects t = (paths_map reg)(p \<mapsto> o1)"
    and free: "paths_map reg p = None" and valid: "path_is_valid p"
  shows "inv_but (reg\<lparr>rg_paths := t\<rparr>) o1"
proof (rule inv_but_frame [OF but])
  show "traits_inv (reg\<lparr>rg_paths := t\<rparr>)"
    using inv_butD(3) [OF but] by (rule traits_inv_cong) simp_all
  show "path_is_valid q" if "paths_map (reg\<lparr>rg_paths := t\<rparr>) q = Some o1" for q
    using that t(2) valid inv_butD(2) [OF but, of q o1] by (auto split: if_splits)
  show "paths_map (reg\<lparr>rg_paths := t\<rparr>) q = Some o2 \<longleftrightarrow> paths_map reg q = Some o2" if "o2 \<noteq> o1" for q o2
    using that t(2) free by (auto split: if_splits)
qed (use but t(1) in \<open>auto simp: inv_but_def base_inv_def\<close>)

text \<open>The outcomes of \<open>registry_add_object\<close> for a path that is free: no memory, or the path is bound.\<close>

lemma add_object_local:
  assumes but: "inv_but reg o1" and ob: "rg_objects reg o1 = Some ob"
    and free: "paths_map reg p = None" and valid: "path_is_valid p"
  obtains (failed) reg' where "registry_add_object ndebug alloc reg p o1 = Ok (DICEY_ENOMEM, reg')" "inv_but reg' o1"
      "paths_map reg' = paths_map reg" "rg_objects reg' = rg_objects reg"
  | (added) reg' where "registry_add_object ndebug alloc reg p o1 = Ok (DICEY_OK, reg')" "inv_but reg' o1"
      "paths_map reg' = (paths_map reg)(p \<mapsto> o1)"
      "rg_objects reg' = (rg_objects reg)(o1 \<mapsto> (if ob_main_path ob = NullKey then ob\<lparr>ob_main_path := Key p\<rparr> else ob))"
proof -
  obtain res t where t: "set_object alloc (rg_paths reg) p o1 = Ok (res, t)" "objects_ok t"
    "objects t = (if res = DICEY_HASH_SET_FAILED then paths_map reg else (paths_map reg)(p \<mapsto> o1))"
    "paths_map reg p = None \<longrightarrow> res \<noteq> DICEY_HASH_SET_UPDATED"
    by (rule set_objects [OF inv_butD(1) [OF but]])
  let ?reg = "reg\<lparr>rg_paths := t\<rparr>"
  have "objects t = paths_map reg \<or> objects t = (paths_map reg)(p \<mapsto> o1)"
    using t(3) by (auto split: if_splits)
  then have but': "inv_but ?reg o1"
    by (rule inv_but_paths [OF but t(2) _ free valid])
  show thesis
  proof (cases "res = DICEY_HASH_SET_FAILED")
    case True
    then show ?thesis
      using failed [of ?reg] t(1,3) but' by (simp add: registry_add_object_def Let_def)
  next
    case False
    then have res: "res = DICEY_HASH_SET_ADDED"
      using t(4) free by (cases res) simp_all
    have bound: "paths_map ?reg p = Some o1"
      using t(3) res by simp
    have entry: "registry_get_object_entry ?reg p = Ok (Inr (p, o1))"
      using get_entry_paths [of ?reg p] t(2) valid bound by auto
    show ?thesis
    proof (cases "ob_main_path ob = NullKey")
      case True
      then show ?thesis
        using added [of "put_obj ?reg o1 (ob\<lparr>ob_main_path := Key p\<rparr>)"] t(1,3) res ob entry inv_but_put [OF but'] 
        by (simp add: registry_add_object_def Let_def)
    next
      case False
      then show ?thesis
        using added [of ?reg] t(1,3) res ob but' by (simp add: registry_add_object_def Let_def fun_upd_idem)
    qed
  qed
qed

lemma object_ref_local:
  assumes "registry_inv reg" and "paths_map reg p = Some o1" and "rg_objects reg o1 = Some ob"
  shows "object_ref ndebug reg o1 = Ok (put_obj reg o1 (ob\<lparr>ob_refcount := ob_refcount ob + 1\<rparr>))"
    "registry_inv (put_obj reg o1 (ob\<lparr>ob_refcount := ob_refcount ob + 1\<rparr>))"
proof -
  have oi: "object_inv reg o1 ob"
    by (rule registered_inv [OF assms])
  show "object_ref ndebug reg o1 = Ok (put_obj reg o1 (ob\<lparr>ob_refcount := ob_refcount ob + 1\<rparr>))"
    using refcount_pos(1) [OF oi registry_invD(1) [OF assms(1)] assms(2)] assms(3)
    by (simp add: object_ref_def c_assert_def)
  have "object_inv reg o1 (ob\<lparr>ob_refcount := ob_refcount ob + 1\<rparr>)"
    using oi by (simp add: object_inv_def)
  then show "registry_inv (put_obj reg o1 (ob\<lparr>ob_refcount := ob_refcount ob + 1\<rparr>))"
    using registry_inv_put [OF assms(1)] assms(3) by simp
qed

lemma record_alias_spec:
  assumes but: "inv_but reg2 o1" and ob: "rg_objects reg2 o1 = Some ob" and bound: "paths_map reg2 al = Some o1"
    and main: "ob_main_path ob = Key main" "paths_map reg2 main = Some o1" "main \<noteq> al"
    and mem: "members (ob_aliases ob) = paths_of reg2 o1 - {main, al}" "objects_ok (ob_aliases ob)"
    and tr: "objects_ok (ob_traits ob)" "ob_traits ob \<noteq> None" and card: "int (card (paths_of reg2 o1)) \<le> ob_refcount ob"
  shows "\<exists>reg'. record_alias ndebug alloc reg2 o1 al = Ok (DICEY_OK, reg') \<and> registry_inv reg' \<and>
    (paths_map reg' = paths_map reg2 \<or> paths_map reg' = (paths_map reg2)(al := None))"
proof -
  have valid: "path_is_valid al" and ok: "objects_ok (rg_paths reg2)"
    using inv_butD(1,2) [OF but] bound by blast+
  have entry: "dicey_registry_get_object_entry ndebug reg2 al = Ok (Some (al, o1))"
    using get_object_entry_paths [OF ok, of al ndebug] valid bound by simp
  obtain res s' where s': "dicey_hashset_add alloc (ob_aliases ob) al = Ok (res, s')" "objects_ok s'"
    "members s' = (if res = DICEY_HASH_SET_FAILED then members (ob_aliases ob) else insert al (members (ob_aliases ob)))"
    "res = DICEY_HASH_SET_UPDATED \<longrightarrow> al \<in> members (ob_aliases ob)"
    using hashset_add_members [OF mem(2), of alloc al] by blast
  let ?ob = "ob\<lparr>ob_aliases := s'\<rparr>"
  let ?reg = "put_obj reg2 o1 ?ob"
  have but3: "inv_but ?reg o1"
    by (rule inv_but_put [OF but]) (simp add: ob)
  have step: "record_alias ndebug alloc reg2 o1 al =
      (case res of
         DICEY_HASH_SET_ADDED \<Rightarrow> Ok (DICEY_OK, ?reg)
       | DICEY_HASH_SET_UPDATED \<Rightarrow> c_assert ndebug False (Ok (DICEY_EINVAL, ?reg))
       | DICEY_HASH_SET_FAILED \<Rightarrow> dicey_registry_remove_object ndebug ?reg al)"
    using entry ob s'(1) by (simp add: record_alias_def Let_def)
  show ?thesis
  proof (cases res)
    case DICEY_HASH_SET_ADDED
    then have "members s' = paths_of reg2 o1 - {main}"
      using s'(3) mem(1) bound main(3) by (auto simp: paths_of_def)
    then have "object_inv ?reg o1 ?ob"
      using main tr card s'(2) by (simp add: object_inv_def paths_of_def)
    then have "registry_inv ?reg"
      using but3 registry_inv_but [of ?reg o1] by (simp add: live_def)
    then show ?thesis
      using step DICEY_HASH_SET_ADDED by auto
  next
    case DICEY_HASH_SET_UPDATED
    then show ?thesis
      using s'(4) mem(1) by simp
  next
    case DICEY_HASH_SET_FAILED
    have fin: "finite (paths_of reg2 o1)"
      by (rule paths_of_finite [OF ok])
    have two: "{al, main} \<subseteq> paths_of reg2 o1"
      using bound main(2) by (simp add: paths_of_def)
    have "1 < ob_refcount ?ob"
      using card_mono [OF fin two] main(3) card by simp
    then obtain reg' where reg': "registry_remove_path ndebug ?reg al = Ok (DICEY_OK, reg')" "inv_but reg' o1"
      "paths_map reg' = (paths_map ?reg)(al := None)"
      "rg_objects reg' o1 = Some ((drop_key al ?ob)\<lparr>ob_refcount := ob_refcount ?ob - 1\<rparr>)"
      using remove_path_local [OF but3, of al ?ob ndebug] bound by auto
    have keep: "drop_key al ?ob = ?ob"
      using main(1,3) by (simp add: drop_key_def)
    have paths: "paths_of reg' o1 = paths_of reg2 o1 - {al}"
      using reg'(3) by (auto simp: paths_of_def)
    have "Suc (card (paths_of reg2 o1 - {al})) = card (paths_of reg2 o1)"
      by (rule card_Suc_Diff1 [OF fin]) (use two in simp)
    moreover have "members s' = paths_of reg2 o1 - {al} - {main}"
      using s'(3) mem(1) DICEY_HASH_SET_FAILED by auto
    ultimately have "object_inv reg' o1 (?ob\<lparr>ob_refcount := ob_refcount ob - 1\<rparr>)"
      using main two tr card s'(2) unfolding object_inv_def paths by auto
    then have "registry_inv reg'"
      using reg'(2,4) keep registry_inv_but [of reg' o1] by (simp add: live_def)
    then show ?thesis
      using step DICEY_HASH_SET_FAILED reg'(1,3) valid by (auto simp: dicey_registry_remove_object_def)
  qed
qed

lemma alias_object_spec:
  assumes inv: "registry_inv reg" and bound: "paths_map reg p = Some o1" and free: "paths_map reg al = None"
    and valid: "path_is_valid al"
  obtains (no_memory) reg' where "dicey_registry_alias_object ndebug alloc reg p al = Ok (DICEY_ENOMEM, reg')"
      "registry_inv reg'" "paths_map reg' = paths_map reg"
  | (ok) reg' where "dicey_registry_alias_object ndebug alloc reg p al = Ok (DICEY_OK, reg')" "registry_inv reg'"
      "paths_map reg' = (paths_map reg)(al \<mapsto> o1) \<or> paths_map reg' = paths_map reg"
proof -
  obtain ob where ob: "rg_objects reg o1 = Some ob" and oi: "object_inv reg o1 ob"
    by (rule registered [OF inv bound])
  obtain main where main: "ob_main_path ob = Key main" "paths_map reg main = Some o1"
    "members (ob_aliases ob) = paths_of reg o1 - {main}" "objects_ok (ob_aliases ob)" "objects_ok (ob_traits ob)"
    "ob_traits ob \<noteq> None" "int (card (paths_of reg o1)) \<le> ob_refcount ob"
    by (rule object_invD [OF oi])
  have pv: "path_is_valid p" and pal: "p \<noteq> al" and table: "objects_ok (rg_paths reg)"
    using registry_invD(1,2) [OF inv] bound free by auto
  have no_alias: "dicey_registry_get_main_path ndebug reg al = Ok NullKey"
    using get_main_path_inv [OF inv, of ndebug al] free by simp
  let ?ob = "ob\<lparr>ob_refcount := ob_refcount ob + 1\<rparr>"
  let ?reg = "put_obj reg o1 ?ob"
  note ref = object_ref_local(1) [OF inv bound ob, of ndebug] object_ref_local(2) [OF inv bound ob]
  have but1: "inv_but ?reg o1"
    using ref(2) registry_inv_but by blast
  have start: "dicey_registry_alias_object ndebug alloc reg p al =
      and_then (registry_add_object ndebug alloc ?reg al o1) (\<lambda>(err, reg2).
        if err \<noteq> DICEY_OK then Ok (err, reg2) else record_alias ndebug alloc reg2 o1 al)"
    using pv valid pal lookup_objects [OF table, of p] bound no_alias ref(1)
    by (simp add: dicey_registry_alias_object_def)
  show thesis
  proof (rule add_object_local [OF but1, where ob = ?ob and p = al and ndebug = ndebug and alloc = alloc])
    show "rg_objects ?reg o1 = Some ?ob" "paths_map ?reg al = None" "path_is_valid al"
      using free valid by simp_all
  next
    fix reg'
    assume f: "registry_add_object ndebug alloc ?reg al o1 = Ok (DICEY_ENOMEM, reg')" "inv_but reg' o1"
      "paths_map reg' = paths_map ?reg" "rg_objects reg' = rg_objects ?reg"
    have "object_inv reg' o1 ?ob"
      using oi f(3) by (simp add: object_inv_def paths_of_def)
    then have "registry_inv reg'"
      using f(2,4) registry_inv_but [of reg' o1] by (simp add: live_def)
    then show thesis
      using no_memory [of reg'] start f(1,3) by simp
  next
    fix reg2
    assume a: "registry_add_object ndebug alloc ?reg al o1 = Ok (DICEY_OK, reg2)" "inv_but reg2 o1"
      "paths_map reg2 = (paths_map ?reg)(al \<mapsto> o1)"
      "rg_objects reg2 = (rg_objects ?reg)(o1 \<mapsto> (if ob_main_path ?ob = NullKey then ?ob\<lparr>ob_main_path := Key al\<rparr> else ?ob))"
    have ob2: "rg_objects reg2 o1 = Some ?ob"
      using a(4) main(1) by simp
    have paths: "paths_of reg2 o1 = insert al (paths_of reg o1)" "al \<notin> paths_of reg o1"
      using a(3) free by (auto simp: paths_of_def)
    have "main \<noteq> al"
      using main(2) free by auto
    then obtain reg' where "record_alias ndebug alloc reg2 o1 al = Ok (DICEY_OK, reg')" "registry_inv reg'"
      "paths_map reg' = paths_map reg2 \<or> paths_map reg' = (paths_map reg2)(al := None)"
      using record_alias_spec [OF a(2) ob2, of al main ndebug alloc] a(3) main paths paths_of_finite [OF table, of o1]
      by auto
    moreover have "(paths_map reg2)(al := None) = paths_map reg"
      using a(3) free by auto
    ultimately show thesis
      using ok [of reg'] start a(1,3) by simp
  qed
qed

section \<open>New objects\<close>

text \<open>An object that was created and is not registered yet.\<close>

definition unregistered :: "dicey_registry \<Rightarrow> nat \<Rightarrow> dicey_object \<Rightarrow> bool" where
  "unregistered reg o1 ob \<longleftrightarrow> inv_but reg o1 \<and> rg_objects reg o1 = Some ob \<and> paths_of reg o1 = {} \<and>
     ob_main_path ob = NullKey \<and> ob_aliases ob = None \<and> ob_refcount ob = 1 \<and>
     objects_ok (ob_traits ob) \<and> ob_traits ob \<noteq> None"

lemma members_None [simp]: "members None = {}"
  by (auto simp: members_def)

lemma object_new_spec:
  assumes inv: "registry_inv reg" and names: "objects_ok names"
  obtains (none) "object_new_with alloc reg names = Ok (None, reg)"
  | (some) reg' ob where "object_new_with alloc reg names = Ok (Some (rg_next reg), reg')"
      "unregistered reg' (rg_next reg) ob" "rg_paths reg' = rg_paths reg" "rg_traits reg' = rg_traits reg"
      "rg_trait_mem reg' = rg_trait_mem reg"
      "members (ob_traits ob) = insert DICEY_INTROSPECTION_TRAIT_NAME (members names)"
proof -
  obtain res s' where s': "dicey_hashset_add alloc names DICEY_INTROSPECTION_TRAIT_NAME = Ok (res, s')" "objects_ok s'"
    "members s' = (if res = DICEY_HASH_SET_FAILED then members names else insert DICEY_INTROSPECTION_TRAIT_NAME (members names))"
    using hashset_add_members [OF names, of alloc DICEY_INTROSPECTION_TRAIT_NAME] by blast
  show thesis
  proof (cases "\<not> alloc sizeof_object \<or> res = DICEY_HASH_SET_FAILED")
    case True
    then show ?thesis
      using none s'(1) by (auto simp: object_new_with_def)
  next
    case False
    let ?o = "rg_next reg"
    let ?ob = "\<lparr>ob_traits = s', ob_main_path = NullKey, ob_aliases = None, ob_cached_xml = None, ob_refcount = 1\<rparr>"
    let ?reg = "(put_obj reg ?o ?ob)\<lparr>rg_next := Suc ?o\<rparr>"
    have but: "inv_but reg ?o"
      using inv registry_inv_but by blast
    have new: "paths_of reg ?o = {}"
    proof (rule ccontr)
      assume "paths_of reg ?o \<noteq> {}"
      then obtain q where "paths_map reg q = Some ?o"
        by (auto simp: paths_of_def)
      with inv obtain ob where "rg_objects reg ?o = Some ob"
        by (rule registered)
      then show False
        using registry_invD(4) [OF inv, of ?o] by simp
    qed
    have "inv_but ?reg ?o"
    proof (rule inv_but_frame [OF but])
      show "rg_objects ?reg o2 = None \<and> rg_trait_mem ?reg o2 = None" if "rg_next ?reg \<le> o2" for o2
        using that but by (simp add: inv_but_def base_inv_def)
      show "traits_inv ?reg"
        using inv_butD(3) [OF but] by (rule traits_inv_cong) simp_all
    qed (use inv_butD(1,2) [OF but] in simp_all)
    moreover have "s' \<noteq> None"
      using s'(3) False by (cases s') simp_all
    ultimately have "unregistered ?reg ?o ?ob"
      using s'(2) new by (simp add: unregistered_def paths_of_def)
    then show ?thesis
      using some [of ?reg ?ob] False s'(1,3) by (simp add: object_new_with_def)
  qed
qed

lemma hashset_add_not_null: "dicey_hashset_add alloc s k = Ok (res, s') \<Longrightarrow> s \<noteq> None \<Longrightarrow> s' \<noteq> None"
  by (auto simp: dicey_hashset_add_def dicey_hashtable_set_def and_then_Ok_iff)

lemma trait_exists_inv: "traits_inv reg \<Longrightarrow> registry_trait_exists reg n = Ok (n \<in> dom (objects (rg_traits reg)))"
  by (simp add: registry_trait_exists_def traits_inv_def contains_objects dom_def)

lemma add_object_traits_spec:
  assumes "unregistered reg o1 ob"
  shows "\<exists>err reg' ob'. add_object_traits alloc reg o1 traits = Ok (err, reg') \<and> unregistered reg' o1 ob' \<and>
    rg_paths reg' = rg_paths reg \<and> rg_traits reg' = rg_traits reg \<and> rg_trait_mem reg' = rg_trait_mem reg \<and>
    (err = DICEY_OK \<longrightarrow> members (ob_traits ob') = members (ob_traits ob) \<union> set traits \<and>
       set traits \<subseteq> dom (objects (rg_traits reg)))"
  using assms
proof (induction traits arbitrary: reg ob)
  case Nil
  then show ?case
    by auto
next
  case (Cons n traits)
  have un: "inv_but reg o1" "rg_objects reg o1 = Some ob" "objects_ok (ob_traits ob)" "paths_of reg o1 = {}"
    using Cons.prems by (simp_all add: unregistered_def)
  note exists = trait_exists_inv [OF inv_butD(3) [OF un(1)], of n]
  show ?case
  proof (cases "n \<in> dom (objects (rg_traits reg))")
    case False
    then have "add_object_traits alloc reg o1 (n # traits) = Ok (DICEY_ETRAIT_NOT_FOUND, reg)"
      using exists by simp
    with Cons.prems show ?thesis
      by blast
  next
    case True
    obtain res s' where s': "dicey_hashset_add alloc (ob_traits ob) n = Ok (res, s')" "objects_ok s'"
      "members s' = (if res = DICEY_HASH_SET_FAILED then members (ob_traits ob) else insert n (members (ob_traits ob)))"
      using hashset_add_members [OF un(3), of alloc n] by blast
    let ?ob = "ob\<lparr>ob_traits := s'\<rparr>"
    let ?reg = "put_obj reg o1 ?ob"
    have step: "add_object_traits alloc reg o1 (n # traits) =
        (case res of
           DICEY_HASH_SET_ADDED \<Rightarrow> add_object_traits alloc ?reg o1 traits
         | DICEY_HASH_SET_UPDATED \<Rightarrow> Ok (DICEY_EINVAL, ?reg)
         | DICEY_HASH_SET_FAILED \<Rightarrow> Ok (DICEY_ENOMEM, ?reg))"
      using exists True un(2) s'(1) by (simp add: Let_def)
    have "s' \<noteq> None"
      by (rule hashset_add_not_null [OF s'(1)]) (use Cons.prems in \<open>simp add: unregistered_def\<close>)
    then have un': "unregistered ?reg o1 ?ob"
      using Cons.prems s'(2) inv_but_put [OF un(1), of ?ob] un(2) by (simp add: unregistered_def)
    show ?thesis
    proof (cases res)
      case DICEY_HASH_SET_ADDED
      then show ?thesis
        using Cons.IH [OF un'] step s'(3) True by auto
    next
      case DICEY_HASH_SET_UPDATED
      then show ?thesis
        using step un' by (intro exI [of _ DICEY_EINVAL] exI [of _ ?reg] exI [of _ ?ob]) simp
    next
      case DICEY_HASH_SET_FAILED
      then show ?thesis
        using step un' by (intro exI [of _ DICEY_ENOMEM] exI [of _ ?reg] exI [of _ ?ob]) simp
    qed
  qed
qed

lemma add_object_traits_kept:
  assumes "inv_but reg o1" and "rg_objects reg o1 = Some ob" and "paths_map reg p = None" and "path_is_valid p"
  shows "\<exists>err reg'. registry_add_object ndebug alloc reg p o1 = Ok (err, reg') \<and>
    rg_traits reg' = rg_traits reg \<and> rg_trait_mem reg' = rg_trait_mem reg"
proof -
  obtain res t where t: "set_object alloc (rg_paths reg) p o1 = Ok (res, t)" "objects_ok t"
    "objects t = (if res = DICEY_HASH_SET_FAILED then paths_map reg else (paths_map reg)(p \<mapsto> o1))"
    "paths_map reg p = None \<longrightarrow> res \<noteq> DICEY_HASH_SET_UPDATED"
    by (rule set_objects [OF inv_butD(1) [OF assms(1)]])
  let ?reg = "reg\<lparr>rg_paths := t\<rparr>"
  obtain r where "registry_get_object_entry ?reg p = Ok r" "res = DICEY_HASH_SET_ADDED \<longrightarrow> r = Inr (p, o1)"
    using get_entry_paths [of ?reg p] t(2,3) assms(4) by (cases res) (auto split: option.splits)
  then show ?thesis
    using t(1,4) assms(2,3) by (cases res) (simp_all add: registry_add_object_def Let_def)
qed

text \<open>Registering a new object, or releasing it when that fails.\<close>

definition registered_as :: "dicey_registry \<Rightarrow> cstring \<Rightarrow> nat \<Rightarrow> cstring set \<Rightarrow> bool" where
  "registered_as reg p o1 names \<longleftrightarrow>
     (\<exists>ob. rg_objects reg o1 = Some ob \<and> ob_main_path ob = Key p \<and> ob_refcount ob = 1 \<and>
        members (ob_aliases ob) = {} \<and> members (ob_traits ob) = names)"

lemma or_deref_failed:
  assumes "unregistered reg o1 ob" and "err \<noteq> DICEY_OK"
  obtains reg' where "or_deref ndebug o1 (Ok (err, reg)) = Ok (err, reg')" "registry_inv reg'"
    "rg_paths reg' = rg_paths reg" "rg_traits reg' = rg_traits reg" "rg_trait_mem reg' = rg_trait_mem reg"
proof -
  have un: "inv_but reg o1" "rg_objects reg o1 = Some ob" "1 \<le> ob_refcount ob" "paths_of reg o1 = {}"
    using assms(1) by (simp_all add: unregistered_def)
  obtain reg' where reg': "object_deref ndebug reg (Some o1) = Ok reg'" "inv_but reg' o1" "rg_paths reg' = rg_paths reg"
    "rg_traits reg' = rg_traits reg" "rg_trait_mem reg' = rg_trait_mem reg"
    by (rule deref_local [OF un(1-3)])
  have "paths_of reg' o1 = {}"
    using un(4) reg'(3) by (simp add: paths_of_def)
  then have "registry_inv reg'"
    using reg'(2) registry_inv_but [of reg' o1] by (simp add: live_def)
  then show thesis
    using that [of reg'] reg' assms(2) by (simp add: or_deref_def)
qed

lemma register_object_spec:
  assumes un: "unregistered reg o1 ob" and free: "paths_map reg p = None" and valid: "path_is_valid p"
  shows "\<exists>err reg'. or_deref ndebug o1 (registry_add_object ndebug alloc reg p o1) = Ok (err, reg') \<and> registry_inv reg' \<and>
    rg_traits reg' = rg_traits reg \<and> rg_trait_mem reg' = rg_trait_mem reg \<and>
    (if err = DICEY_OK
     then paths_map reg' = (paths_map reg)(p \<mapsto> o1) \<and> registered_as reg' p o1 (members (ob_traits ob))
     else err = DICEY_ENOMEM \<and> paths_map reg' = paths_map reg)"
proof -
  have un': "inv_but reg o1" "rg_objects reg o1 = Some ob" "paths_of reg o1 = {}" "ob_main_path ob = NullKey"
    "ob_aliases ob = None" "ob_refcount ob = 1" "objects_ok (ob_traits ob)" "ob_traits ob \<noteq> None"
    using un by (simp_all add: unregistered_def)
  obtain err reg1 where eq: "registry_add_object ndebug alloc reg p o1 = Ok (err, reg1)"
    "rg_traits reg1 = rg_traits reg" "rg_trait_mem reg1 = rg_trait_mem reg"
    using add_object_traits_kept [OF un'(1,2) free valid] by blast
  show ?thesis
  proof (rule add_object_local [OF un'(1,2) free valid, of ndebug alloc])
    fix reg'
    assume f: "registry_add_object ndebug alloc reg p o1 = Ok (DICEY_ENOMEM, reg')" "inv_but reg' o1"
      "paths_map reg' = paths_map reg" "rg_objects reg' = rg_objects reg"
    have "unregistered reg' o1 ob"
      using un f(2,3,4) by (simp add: unregistered_def paths_of_def)
    then obtain reg'' where "or_deref ndebug o1 (Ok (DICEY_ENOMEM, reg')) = Ok (DICEY_ENOMEM, reg'')" "registry_inv reg''"
      "rg_paths reg'' = rg_paths reg'" "rg_traits reg'' = rg_traits reg'" "rg_trait_mem reg'' = rg_trait_mem reg'"
      by (rule or_deref_failed [where err = DICEY_ENOMEM and ndebug = ndebug]) simp
    then show ?thesis
      using f(1,3) eq by (intro exI [of _ DICEY_ENOMEM] exI [of _ reg'']) simp
  next
    fix reg'
    assume a: "registry_add_object ndebug alloc reg p o1 = Ok (DICEY_OK, reg')" "inv_but reg' o1"
      "paths_map reg' = (paths_map reg)(p \<mapsto> o1)"
      "rg_objects reg' = (rg_objects reg)(o1 \<mapsto> (if ob_main_path ob = NullKey then ob\<lparr>ob_main_path := Key p\<rparr> else ob))"
    have only: "paths_of reg' o1 = {p}"
      using a(3) un'(3) by (auto simp: paths_of_def)
    have ob': "rg_objects reg' o1 = Some (ob\<lparr>ob_main_path := Key p\<rparr>)"
      using a(4) un'(4) by simp
    have "object_inv reg' o1 (ob\<lparr>ob_main_path := Key p\<rparr>)"
      using un' only by (simp add: object_inv_def)
    then have "registry_inv reg'"
      using a(2) ob' registry_inv_but [of reg' o1] by (simp add: live_def)
    moreover have "registered_as reg' p o1 (members (ob_traits ob))"
      using ob' un' by (simp add: registered_as_def)
    ultimately show ?thesis
      using a(1,3) eq by (intro exI [of _ DICEY_OK] exI [of _ reg']) (simp add: or_deref_def)
  qed
qed

lemma contains_object_inv:
  assumes "registry_inv reg"
  shows "dicey_registry_contains_object ndebug reg p = Ok (paths_map reg p \<noteq> None)"
  using get_object_paths registry_invD(1,2) [OF assms] by (simp add: dicey_registry_contains_object_def)

text \<open>What adding an object does to the registry, on every path of the code.\<close>

definition object_added :: "dicey_registry \<Rightarrow> cstring \<Rightarrow> cstring set \<Rightarrow> dicey_error \<Rightarrow> dicey_registry \<Rightarrow> bool" where
  "object_added reg p names err reg' \<longleftrightarrow>
     registry_inv reg' \<and> rg_traits reg' = rg_traits reg \<and> rg_trait_mem reg' = rg_trait_mem reg \<and>
     (if err = DICEY_OK
      then path_is_valid p \<and> paths_map reg p = None \<and> paths_map reg' = (paths_map reg)(p \<mapsto> rg_next reg) \<and>
           registered_as reg' p (rg_next reg) (insert DICEY_INTROSPECTION_TRAIT_NAME names)
      else paths_map reg' = paths_map reg)"

lemma add_object_refused:
  "registry_inv reg \<Longrightarrow> err \<noteq> DICEY_OK \<Longrightarrow> object_added reg p names err reg"
  by (simp add: object_added_def)

lemma add_object_with_spec:
  assumes inv: "registry_inv reg"
  shows "\<exists>err reg'. dicey_registry_add_object_with ndebug alloc reg p traits = Ok (err, reg') \<and>
    object_added reg p (set traits) err reg' \<and> (err = DICEY_OK \<longrightarrow> set traits \<subseteq> dom (objects (rg_traits reg)))"
proof (cases "path_is_valid p \<and> paths_map reg p = None")
  case False
  then have "\<exists>err. dicey_registry_add_object_with ndebug alloc reg p traits = Ok (err, reg) \<and> err \<noteq> DICEY_OK"
    using contains_object_inv [OF inv] by (auto simp: dicey_registry_add_object_with_def)
  then show ?thesis
    using add_object_refused [OF inv] by blast
next
  case True
  then have start: "dicey_registry_add_object_with ndebug alloc reg p traits =
      and_then (object_new_with alloc reg None) (\<lambda>(object, reg1).
        case object of
          None \<Rightarrow> Ok (DICEY_ENOMEM, reg1)
        | Some o1 \<Rightarrow>
            or_deref ndebug o1
              (and_then (add_object_traits alloc reg1 o1 traits) (\<lambda>(err, reg2).
                 if err \<noteq> DICEY_OK then Ok (err, reg2) else registry_add_object ndebug alloc reg2 p o1)))"
    using contains_object_inv [OF inv] by (simp add: dicey_registry_add_object_with_def object_new_def)
  show ?thesis
  proof (rule object_new_spec [OF inv, of None alloc])
    show "objects_ok None"
      by simp
    assume "object_new_with alloc reg None = Ok (None, reg)"
    then show ?thesis
      using start add_object_refused [OF inv] by simp
  next
    fix reg1 ob
    assume new: "object_new_with alloc reg None = Ok (Some (rg_next reg), reg1)" "unregistered reg1 (rg_next reg) ob"
      "rg_paths reg1 = rg_paths reg" "rg_traits reg1 = rg_traits reg" "rg_trait_mem reg1 = rg_trait_mem reg"
      "members (ob_traits ob) = insert DICEY_INTROSPECTION_TRAIT_NAME (members None)"
    obtain e reg2 ob2 where tr: "add_object_traits alloc reg1 (rg_next reg) traits = Ok (e, reg2)"
      "unregistered reg2 (rg_next reg) ob2" "rg_paths reg2 = rg_paths reg1" "rg_traits reg2 = rg_traits reg1"
      "rg_trait_mem reg2 = rg_trait_mem reg1"
      "e = DICEY_OK \<longrightarrow> members (ob_traits ob2) = members (ob_traits ob) \<union> set traits \<and>
         set traits \<subseteq> dom (objects (rg_traits reg1))"
      using add_object_traits_spec [OF new(2), of alloc traits] by (elim exE conjE) (rule that)
    show ?thesis
    proof (cases "e = DICEY_OK")
      case True
      note e = this
      have free2: "paths_map reg2 p = None" "path_is_valid p"
        using \<open>path_is_valid p \<and> paths_map reg p = None\<close> new(3) tr(3) by simp_all
      obtain err reg' where r: "or_deref ndebug (rg_next reg) (registry_add_object ndebug alloc reg2 p (rg_next reg)) = Ok (err, reg')"
        "registry_inv reg'" "rg_traits reg' = rg_traits reg2" "rg_trait_mem reg' = rg_trait_mem reg2"
        "if err = DICEY_OK then paths_map reg' = (paths_map reg2)(p \<mapsto> rg_next reg) \<and> registered_as reg' p (rg_next reg) (members (ob_traits ob2))
         else err = DICEY_ENOMEM \<and> paths_map reg' = paths_map reg2"
        using register_object_spec [OF tr(2) free2, of ndebug alloc] by (elim exE conjE) (rule that)
      then show ?thesis
        using start new tr e \<open>path_is_valid p \<and> paths_map reg p = None\<close>
        by (intro exI [of _ err] exI [of _ reg']) (auto simp: object_added_def split: if_splits)
    next
      case False
      then obtain reg' where "or_deref ndebug (rg_next reg) (Ok (e, reg2)) = Ok (e, reg')" "registry_inv reg'"
        "rg_paths reg' = rg_paths reg2" "rg_traits reg' = rg_traits reg2" "rg_trait_mem reg' = rg_trait_mem reg2"
        using or_deref_failed [OF tr(2) False, of ndebug] by metis
      then show ?thesis
        using start new tr False by (intro exI [of _ e] exI [of _ reg']) (simp add: object_added_def)
    qed
  qed
qed

end
