(* ===== verification/Dicey_Registry_Ops.thy ===== *)
theory Dicey_Registry_Ops
  imports Dicey_Registry_Facts
begin

text \<open>
  Every operation of the registry on a registry that satisfies the invariant, and sequences of operations.
\<close>

section \<open>Every branch of the operations\<close>

lemma delete_object_total:
  assumes inv: "registry_inv reg"
  shows "\<exists>err reg'. dicey_registry_delete_object ndebug reg p = Ok (err, reg') \<and> registry_inv reg' \<and>
    paths_map reg' =
      (case paths_map reg p of
         None \<Rightarrow> paths_map reg
       | Some o1 \<Rightarrow> (\<lambda>q. if paths_map reg q = Some o1 then None else paths_map reg q)) \<and>
    (err = DICEY_OK \<longleftrightarrow> paths_map reg p \<noteq> None)"
proof (cases "paths_map reg p")
  case None
  then have "\<exists>err. dicey_registry_delete_object ndebug reg p = Ok (err, reg) \<and> err \<noteq> DICEY_OK"
    using get_object_mut_paths [OF registry_invD(1) [OF inv], of p]
    by (simp add: dicey_registry_delete_object_def registry_del_object_def)
  then show ?thesis
    using inv None by auto
next
  case (Some o1)
  obtain ob where ob: "rg_objects reg o1 = Some ob"
    using inv Some by (rule registered)
  obtain reg' where "dicey_registry_delete_object ndebug reg p = Ok (DICEY_OK, reg')" "registry_inv reg'"
    "paths_map reg' = (\<lambda>q. if paths_map reg q = Some o1 then None else paths_map reg q)"
    by (rule delete_object_spec [OF inv Some ob])
  then show ?thesis
    using Some by auto
qed

lemma remove_all_object_aliases_total:
  assumes inv: "registry_inv reg"
  shows "\<exists>err reg'. dicey_registry_remove_all_object_aliases ndebug reg p = Ok (err, reg') \<and> registry_inv reg' \<and>
    (\<forall>q. paths_map reg' q = paths_map reg q \<or> paths_map reg' q = None)"
proof (cases "paths_map reg p")
  case None
  then have "\<exists>err. dicey_registry_remove_all_object_aliases ndebug reg p = Ok (err, reg)"
    using get_object_mut_paths [OF registry_invD(1) [OF inv], of p]
    by (simp add: dicey_registry_remove_all_object_aliases_def)
  then show ?thesis
    using inv by auto
next
  case (Some o1)
  obtain ob where ob: "rg_objects reg o1 = Some ob" "object_inv reg o1 ob"
    using inv Some by (rule registered)
  obtain main where main: "ob_main_path ob = Key main"
    by (rule object_invD [OF ob(2)])
  show ?thesis
  proof (cases "main = p")
    case True
    then obtain reg' where "dicey_registry_remove_all_object_aliases ndebug reg p = Ok (DICEY_OK, reg')" "registry_inv reg'"
      "paths_map reg' = (\<lambda>q. if paths_map reg q = Some o1 \<and> q \<noteq> p then None else paths_map reg q)"
      using remove_all_object_aliases_spec [OF inv Some ob(1), of ndebug] main by metis
    then show ?thesis
      by auto
  next
    case False
    have "path_is_valid p"
      using registry_invD(2) [OF inv Some] .
    then have "dicey_registry_remove_all_object_aliases ndebug reg p = Ok (DICEY_EINVAL, reg)"
      using get_object_mut_paths [OF registry_invD(1) [OF inv], of p] Some ob(1) main False
      by (simp add: dicey_registry_remove_all_object_aliases_def key_str_def)
    then show ?thesis
      using inv by auto
  qed
qed

lemma unalias_object_total:
  assumes inv: "registry_inv reg"
  shows "\<exists>err reg'. dicey_registry_unalias_object ndebug reg al = Ok (err, reg') \<and> registry_inv reg' \<and>
    paths_map reg' = (if err = DICEY_OK then (paths_map reg)(al := None) else paths_map reg)"
proof (cases "paths_map reg al")
  case None
  then have "\<exists>err. dicey_registry_unalias_object ndebug reg al = Ok (err, reg) \<and> err \<noteq> DICEY_OK"
    using get_object_mut_paths [OF registry_invD(1) [OF inv], of al]
    by (simp add: dicey_registry_unalias_object_def)
  then show ?thesis
    using inv by auto
next
  case (Some o1)
  obtain ob where ob: "rg_objects reg o1 = Some ob"
    using inv Some by (rule registered)
  obtain err reg' where "dicey_registry_unalias_object ndebug reg al = Ok (err, reg')" "registry_inv reg'"
    "if ob_main_path ob = Key al then err = DICEY_EPATH_NOT_ALIAS \<and> paths_map reg' = paths_map reg
     else err = DICEY_OK \<and> paths_map reg' = (paths_map reg)(al := None)"
    by (rule unalias_object_spec [OF inv Some ob])
  then show ?thesis
    by (auto split: if_splits)
qed

lemma alias_object_total:
  assumes inv: "registry_inv reg"
  shows "\<exists>err reg'. dicey_registry_alias_object ndebug alloc reg p al = Ok (err, reg') \<and> registry_inv reg' \<and>
    (paths_map reg' = paths_map reg \<or>
     err = DICEY_OK \<and> paths_map reg al = None \<and> paths_map reg p \<noteq> None \<and> paths_map reg' = (paths_map reg)(al := paths_map reg p))"
proof (cases "\<not> path_is_valid p \<or> \<not> path_is_valid al \<or> p = al \<or> paths_map reg p = None")
  case True
  then have "\<exists>err. dicey_registry_alias_object ndebug alloc reg p al = Ok (err, reg)"
    using lookup_objects [OF registry_invD(1) [OF inv], of p] by (auto simp: dicey_registry_alias_object_def)
  then show ?thesis
    using inv by auto
next
  case False
  then obtain o1 where o1: "paths_map reg p = Some o1"
    by auto
  show ?thesis
  proof (cases "paths_map reg al")
    case None
    have "path_is_valid al"
      using False by simp
    from alias_object_spec [OF inv o1 None this, of ndebug alloc] show ?thesis
      using o1 None by cases auto
  next
    case (Some o2)
    obtain ob1 ob2 where ob: "rg_objects reg o1 = Some ob1" "object_inv reg o1 ob1"
      "rg_objects reg o2 = Some ob2" "object_inv reg o2 ob2"
      by (rule registered [OF inv o1], rule registered [OF inv Some])
    obtain m1 m2 where "ob_main_path ob1 = Key m1" "ob_main_path ob2 = Key m2"
      using ob(2,4) by (auto simp: object_inv_def)
    then have "\<exists>err. dicey_registry_alias_object ndebug alloc reg p al = Ok (err, reg)"
      using False o1 Some ob(1,3) lookup_objects [OF registry_invD(1) [OF inv], of p] get_main_path_inv [OF inv, of ndebug al]
      by (simp add: dicey_registry_alias_object_def key_str_def)
    then show ?thesis
      using inv by auto
  qed
qed

text \<open>The variant with a set takes any names: its loop over them visits nothing.\<close>

lemma add_object_with_trait_set_spec:
  assumes inv: "registry_inv reg" and names: "objects_ok names" "names \<noteq> None"
  shows "\<exists>err reg'. dicey_registry_add_object_with_trait_set ndebug alloc reg p names = Ok (err, reg') \<and>
    object_added reg p (members names) err reg' \<and> err \<noteq> DICEY_ETRAIT_NOT_FOUND"
proof (cases "path_is_valid p \<and> paths_map reg p = None")
  case False
  then have "\<exists>err. dicey_registry_add_object_with_trait_set ndebug alloc reg p names = Ok (err, reg) \<and>
      err \<in> {DICEY_EPATH_MALFORMED, DICEY_EEXIST}"
    using contains_object_inv [OF inv] names(2) by (auto simp: dicey_registry_add_object_with_trait_set_def)
  then show ?thesis
    using add_object_refused [OF inv] by auto
next
  case True
  then have start: "dicey_registry_add_object_with_trait_set ndebug alloc reg p names =
      and_then (object_new_with alloc reg names) (\<lambda>(object, reg1).
        case object of
          None \<Rightarrow> Ok (DICEY_ENOMEM, reg1)
        | Some o1 \<Rightarrow> or_deref ndebug o1 (registry_add_object ndebug alloc reg1 p o1))"
    using contains_object_inv [OF inv] names(2)
    by (simp add: dicey_registry_add_object_with_trait_set_def visited_null)
  show ?thesis
  proof (rule object_new_spec [OF inv names(1), of alloc])
    assume "object_new_with alloc reg names = Ok (None, reg)"
    then show ?thesis
      using start add_object_refused [OF inv] by simp
  next
    fix reg1 ob
    assume new: "object_new_with alloc reg names = Ok (Some (rg_next reg), reg1)" "unregistered reg1 (rg_next reg) ob"
      "rg_paths reg1 = rg_paths reg" "rg_traits reg1 = rg_traits reg" "rg_trait_mem reg1 = rg_trait_mem reg"
      "members (ob_traits ob) = insert DICEY_INTROSPECTION_TRAIT_NAME (members names)"
    have free: "paths_map reg1 p = None" "path_is_valid p"
      using True new(3) by simp_all
    obtain err reg' where "or_deref ndebug (rg_next reg) (registry_add_object ndebug alloc reg1 p (rg_next reg)) = Ok (err, reg')"
      "registry_inv reg'" "rg_traits reg' = rg_traits reg1" "rg_trait_mem reg' = rg_trait_mem reg1"
      "if err = DICEY_OK then paths_map reg' = (paths_map reg1)(p \<mapsto> rg_next reg) \<and> registered_as reg' p (rg_next reg) (members (ob_traits ob))
       else err = DICEY_ENOMEM \<and> paths_map reg' = paths_map reg1"
      using register_object_spec [OF new(2) free, of ndebug alloc] by (elim exE conjE) (rule that)
    then show ?thesis
      using start new True by (intro exI [of _ err] exI [of _ reg']) (auto simp: object_added_def split: if_splits)
  qed
qed

section \<open>Traits\<close>

lemma registry_inv_cong:
  assumes inv: "registry_inv reg" and eq: "rg_paths reg' = rg_paths reg" "rg_objects reg' = rg_objects reg"
    and traits: "traits_inv reg'" and fresh: "\<And>t. rg_next reg' \<le> t \<Longrightarrow> rg_next reg \<le> t \<and> rg_trait_mem reg' t = None"
  shows "registry_inv reg'"
proof -
  have "paths_of reg' = paths_of reg"
    using eq(1) by (simp add: paths_of_def fun_eq_iff)
  then have "live reg' o1 \<longleftrightarrow> live reg o1" for o1
    using eq(2) by (simp add: live_def object_inv_def)
  moreover have "\<forall>o1 \<ge> rg_next reg'. rg_objects reg' o1 = None \<and> rg_trait_mem reg' o1 = None"
    using inv fresh eq(2) by (simp add: registry_inv_def base_inv_def)
  ultimately show ?thesis
    using inv eq(1) traits by (simp add: registry_inv_def base_inv_def)
qed

lemma format_metaname_spec:
  "\<exists>r b. dicey_registry_format_metaname ndebug alloc reg text = Ok (r, reg\<lparr>rg_buffer := b\<rparr>) \<and> (r = None \<or> r = Some text)"
proof -
  have "\<exists>b. reg = reg\<lparr>rg_buffer := b\<rparr>"
    by (rule exI [of _ "rg_buffer reg"]) simp
  then show ?thesis
    by (auto simp: dicey_registry_format_metaname_def dicey_metaname_vformat_to_def Let_def)
qed

lemma registry_add_trait_spec:
  assumes inv: "registry_inv reg" and tr: "rg_trait_mem reg t = Some tr" "trait_ok tr"
    and new: "objects (rg_traits reg) (trait_name tr) = None"
  shows "\<exists>err reg'. registry_add_trait ndebug alloc reg (trait_name tr) t = Ok (err, reg') \<and> registry_inv reg' \<and>
    rg_trait_mem reg' = rg_trait_mem reg \<and>
    (if err = DICEY_OK
     then objects (rg_traits reg') = (objects (rg_traits reg))(trait_name tr \<mapsto> t) \<and>
          paths_map reg' = (paths_map reg)(METATRAIT_FORMAT (trait_name tr) \<mapsto> rg_next reg)
     else paths_map reg' = paths_map reg)"
proof -
  let ?n = "trait_name tr"
  obtain r b where fmt: "dicey_registry_format_metaname ndebug alloc reg (METATRAIT_FORMAT ?n) = Ok (r, reg\<lparr>rg_buffer := b\<rparr>)"
    "r = None \<or> r = Some (METATRAIT_FORMAT ?n)"
    using format_metaname_spec [of ndebug alloc reg "METATRAIT_FORMAT ?n"] by blast
  have inv1: "registry_inv (reg\<lparr>rg_buffer := b\<rparr>)"
    by (rule registry_inv_cong [OF inv])
      (use registry_invD(3) [OF inv] inv in \<open>simp_all add: traits_inv_def registry_inv_def base_inv_def\<close>)
  show ?thesis
  proof (cases r)
    case None
    then show ?thesis
      using fmt(1) inv1
      by (intro exI [of _ DICEY_ENOMEM] exI [of _ "reg\<lparr>rg_buffer := b\<rparr>"]) (simp add: registry_add_trait_def)
  next
    case (Some mp)
    then have mp: "mp = METATRAIT_FORMAT ?n"
      using fmt(2) by simp
    have ok: "objects_ok (rg_traits reg)"
      using registry_invD(3) [OF inv] by (simp add: traits_inv_def)
    obtain res u where u: "set_object alloc (rg_traits reg) ?n t = Ok (res, u)" "objects_ok u"
      "objects u = (if res = DICEY_HASH_SET_FAILED then objects (rg_traits reg) else (objects (rg_traits reg))(?n \<mapsto> t))"
      "objects (rg_traits reg) ?n = None \<longrightarrow> res \<noteq> DICEY_HASH_SET_UPDATED"
      by (rule set_objects [OF ok])
    let ?reg = "reg\<lparr>rg_buffer := b, rg_traits := u\<rparr>"
    have traits: "traits_inv ?reg"
      using registry_invD(3) [OF inv] u(2,3) tr by (auto simp: traits_inv_def split: if_splits)
    have inv2: "registry_inv ?reg"
      by (rule registry_inv_cong [OF inv _ _ traits]) (use inv in \<open>simp_all add: registry_inv_def base_inv_def\<close>)
    show ?thesis
    proof (cases "res = DICEY_HASH_SET_FAILED")
      case True
      then show ?thesis
        using fmt(1) Some u(1) inv2
        by (intro exI [of _ DICEY_ENOMEM] exI [of _ ?reg]) (simp add: registry_add_trait_def Let_def)
    next
      case False
      have added: "objects u = (objects (rg_traits reg))(?n \<mapsto> t)" "res \<noteq> DICEY_HASH_SET_UPDATED"
        using u(3,4) new False by simp_all
      obtain err reg' where add: "dicey_registry_add_object_with ndebug alloc ?reg mp [DICEY_TRAIT_TRAIT_NAME] = Ok (err, reg')"
        "object_added ?reg mp (set [DICEY_TRAIT_TRAIT_NAME]) err reg'"
        using add_object_with_spec [OF inv2, of ndebug alloc mp "[DICEY_TRAIT_TRAIT_NAME]"] by (elim exE conjE) (rule that)
      have "registry_add_trait ndebug alloc reg ?n t = Ok (err, reg')"
        using fmt(1) Some u(1) False added(2) add(1) by (simp add: registry_add_trait_def Let_def)
      then show ?thesis
        using add(2) added(1) mp by (intro exI [of _ err] exI [of _ reg']) (simp add: object_added_def split: if_splits)
    qed
  qed
qed

lemma add_trait_total:
  assumes inv: "registry_inv reg" and tr: "rg_trait_mem reg t = Some tr" "trait_ok tr"
  shows "\<exists>err reg'. dicey_registry_add_trait ndebug alloc reg t = Ok (err, reg') \<and> registry_inv reg' \<and>
    rg_trait_mem reg' = rg_trait_mem reg"
proof (cases "objects (rg_traits reg) (trait_name tr)")
  case None
  then show ?thesis
    using registry_add_trait_spec [OF inv tr None, of ndebug alloc] tr(1) trait_exists_inv [OF registry_invD(3) [OF inv], of "trait_name tr"]
    by (auto simp: dicey_registry_add_trait_def trait_at_def dicey_registry_contains_trait_def domIff)
next
  case (Some t')
  then show ?thesis
    using inv tr(1) trait_exists_inv [OF registry_invD(3) [OF inv], of "trait_name tr"]
    by (auto simp: dicey_registry_add_trait_def trait_at_def dicey_registry_contains_trait_def domI)
qed

section \<open>Elements\<close>

text \<open>The element a selector names on an object: the object has the trait and the trait has the element.\<close>

definition element_of :: "dicey_registry \<Rightarrow> cstring \<Rightarrow> cstring \<Rightarrow> cstring \<Rightarrow> dicey_element option" where
  "element_of reg p n e =
     Option.bind (paths_map reg p) (\<lambda>o1.
     Option.bind (rg_objects reg o1) (\<lambda>ob.
       if n \<in> members (ob_traits ob)
       then Option.bind (objects (rg_traits reg) n) (\<lambda>t.
            Option.bind (rg_trait_mem reg t) (\<lambda>tr. objects (trait_elems tr) e))
       else None))"

lemma get_trait_inv: "traits_inv reg \<Longrightarrow> dicey_registry_get_trait reg n = Ok (objects (rg_traits reg) n)"
  by (simp add: dicey_registry_get_trait_def traits_inv_def lookup_objects)

lemma element_entry_spec:
  assumes inv: "registry_inv reg" and e: "e \<noteq> []"
  shows "dicey_registry_get_element_entry ndebug reg p n e =
    Ok (map_option (\<lambda>el. \<lparr>oe_main_path = ob_main_path (the (rg_objects reg (the (paths_map reg p)))),
      oe_trait = n, oe_elem = e, oe_element = el\<rparr>) (element_of reg p n e))"
proof (cases "paths_map reg p")
  case None
  then show ?thesis
    using get_entry_paths [of reg p] registry_invD(1,2) [OF inv]
    by (auto simp: dicey_registry_get_element_entry_def element_of_def)
next
  case (Some o1)
  obtain ob where ob: "rg_objects reg o1 = Some ob" "object_inv reg o1 ob"
    using inv Some by (rule registered)
  have entry: "registry_get_object_entry reg p = Ok (Inr (p, o1))"
    using get_entry_paths [of reg p] registry_invD(1,2) [OF inv] Some by auto
  have impl: "dicey_object_implements ndebug ob n = Ok (n \<in> members (ob_traits ob))"
    using ob(2) by (simp add: dicey_object_implements_def object_inv_def hashset_contains_members)
  note tinv = registry_invD(3) [OF inv]
  show ?thesis
  proof (cases "n \<in> members (ob_traits ob) \<and> objects (rg_traits reg) n \<noteq> None")
    case True
    then obtain t where t: "objects (rg_traits reg) n = Some t"
      by auto
    then obtain tr where tr: "rg_trait_mem reg t = Some tr" "trait_ok tr" "trait_name tr = n"
      using tinv by (auto simp: traits_inv_def)
    show ?thesis
      using entry ob(1) impl True t tr get_trait_inv [OF tinv, of n] trait_get_entry_objects [OF tr(2) e, of ndebug] Some
      by (cases "objects (trait_elems tr) e")
        (simp_all add: dicey_registry_get_element_entry_def element_of_def trait_at_def)
  next
    case False
    then show ?thesis
      using entry ob(1) impl get_trait_inv [OF tinv, of n] Some
      by (auto simp: dicey_registry_get_element_entry_def element_of_def)
  qed
qed

section \<open>Sequences of operations\<close>

datatype registry_call =
  AddObject cstring "cstring list"
| AddTrait nat
| AliasObject cstring cstring
| UnaliasObject cstring
| RemoveAliases cstring
| DeleteObject cstring

fun registry_do :: "bool \<Rightarrow> (nat \<Rightarrow> bool) \<Rightarrow> dicey_registry \<Rightarrow> registry_call \<Rightarrow> (dicey_error \<times> dicey_registry) result" where
  "registry_do ndebug alloc reg (AddObject p traits) = dicey_registry_add_object_with ndebug alloc reg p traits"
| "registry_do ndebug alloc reg (AddTrait t) = dicey_registry_add_trait ndebug alloc reg t"
| "registry_do ndebug alloc reg (AliasObject p al) = dicey_registry_alias_object ndebug alloc reg p al"
| "registry_do ndebug alloc reg (UnaliasObject al) = dicey_registry_unalias_object ndebug reg al"
| "registry_do ndebug alloc reg (RemoveAliases p) = dicey_registry_remove_all_object_aliases ndebug reg p"
| "registry_do ndebug alloc reg (DeleteObject p) = dicey_registry_delete_object ndebug reg p"

fun registry_run ::
  "bool \<Rightarrow> dicey_registry \<Rightarrow> ((nat \<Rightarrow> bool) \<times> registry_call) list \<Rightarrow> (dicey_error list \<times> dicey_registry) result"
where
  "registry_run ndebug reg [] = Ok ([], reg)"
| "registry_run ndebug reg ((alloc, c) # calls) =
     and_then (registry_do ndebug alloc reg c) (\<lambda>(err, reg').
     and_then (registry_run ndebug reg' calls) (\<lambda>(errs, reg''). Ok (err # errs, reg'')))"

text \<open>The traits that are added are well formed and stay allocated.\<close>

definition call_ok :: "dicey_registry \<Rightarrow> registry_call \<Rightarrow> bool" where
  "call_ok reg c = (case c of AddTrait t \<Rightarrow> (\<exists>tr. rg_trait_mem reg t = Some tr \<and> trait_ok tr) | _ \<Rightarrow> True)"

lemma deref_mem: "object_deref ndebug reg ptr = Ok reg' \<Longrightarrow> rg_trait_mem reg' = rg_trait_mem reg"
  by (auto simp: object_deref_def outcome_simps split: option.splits if_splits)

lemma remove_path_mem: "registry_remove_path ndebug reg p = Ok (err, reg') \<Longrightarrow> rg_trait_mem reg' = rg_trait_mem reg"
  by (auto simp: registry_remove_path_def outcome_simps set_paths_def split: option.splits dest!: deref_mem)

lemma remove_aliases_mem: "remove_aliases ndebug reg o1 as = Ok reg' \<Longrightarrow> rg_trait_mem reg' = rg_trait_mem reg"
  by (induction as arbitrary: reg) (auto simp: outcome_simps dest!: remove_path_mem)

lemma delete_mem: "dicey_registry_delete_object ndebug reg p = Ok (err, reg') \<Longrightarrow> rg_trait_mem reg' = rg_trait_mem reg"
  by (auto simp: dicey_registry_delete_object_def registry_del_object_def outcome_simps set_paths_def
      split: if_splits option.splits dest!: deref_mem remove_aliases_mem)

lemma remove_all_mem:
  "dicey_registry_remove_all_object_aliases ndebug reg p = Ok (err, reg') \<Longrightarrow> rg_trait_mem reg' = rg_trait_mem reg"
  by (auto simp: dicey_registry_remove_all_object_aliases_def outcome_simps
      split: if_splits option.splits dest!: remove_aliases_mem)

lemma unalias_mem: "dicey_registry_unalias_object ndebug reg al = Ok (err, reg') \<Longrightarrow> rg_trait_mem reg' = rg_trait_mem reg"
  by (auto simp: dicey_registry_unalias_object_def outcome_simps Let_def
      split: if_splits option.splits dest!: remove_path_mem)

lemma add_object_mem:
  assumes "registry_add_object ndebug alloc reg p o1 = Ok (err, reg')"
  shows "rg_trait_mem reg' = rg_trait_mem reg"
proof -
  obtain res t where "set_object alloc (rg_paths reg) p o1 = Ok (res, t)"
    using assms by (auto simp: registry_add_object_def outcome_simps)
  then show ?thesis
    using assms
    by (cases res) (auto simp: registry_add_object_def Let_def outcome_simps sum.case_eq_if prod.case_eq_if split: if_splits)
qed

lemma record_alias_mem:
  assumes "record_alias ndebug alloc reg o1 al = Ok (err, reg')"
  shows "rg_trait_mem reg' = rg_trait_mem reg"
proof -
  obtain ob res t where "obj_at reg o1 = Ok ob" "dicey_hashset_add alloc (ob_aliases ob) al = Ok (res, t)"
    using assms by (auto simp: record_alias_def outcome_simps)
  then show ?thesis
    using assms
    by (cases res) (auto simp: record_alias_def dicey_registry_remove_object_def Let_def outcome_simps
        split: if_splits dest!: remove_path_mem)
qed

lemma alias_mem: "dicey_registry_alias_object ndebug alloc reg p al = Ok (err, reg') \<Longrightarrow> rg_trait_mem reg' = rg_trait_mem reg"
  by (auto simp: dicey_registry_alias_object_def object_ref_def outcome_simps Let_def
      split: if_splits option.splits dest!: record_alias_mem add_object_mem)

lemma call_ok_cong: "rg_trait_mem reg' = rg_trait_mem reg \<Longrightarrow> call_ok reg' c = call_ok reg c"
  by (cases c) (simp_all add: call_ok_def)

lemma registry_do_ok:
  assumes inv: "registry_inv reg" and c: "call_ok reg c"
  shows "\<exists>err reg'. registry_do ndebug alloc reg c = Ok (err, reg') \<and> registry_inv reg' \<and>
    rg_trait_mem reg' = rg_trait_mem reg"
proof (cases c)
  case (AddObject p traits)
  then show ?thesis
    using add_object_with_spec [OF inv, of ndebug alloc p traits] by (auto simp: object_added_def)
next
  case (AddTrait t)
  then show ?thesis
    using c add_trait_total [OF inv, of t _ ndebug alloc] by (auto simp: call_ok_def)
next
  case (AliasObject p al)
  then show ?thesis
    using alias_object_total [OF inv, of ndebug alloc p al] by (auto dest: alias_mem)
next
  case (UnaliasObject al)
  then show ?thesis
    using unalias_object_total [OF inv, of ndebug al] by (auto dest: unalias_mem)
next
  case (RemoveAliases p)
  then show ?thesis
    using remove_all_object_aliases_total [OF inv, of ndebug p] by (auto dest: remove_all_mem)
next
  case (DeleteObject p)
  then show ?thesis
    using delete_object_total [OF inv, of ndebug p] by (auto dest: delete_mem)
qed

lemma registry_run_ok:
  assumes "registry_inv reg" and "\<forall>c \<in> set calls. call_ok reg (snd c)"
  shows "\<exists>errs reg'. registry_run ndebug reg calls = Ok (errs, reg') \<and> registry_inv reg' \<and> length errs = length calls"
  using assms
proof (induction calls arbitrary: reg)
  case (Cons ac calls)
  obtain alloc c where ac: "ac = (alloc, c)"
    by (cases ac)
  obtain err reg1 where one: "registry_do ndebug alloc reg c = Ok (err, reg1)" "registry_inv reg1"
    "rg_trait_mem reg1 = rg_trait_mem reg"
    using registry_do_ok [OF Cons.prems(1), of c ndebug alloc] Cons.prems(2) ac by auto
  have "\<forall>c \<in> set calls. call_ok reg1 (snd c)"
    using Cons.prems(2) call_ok_cong [OF one(3)] by simp
  then obtain errs reg' where "registry_run ndebug reg1 calls = Ok (errs, reg')" "registry_inv reg'" "length errs = length calls"
    using Cons.IH [OF one(2)] by blast
  then show ?case
    using one(1) ac by simp
qed simp

lemma empty_registry_inv: "registry_inv empty_registry"
  by (auto simp: registry_inv_def base_inv_def traits_inv_def live_def paths_of_def empty_registry_def)

end
