(* ===== verification/Dicey_Table_Room.thy ===== *)
theory Dicey_Table_Room
  imports Dicey_Hashset
begin

text \<open>
  Progress of the hash table: while the allocator gives memory, storing a new key into a table with few
  keys succeeds.  The other lemmas on the table hold whatever the allocator answers, and so cannot say this.
\<close>

lemma bucket_append_room:
  assumes "hashtable_inv t" and alloc: "\<forall>n. alloc n" and "e < ht_free_cur t" and "2 \<le> ht_cap t" and "ht_cap t * 3 < 2 ^ 32"
  shows "\<exists>t'. hash_bucket_append alloc t e k owned v = Ok (True, t') \<and> ht_cap t' \<le> ht_cap t * 2"
proof -
  let ?n = "ht_cap t * 3 mod 2 ^ 32 div 2"
  have n: "ht_cap t < ?n" "?n \<le> ht_cap t * 2"
    using assms(4,5) by simp_all
  have grow: "hash_grow alloc t = Some (t\<lparr>ht_entries := ht_entries t @ replicate (?n - ht_cap t) empty_entry\<rparr>)"
    using n(1) alloc by (simp add: hash_grow_def Let_def)
  have le: "ht_free_cur t \<le> ht_cap t"
    using invD(3) [OF assms(1)] by simp
  have take: "maybe_take alloc k owned = Some k"
    using alloc by (simp add: maybe_take_def)
  show ?thesis
  proof (cases "ht_cap t \<le> ht_free_cur t")
    case True
    then show ?thesis
      using grow n le assms(3) take by (simp add: hash_bucket_append_def Let_def ht_cap_def)
  next
    case False
    then show ?thesis
      using le assms(3) take by (simp add: hash_bucket_append_def Let_def ht_cap_def)
  qed
qed

lemma hash_set_room:
  assumes inv: "hashtable_inv t" and new: "ht_map t k = None" and alloc: "\<forall>n. alloc n"
    and cap: "2 \<le> ht_cap t" "ht_cap t * 3 < 2 ^ 32"
    and load: "load_factor ((ht_len t + 1) mod 2 ^ 32) (buckets_no t) < REHASH_THRESHOLD"
  shows "\<exists>t'. hash_set (Suc n) alloc t k owned v = Ok (DICEY_HASH_SET_ADDED, None, t') \<and> ht_cap t' \<le> ht_cap t * 2"
proof -
  obtain ff e where get: "hash_get_entry_for_set t k = Ok (None, ff, e)" and e: "e < ht_free_cur t"
    using get_entry_result [OF inv, of k] ht_map_None [OF inv, of k] new by (auto split: option.splits)
  show ?thesis
  proof (cases ff)
    case (Some i)
    then show ?thesis
      using get load alloc by (simp add: Let_def maybe_take_def ht_cap_def)
  next
    case None
    then show ?thesis
      using get load bucket_append_room [OF inv alloc e cap, of k owned v] by (auto simp: Let_def)
  qed
qed

text \<open>A table with at most \<open>n\<close> keys that has not been rebuilt.\<close>

fun roomy :: "nat \<Rightarrow> 'v dicey_hashtable option \<Rightarrow> bool" where
  "roomy n None \<longleftrightarrow> True"
| "roomy n (Some t) \<longleftrightarrow> ht_len t \<le> n \<and> ht_buckets t = 0 \<and> 2 \<le> ht_cap t \<and> ht_cap t \<le> 53 * 2 ^ n"

lemma store_has_room:
  assumes ok: "objects_ok t" and new: "objects t k = None" and alloc: "\<forall>n. alloc n" and room: "roomy n t" "n \<le> 20"
  shows "\<exists>t'. set_object alloc t k v = Ok (DICEY_HASH_SET_ADDED, t') \<and> roomy (Suc n) t'"
proof -
  obtain u :: "'a dicey_hashtable" where u: "(case t of None \<Rightarrow> hash_new_default alloc | Some t \<Rightarrow> Some t) = Some u"
    "hashtable_inv u" "ht_map u k = None" "roomy n (Some u)"
  proof (cases t)
    case None
    obtain w :: "'a dicey_hashtable" where w: "hash_new alloc 0 0 = Some w"
      using hash_new_succeeds [of alloc 0] alloc by (auto simp: primes_def)
    note fresh = new_table [OF w]
    have "ht_cap w = 53"
      using w by (auto simp: hash_new_def ht_cap_def primes_def Let_def split: if_splits)
    then show thesis
      using that [of w] None w fresh by (simp add: hash_new_default_def)
  next
    case (Some w)
    then show thesis
      using that [of w] ok new room(1) objects_eq_None [OF ok, of k] by (simp add: objects_ok_def)
  qed
  have len: "ht_len u \<le> n" "ht_buckets u = 0" "2 \<le> ht_cap u" "ht_cap u \<le> 53 * 2 ^ n"
    using u(4) by simp_all
  have "(2::nat) ^ n \<le> 2 ^ 20"
    using room(2) by (rule power_increasing) simp
  then have cap: "ht_cap u * 3 < 2 ^ 32"
    using len(4) by simp
  have load: "load_factor ((ht_len u + 1) mod 2 ^ 32) (buckets_no u) < REHASH_THRESHOLD"
    by (rule load_factor_small) (use len(1,2) room(2) in \<open>simp add: buckets_no_def primes_def\<close>)
  obtain u' where u': "hash_set (Suc (length primes - 1)) alloc u k False (Some v) = Ok (DICEY_HASH_SET_ADDED, None, u')"
    "ht_cap u' \<le> ht_cap u * 2"
    using hash_set_room [OF u(2,3) alloc len(3) cap load] by blast
  have light: "ht_buckets u' = ht_buckets u" "ht_len u' = ht_len u + 1" "hashtable_inv u'"
    using hash_set_light [OF u(2) load, of "length primes - 1" alloc k False "Some v"] u'(1)
    by (auto simp: set_spec_def)
  have "ht_buckets u' < length primes" "primes ! ht_buckets u' \<le> ht_cap u'"
    using invD(1,2,3) [OF light(3)] by (auto simp: buckets_no_def)
  then have "roomy (Suc n) (Some u')"
    using u'(2) light(1,2) len by (simp add: primes_def)
  moreover have "Suc (length primes - 1) = length primes"
    by (simp add: primes_def)
  ultimately show ?thesis
    using u(1) u'(1) by (simp add: set_object_def dicey_hashtable_set_def del: hash_set.simps)
qed

end
