(* ===== verification/Registry_Properties.thy ===== *)
theory Registry_Properties
  imports Dicey_Registry_Ops Dicey_Table_Room
begin

text \<open>
  What the registry guarantees: sequences of operations are safe and keep names and objects consistent,
  elements are found through every name of an object, deletion forgets all of them; and two operations that
  leave pointers to released memory behind.
\<close>

section \<open>Consistency\<close>

lemma names_consistent:
  assumes inv: "registry_inv reg" and p: "dicey_registry_get_object ndebug reg p = Ok (Some o1)"
  shows "\<exists>main. dicey_registry_get_main_path ndebug reg p = Ok (Key main) \<and>
    dicey_registry_get_object ndebug reg main = Ok (Some o1) \<and>
    dicey_registry_is_alias ndebug reg p = Ok (if p = main then DICEY_EPATH_NOT_ALIAS else DICEY_OK)"
proof -
  have get: "dicey_registry_get_object ndebug reg q = Ok (paths_map reg q)" for q
    using get_object_paths registry_invD(1,2) [OF inv] by blast
  have bound: "paths_map reg p = Some o1"
    using p get by simp
  obtain ob where ob: "rg_objects reg o1 = Some ob" "object_inv reg o1 ob"
    using inv bound by (rule registered)
  obtain main where main: "ob_main_path ob = Key main" "paths_map reg main = Some o1"
    by (rule object_invD [OF ob(2)])
  have "path_is_valid p"
    using registry_invD(2) [OF inv bound] .
  then show ?thesis
    using get_main_path_inv [OF inv, of ndebug p] bound ob(1) main get
    by (intro exI [of _ main]) (simp add: dicey_registry_is_alias_def key_str_def)
qed

text \<open>An object at \<open>/a\<close> with the alias \<open>/b\<close>.\<close>

lemma aliased_registry:
  obtains reg ob where "registry_inv reg" "paths_map reg = [cs ''/a'' \<mapsto> 0, cs ''/b'' \<mapsto> 0]"
    "rg_objects reg 0 = Some ob" "ob_main_path ob = Key (cs ''/a'')" "ob_refcount ob = 2"
    "members (ob_traits ob) = {DICEY_INTROSPECTION_TRAIT_NAME}" "rg_traits reg = None"
proof -
  let ?T = "\<lambda>_::nat. True"
  have ne: "cs ''/a'' \<noteq> cs ''/b''"
    by (simp add: cs_def)
  obtain t1 where t1: "set_object ?T None (cs ''/a'') (0::nat) = Ok (DICEY_HASH_SET_ADDED, t1)" "roomy (Suc 0) t1"
    using store_has_room [of None "cs ''/a''" ?T 0 "0::nat"] by auto
  have ok1: "objects_ok t1" "objects t1 = [cs ''/a'' \<mapsto> 0]"
    using ht.store_OkD(1,2) [OF _ t1(1)] by (simp_all add: fun_eq_iff)
  obtain t2 where t2: "set_object ?T t1 (cs ''/b'') 0 = Ok (DICEY_HASH_SET_ADDED, t2)"
    using store_has_room [OF ok1(1) _ _ t1(2), of "cs ''/b''" ?T 0] ok1(2) ne by auto
  have ok2: "objects_ok t2" "objects t2 = [cs ''/a'' \<mapsto> 0, cs ''/b'' \<mapsto> 0]"
    using ht.store_OkD(1,2) [OF ok1(1) t2] ok1(2) by simp_all
  have single: "\<exists>s. objects_ok s \<and> s \<noteq> None \<and> members s = {k}" for k
  proof -
    obtain s where s: "set_object ?T None k () = Ok (DICEY_HASH_SET_ADDED, s)"
      using store_has_room [of None k ?T 0 "()"] by auto
    have "objects_ok s" "members s = {k}"
      using ht.store_OkD(1,2) [OF _ s] by (auto simp: members_def)
    then show ?thesis
      by (cases s) auto
  qed
  obtain names where names: "objects_ok names" "names \<noteq> None" "members names = {DICEY_INTROSPECTION_TRAIT_NAME}"
    using single by blast
  obtain als where als: "objects_ok als" "members als = {cs ''/b''}"
    using single by blast
  let ?ob = "\<lparr>ob_traits = names, ob_main_path = Key (cs ''/a''), ob_aliases = als, ob_cached_xml = None, ob_refcount = 2\<rparr>"
  let ?reg = "empty_registry\<lparr>rg_paths := t2, rg_objects := [0 \<mapsto> ?ob], rg_next := 1\<rparr>"
  have paths: "paths_of ?reg 0 = {cs ''/a'', cs ''/b''}" "o1 \<noteq> 0 \<Longrightarrow> paths_of ?reg o1 = {}" for o1
    using ok2(2) by (auto simp: paths_of_def split: if_splits)
  have "object_inv ?reg 0 ?ob"
    using names als paths(1) ne by (simp add: object_inv_def)
  then have "live ?reg o1" for o1
    using paths(2) [of o1] by (cases "o1 = 0") (simp_all add: live_def)
  moreover have "base_inv ?reg"
    using ok2 by (auto simp: base_inv_def traits_inv_def empty_registry_def path_is_valid_def cs_def split: if_splits)
  ultimately show thesis
    using that [of ?reg ?ob] ok2(2) names(3) by (simp add: registry_inv_def empty_registry_def)
qed



text \<open>
  C29: an element is found on a path exactly when the object there has the trait and the registered trait has the
  element, and it is found alike, with the main path of the object, through every path of the object.
\<close>

theorem element_lookup_is_exact:
  assumes "registry_inv reg" and "e \<noteq> []"
  shows "dicey_registry_get_element ndebug reg p n e = Ok (element_of reg p n e) \<and>
    (\<forall>q. dicey_registry_get_object ndebug reg q = dicey_registry_get_object ndebug reg p \<longrightarrow>
       dicey_registry_get_element_entry ndebug reg q n e = dicey_registry_get_element_entry ndebug reg p n e)"
proof
  show "dicey_registry_get_element ndebug reg p n e = Ok (element_of reg p n e)"
    using element_entry_spec [OF assms, of ndebug p n]
    by (simp add: dicey_registry_get_element_def option.map_comp comp_def option.map_ident)
  have get: "dicey_registry_get_object ndebug reg q = Ok (paths_map reg q)" for q
    using get_object_paths registry_invD(1,2) [OF assms(1)] by blast
  show "\<forall>q. dicey_registry_get_object ndebug reg q = dicey_registry_get_object ndebug reg p \<longrightarrow>
      dicey_registry_get_element_entry ndebug reg q n e = dicey_registry_get_element_entry ndebug reg p n e"
    unfolding get element_entry_spec [OF assms] element_of_def by simp
qed

theorem element_lookup_is_exact_witness:
  "\<exists>reg. dicey_registry_get_object True reg (cs ''/a'') = Ok (Some 0) \<and>
     dicey_registry_get_element_entry True reg (cs ''/b'') (cs ''t'') (cs ''e'') =
     dicey_registry_get_element_entry True reg (cs ''/a'') (cs ''t'') (cs ''e'')"
proof -
  obtain reg where reg: "registry_inv reg" "paths_map reg = [cs ''/a'' \<mapsto> 0, cs ''/b'' \<mapsto> 0]"
    by (rule aliased_registry)
  have get: "dicey_registry_get_object True reg q = Ok (paths_map reg q)" for q
    using get_object_paths registry_invD(1,2) [OF reg(1)] by blast
  have "cs ''e'' \<noteq> []"
    by (simp add: cs_def)
  note exact = element_lookup_is_exact [OF reg(1) this, of True "cs ''/a''" "cs ''t''"]
  have a: "dicey_registry_get_object True reg (cs ''/a'') = Ok (Some 0)"
    unfolding get reg(2) by (simp add: cs_def)
  have b: "dicey_registry_get_object True reg (cs ''/b'') = dicey_registry_get_object True reg (cs ''/a'')"
    unfolding get reg(2) by (simp add: cs_def)
  from exact [THEN conjunct2, rule_format, OF b] a show ?thesis
    by blast
qed

text \<open>
  C30: deleting an object through any of its paths takes all its paths away and no other path, and the object
  is released when its reference count is the number of its paths; a path that is not there is an error
  that changes nothing.
\<close>

theorem delete_forgets_every_name:
  assumes "registry_inv reg"
  shows "\<exists>err reg'. dicey_registry_delete_object ndebug reg p = Ok (err, reg') \<and> registry_inv reg' \<and>
    (err = DICEY_OK \<longleftrightarrow> dicey_registry_get_object ndebug reg p \<noteq> Ok None) \<and>
    (\<forall>q. dicey_registry_get_object ndebug reg' q =
       (if err = DICEY_OK \<and> dicey_registry_get_object ndebug reg q = dicey_registry_get_object ndebug reg p
        then Ok None else dicey_registry_get_object ndebug reg q)) \<and>
    (\<forall>o1 ob. dicey_registry_get_object ndebug reg p = Ok (Some o1) \<longrightarrow> rg_objects reg o1 = Some ob \<longrightarrow>
       ob_refcount ob = int (card (paths_of reg o1)) \<longrightarrow> rg_objects reg' o1 = None)"
proof -
  have get: "dicey_registry_get_object ndebug r q = Ok (paths_map r q)" if "registry_inv r" for r q
    using get_object_paths registry_invD(1,2) [OF that] by blast
  show ?thesis
  proof (cases "paths_map reg p")
    case None
    then show ?thesis
      using delete_object_total [OF assms, of ndebug p] get assms by auto
  next
    case (Some o1)
    obtain ob where ob: "rg_objects reg o1 = Some ob"
      using assms Some by (rule registered)
    obtain reg' where "dicey_registry_delete_object ndebug reg p = Ok (DICEY_OK, reg')" "registry_inv reg'"
      "paths_map reg' = (\<lambda>q. if paths_map reg q = Some o1 then None else paths_map reg q)"
      "ob_refcount ob = int (card (paths_of reg o1)) \<longrightarrow> rg_objects reg' o1 = None"
      by (rule delete_object_spec [OF assms Some ob])
    then show ?thesis
      using get assms Some ob by (intro exI [of _ DICEY_OK] exI [of _ reg']) simp
  qed
qed

theorem delete_forgets_every_name_witness:
  "\<exists>reg err reg'. dicey_registry_get_object False reg (cs ''/a'') = Ok (Some 0) \<and>
     dicey_registry_delete_object False reg (cs ''/b'') = Ok (err, reg') \<and>
     dicey_registry_get_object False reg' (cs ''/a'') = Ok None \<and> rg_objects reg' 0 = None"
proof -
  obtain reg ob where reg: "registry_inv reg" "paths_map reg = [cs ''/a'' \<mapsto> 0, cs ''/b'' \<mapsto> 0]"
    "rg_objects reg 0 = Some ob" "ob_refcount ob = 2"
    by (rule aliased_registry)
  have get: "dicey_registry_get_object False reg q = Ok (paths_map reg q)" for q
    using get_object_paths registry_invD(1,2) [OF reg(1)] by blast
  have "cs ''/a'' \<noteq> cs ''/b''"
    by (simp add: cs_def)
  moreover from this have "paths_of reg 0 = {cs ''/a'', cs ''/b''}"
    using reg(2) by (auto simp: paths_of_def)
  moreover obtain err reg' where "dicey_registry_delete_object False reg (cs ''/b'') = Ok (err, reg')"
    "err = DICEY_OK \<longleftrightarrow> dicey_registry_get_object False reg (cs ''/b'') \<noteq> Ok None"
    "\<forall>q. dicey_registry_get_object False reg' q =
       (if err = DICEY_OK \<and> dicey_registry_get_object False reg q = dicey_registry_get_object False reg (cs ''/b'')
        then Ok None else dicey_registry_get_object False reg q)"
    "\<forall>o1 ob. dicey_registry_get_object False reg (cs ''/b'') = Ok (Some o1) \<longrightarrow> rg_objects reg o1 = Some ob \<longrightarrow>
       ob_refcount ob = int (card (paths_of reg o1)) \<longrightarrow> rg_objects reg' o1 = None"
    using delete_forgets_every_name [OF reg(1), of False "cs ''/b''"] by (elim exE conjE) (rule that)
  ultimately show ?thesis
    using get reg(2-4) by (intro exI [of _ reg] exI [of _ err] exI [of _ reg']) simp
qed

section \<open>Dangling pointers\<close>

lemma remove_path_freed:
  assumes "objects_ok (rg_paths reg)" and "rg_objects reg o1 = Some ob" and "ob_main_path ob = FreedKey"
  shows "registry_remove_path ndebug reg a = Undef \<or>
    (\<exists>err reg'. registry_remove_path ndebug reg a = Ok (err, reg') \<and> objects_ok (rg_paths reg') \<and>
       (\<forall>ob'. rg_objects reg' o1 = Some ob' \<longrightarrow> ob_main_path ob' = FreedKey))"
proof -
  obtain t where t: "remove_object (rg_paths reg) a = Ok (paths_map reg a, t)" "objects_ok t"
    using ht.delete_content [OF assms(1), of a] by blast
  show ?thesis
  proof (cases "paths_map reg a")
    case None
    then show ?thesis
      using t assms by (auto simp: registry_remove_path_def)
  next
    case (Some o2)
    then have "registry_remove_path ndebug reg a =
        and_then (object_deref ndebug (set_paths reg a t) (Some o2)) (\<lambda>reg'. Ok (DICEY_OK, reg'))"
      using t(1) by (simp add: registry_remove_path_def)
    then show ?thesis
      using t(2) assms(2,3)
      by (cases "rg_objects reg o2")
        (auto simp: object_deref_def obj_at_def set_paths_def put_obj_def drop_key_def c_assert_def)
  qed
qed

lemma remove_aliases_freed:
  assumes "objects_ok (rg_paths reg)" and "rg_objects reg o1 = Some ob" and "ob_main_path ob = FreedKey"
  shows "remove_aliases ndebug reg o1 as = Undef \<or>
    (\<exists>reg' ob'. remove_aliases ndebug reg o1 as = Ok reg' \<and> rg_objects reg' o1 = Some ob' \<and> ob_main_path ob' = FreedKey)"
  using assms
proof (induction as arbitrary: reg ob)
  case (Cons a as)
  from remove_path_freed [OF Cons.prems, of ndebug a] show ?case
  proof (elim disjE exE conjE)
    fix err reg'
    assume step: "registry_remove_path ndebug reg a = Ok (err, reg')" "objects_ok (rg_paths reg')"
      "\<forall>ob'. rg_objects reg' o1 = Some ob' \<longrightarrow> ob_main_path ob' = FreedKey"
    show ?thesis
    proof (cases "rg_objects reg' o1")
      case (Some ob')
      then show ?thesis
        using step Cons.IH [OF step(2) Some] by (auto simp: c_assert_def)
    qed (use step(1) in \<open>simp add: obj_at_def c_assert_def\<close>)
  qed simp
qed simp

text \<open>
  C37: removing the main path of an object that has an alias, with \<open>dicey_registry_remove_object\<close>, succeeds
  and leaves the object registered under the alias with a main path that points to the released key: asking
  whether the alias is one, or deleting the object, then reads released memory.
\<close>

theorem removed_main_path_dangles:
  assumes inv: "registry_inv reg" and main: "dicey_registry_get_main_path ndebug reg a = Ok (Key p)" and "a \<noteq> p"
  shows "\<exists>reg' o1. dicey_registry_remove_object ndebug reg p = Ok (DICEY_OK, reg') \<and>
    dicey_registry_get_object ndebug reg' a = Ok (Some o1) \<and> dicey_registry_get_main_path ndebug reg' a = Ok FreedKey \<and>
    dicey_registry_is_alias ndebug reg' a = Undef \<and> dicey_registry_delete_object ndebug reg' a = Undef"
proof -
  obtain o1 where a: "paths_map reg a = Some o1"
    using main get_main_path_inv [OF inv, of ndebug a] by (cases "paths_map reg a") auto
  obtain ob where ob: "rg_objects reg o1 = Some ob" "object_inv reg o1 ob"
    using inv a by (rule registered)
  have mp: "ob_main_path ob = Key p"
    using main get_main_path_inv [OF inv, of ndebug a] a ob(1) by simp
  obtain p' where "ob_main_path ob = Key p'" "paths_map reg p' = Some o1"
    by (rule object_invD [OF ob(2)])
  then have p: "paths_map reg p = Some o1"
    using mp by simp
  have but: "inv_but reg o1"
    using inv registry_inv_but by blast
  have "1 < ob_refcount ob"
    by (rule refcount_pos(2) [OF ob(2) registry_invD(1) [OF inv] a]) (use mp \<open>a \<noteq> p\<close> in simp)
  from remove_path_local [OF but p ob(1) this] obtain reg' where reg':
    "registry_remove_path ndebug reg p = Ok (DICEY_OK, reg')" "inv_but reg' o1"
    "paths_map reg' = (paths_map reg)(p := None)"
    "rg_objects reg' o1 = Some ((drop_key p ob)\<lparr>ob_refcount := ob_refcount ob - 1\<rparr>)"
    by blast
  have valid: "path_is_valid p" "path_is_valid a"
    using registry_invD(2) [OF inv] p a by blast+
  have a': "paths_map reg' a = Some o1"
    using reg'(3) a \<open>a \<noteq> p\<close> by simp
  have get: "dicey_registry_get_object ndebug reg' a = Ok (Some o1)"
    using get_object_paths [OF inv_butD(1) [OF reg'(2)], of a ndebug] valid(2) a' by simp
  obtain ob' where ob': "rg_objects reg' o1 = Some ob'" "ob_main_path ob' = FreedKey"
    using reg'(4) mp by (simp add: drop_key_def)
  have "dicey_registry_delete_object ndebug reg' a = Undef"
    using remove_aliases_freed [OF inv_butD(1) [OF reg'(2)] ob', of ndebug "visited (ob_aliases ob') (dicey_hashset_iter_start (ob_aliases ob'))"]
      get_object_mut_paths [OF inv_butD(1) [OF reg'(2)] valid(2)] a' ob'(1) valid(2)
    by (auto simp: dicey_registry_delete_object_def registry_del_object_def key_str_def)
  then show ?thesis
    using reg'(1) valid get ob'
    by (intro exI [of _ reg'] exI [of _ o1])
      (simp add: dicey_registry_remove_object_def dicey_registry_get_main_path_def dicey_registry_is_alias_def key_str_def)
qed

theorem removed_main_path_dangles_witness:
  "\<exists>reg reg'. dicey_registry_remove_object True reg (cs ''/a'') = Ok (DICEY_OK, reg') \<and>
     dicey_registry_is_alias True reg' (cs ''/b'') = Undef"
proof -
  obtain reg ob where reg: "registry_inv reg" "paths_map reg = [cs ''/a'' \<mapsto> 0, cs ''/b'' \<mapsto> 0]"
    "rg_objects reg 0 = Some ob" "ob_main_path ob = Key (cs ''/a'')"
    by (rule aliased_registry)
  have "dicey_registry_get_main_path True reg (cs ''/b'') = Ok (Key (cs ''/a''))"
    unfolding get_main_path_inv [OF reg(1)] reg(2) by (simp add: reg(3,4))
  moreover have "cs ''/b'' \<noteq> cs ''/a''"
    by (simp add: cs_def)
  ultimately show ?thesis
    using removed_main_path_dangles [OF reg(1)] by blast
qed

lemma slash_refused: "last q = 47 \<Longrightarrow> \<not> path_is_valid q"
  by (cases q) (simp_all add: path_is_valid_def)

lemma format_metaname_room:
  assumes "alloc (length text + 1)"
  shows "\<exists>b. dicey_registry_format_metaname ndebug alloc reg text = Ok (Some text, reg\<lparr>rg_buffer := b\<rparr>)"
proof (cases "rg_buffer reg < length text + 1")
  case True
  then show ?thesis
    using assms by (simp add: dicey_registry_format_metaname_def dicey_metaname_vformat_to_def Let_def) blast
next
  case False
  then show ?thesis
    by (intro exI [of _ "rg_buffer reg"])
      (simp add: dicey_registry_format_metaname_def dicey_metaname_vformat_to_def Let_def)
qed

text \<open>
  when the path of the object that represents a new trait is refused, because the name of the trait ends in a
  slash, \<open>dicey_registry_add_trait_with\<close> releases the trait that it has already put into the table, and
  reports success: the registry then finds a trait that is gone.
\<close>

theorem refused_trait_dangles:
  assumes inv: "registry_inv reg" and name: "name \<noteq> []" "last name = 47"
    and fresh: "dicey_registry_contains_trait reg name = Ok False"
    and elems: "dicey_trait_new ndebug alloc name = Ok (Some tr)" "add_trait_elements ndebug alloc tr elems = Ok (DICEY_OK, tr')"
      "trait_elems tr' \<noteq> None"
    and room: "alloc (length (METATRAIT_FORMAT name) + 1)"
      "set_object alloc (rg_traits reg) name (rg_next reg) = Ok (DICEY_HASH_SET_ADDED, traits)"
  shows "\<exists>reg' t. dicey_registry_add_trait_with ndebug alloc reg name elems = Ok (DICEY_OK, reg') \<and>
    dicey_registry_get_trait reg' name = Ok (Some t) \<and> trait_at reg' t = Undef"
proof -
  let ?t = "rg_next reg"
  obtain b where fmt: "dicey_registry_format_metaname ndebug alloc (put_trait reg tr') (METATRAIT_FORMAT name) =
      Ok (Some (METATRAIT_FORMAT name), (put_trait reg tr')\<lparr>rg_buffer := b\<rparr>)"
    using format_metaname_room [of alloc "METATRAIT_FORMAT name" ndebug "put_trait reg tr'"] room(1) by blast
  have invalid: "\<not> path_is_valid (METATRAIT_FORMAT name)"
    by (rule slash_refused) (use name in \<open>simp add: METATRAIT_FORMAT_def\<close>)
  let ?reg = "(put_trait reg tr')\<lparr>rg_buffer := b, rg_traits := traits\<rparr>"
  have add: "registry_add_trait ndebug alloc (put_trait reg tr') name ?t = Ok (DICEY_EPATH_MALFORMED, ?reg)"
    using fmt room(2) invalid
    by (simp add: registry_add_trait_def dicey_registry_add_object_with_def put_trait_def Let_def)
  let ?reg' = "?reg\<lparr>rg_trait_mem := (rg_trait_mem ?reg)(?t := None)\<rparr>"
  have "dicey_registry_add_trait_with ndebug alloc reg name elems = Ok (DICEY_OK, ?reg')"
    using fresh elems add
    by (simp add: dicey_registry_add_trait_with_def build_trait_def free_trait_def trait_at_def dicey_trait_delete_def
        put_trait_def)
  moreover have "objects_ok (rg_traits reg)"
    using registry_invD(3) [OF inv] by (simp add: traits_inv_def)
  then have "dicey_registry_get_trait ?reg' name = Ok (Some ?t)"
    using ht.store_OkD(1,2) [OF _ room(2)] by (simp add: dicey_registry_get_trait_def lookup_objects)
  ultimately show ?thesis
    by (intro exI [of _ ?reg'] exI [of _ ?t]) (simp add: trait_at_def)
qed

theorem refused_trait_dangles_witness:
  "\<exists>reg' t. dicey_registry_add_trait_with False (\<lambda>_. True) empty_registry (cs ''t/'')
      [(cs ''e'', \<lparr>el_type = DICEY_ELEMENT_TYPE_PROPERTY, el_signature = cs ''s'', el_flags = 0, el_tag = 0\<rparr>)] = Ok (DICEY_OK, reg') \<and>
    dicey_registry_get_trait reg' (cs ''t/'') = Ok (Some t) \<and> trait_at reg' t = Undef"
proof -
  let ?T = "\<lambda>_::nat. True"
  let ?e = "\<lparr>el_type = DICEY_ELEMENT_TYPE_PROPERTY, el_signature = cs ''s'', el_flags = 0, el_tag = 0\<rparr>"
  let ?tr = "\<lparr>trait_name = cs ''t/'', trait_elems = None\<rparr>"
  have name: "cs ''t/'' \<noteq> []" "last (cs ''t/'') = 47"
    by (simp_all add: cs_def)
  have none: "dicey_registry_contains_trait empty_registry (cs ''t/'') = Ok False"
    using contains_objects [of "None :: nat dicey_hashtable option" "cs ''t/''"]
    by (simp add: dicey_registry_contains_trait_def registry_trait_exists_def empty_registry_def)
  have new: "dicey_trait_new False ?T (cs ''t/'') = Ok (Some ?tr)"
    using name(1) by (simp add: dicey_trait_new_def strdup_ok_def)
  have sig: "dicey_typedescr_parse (cs ''s'') = Ok (Some (DICEY_TYPEDESCR_VALUE (cs ''s'')))"
    by code_simp
  obtain es where es: "set_object ?T None (cs ''e'') ?e = Ok (DICEY_HASH_SET_ADDED, es)"
    using store_has_room [of None "cs ''e''" ?T 0 ?e] by auto
  have "objects es (cs ''e'') = Some ?e"
    using ht.store_OkD(2) [OF _ es] by simp
  then have "es \<noteq> None"
    by (cases es) simp_all
  moreover have "add_trait_elements False ?T ?tr [(cs ''e'', ?e)] = Ok (DICEY_OK, ?tr\<lparr>trait_elems := es\<rparr>)"
    using es sig contains_objects [of "None :: dicey_element dicey_hashtable option" "cs ''e''"]
    by (simp add: dicey_trait_add_element_def is_functional_def elem_dup_def strdup_ok_def) (simp add: cs_def)
  moreover obtain traits where "set_object ?T (rg_traits empty_registry) (cs ''t/'') (rg_next empty_registry) =
      Ok (DICEY_HASH_SET_ADDED, traits)"
    using store_has_room [of None "cs ''t/''" ?T 0 "0::nat"] by (auto simp: empty_registry_def)
  ultimately show ?thesis
    using refused_trait_dangles [OF empty_registry_inv name none new] by simp
qed

end
