(* ===== verification/Dicey_Chunk.thy ===== *)
theory Dicey_Chunk
  imports Dicey_Errors
begin

text \<open>
  The buffer a peer's bytes are collected in: \<^verbatim>\<open>src/ipc/chunk.c\<close>.

  A chunk is its capacity, which includes the header, and the first \<open>len\<close> bytes of its area; the rest of the
  area has no contents anybody reads.  \<open>None\<close> is the \<open>NULL\<close> chunk.
\<close>

section \<open>Operations\<close>

definition BUFFER_MINCAP :: nat where "BUFFER_MINCAP = 1024"

record dicey_chunk =
  ck_cap :: nat
  ck_bytes :: "byte list"

definition sizeof_chunk :: nat where "sizeof_chunk = 16"

text \<open>The subtractions are of type \<open>size_t\<close> and wrap.\<close>

definition dicey_chunk_avail :: "dicey_chunk option \<Rightarrow> nat" where
  "dicey_chunk_avail cnk =
     (case cnk of
        None \<Rightarrow> 0
      | Some c \<Rightarrow> nat ((int (ck_cap c) - int (length (ck_bytes c)) - int sizeof_chunk) mod 2 ^ 64))"

definition dicey_chunk_grow :: "(nat \<Rightarrow> bool) \<Rightarrow> dicey_chunk option \<Rightarrow> dicey_chunk option" where
  "dicey_chunk_grow alloc buf =
     (let new_cap = (case buf of
            Some c \<Rightarrow> if ck_cap c \<noteq> 0 then (ck_cap c * 3) mod 2 ^ 64 div 2 else BUFFER_MINCAP
          | None \<Rightarrow> BUFFER_MINCAP) in
      if \<not> alloc new_cap then None
      else case buf of
        None \<Rightarrow> Some \<lparr>ck_cap = new_cap, ck_bytes = []\<rparr>
      | Some c \<Rightarrow> Some (c\<lparr>ck_cap := new_cap\<rparr>))"

text \<open>
  The loop of \<open>dicey_chunk_get_buf\<close>, at most \<open>n\<close> rounds of it; \<open>None\<close> when they are not enough.  The buffer handed
  to the reader starts after the bytes held and has the length that is returned.
\<close>

fun get_buf_loop :: "nat \<Rightarrow> (nat \<Rightarrow> bool) \<Rightarrow> dicey_chunk option \<Rightarrow> nat \<Rightarrow> (nat \<times> dicey_chunk option) option" where
  "get_buf_loop 0 alloc buf least = None"
| "get_buf_loop (Suc n) alloc buf least =
     (let avail = dicey_chunk_avail buf in
      if avail \<ge> least then Some (avail, buf)
      else get_buf_loop n alloc (dicey_chunk_grow alloc buf) least)"

definition dicey_chunk_get_buf ::
  "nat \<Rightarrow> (nat \<Rightarrow> bool) \<Rightarrow> dicey_chunk option \<Rightarrow> nat \<Rightarrow> (nat \<times> dicey_chunk option) option"
where
  "dicey_chunk_get_buf n alloc buf least =
     map_option (\<lambda>(avail, cnk). (if cnk = None then 0 else min avail (2 ^ 32 - 1), cnk))
       (get_buf_loop n alloc buf least)"

definition dicey_chunk_clear :: "dicey_chunk \<Rightarrow> dicey_chunk" where
  "dicey_chunk_clear buffer = buffer\<lparr>ck_bytes := []\<rparr>"

section \<open>Facts\<close>

text \<open>
  A chunk as the loop keeps it: empty, or with room for its header and the bytes it holds; both grow by half, so
  one round more gives 256 bytes whatever the chunk holds.
\<close>

definition chunk_ok :: "dicey_chunk option \<Rightarrow> bool" where
  "chunk_ok cnk =
     (case cnk of
        None \<Rightarrow> True
      | Some c \<Rightarrow> BUFFER_MINCAP \<le> ck_cap c \<and> length (ck_bytes c) + sizeof_chunk \<le> ck_cap c \<and> ck_cap c < 2 ^ 60)"

definition chunk_bytes :: "dicey_chunk option \<Rightarrow> byte list" where
  "chunk_bytes cnk = (case cnk of None \<Rightarrow> [] | Some c \<Rightarrow> ck_bytes c)"

lemma avail_of_ok:
  assumes "chunk_ok (Some c)"
  shows "dicey_chunk_avail (Some c) = ck_cap c - length (ck_bytes c) - sizeof_chunk"
proof -
  have "(int (ck_cap c) - int (length (ck_bytes c)) - int sizeof_chunk) mod 2 ^ 64
        = int (ck_cap c - length (ck_bytes c) - sizeof_chunk)"
    using assms by (subst mod_pos_pos_trivial) (auto simp: chunk_ok_def)
  then show ?thesis by (simp add: dicey_chunk_avail_def)
qed

lemma grow_some:
  assumes "chunk_ok (Some c)" "\<forall>n. alloc n"
  shows "dicey_chunk_grow alloc (Some c) = Some (c\<lparr>ck_cap := ck_cap c * 3 div 2\<rparr>)"
  using assms by (simp add: dicey_chunk_grow_def chunk_ok_def BUFFER_MINCAP_def)

lemma grow_none:
  assumes "\<forall>n. alloc n"
  shows "dicey_chunk_grow alloc None = Some \<lparr>ck_cap = BUFFER_MINCAP, ck_bytes = []\<rparr>"
  using assms by (simp add: dicey_chunk_grow_def)

text \<open>While there is memory, the reader gets the room it asks for, and no byte held is lost.\<close>

lemma get_buf_some:
  assumes "chunk_ok (Some c)" "ck_cap c < 2 ^ 58" "\<forall>n. alloc n"
  shows "\<exists>avail c1. dicey_chunk_get_buf (Suc (Suc n)) alloc (Some c) 256 = Some (avail, Some c1) \<and>
           256 \<le> avail \<and> ck_bytes c1 = ck_bytes c \<and> length (ck_bytes c) + avail + sizeof_chunk \<le> ck_cap c1 \<and>
           chunk_ok (Some c1)"
proof (cases "256 \<le> dicey_chunk_avail (Some c)")
  case True
  then show ?thesis
    using assms avail_of_ok [OF assms(1)]
    by (auto simp: dicey_chunk_get_buf_def chunk_ok_def)
next
  case False
  define c1 where "c1 = c\<lparr>ck_cap := ck_cap c * 3 div 2\<rparr>"
  have ok: "chunk_ok (Some c1)"
    using assms by (auto simp: chunk_ok_def c1_def)
  have "256 \<le> dicey_chunk_avail (Some c1)"
    using assms avail_of_ok [OF ok] by (auto simp: c1_def chunk_ok_def BUFFER_MINCAP_def)
  then have "get_buf_loop (Suc (Suc n)) alloc (Some c) 256 = Some (dicey_chunk_avail (Some c1), Some c1)"
    unfolding get_buf_loop.simps Let_def grow_some [OF assms(1,3)] c1_def [symmetric]
    using False by simp
  moreover have "256 \<le> dicey_chunk_avail (Some c1)" by fact
  ultimately show ?thesis
    using ok avail_of_ok [OF ok]
    by (auto simp: dicey_chunk_get_buf_def chunk_ok_def c1_def)
qed

lemma get_buf_none:
  assumes "\<forall>n. alloc n"
  shows "dicey_chunk_get_buf (Suc (Suc n)) alloc None 256 = Some (1008, Some \<lparr>ck_cap = BUFFER_MINCAP, ck_bytes = []\<rparr>)"
  using assms
  by (simp add: dicey_chunk_get_buf_def grow_none Let_def)
     (simp add: dicey_chunk_avail_def BUFFER_MINCAP_def sizeof_chunk_def)

text \<open>
  When memory runs out the chunk and what it holds are lost, and the loop never ends: every round finds no room
  and asks for a new buffer again.
\<close>

lemma no_memory_no_buffer:
  assumes "\<forall>n. \<not> alloc n" "0 < least"
  shows "dicey_chunk_get_buf n alloc None least = None"
proof -
  have "get_buf_loop n alloc None least = None"
    using assms by (induction n) (simp_all add: dicey_chunk_avail_def dicey_chunk_grow_def Let_def)
  then show ?thesis by (simp add: dicey_chunk_get_buf_def)
qed

end
