(* ===== verification/Dicey_Request.thy ===== *)
theory Dicey_Request
  imports Dicey_Builders Dicey_Pending Dicey_Registry
begin

text \<open>
  Requests as the server hands them to user code: \<^verbatim>\<open>src/ipc/server/request.c\<close>.

  \<open>request_rest\<close> holds the members of \<open>struct dicey_request\<close> that the ring of pending requests does not look at.
  The builder of the response is a builder memory of its own, in which the value builder of the caller has an
  address.  Sending is a parameter \<open>send\<close>, a function on the state of whoever sends (the server's queue).
\<close>

section \<open>State\<close>

datatype dicey_request_state =
  DICEY_REQUEST_STATE_PENDING
| DICEY_REQUEST_STATE_CONSTRUCTING
| DICEY_REQUEST_STATE_COMPLETED
| DICEY_REQUEST_STATE_ABORTED

record request_rest =
  rs_cln :: nat
  rs_state :: dicey_request_state
  rs_packet :: dicey_packet
  rs_real_path :: cstring
  rs_builder :: builder_mem
  rs_signature :: cstring

type_synonym server_request = "request_rest dicey_request"

type_synonym 'q send_fn = "nat \<Rightarrow> dicey_packet \<Rightarrow> 'q \<Rightarrow> (dicey_error \<times> 'q) result"

section \<open>Building the response\<close>

definition dicey_request_response_start ::
  "bool \<Rightarrow> (nat \<Rightarrow> bool) \<Rightarrow> request_rest \<Rightarrow> nat \<Rightarrow> (dicey_error \<times> request_rest) result"
where
  "dicey_request_response_start ndebug alloc req builder =
     (if rs_state req \<noteq> DICEY_REQUEST_STATE_PENDING \<or> dicey_value_builder_is_pending (rs_builder req) builder
      then Ok (DICEY_EINVAL, req)
      else
        c_assert ndebug (dicey_message_builder_is_pending (rs_builder req))
          (and_then (dicey_message_builder_value_start alloc (rs_builder req) builder) (\<lambda>(err, st).
             if err \<noteq> DICEY_OK then Ok (err, req\<lparr>rs_builder := st\<rparr>)
             else Ok (DICEY_OK, req\<lparr>rs_builder := st, rs_state := DICEY_REQUEST_STATE_CONSTRUCTING\<rparr>))))"

definition dicey_request_response_reset :: "bool \<Rightarrow> request_rest \<Rightarrow> nat \<Rightarrow> (dicey_error \<times> request_rest) result" where
  "dicey_request_response_reset ndebug req builder =
     (if rs_state req \<noteq> DICEY_REQUEST_STATE_CONSTRUCTING then Ok (DICEY_EINVAL, req)
      else
        c_assert ndebug (dicey_message_builder_is_pending (rs_builder req))
          (and_then (dicey_message_builder_value_end (rs_builder req) builder) (\<lambda>(err, st).
             if err \<noteq> DICEY_OK then Ok (err, req\<lparr>rs_builder := st\<rparr>)
             else Ok (DICEY_OK, req\<lparr>rs_builder := st, rs_state := DICEY_REQUEST_STATE_PENDING\<rparr>))))"

definition aborted :: "request_rest \<Rightarrow> builder_mem \<Rightarrow> request_rest" where
  "aborted req st = req\<lparr>rs_builder := st, rs_state := DICEY_REQUEST_STATE_ABORTED\<rparr>"

definition finalize_request ::
  "bool \<Rightarrow> (nat \<Rightarrow> bool) \<Rightarrow> 'q send_fn \<Rightarrow> request_rest \<Rightarrow> 'q \<Rightarrow> nat \<Rightarrow> (dicey_error \<times> request_rest \<times> 'q) result"
where
  "finalize_request ndebug alloc send req q builder =
     (if rs_state req \<noteq> DICEY_REQUEST_STATE_CONSTRUCTING then Ok (DICEY_EINVAL, req, q)
      else
        and_then (dicey_message_builder_value_end (rs_builder req) builder) (\<lambda>(err, st).
          if err \<noteq> DICEY_OK then Ok (err, aborted req st, q)
          else
            c_assert ndebug (dicey_message_builder_is_pending st)
              (and_then (dicey_message_builder_build alloc st) (\<lambda>(err, reply, st1).
                 case (err, reply) of
                   (DICEY_OK, Some packet) \<Rightarrow>
                     and_then (send (rs_cln req) packet q) (\<lambda>(err, q1).
                       if err \<noteq> DICEY_OK then Ok (err, aborted req st1, q1)
                       else Ok (DICEY_OK, req\<lparr>rs_builder := st1, rs_state := DICEY_REQUEST_STATE_COMPLETED\<rparr>, q1))
                 | _ \<Rightarrow> Ok (err, aborted req st1, q)))))"

definition dicey_request_response_send ::
  "bool \<Rightarrow> (nat \<Rightarrow> bool) \<Rightarrow> 'q send_fn \<Rightarrow> request_rest \<Rightarrow> 'q \<Rightarrow> nat \<Rightarrow> (dicey_error \<times> request_rest \<times> 'q) result"
where
  "dicey_request_response_send ndebug alloc send req q builder = finalize_request ndebug alloc send req q builder"

text \<open>
  \<open>send_reply\<close>: the value builder is a local of the function, at address 0.  When the value cannot be set the
  error of \<open>dicey_request_response_reset\<close> is returned, which is \<open>DICEY_OK\<close> when the reset succeeds.
\<close>

definition send_reply ::
  "bool \<Rightarrow> (nat \<Rightarrow> bool) \<Rightarrow> 'q send_fn \<Rightarrow> request_rest \<Rightarrow> 'q \<Rightarrow> dicey_arg \<Rightarrow> (dicey_error \<times> request_rest \<times> 'q) result"
where
  "send_reply ndebug alloc send req q arg =
     and_then
       (dicey_request_response_start ndebug alloc
          (req\<lparr>rs_builder := set_vb (rs_builder req) 0 zero_value_builder\<rparr>) 0) (\<lambda>(err, req1).
       if err \<noteq> DICEY_OK then Ok (err, req1, q)
       else
         and_then (dicey_value_builder_set alloc (rs_builder req1) 0 arg) (\<lambda>(err, st).
           let req2 = req1\<lparr>rs_builder := st\<rparr> in
           if err \<noteq> DICEY_OK then
             and_then (dicey_request_response_reset ndebug req2 0) (\<lambda>(err, req3). Ok (err, req3, q))
           else dicey_request_response_send ndebug alloc send req2 q 0))"

definition reply_with_existing ::
  "bool \<Rightarrow> (nat \<Rightarrow> bool) \<Rightarrow> 'q send_fn \<Rightarrow> request_rest \<Rightarrow> 'q \<Rightarrow> dicey_value \<Rightarrow> (dicey_error \<times> request_rest \<times> 'q) result"
where
  "reply_with_existing ndebug alloc send req q val =
     (case dicey_arg_from_borrowed_value alloc val of
        Undef \<Rightarrow> Undef
      | Err e \<Rightarrow> Ok (e, req, q)
      | Ok arg \<Rightarrow> send_reply ndebug alloc send req q arg)"

definition dicey_request_acknowledge ::
  "bool \<Rightarrow> (nat \<Rightarrow> bool) \<Rightarrow> 'q send_fn \<Rightarrow> request_rest \<Rightarrow> 'q \<Rightarrow> (dicey_error \<times> request_rest \<times> 'q) result"
where
  "dicey_request_acknowledge ndebug alloc send req q = send_reply ndebug alloc send req q ArgUnit"

definition dicey_request_fail ::
  "bool \<Rightarrow> (nat \<Rightarrow> bool) \<Rightarrow> 'q send_fn \<Rightarrow> request_rest \<Rightarrow> 'q \<Rightarrow> 16 word \<Rightarrow> cstring option
     \<Rightarrow> (dicey_error \<times> request_rest \<times> 'q) result"
where
  "dicey_request_fail ndebug alloc send req q code msg = send_reply ndebug alloc send req q (ArgError code msg)"

definition dicey_request_deinit :: "server_request \<Rightarrow> server_request result" where
  "dicey_request_deinit req =
     (case rq_rest req of
        None \<Rightarrow> Ok zero_request
      | Some r \<Rightarrow> and_then (dicey_message_builder_discard (rs_builder r)) (\<lambda>_. Ok zero_request))"

section \<open>A request from a packet\<close>

definition sel_strings :: "dicey_selector \<Rightarrow> (cstring \<times> cstring) result" where
  "sel_strings sel =
     (case (sel_trait sel, sel_elem sel) of (Some trait, Some elem) \<Rightarrow> Ok (trait, elem) | _ \<Rightarrow> Undef)"

text \<open>
  The path shown to user code is the main path of the object; the model copies the string when the pointer is
  taken from the registry.
\<close>

definition dicey_server_request_for ::
  "bool \<Rightarrow> dicey_registry \<Rightarrow> nat \<Rightarrow> dicey_packet \<Rightarrow> server_request result"
where
  "dicey_server_request_for ndebug reg cln packet =
     and_then (dicey_packet_as_message packet) (\<lambda>message.
     and_then (dicey_packet_get_seq packet) (\<lambda>packet_seq.
     and_then (sel_strings (msg_selector message)) (\<lambda>(trait, elem).
     and_then (dicey_registry_get_element ndebug reg (msg_path message) trait elem) (\<lambda>found.
       case found of
         None \<Rightarrow> Err DICEY_EELEMENT_NOT_FOUND
       | Some element \<Rightarrow>
           and_then
             (then_ok (dicey_message_builder_begin empty_builder_mem DICEY_OP_RESPONSE) (\<lambda>st.
              then_ok (dicey_message_builder_set_seq st packet_seq) (\<lambda>st.
              then_ok (dicey_message_builder_set_path st (msg_path message)) (\<lambda>st.
                dicey_message_builder_set_selector st (msg_selector message)))))
             (\<lambda>(err, st).
               if err \<noteq> DICEY_OK then and_then (dicey_message_builder_discard st) (\<lambda>_. Err err)
               else
                 and_then (dicey_registry_get_main_path ndebug reg (msg_path message)) (\<lambda>key.
                 and_then (key_str key) (\<lambda>main.
                   Ok \<lparr>rq_packet_seq = packet_seq, rq_op = msg_type message,
                       rq_message = Some (message\<lparr>msg_path := main\<rparr>),
                       rq_rest = Some \<lparr>rs_cln = cln, rs_state = DICEY_REQUEST_STATE_PENDING,
                         rs_packet = packet, rs_real_path = msg_path message, rs_builder = st,
                         rs_signature = el_signature element\<rparr>\<rparr>)))))))"

end
