(* ===== verification/Dicey_Clients.thy ===== *)
theory Dicey_Clients
  imports Dicey_Chunk Dicey_Hashset Dicey_Request
begin

text \<open>
  What the server keeps of a client, and the list of its clients: \<^verbatim>\<open>src/ipc/server/client-data.c\<close>.

  A client is identified by its slot in the list.  The list holds addresses; the structures they lead to are in
  the memory of the server (theory \<open>Dicey_Server\<close>).  \<open>None\<close> is the \<open>NULL\<close> list, and an empty slot.  The pipe, the
  user data and the unused sequence counter of a client are left out, and so is the cleanup callback, which only
  plugins set.
\<close>

section \<open>Clients\<close>

datatype dicey_client_data_state =
  CLIENT_DATA_STATE_CONNECTED
| CLIENT_DATA_STATE_RUNNING
| CLIENT_DATA_STATE_QUITTING
| CLIENT_DATA_STATE_DEAD

record dicey_client_data =
  cd_state :: dicey_client_data_state
  cd_id :: nat
  cd_chunk :: "dicey_chunk option"
  cd_pending :: "request_rest dicey_pending_requests option"
  cd_subscriptions :: dicey_hashset

definition dicey_client_data_init :: "nat \<Rightarrow> dicey_client_data" where
  "dicey_client_data_init n =
     \<lparr>cd_state = CLIENT_DATA_STATE_CONNECTED, cd_id = n, cd_chunk = None, cd_pending = None, cd_subscriptions = None\<rparr>"

definition sizeof_client_data :: nat where "sizeof_client_data = 344"

definition dicey_client_data_new :: "(nat \<Rightarrow> bool) \<Rightarrow> nat \<Rightarrow> dicey_client_data option" where
  "dicey_client_data_new alloc n = (if alloc sizeof_client_data then Some (dicey_client_data_init n) else None)"

definition dicey_client_data_is_subscribed :: "dicey_client_data \<Rightarrow> cstring \<Rightarrow> bool result" where
  "dicey_client_data_is_subscribed client elemdescr = dicey_hashset_contains (cd_subscriptions client) elemdescr"

definition dicey_client_data_set_state ::
  "bool \<Rightarrow> dicey_client_data \<Rightarrow> dicey_client_data_state \<Rightarrow> dicey_client_data result"
where
  "dicey_client_data_set_state ndebug client state =
     c_assert ndebug (cd_state client \<noteq> CLIENT_DATA_STATE_DEAD) (Ok (client\<lparr>cd_state := state\<rparr>))"

definition dicey_client_data_subscribe ::
  "(nat \<Rightarrow> bool) \<Rightarrow> dicey_client_data \<Rightarrow> cstring \<Rightarrow> (dicey_error \<times> dicey_client_data) result"
where
  "dicey_client_data_subscribe alloc client elemdescr =
     and_then (dicey_hashset_add alloc (cd_subscriptions client) elemdescr) (\<lambda>(res, subs).
       Ok (if res = DICEY_HASH_SET_FAILED then DICEY_ENOMEM else DICEY_OK, client\<lparr>cd_subscriptions := subs\<rparr>))"

definition dicey_client_data_unsubscribe :: "dicey_client_data \<Rightarrow> cstring \<Rightarrow> (bool \<times> dicey_client_data) result" where
  "dicey_client_data_unsubscribe client elemdescr =
     and_then (dicey_hashset_remove (cd_subscriptions client) elemdescr) (\<lambda>(removed, subs).
       Ok (removed, client\<lparr>cd_subscriptions := subs\<rparr>))"

section \<open>The list of clients\<close>

type_synonym dicey_client_list = "nat option list option"

definition CLIENTS_BASE_CAP :: nat where "CLIENTS_BASE_CAP = 128"

definition slots :: "dicey_client_list \<Rightarrow> nat option list" where
  "slots clients = (case clients of None \<Rightarrow> [] | Some cells \<Rightarrow> cells)"

definition client_list_grow :: "(nat \<Rightarrow> bool) \<Rightarrow> dicey_client_list \<Rightarrow> dicey_client_list" where
  "client_list_grow alloc clients =
     (let old_cap = length (slots clients);
          new_cap = (if old_cap \<noteq> 0 then (old_cap * 3) mod 2 ^ 64 div 2 else CLIENTS_BASE_CAP) in
      if new_cap > PTRDIFF_MAX then None
      else if \<not> alloc (8 + 8 * new_cap) then None
      else Some (take new_cap (slots clients) @ replicate (new_cap - old_cap) None))"

definition dicey_client_list_drop_client :: "dicey_client_list \<Rightarrow> nat \<Rightarrow> (nat option \<times> dicey_client_list) result" where
  "dicey_client_list_drop_client clients n =
     (case clients of
        None \<Rightarrow> Undef
      | Some cells \<Rightarrow> if n < length cells then Ok (cells ! n, Some (cells[n := None])) else Ok (None, clients))"

definition dicey_client_list_is_empty :: "dicey_client_list \<Rightarrow> bool" where
  "dicey_client_list_is_empty clients = list_all (\<lambda>c. c = None) (slots clients)"

definition dicey_client_list_get_client :: "dicey_client_list \<Rightarrow> nat \<Rightarrow> nat option" where
  "dicey_client_list_get_client clients n = (if n < length (slots clients) then slots clients ! n else None)"

fun first_free :: "nat option list \<Rightarrow> nat \<Rightarrow> nat option" where
  "first_free [] i = None"
| "first_free (c # cells) i = (if c = None then Some i else first_free cells (Suc i))"

text \<open>
  The list is overwritten by what growing it returns: when that fails, every client is lost.  A list of one slot
  does not grow, but the capacity starts at 128.
\<close>

definition dicey_client_list_new_bucket :: "(nat \<Rightarrow> bool) \<Rightarrow> dicey_client_list \<Rightarrow> nat option \<times> dicey_client_list" where
  "dicey_client_list_new_bucket alloc clients =
     (case first_free (slots clients) 0 of
        Some i \<Rightarrow> (Some i, clients)
      | None \<Rightarrow>
          (case client_list_grow alloc clients of
             None \<Rightarrow> (None, None)
           | Some cells \<Rightarrow> (Some (length (slots clients)), Some cells)))"

section \<open>Facts\<close>

lemma first_free_none: "first_free cells i = None \<Longrightarrow> \<forall>c \<in> set cells. c \<noteq> None"
  by (induction cells arbitrary: i) (auto split: if_splits)

lemma first_free_some: "first_free cells i = Some n \<Longrightarrow> i \<le> n \<and> n < i + length cells \<and> cells ! (n - i) = None"
proof (induction cells arbitrary: i)
  case (Cons c cells)
  show ?case
  proof (cases "c = None")
    case False
    then have "Suc i \<le> n \<and> n < Suc i + length cells \<and> cells ! (n - Suc i) = None"
      using Cons.IH [of "Suc i"] Cons.prems by (simp split: if_splits)
    then show ?thesis by (auto simp: nth_Cons')
  qed (use Cons.prems in simp)
qed simp

text \<open>
  A slot handed out is a free one; whoever had a slot before keeps it.  The list has 128 slots or more once it is
  not \<open>NULL\<close>, and room for less than \<open>2 ^ 60\<close>.
\<close>

definition client_list_ok :: "dicey_client_list \<Rightarrow> bool" where
  "client_list_ok clients = (case clients of None \<Rightarrow> True | Some cells \<Rightarrow> 128 \<le> length cells \<and> length cells < 2 ^ 60)"

lemma grow_slots:
  assumes "client_list_grow alloc clients = Some cells" "client_list_ok clients"
  shows "\<exists>k. 0 < k \<and> cells = slots clients @ replicate k None \<and> 128 \<le> length cells \<and> alloc (8 + 8 * length cells)"
proof (cases clients)
  case None
  then show ?thesis
    using assms by (auto simp: client_list_grow_def slots_def CLIENTS_BASE_CAP_def Let_def split: if_splits)
next
  case (Some cs1)
  define k where "k = length cs1 * 3 div 2 - length cs1"
  have "128 \<le> length cs1" "length cs1 * 3 < 2 ^ 64"
    using Some assms(2) by (auto simp: client_list_ok_def)
  then have k: "length cs1 * 3 mod 2 ^ 64 div 2 = length cs1 + k" "0 < k"
    by (auto simp: k_def)
  have "cells = cs1 @ replicate k None" "alloc (8 + 8 * (length cs1 + k))"
    using assms(1) Some k \<open>128 \<le> length cs1\<close>
    by (auto simp: client_list_grow_def slots_def Let_def simp del: power_numeral_even split: if_splits)
  then show ?thesis
    using Some k \<open>128 \<le> length cs1\<close> by (auto simp: slots_def)
qed

lemma new_bucket_ok:
  assumes "dicey_client_list_new_bucket alloc clients = (r, clients1)" "client_list_ok clients"
    and "\<forall>n. alloc n \<longrightarrow> n < 2 ^ 62"
  shows "client_list_ok clients1"
proof (cases "client_list_grow alloc clients")
  case None
  then show ?thesis
    using assms by (auto simp: dicey_client_list_new_bucket_def client_list_ok_def split: option.splits)
next
  case (Some cells)
  have "128 \<le> length cells" "alloc (8 + 8 * length cells)"
    using grow_slots [OF Some assms(2)] by auto
  moreover have "length cells < 2 ^ 60"
    using calculation(2) assms(3) by fastforce
  ultimately show ?thesis
    using Some assms by (auto simp: dicey_client_list_new_bucket_def client_list_ok_def split: option.splits)
qed

lemma new_bucket_exact:
  assumes "dicey_client_list_new_bucket alloc clients = (Some n, clients1)" "client_list_ok clients"
  shows "dicey_client_list_get_client clients n = None \<and> n < length (slots clients1) \<and> clients1 \<noteq> None \<and>
    (\<forall>m. dicey_client_list_get_client clients1 m = dicey_client_list_get_client clients m)"
proof (cases "first_free (slots clients) 0")
  case None
  obtain cells where cells: "client_list_grow alloc clients = Some cells" "clients1 = Some cells"
    "n = length (slots clients)"
    using None assms by (auto simp: dicey_client_list_new_bucket_def split: option.splits)
  obtain k where "0 < k" "cells = slots clients @ replicate k None"
    using grow_slots [OF cells(1) assms(2)] by blast
  then show ?thesis
    using cells by (auto simp: dicey_client_list_get_client_def slots_def nth_append)
next
  case (Some i)
  then have "n = i" "clients1 = clients"
    using assms by (auto simp: dicey_client_list_new_bucket_def)
  moreover have "i < length (slots clients)" "slots clients ! i = None"
    using first_free_some [OF Some] by auto
  moreover have "clients \<noteq> None"
    using calculation(3) by (cases clients) (auto simp: slots_def)
  ultimately show ?thesis by (simp add: dicey_client_list_get_client_def)
qed

lemma drop_client_exact:
  assumes "dicey_client_list_drop_client clients n = Ok (a, clients1)"
  shows "a = dicey_client_list_get_client clients n \<and>
    (\<forall>m. dicey_client_list_get_client clients1 m = (if m = n then None else dicey_client_list_get_client clients m))"
  using assms
  by (auto simp: dicey_client_list_drop_client_def dicey_client_list_get_client_def slots_def nth_list_update
      split: option.splits if_splits)

end
