(* ===== verification/Dicey_Server.thy ===== *)
theory Dicey_Server
  imports Dicey_Clients Dicey_Queue
begin

text \<open>
  The state of the server and what it sends: \<^verbatim>\<open>src/ipc/server/server.c\<close>, \<^verbatim>\<open>server-internal.h\<close>,
  \<^verbatim>\<open>server-loopreq.h\<close>, \<^verbatim>\<open>server-clients.c\<close>, \<^verbatim>\<open>shared-packet.c\<close> and \<^verbatim>\<open>src/ipc/elemdescr.c\<close>.

  The state has the memory the handlers share: the clients and the shared packets by address.  It also has what
  libuv holds for the server: the writes that were accepted and not completed, and the handles being closed.  Calls
  to user callbacks and posts on semaphores are recorded in the order they happen.

  \<open>server_env\<close> is everything the handlers get from outside: whether assertions are compiled out, the allocator, a
  bound on the rounds of loops, the result of \<open>uv_write\<close>, the request callback of the user, and the handler of the
  introspection builtins.  A handler that does not come back within the bound has no outcome and is \<open>Undef\<close>.
\<close>

section \<open>State\<close>

datatype dicey_server_state =
  SERVER_STATE_UNINIT
| SERVER_STATE_INIT
| SERVER_STATE_RUNNING
| SERVER_STATE_QUITTING

record dicey_shared_packet =
  sp_refc :: int
  sp_packet :: dicey_packet

text \<open>The kind \<open>DICEY_OP_RESPONSE\<close> is a packet of its own, the kind \<open>DICEY_OP_SIGNAL\<close> a shared one.\<close>

datatype outbound_packet = OutSingle dicey_packet | OutShared nat

record write_request =
  wr_client :: nat
  wr_packet :: outbound_packet

text \<open>The callbacks of loop requests with their payloads.\<close>

datatype loop_callback =
  LoopAddObject cstring dicey_hashset
| LoopAddAliases cstring dicey_hashset
| LoopAddTrait nat
| LoopDelAlias cstring
| LoopDelObject cstring
| LoopDropAliases cstring
| LoopKickClient dicey_bye_reason
| LoopRaiseSignal dicey_packet
| LoopSendResponse dicey_packet
| LoopShutdown

record dicey_server_loop_request =
  lr_cb :: loop_callback
  lr_target :: "nat option"
  lr_sem :: "nat option"

datatype server_event = OnError dicey_error "nat option" | OnRequest nat "32 word" | OnConnect nat | OnDisconnect nat

record dicey_server =
  sv_state :: dicey_server_state
  sv_seq_cnt :: "32 word"
  sv_shutdown_hook :: "nat option"
  sv_queue :: "dicey_server_loop_request dicey_queue"
  sv_clients :: dicey_client_list
  sv_registry :: dicey_registry
  sv_scratchpad :: nat
  sv_data :: "nat \<Rightarrow> dicey_client_data option"
  sv_shared :: "nat \<Rightarrow> dicey_shared_packet option"
  sv_next :: nat
  sv_writes :: "write_request list"
  sv_closing :: "nat list"
  sv_finalized :: bool
  sv_posted :: "(nat \<times> dicey_error) list"
  sv_events :: "server_event list"

text \<open>
  A builtin gets the registry, the length of the scratchpad, the client, the opcode, the request and its message;
  it gives its result, the response (empty if there is none) and what it leaves of the registry, the scratchpad and
  the client.
\<close>

record builtin_outcome =
  bo_result :: "dicey_error + dicey_client_data_state"
  bo_response :: dicey_packet
  bo_registry :: dicey_registry
  bo_scratchpad :: nat
  bo_client :: dicey_client_data

type_synonym dicey_registry_builtin_op =
  "dicey_registry \<Rightarrow> nat \<Rightarrow> dicey_client_data \<Rightarrow> nat \<Rightarrow> dicey_packet \<Rightarrow> dicey_message \<Rightarrow> builtin_outcome result"

text \<open>
  The request callback of the user gets the pending request; it leaves the request in some state and submits loop
  requests, among them the response if it replies at once.
\<close>

record server_env =
  se_ndebug :: bool
  se_alloc :: "nat \<Rightarrow> bool"
  se_rounds :: nat
  se_write :: "nat \<Rightarrow> dicey_packet \<Rightarrow> dicey_error"
  se_on_request :: "(server_request \<Rightarrow> request_rest \<times> dicey_server_loop_request list) option"
  se_introspection :: dicey_registry_builtin_op

type_synonym server_result = "(dicey_error \<times> dicey_server) result"

definition client_at :: "dicey_server \<Rightarrow> nat \<Rightarrow> dicey_client_data result" where
  "client_at server a = (case sv_data server a of None \<Rightarrow> Undef | Some client \<Rightarrow> Ok client)"

definition put_client :: "dicey_server \<Rightarrow> nat \<Rightarrow> dicey_client_data \<Rightarrow> dicey_server" where
  "put_client server a client = server\<lparr>sv_data := (sv_data server)(a \<mapsto> client)\<rparr>"

definition record_event :: "dicey_server \<Rightarrow> server_event \<Rightarrow> dicey_server" where
  "record_event server e = server\<lparr>sv_events := sv_events server @ [e]\<rparr>"

definition ended :: "'a option result \<Rightarrow> 'a result" where
  "ended r = and_then r (\<lambda>x. case x of None \<Rightarrow> Undef | Some y \<Rightarrow> Ok y)"

section \<open>Shared packets\<close>

definition dicey_shared_packet_from ::
  "bool \<Rightarrow> (nat \<Rightarrow> bool) \<Rightarrow> dicey_server \<Rightarrow> dicey_packet \<Rightarrow> int \<Rightarrow> (nat option \<times> dicey_server) result"
where
  "dicey_shared_packet_from ndebug alloc server packet starting_refcount =
     c_assert ndebug (dicey_packet_is_valid packet)
       (if \<not> alloc 24 then Ok (None, server)
        else
          Ok (Some (sv_next server),
              server\<lparr>sv_next := Suc (sv_next server),
                 sv_shared := (sv_shared server)(sv_next server \<mapsto> \<lparr>sp_refc = starting_refcount, sp_packet = packet\<rparr>)\<rparr>))"

definition shared_at :: "dicey_server \<Rightarrow> nat \<Rightarrow> dicey_shared_packet result" where
  "shared_at server s = (case sv_shared server s of None \<Rightarrow> Undef | Some pkt \<Rightarrow> Ok pkt)"

definition dicey_shared_packet_is_valid :: "dicey_shared_packet \<Rightarrow> bool" where
  "dicey_shared_packet_is_valid pkt \<longleftrightarrow> sp_refc pkt > 0 \<and> dicey_packet_is_valid (sp_packet pkt)"

definition dicey_shared_packet_borrow :: "bool \<Rightarrow> dicey_server \<Rightarrow> nat \<Rightarrow> dicey_packet result" where
  "dicey_shared_packet_borrow ndebug server s =
     and_then (shared_at server s) (\<lambda>pkt.
       c_assert ndebug (dicey_shared_packet_is_valid pkt) (Ok (sp_packet pkt)))"

definition dicey_shared_packet_ref :: "bool \<Rightarrow> dicey_server \<Rightarrow> nat \<Rightarrow> dicey_server result" where
  "dicey_shared_packet_ref ndebug server s =
     and_then (shared_at server s) (\<lambda>pkt.
       c_assert ndebug (dicey_shared_packet_is_valid pkt)
         (Ok (server\<lparr>sv_shared := (sv_shared server)(s \<mapsto> pkt\<lparr>sp_refc := sp_refc pkt + 1\<rparr>)\<rparr>)))"

definition dicey_shared_packet_unref :: "bool \<Rightarrow> dicey_server \<Rightarrow> nat \<Rightarrow> dicey_server result" where
  "dicey_shared_packet_unref ndebug server s =
     and_then (shared_at server s) (\<lambda>pkt.
       c_assert ndebug (dicey_shared_packet_is_valid pkt)
         (let refc = sp_refc pkt - 1 in
          Ok (server\<lparr>sv_shared :=
            (sv_shared server)(s := if refc \<le> 0 then None else Some (pkt\<lparr>sp_refc := refc\<rparr>))\<rparr>)))"

section \<open>Outbound packets\<close>

definition outbound_packet_borrow :: "bool \<Rightarrow> dicey_server \<Rightarrow> outbound_packet \<Rightarrow> dicey_packet result" where
  "outbound_packet_borrow ndebug server packet =
     (case packet of OutSingle p \<Rightarrow> Ok p | OutShared s \<Rightarrow> dicey_shared_packet_borrow ndebug server s)"

definition outbound_packet_cleanup :: "bool \<Rightarrow> dicey_server \<Rightarrow> outbound_packet \<Rightarrow> dicey_server result" where
  "outbound_packet_cleanup ndebug server packet =
     (case packet of OutSingle p \<Rightarrow> Ok server | OutShared s \<Rightarrow> dicey_shared_packet_unref ndebug server s)"

definition outbound_packet_is_valid :: "dicey_server \<Rightarrow> outbound_packet \<Rightarrow> bool result" where
  "outbound_packet_is_valid server packet =
     (case packet of
        OutSingle p \<Rightarrow> Ok (dicey_packet_is_valid p)
      | OutShared s \<Rightarrow> and_then (shared_at server s) (\<lambda>pkt. Ok (dicey_shared_packet_is_valid pkt)))"

text \<open>The size and the payload of a packet are those of the packet borrowed.\<close>

definition server_sendpkt :: "server_env \<Rightarrow> dicey_server \<Rightarrow> nat \<Rightarrow> outbound_packet \<Rightarrow> server_result" where
  "server_sendpkt env server a packet =
     and_then (outbound_packet_is_valid server packet) (\<lambda>valid.
       c_assert (se_ndebug env) valid
         (and_then (outbound_packet_borrow (se_ndebug env) server packet) (\<lambda>bytes.
            if length bytes > UINT32_MAX then Ok (DICEY_EOVERFLOW, server)
            else if \<not> se_alloc env 240 then Ok (DICEY_ENOMEM, server)
            else
              and_then (client_at server a) (\<lambda>client.
                let err = se_write env (cd_id client) bytes in
                if err \<noteq> DICEY_OK then Ok (err, server)
                else
                  Ok (DICEY_OK, server\<lparr>sv_writes := sv_writes server @
                        [\<lparr>wr_client = cd_id client, wr_packet = packet\<rparr>]\<rparr>)))))"

section \<open>Clients of the server\<close>

definition dicey_server_release_id :: "dicey_server \<Rightarrow> nat \<Rightarrow> (nat option \<times> dicey_server) result" where
  "dicey_server_release_id server n =
     and_then (dicey_client_list_drop_client (sv_clients server) n) (\<lambda>(bucket, clients).
       Ok (bucket, server\<lparr>sv_clients := clients\<rparr>))"

definition dicey_server_remove_client :: "dicey_server \<Rightarrow> nat \<Rightarrow> server_result" where
  "dicey_server_remove_client server n =
     and_then (dicey_server_release_id server n) (\<lambda>(bucket, server1).
       case bucket of
         None \<Rightarrow> Ok (DICEY_EINVAL, server1)
       | Some a \<Rightarrow> Ok (DICEY_OK, server1\<lparr>sv_closing := sv_closing server1 @ [a]\<rparr>))"

text \<open>The close callback of a client: libuv calls it once for each handle being closed.\<close>

definition on_client_end :: "dicey_server \<Rightarrow> nat \<Rightarrow> dicey_server result" where
  "on_client_end server a =
     and_then (client_at server a) (\<lambda>client.
       Ok (record_event
             (server\<lparr>sv_closing := remove1 a (sv_closing server), sv_data := (sv_data server)(a := None)\<rparr>)
             (OnDisconnect (cd_id client))))"

definition dicey_server_reserve_id :: "(nat \<Rightarrow> bool) \<Rightarrow> dicey_server \<Rightarrow> (dicey_error + nat) \<times> dicey_server" where
  "dicey_server_reserve_id alloc server =
     (case dicey_client_list_new_bucket alloc (sv_clients server) of
        (None, clients) \<Rightarrow> (Inl DICEY_ENOMEM, server\<lparr>sv_clients := clients\<rparr>)
      | (Some n, clients) \<Rightarrow> (Inr n, server\<lparr>sv_clients := clients\<rparr>))"

definition fill_slot :: "dicey_client_list \<Rightarrow> nat \<Rightarrow> nat \<Rightarrow> dicey_client_list" where
  "fill_slot clients n a = map_option (\<lambda>cells. cells[n := Some a]) clients"

text \<open>\<open>pipe_ok\<close> is whether \<open>uv_pipe_init\<close> succeeds; it gets the id and the address of the new client.\<close>

definition server_new_peer ::
  "server_env \<Rightarrow> bool \<Rightarrow> dicey_server \<Rightarrow> ((dicey_error + nat \<times> nat) \<times> dicey_server) result"
where
  "server_new_peer env pipe_ok server =
     (case dicey_server_reserve_id (se_alloc env) server of
        (Inl err, server1) \<Rightarrow> Ok (Inl err, server1)
      | (Inr n, server1) \<Rightarrow>
          (case dicey_client_data_new (se_alloc env) n of
             None \<Rightarrow> and_then (dicey_server_release_id server1 n) (\<lambda>(_, server2). Ok (Inl DICEY_ENOMEM, server2))
           | Some client \<Rightarrow>
               (let a = sv_next server1;
                    server2 = (put_client server1 a client)\<lparr>sv_next := Suc a, sv_clients := fill_slot (sv_clients server1) n a\<rparr> in
                if \<not> pipe_ok then
                  and_then (dicey_server_release_id server2 n) (\<lambda>(_, server3).
                    Ok (Inl DICEY_EUV_UNKNOWN, server3\<lparr>sv_data := (sv_data server3)(a := None)\<rparr>))
                else Ok (Inr (n, a), server2))))"

section \<open>Element descriptors\<close>

text \<open>The text \<open>path#trait:elem\<close> and the length of the scratchpad, which grows when it is too short.\<close>

definition element_descriptor :: "cstring \<Rightarrow> cstring \<Rightarrow> cstring \<Rightarrow> cstring" where
  "element_descriptor path trait elem = path @ cs ''#'' @ trait @ cs '':'' @ elem"

definition dicey_element_descriptor_format_to ::
  "bool \<Rightarrow> (nat \<Rightarrow> bool) \<Rightarrow> nat \<Rightarrow> cstring \<Rightarrow> dicey_selector \<Rightarrow> (cstring option \<times> nat) result"
where
  "dicey_element_descriptor_format_to ndebug alloc dest path sel =
     c_assert ndebug (dicey_selector_is_valid sel)
       (and_then (sel_strings sel) (\<lambda>(trait, elem).
          let required = length (element_descriptor path trait elem) + 1 in
          c_assert ndebug (required > 6)
            (if required > dest then
               (if \<not> alloc required then Ok (None, dest) else Ok (Some (element_descriptor path trait elem), required))
             else Ok (Some (element_descriptor path trait elem), dest))))"

end
