(* ===== verification/Dicey_Server_Handlers.thy ===== *)
theory Dicey_Server_Handlers
  imports Dicey_Server
begin

text \<open>
  What the server does with the packets of its clients: the handlers of \<^verbatim>\<open>src/ipc/server/server.c\<close>, the dispatch of
  \<^verbatim>\<open>builtins/builtins.c\<close> and the event manager of \<^verbatim>\<open>builtins/server/server.c\<close>.
\<close>

section \<open>What may be sent and received\<close>

definition message_type_is :: "dicey_packet \<Rightarrow> dicey_op \<Rightarrow> bool result" where
  "message_type_is pkt op =
     (case dicey_packet_as_message pkt of Ok msg \<Rightarrow> Ok (msg_type msg = op) | Err e \<Rightarrow> Ok False | Undef \<Rightarrow> Undef)"

definition is_event_msg :: "dicey_packet \<Rightarrow> bool result" where
  "is_event_msg pkt = message_type_is pkt DICEY_OP_SIGNAL"

definition can_send_as_event :: "dicey_packet \<Rightarrow> bool result" where
  "can_send_as_event packet = (if \<not> dicey_packet_is_valid packet then Ok False else is_event_msg packet)"

definition is_response_msg :: "dicey_packet \<Rightarrow> bool result" where
  "is_response_msg pkt = message_type_is pkt DICEY_OP_RESPONSE"

definition can_send_as_response :: "dicey_packet \<Rightarrow> bool result" where
  "can_send_as_response packet =
     (if \<not> dicey_packet_is_valid packet then Ok False
      else case dicey_packet_get_seq packet of
        Undef \<Rightarrow> Undef
      | Err e \<Rightarrow> Ok False
      | Ok seq \<Rightarrow> if seq = 0 then Ok False else is_response_msg packet)"

text \<open>\<open>DICEY_ELEMENT_READONLY\<close> is bit 0 of the flags.  For a response the code returns \<open>false\<close>, which is \<open>DICEY_OK\<close>.\<close>

definition is_message_acceptable_for :: "bool \<Rightarrow> dicey_element \<Rightarrow> dicey_message \<Rightarrow> dicey_error result" where
  "is_message_acceptable_for ndebug elem msg =
     (let check = and_then (dicey_value_is_compatible_with ndebug (msg_value msg) (el_signature elem)) (\<lambda>ok.
            Ok (if ok then DICEY_OK else DICEY_ESIGNATURE_MISMATCH)) in
      case msg_type msg of
        DICEY_OP_GET \<Rightarrow> Ok (if el_type elem \<noteq> DICEY_ELEMENT_TYPE_PROPERTY then DICEY_EINVAL else DICEY_OK)
      | DICEY_OP_SET \<Rightarrow>
          if el_type elem \<noteq> DICEY_ELEMENT_TYPE_PROPERTY then Ok DICEY_EINVAL
          else if odd (el_flags elem) then Ok DICEY_EPROPERTY_READ_ONLY
          else check
      | DICEY_OP_EXEC \<Rightarrow> if el_type elem \<noteq> DICEY_ELEMENT_TYPE_OPERATION then Ok DICEY_EINVAL else check
      | DICEY_OP_SIGNAL \<Rightarrow> if el_type elem \<noteq> DICEY_ELEMENT_TYPE_SIGNAL then Ok DICEY_EINVAL else check
      | DICEY_OP_RESPONSE \<Rightarrow> Ok DICEY_OK
      | DICEY_OP_INVALID \<Rightarrow> c_assert ndebug False (Ok DICEY_EINVAL))"

definition is_server_op :: "dicey_op \<Rightarrow> bool" where
  "is_server_op op \<longleftrightarrow> op = DICEY_OP_RESPONSE \<or> op = DICEY_OP_SIGNAL"

definition make_error ::
  "bool \<Rightarrow> (nat \<Rightarrow> bool) \<Rightarrow> 32 word \<Rightarrow> cstring \<Rightarrow> dicey_selector \<Rightarrow> dicey_error \<Rightarrow> dicey_packet result"
where
  "make_error ndebug alloc seq path sel msg_err =
     c_assert ndebug (dicey_selector_is_valid sel \<and> msg_err \<noteq> DICEY_OK)
       (dicey_packet_message ndebug alloc seq DICEY_OP_RESPONSE path sel
          (ArgError (word_of_int (errnum msg_err)) (Some (cs (dicey_error_msg (errnum msg_err))))))"

section \<open>Sending\<close>

definition server_next_seq :: "dicey_server \<Rightarrow> 32 word \<times> dicey_server" where
  "server_next_seq server = (sv_seq_cnt server, server\<lparr>sv_seq_cnt := sv_seq_cnt server + 2\<rparr>)"

text \<open>A packet just made is sent, or its error is returned; a packet that is not sent is released.\<close>

definition send_made :: "server_env \<Rightarrow> dicey_server \<Rightarrow> nat option \<Rightarrow> dicey_packet result \<Rightarrow> server_result" where
  "send_made env server a made =
     (case made of
        Undef \<Rightarrow> Undef
      | Err e \<Rightarrow> Ok (e, server)
      | Ok packet \<Rightarrow> (case a of None \<Rightarrow> Undef | Some a \<Rightarrow> server_sendpkt env server a (OutSingle packet)))"

definition server_kick_client :: "server_env \<Rightarrow> dicey_server \<Rightarrow> nat option \<Rightarrow> dicey_bye_reason \<Rightarrow> server_result" where
  "server_kick_client env server a reason =
     (case server_next_seq server of
        (seq, server1) \<Rightarrow> send_made env server1 a (dicey_packet_bye (se_alloc env) seq reason))"

definition server_report_error :: "server_env \<Rightarrow> dicey_server \<Rightarrow> nat \<Rightarrow> dicey_packet \<Rightarrow> dicey_error \<Rightarrow> server_result" where
  "server_report_error env server a req report_err =
     send_made env server (Some a)
       (and_then (dicey_packet_get_seq req) (\<lambda>seq.
        and_then (dicey_packet_as_message req) (\<lambda>msg.
          make_error (se_ndebug env) (se_alloc env) seq (msg_path msg) (msg_selector msg) report_err)))"

definition DICEY_SET_RESPONSE_SIG :: cstring where
  "DICEY_SET_RESPONSE_SIG = cs ''$''"

text \<open>
  The response to a request that is pending: it is matched by its sequence number, taken out of the ring in any
  case, and sent if its value may be returned from the element.
\<close>

definition client_send_response ::
  "server_env \<Rightarrow> dicey_server \<Rightarrow> nat \<Rightarrow> dicey_packet \<Rightarrow> dicey_message \<Rightarrow> server_result"
where
  "client_send_response env server a packet msg =
     (if msg_type msg \<noteq> DICEY_OP_RESPONSE then Ok (DICEY_EINVAL, server)
      else case dicey_packet_get_seq packet of
        Undef \<Rightarrow> Undef
      | Err e \<Rightarrow> Ok (e, server)
      | Ok seq \<Rightarrow>
          and_then (client_at server a) (\<lambda>client.
          and_then (ended (dicey_pending_requests_complete (se_ndebug env) (se_rounds env) (cd_pending client) seq))
            (\<lambda>(res, pending).
              let server1 = put_client server a (client\<lparr>cd_pending := pending\<rparr>) in
              case res of
                Inl e \<Rightarrow> Ok (e, server1)
              | Inr req \<Rightarrow>
                  (case rq_rest req of
                     None \<Rightarrow> Undef
                   | Some r \<Rightarrow>
                       and_then (dicey_value_can_be_returned_from (se_ndebug env) (msg_value msg)
                           (if rq_op req = DICEY_OP_SET then DICEY_SET_RESPONSE_SIG else rs_signature r)) (\<lambda>ok.
                         and_then
                           (if \<not> ok then Ok (DICEY_ESIGNATURE_MISMATCH, server1)
                            else server_sendpkt env server1 a (OutSingle packet)) (\<lambda>(err, server2).
                         and_then (dicey_request_deinit req) (\<lambda>_. Ok (err, server2))))))))"

section \<open>The event manager\<close>

definition extract_path_sel :: "dicey_value \<Rightarrow> (cstring \<times> dicey_selector) result" where
  "extract_path_sel val =
     and_then (dicey_value_get_pair val) (\<lambda>(fst_val, snd_val).
     and_then (dicey_value_get_path fst_val) (\<lambda>path.
     and_then (dicey_value_get_selector snd_val) (\<lambda>sel. Ok (path, sel))))"

definition message_for :: "(nat \<Rightarrow> bool) \<Rightarrow> cstring \<Rightarrow> dicey_selector \<Rightarrow> dicey_arg \<Rightarrow> dicey_packet result" where
  "message_for alloc path sel val =
     and_then
       (then_ok (dicey_message_builder_init empty_builder_mem) (\<lambda>st.
        then_ok (dicey_message_builder_begin st DICEY_OP_RESPONSE) (\<lambda>st.
        then_ok (dicey_message_builder_set_path st path) (\<lambda>st.
        then_ok (dicey_message_builder_set_selector st sel) (\<lambda>st.
          dicey_message_builder_set_value alloc st 0 val)))))
       (\<lambda>(err, st).
         if err \<noteq> DICEY_OK then and_then (dicey_message_builder_discard st) (\<lambda>_. Err err)
         else
           and_then (dicey_message_builder_build alloc st) (\<lambda>(err, packet, st1).
             case (err, packet) of
               (DICEY_OK, Some p) \<Rightarrow> Ok p
             | _ \<Rightarrow> and_then (dicey_message_builder_discard st1) (\<lambda>_. Err err)))"

text \<open>
  Subscribing (opcode 0) and unsubscribing (opcode 1).  The result is the response or the error, with the length of
  the scratchpad and the client.
\<close>

definition handle_server_operation ::
  "bool \<Rightarrow> (nat \<Rightarrow> bool) \<Rightarrow> dicey_registry \<Rightarrow> nat \<Rightarrow> dicey_client_data \<Rightarrow> nat \<Rightarrow> dicey_value
     \<Rightarrow> ((dicey_error + dicey_packet) \<times> nat \<times> dicey_client_data) result"
where
  "handle_server_operation ndebug alloc reg scratchpad client opcode val =
     (case extract_path_sel val of
        Undef \<Rightarrow> Undef
      | Err e \<Rightarrow> Ok (Inl e, scratchpad, client)
      | Ok (path, sel) \<Rightarrow>
          and_then (sel_strings sel) (\<lambda>(trait, elem).
          and_then (dicey_registry_get_element_entry ndebug reg path trait elem) (\<lambda>found.
            case found of
              None \<Rightarrow> Ok (Inl DICEY_EELEMENT_NOT_FOUND, scratchpad, client)
            | Some entry \<Rightarrow>
                if el_type (oe_element entry) \<noteq> DICEY_ELEMENT_TYPE_SIGNAL then Ok (Inl DICEY_EINVAL, scratchpad, client)
                else
                  and_then (key_str (oe_main_path entry)) (\<lambda>main.
                  and_then (dicey_element_descriptor_format_to ndebug alloc scratchpad main sel) (\<lambda>(descr, scratchpad1).
                    case descr of
                      None \<Rightarrow> Ok (Inl DICEY_ENOMEM, scratchpad1, client)
                    | Some elemdescr \<Rightarrow>
                        let reply = (\<lambda>arg client1.
                              case message_for alloc path sel arg of
                                Undef \<Rightarrow> Undef
                              | Err e \<Rightarrow> Ok (Inl e, scratchpad1, client1)
                              | Ok packet \<Rightarrow> Ok (Inr packet, scratchpad1, client1)) in
                        if opcode = 0 then
                          and_then (dicey_client_data_subscribe alloc client elemdescr) (\<lambda>(err, client1).
                            if err \<noteq> DICEY_OK then Ok (Inl err, scratchpad1, client1)
                            else reply (if main \<noteq> path then ArgPath main else ArgUnit) client1)
                        else if opcode = 1 then
                          and_then (dicey_client_data_unsubscribe client elemdescr) (\<lambda>(removed, client1).
                            if \<not> removed then Ok (Inl DICEY_ENOENT, scratchpad1, client1) else reply ArgUnit client1)
                        else c_assert ndebug False (Ok (Inl DICEY_EINVAL, scratchpad1, client)))))))"

definition builtin_handler :: "bool \<Rightarrow> (nat \<Rightarrow> bool) \<Rightarrow> dicey_registry_builtin_op" where
  "builtin_handler ndebug alloc = (\<lambda>reg scratchpad client opcode source msg.
     and_then (handle_server_operation ndebug alloc reg scratchpad client opcode (msg_value msg))
       (\<lambda>(res, scratchpad1, client1).
         Ok (case res of
               Inl err \<Rightarrow> \<lparr>bo_result = Inl err, bo_response = [], bo_registry = reg, bo_scratchpad = scratchpad1,
                            bo_client = client1\<rparr>
             | Inr packet \<Rightarrow> \<lparr>bo_result = Inr CLIENT_DATA_STATE_RUNNING, bo_response = packet, bo_registry = reg,
                               bo_scratchpad = scratchpad1, bo_client = client1\<rparr>)))"

text \<open>The table of builtin sets of a build without plugins, and the dispatch on the tag of an element.\<close>

definition default_builtins :: "server_env \<Rightarrow> dicey_registry_builtin_op list" where
  "default_builtins env = [se_introspection env, builtin_handler (se_ndebug env) (se_alloc env)]"

definition TAGGED :: "nat \<Rightarrow> nat \<Rightarrow> nat" where
  "TAGGED tag opid = tag * 256 + opid mod 256"

definition dicey_registry_get_builtin_info_for ::
  "bool \<Rightarrow> dicey_registry_builtin_op list \<Rightarrow> dicey_element \<Rightarrow> (dicey_registry_builtin_op \<times> nat) option result"
where
  "dicey_registry_get_builtin_info_for ndebug builtins element =
     (let tag = el_tag element; ix = tag div 256 mod 256 in
      if tag = 0 then Ok None
      else if ix < length builtins then Ok (Some (builtins ! ix, tag mod 256))
      else Undef)"

end
