(* ===== verification/Dicey_Server_Packets.thy ===== *)
theory Dicey_Server_Packets
  imports Dicey_Server_Handlers
begin

text \<open>
  Receiving: the handlers of hello, bye and messages, and the read and write callbacks of
  \<^verbatim>\<open>src/ipc/server/server.c\<close>.  A handler gives the error that makes the server drop the client, or the state the client
  is in afterwards.
\<close>

type_synonym handler_result = "((dicey_error + dicey_client_data_state) \<times> dicey_server) result"

definition SIZEOF_REQUEST :: nat where "SIZEOF_REQUEST = 256"

definition outcome_of :: "dicey_error \<Rightarrow> dicey_client_data_state \<Rightarrow> dicey_error + dicey_client_data_state" where
  "outcome_of err state = (if err \<noteq> DICEY_OK then Inl err else Inr state)"

section \<open>Submitting requests to the loop\<close>

text \<open>A loop thread that waits for room in its own queue waits for ever.\<close>

definition dicey_server_submit_request ::
  "bool \<Rightarrow> dicey_server \<Rightarrow> dicey_server_loop_request \<Rightarrow> dicey_server result"
where
  "dicey_server_submit_request ndebug server req =
     and_then (dicey_queue_push ndebug (sv_queue server) req DICEY_LOCKING_POLICY_BLOCKING) (\<lambda>(res, q).
       case res of
         Waits \<Rightarrow> Undef
       | Returned success \<Rightarrow> c_assert ndebug success (Ok (server\<lparr>sv_queue := q\<rparr>)))"

fun submit_all :: "bool \<Rightarrow> dicey_server \<Rightarrow> dicey_server_loop_request list \<Rightarrow> dicey_server result" where
  "submit_all ndebug server [] = Ok server"
| "submit_all ndebug server (req # reqs) =
     and_then (dicey_server_submit_request ndebug server req) (\<lambda>server1. submit_all ndebug server1 reqs)"

text \<open>The way a request of user code gets its response to the loop, without waiting for it.\<close>

definition dicey_server_send_response ::
  "bool \<Rightarrow> (nat \<Rightarrow> bool) \<Rightarrow> nat \<Rightarrow> dicey_packet \<Rightarrow> dicey_server \<Rightarrow> server_result"
where
  "dicey_server_send_response ndebug alloc n packet server =
     and_then (can_send_as_response packet) (\<lambda>ok.
       if \<not> ok then Ok (DICEY_EINVAL, server)
       else if n > PTRDIFF_MAX then Ok (DICEY_EOVERFLOW, server)
       else if \<not> alloc 48 then Ok (DICEY_ENOMEM, server)
       else
         and_then (dicey_server_submit_request ndebug server
             \<lparr>lr_cb = LoopSendResponse packet, lr_target = Some n, lr_sem = None\<rparr>) (\<lambda>server1.
           Ok (DICEY_OK, server1)))"

definition dicey_server_raise :: "bool \<Rightarrow> (nat \<Rightarrow> bool) \<Rightarrow> dicey_packet \<Rightarrow> dicey_server \<Rightarrow> server_result" where
  "dicey_server_raise ndebug alloc packet server =
     c_assert ndebug (dicey_packet_is_valid packet)
       (and_then (can_send_as_event packet) (\<lambda>ok.
          if \<not> ok then Ok (DICEY_EINVAL, server)
          else if \<not> alloc 48 then Ok (DICEY_ENOMEM, server)
          else
            and_then (dicey_server_submit_request ndebug server
                \<lparr>lr_cb = LoopRaiseSignal packet, lr_target = None, lr_sem = None\<rparr>) (\<lambda>server1.
              Ok (DICEY_OK, server1))))"

section \<open>Messages\<close>

text \<open>The sequence number is skipped and the error sent back; the client stays.\<close>

definition skip_and_report ::
  "server_env \<Rightarrow> dicey_server \<Rightarrow> nat \<Rightarrow> dicey_packet \<Rightarrow> 32 word \<Rightarrow> dicey_error \<Rightarrow> handler_result"
where
  "skip_and_report env server a packet seq report_err =
     and_then (client_at server a) (\<lambda>client.
       case dicey_pending_request_skip (se_alloc env) SIZEOF_REQUEST (cd_pending client) seq of
         (skip_err, pending) \<Rightarrow>
           let server1 = put_client server a (client\<lparr>cd_pending := pending\<rparr>) in
           if skip_err \<noteq> DICEY_OK then Ok (Inl skip_err, server1)
           else
             and_then (server_report_error env server1 a packet report_err) (\<lambda>(repl_err, server2).
               Ok (outcome_of repl_err CLIENT_DATA_STATE_RUNNING, server2)))"

definition run_builtin ::
  "server_env \<Rightarrow> dicey_server \<Rightarrow> nat \<Rightarrow> dicey_packet \<Rightarrow> 32 word \<Rightarrow> dicey_message \<Rightarrow> dicey_registry_builtin_op \<Rightarrow> nat
     \<Rightarrow> handler_result"
where
  "run_builtin env server a packet seq message handler opcode =
     and_then (client_at server a) (\<lambda>client.
       case dicey_pending_request_skip (se_alloc env) SIZEOF_REQUEST (cd_pending client) seq of
         (skip_err, pending) \<Rightarrow>
           let client1 = client\<lparr>cd_pending := pending\<rparr>; server1 = put_client server a client1 in
           if skip_err \<noteq> DICEY_OK then Ok (Inl skip_err, server1)
           else
             and_then (handler (sv_registry server1) (sv_scratchpad server1) client1 opcode packet message) (\<lambda>out.
               let server2 = (put_client server1 a (bo_client out))\<lparr>sv_registry := bo_registry out,
                                 sv_scratchpad := bo_scratchpad out\<rparr> in
               case bo_result out of
                 Inl err \<Rightarrow>
                   and_then (server_report_error env server2 a packet err) (\<lambda>(repl_err, server3).
                     Ok (outcome_of repl_err CLIENT_DATA_STATE_RUNNING, server3))
               | Inr new_state \<Rightarrow>
                   if \<not> dicey_packet_is_valid (bo_response out) then Ok (Inr new_state, server2)
                   else
                     (case dicey_packet_set_seq (bo_response out) seq of
                        Undef \<Rightarrow> Undef
                      | Err e \<Rightarrow> Ok (Inl e, server2)
                      | Ok rpkt \<Rightarrow>
                          and_then (server_sendpkt env server2 a (OutSingle rpkt)) (\<lambda>(send_err, server3).
                            Ok (outcome_of send_err new_state, server3)))))"

text \<open>
  A request for user code.  The callback works on the request in the ring; when it leaves it aborted, an error is
  sent and the request is taken out again.
\<close>

definition hand_over ::
  "server_env \<Rightarrow> dicey_server \<Rightarrow> nat \<Rightarrow> dicey_packet \<Rightarrow> 32 word \<Rightarrow> handler_result"
where
  "hand_over env server a packet seq =
     (case se_on_request env of
        None \<Rightarrow> Ok (Inr CLIENT_DATA_STATE_RUNNING, server)
      | Some on_request \<Rightarrow>
          and_then (client_at server a) (\<lambda>client.
            case dicey_server_request_for (se_ndebug env) (sv_registry server) (cd_id client) packet of
              Undef \<Rightarrow> Undef
            | Err e \<Rightarrow> Ok (Inl e, server)
            | Ok request \<Rightarrow>
                and_then (dicey_pending_requests_add (se_ndebug env) (se_alloc env) SIZEOF_REQUEST (cd_pending client) request)
                  (\<lambda>(res, pending).
                    case (res, pending) of
                      (Inr i, Some reqs) \<Rightarrow>
                        (case on_request request of
                           (rest, submitted) \<Rightarrow>
                             let reqs1 = reqs\<lparr>pr_reqs := (pr_reqs reqs)[i := request\<lparr>rq_rest := Some rest\<rparr>]\<rparr>;
                                 server1 = record_event (put_client server a (client\<lparr>cd_pending := Some reqs1\<rparr>))
                                             (OnRequest (cd_id client) seq) in
                             and_then (submit_all (se_ndebug env) server1 submitted) (\<lambda>server2.
                               if rs_state rest \<noteq> DICEY_REQUEST_STATE_ABORTED then Ok (Inr CLIENT_DATA_STATE_RUNNING, server2)
                               else
                                 and_then (server_report_error env server2 a packet DICEY_EAGAIN) (\<lambda>(_, server3).
                                 and_then (ended (dicey_pending_requests_complete (se_ndebug env) (se_rounds env) (Some reqs1) seq))
                                   (\<lambda>(_, pending1).
                                 and_then (dicey_request_deinit request) (\<lambda>_.
                                   Ok (Inr CLIENT_DATA_STATE_RUNNING,
                                       put_client server3 a (client\<lparr>cd_pending := pending1\<rparr>)))))))
                    | (Inl e, _) \<Rightarrow>
                        and_then (dicey_request_deinit request) (\<lambda>_.
                          Ok (Inl e, put_client server a (client\<lparr>cd_pending := pending\<rparr>)))
                    | _ \<Rightarrow> Undef)))"

definition client_got_message :: "server_env \<Rightarrow> dicey_server \<Rightarrow> nat \<Rightarrow> dicey_packet \<Rightarrow> handler_result" where
  "client_got_message env server a packet =
     (case dicey_packet_get_seq packet of
        Undef \<Rightarrow> Undef
      | Err e \<Rightarrow> Ok (Inl DICEY_EINVAL, server)
      | Ok seq \<Rightarrow>
          (case dicey_packet_as_message packet of
             Undef \<Rightarrow> Undef
           | Err e \<Rightarrow> Ok (Inl DICEY_EINVAL, server)
           | Ok message \<Rightarrow>
               if is_server_op (msg_type message) then Ok (Inl DICEY_EINVAL, server)
               else
                 and_then (client_at server a) (\<lambda>client.
                   if cd_state client \<noteq> CLIENT_DATA_STATE_RUNNING then Ok (Inl DICEY_EINVAL, server)
                   else
                     and_then (dicey_registry_get_object_entry (se_ndebug env) (sv_registry server) (msg_path message)) (\<lambda>obj.
                       if obj = None then skip_and_report env server a packet seq DICEY_EPATH_NOT_FOUND
                       else
                         and_then (sel_strings (msg_selector message)) (\<lambda>sel.
                         and_then (dicey_registry_get_element_entry_from_sel (se_ndebug env) (sv_registry server)
                             (msg_path message) sel) (\<lambda>found.
                           case found of
                             None \<Rightarrow> skip_and_report env server a packet seq DICEY_EELEMENT_NOT_FOUND
                           | Some entry \<Rightarrow>
                               and_then (is_message_acceptable_for (se_ndebug env) (oe_element entry) message) (\<lambda>op_err.
                                 if op_err \<noteq> DICEY_OK then skip_and_report env server a packet seq op_err
                                 else
                                   and_then (dicey_registry_get_builtin_info_for (se_ndebug env) (default_builtins env)
                                       (oe_element entry)) (\<lambda>info.
                                     case info of
                                       Some (handler, opcode) \<Rightarrow>
                                         run_builtin env server a packet seq message handler opcode
                                     | None \<Rightarrow> hand_over env server a packet seq))))))))"

section \<open>Packets\<close>

definition client_got_bye :: "dicey_server \<Rightarrow> nat \<Rightarrow> handler_result" where
  "client_got_bye server a =
     and_then (client_at server a) (\<lambda>client.
       if cd_state client = CLIENT_DATA_STATE_QUITTING then Ok (Inr CLIENT_DATA_STATE_QUITTING, server)
       else
         and_then (dicey_server_remove_client server (cd_id client)) (\<lambda>(_, server1).
           Ok (Inr CLIENT_DATA_STATE_DEAD, server1)))"

definition client_got_hello :: "server_env \<Rightarrow> dicey_server \<Rightarrow> nat \<Rightarrow> 32 word \<Rightarrow> dicey_version \<Rightarrow> handler_result" where
  "client_got_hello env server a seq version =
     and_then (client_at server a) (\<lambda>client.
       if cd_state client \<noteq> CLIENT_DATA_STATE_CONNECTED then Ok (Inl DICEY_EINVAL, server)
       else if seq \<noteq> 0 then
         Ok (Inl DICEY_EINVAL, record_event server (OnError DICEY_EINVAL (Some (cd_id client))))
       else if dicey_version_cmp version DICEY_PROTO_VERSION_CURRENT < 0 then Ok (Inl DICEY_ECLIENT_TOO_OLD, server)
       else
         and_then (send_made env server (Some a) (dicey_packet_hello (se_alloc env) seq DICEY_PROTO_VERSION_CURRENT))
           (\<lambda>(err, server1). Ok (outcome_of err CLIENT_DATA_STATE_RUNNING, server1)))"

definition dicey_server_client_raised_error :: "server_env \<Rightarrow> dicey_server \<Rightarrow> nat \<Rightarrow> dicey_error \<Rightarrow> server_result" where
  "dicey_server_client_raised_error env server a err =
     and_then (client_at server a) (\<lambda>client.
     and_then (dicey_client_data_set_state (se_ndebug env) client CLIENT_DATA_STATE_DEAD) (\<lambda>client1.
       server_kick_client env
         (record_event (put_client server a client1) (OnError err (Some (cd_id client)))) (Some a) DICEY_BYE_REASON_ERROR))"

definition client_got_packet :: "server_env \<Rightarrow> dicey_server \<Rightarrow> nat \<Rightarrow> dicey_packet \<Rightarrow> server_result" where
  "client_got_packet env server a packet =
     c_assert (se_ndebug env) (dicey_packet_is_valid packet)
       (and_then (dicey_packet_get_kind packet) (\<lambda>kind.
        and_then
          (case kind of
             DICEY_PACKET_KIND_HELLO \<Rightarrow>
               (case dicey_packet_get_seq packet of
                  Undef \<Rightarrow> Undef
                | Err e \<Rightarrow> Ok (Inl e, server)
                | Ok seq \<Rightarrow>
                    and_then (DICEY_ASSUME (dicey_packet_as_hello packet)) (\<lambda>version. client_got_hello env server a seq version))
           | DICEY_PACKET_KIND_BYE \<Rightarrow>
               and_then (DICEY_ASSUME (dicey_packet_as_bye packet)) (\<lambda>_. client_got_bye server a)
           | DICEY_PACKET_KIND_MESSAGE \<Rightarrow> client_got_message env server a packet
           | _ \<Rightarrow> Undef)
          (\<lambda>(res, server1).
            case res of
              Inl err \<Rightarrow> dicey_server_client_raised_error env server1 a err
            | Inr state \<Rightarrow>
                and_then (client_at server1 a) (\<lambda>client.
                and_then (dicey_client_data_set_state (se_ndebug env) client state) (\<lambda>client1.
                  Ok (DICEY_OK, put_client server1 a client1))))))"

end
