(* ===== verification/Dicey_Server_Loop.thy ===== *)
theory Dicey_Server_Loop
  imports Dicey_Server_Packets
begin

text \<open>
  The callbacks libuv runs for the server: reads, writes, connections, and the requests other threads submit to the
  loop, in \<^verbatim>\<open>src/ipc/server/server.c\<close>.
\<close>

section \<open>Reading\<close>

definition READ_MINBUF :: nat where "READ_MINBUF = 256"

definition alloc_buffer :: "server_env \<Rightarrow> dicey_server \<Rightarrow> nat \<Rightarrow> (nat \<times> dicey_server) result" where
  "alloc_buffer env server a =
     and_then (client_at server a) (\<lambda>client.
       case dicey_chunk_get_buf (se_rounds env) (se_alloc env) (cd_chunk client) READ_MINBUF of
         None \<Rightarrow> Undef
       | Some (len, chunk) \<Rightarrow>
           c_assert (se_ndebug env) (len \<ge> READ_MINBUF \<and> chunk \<noteq> None)
             (Ok (len, put_client server a (client\<lparr>cd_chunk := chunk\<rparr>))))"

text \<open>What libuv reports: bytes it put in the buffer, the end of the stream, or an error.\<close>

datatype read_report = ReadBytes "byte list" | ReadEof | ReadFailed dicey_error

definition report_failure :: "dicey_server \<Rightarrow> dicey_error \<Rightarrow> nat option \<Rightarrow> dicey_server" where
  "report_failure server err cln = (if err \<noteq> DICEY_OK then record_event server (OnError err cln) else server)"

definition client_stream_ended :: "dicey_server \<Rightarrow> nat \<Rightarrow> dicey_error \<Rightarrow> dicey_server result" where
  "client_stream_ended server a err =
     and_then (client_at server a) (\<lambda>client.
       let server1 = report_failure server err (Some (cd_id client)) in
       if cd_state client = CLIENT_DATA_STATE_QUITTING then Ok server1
       else
         and_then (dicey_server_remove_client server1 (cd_id client)) (\<lambda>(remove_err, server2).
           Ok (report_failure server2 remove_err (Some (cd_id client)))))"

text \<open>At most one packet is taken from the chunk, which is then emptied.\<close>

definition parse_chunk :: "server_env \<Rightarrow> dicey_server \<Rightarrow> nat \<Rightarrow> byte list \<Rightarrow> dicey_server result" where
  "parse_chunk env server a bytes =
     (case dicey_packet_load (se_rounds env) (se_alloc env) (Some bytes) of
        None \<Rightarrow> Undef
      | Some Undef \<Rightarrow> Undef
      | Some (Ok (packet, _)) \<Rightarrow>
          and_then (client_got_packet env server a packet) (\<lambda>(_, server1).
          and_then (client_at server1 a) (\<lambda>client.
            Ok (put_client server1 a (client\<lparr>cd_chunk := map_option dicey_chunk_clear (cd_chunk client)\<rparr>))))
      | Some (Err DICEY_EAGAIN) \<Rightarrow> Ok server
      | Some (Err err) \<Rightarrow>
          and_then (dicey_server_client_raised_error env server a err) (\<lambda>(_, server1). Ok server1))"

definition on_read :: "server_env \<Rightarrow> dicey_server \<Rightarrow> nat \<Rightarrow> read_report \<Rightarrow> dicey_server result" where
  "on_read env server a nread =
     (case nread of
        ReadEof \<Rightarrow> client_stream_ended server a DICEY_OK
      | ReadFailed err \<Rightarrow> client_stream_ended server a err
      | ReadBytes bytes \<Rightarrow>
          if sv_state server \<noteq> SERVER_STATE_RUNNING then Ok server
          else
            and_then (client_at server a) (\<lambda>client.
              case cd_chunk client of
                None \<Rightarrow> Undef
              | Some chunk \<Rightarrow>
                  (let chunk1 = chunk\<lparr>ck_bytes := ck_bytes chunk @ bytes\<rparr> in
                   parse_chunk env (put_client server a (client\<lparr>cd_chunk := Some chunk1\<rparr>)) a (ck_bytes chunk1))))"

section \<open>Shutting down\<close>

text \<open>
  A request that is still queued when the loop ends: whoever waits for it gets \<open>DICEY_ECANCELLED\<close>, and otherwise its
  callback only releases the payload.
\<close>

definition loop_request_delete :: "dicey_server \<Rightarrow> dicey_server_loop_request option \<Rightarrow> dicey_server" where
  "loop_request_delete server req =
     (case req of
        None \<Rightarrow> server
      | Some r \<Rightarrow>
          (case lr_sem r of
             Some sem \<Rightarrow> server\<lparr>sv_posted := sv_posted server @ [(sem, DICEY_ECANCELLED)]\<rparr>
           | None \<Rightarrow> server))"

text \<open>libuv allows a handle to be closed once.\<close>

definition server_finalize_shutdown :: "bool \<Rightarrow> dicey_server \<Rightarrow> server_result" where
  "server_finalize_shutdown ndebug server =
     c_assert ndebug (sv_state server = SERVER_STATE_QUITTING)
       (case dicey_queue_deinit (sv_queue server) of
          None \<Rightarrow> Undef
        | Some reqs \<Rightarrow>
            if sv_finalized server then Undef
            else Ok (DICEY_OK, (fold (\<lambda>req server. loop_request_delete server req) reqs server)\<lparr>sv_finalized := True\<rparr>))"

definition server_shutdown_at_end :: "dicey_server \<Rightarrow> dicey_server" where
  "server_shutdown_at_end server =
     (case sv_shutdown_hook server of
        None \<Rightarrow> server
      | Some sem \<Rightarrow> server\<lparr>sv_shutdown_hook := None, sv_posted := sv_posted server @ [(sem, DICEY_OK)]\<rparr>)"

fun kick_all :: "server_env \<Rightarrow> dicey_server \<Rightarrow> nat option list \<Rightarrow> dicey_error \<Rightarrow> server_result" where
  "kick_all env server [] err = Ok (err, server)"
| "kick_all env server (None # cells) err = kick_all env server cells err"
| "kick_all env server (Some a # cells) err =
     and_then (server_kick_client env server (Some a) DICEY_BYE_REASON_SHUTDOWN) (\<lambda>(kick_err, server1).
       kick_all env server1 cells (if kick_err \<noteq> DICEY_OK then kick_err else err))"

definition server_shutdown :: "server_env \<Rightarrow> dicey_server \<Rightarrow> server_result" where
  "server_shutdown env server =
     c_assert (se_ndebug env) (sv_state server = SERVER_STATE_RUNNING)
       (and_then (kick_all env (server\<lparr>sv_state := SERVER_STATE_QUITTING\<rparr>) (slots (sv_clients server)) DICEY_OK)
          (\<lambda>(err, server1).
            if dicey_client_list_is_empty (sv_clients server) then server_finalize_shutdown (se_ndebug env) server1
            else Ok (err, server1)))"

section \<open>Writing\<close>

definition on_write :: "server_env \<Rightarrow> dicey_server \<Rightarrow> write_request \<Rightarrow> dicey_error \<Rightarrow> dicey_server result" where
  "on_write env server req status =
     (let server0 = server\<lparr>sv_writes := remove1 req (sv_writes server)\<rparr> in
      case dicey_client_list_get_client (sv_clients server) (wr_client req) of
        None \<Rightarrow> Undef
      | Some a \<Rightarrow>
          and_then (client_at server a) (\<lambda>client.
          and_then (outbound_packet_borrow (se_ndebug env) server (wr_packet req)) (\<lambda>packet.
          and_then (dicey_packet_get_kind packet) (\<lambda>kind.
            let cln = Some (cd_id client); server1 = report_failure server0 status cln in
            and_then
              (if kind = DICEY_PACKET_KIND_BYE then
                 and_then (dicey_server_remove_client server1 (wr_client req)) (\<lambda>(err, server2).
                   Ok (report_failure server2 err cln))
               else Ok server1) (\<lambda>server2.
            and_then (outbound_packet_cleanup (se_ndebug env) server2 (wr_packet req)) (\<lambda>server3.
              if sv_state server3 = SERVER_STATE_QUITTING \<and> dicey_client_list_is_empty (sv_clients server3) then
                and_then (server_finalize_shutdown (se_ndebug env) server3) (\<lambda>(_, server4). Ok server4)
              else Ok server3))))))"

section \<open>Connections\<close>

text \<open>
  The results of \<open>uv_pipe_init\<close>, \<open>uv_accept\<close>, the user's callback (\<open>None\<close> if there is none) and \<open>uv_read_start\<close> are
  given.  A failed accept does not end the function.
\<close>

definition on_connect ::
  "server_env \<Rightarrow> dicey_server \<Rightarrow> dicey_error \<Rightarrow> bool \<Rightarrow> dicey_error \<Rightarrow> bool option \<Rightarrow> dicey_error \<Rightarrow> dicey_server result"
where
  "on_connect env server status pipe_ok accept_err user read_err =
     (if status \<noteq> DICEY_OK then Ok (record_event server (OnError status None))
      else
        and_then (server_new_peer env pipe_ok server) (\<lambda>(res, server1).
          case res of
            Inl err \<Rightarrow> Ok (record_event server1 (OnError err None))
          | Inr (n, a) \<Rightarrow>
              and_then
                (if accept_err \<noteq> DICEY_OK then
                   and_then (dicey_server_remove_client (record_event server1 (OnError accept_err None)) n) (\<lambda>(_, s). Ok s)
                 else Ok server1) (\<lambda>server2.
              let server3 = (if user = None then server2 else record_event server2 (OnConnect n)) in
              if user = Some False then
                and_then (dicey_server_remove_client (record_event server3 (OnError DICEY_ECONNREFUSED (Some n))) n)
                  (\<lambda>(_, server4). Ok server4)
              else if dicey_client_list_get_client (sv_clients server3) n = None then Undef
              else if read_err \<noteq> DICEY_OK then
                and_then (dicey_server_remove_client (record_event server3 (OnError read_err (Some n))) n)
                  (\<lambda>(_, server4). Ok server4)
              else Ok server3)))"

section \<open>Aliases\<close>

text \<open>
  The loop of \<open>registry_add_aliases\<close>, at most \<open>n\<close> calls to \<open>dicey_registry_alias_object\<close>: the aliases still to add, and
  those added so far.  The jump on \<open>DICEY_EEXIST\<close> goes back to the same alias.
\<close>

fun add_aliases_loop ::
  "nat \<Rightarrow> bool \<Rightarrow> (nat \<Rightarrow> bool) \<Rightarrow> dicey_registry \<Rightarrow> cstring \<Rightarrow> cstring list \<Rightarrow> dicey_hashset
     \<Rightarrow> (dicey_error \<times> dicey_registry \<times> dicey_hashset) option result"
where
  "add_aliases_loop n ndebug alloc reg path [] inserted = Ok (Some (DICEY_OK, reg, inserted))"
| "add_aliases_loop 0 ndebug alloc reg path (al # als) inserted = Ok None"
| "add_aliases_loop (Suc n) ndebug alloc reg path (al # als) inserted =
     and_then (dicey_registry_alias_object ndebug alloc reg path al) (\<lambda>(err, reg1).
       if err = DICEY_OK then
         and_then (dicey_hashset_add alloc inserted al) (\<lambda>(res, inserted1).
           case res of
             DICEY_HASH_SET_FAILED \<Rightarrow> Ok (Some (DICEY_ENOMEM, reg1, inserted1))
           | DICEY_HASH_SET_ADDED \<Rightarrow> add_aliases_loop n ndebug alloc reg1 path als inserted1
           | DICEY_HASH_SET_UPDATED \<Rightarrow>
               c_assert ndebug False (add_aliases_loop n ndebug alloc reg1 path als inserted1))
       else if err = DICEY_EEXIST then add_aliases_loop n ndebug alloc reg1 path (al # als) inserted
       else Ok (Some (err, reg1, inserted)))"

fun drop_aliases :: "bool \<Rightarrow> dicey_registry \<Rightarrow> cstring list \<Rightarrow> dicey_registry result" where
  "drop_aliases ndebug reg [] = Ok reg"
| "drop_aliases ndebug reg (al # als) =
     and_then (dicey_registry_unalias_object ndebug reg al) (\<lambda>(_, reg1). drop_aliases ndebug reg1 als)"

definition registry_add_aliases ::
  "nat \<Rightarrow> bool \<Rightarrow> (nat \<Rightarrow> bool) \<Rightarrow> dicey_registry \<Rightarrow> cstring \<Rightarrow> dicey_hashset \<Rightarrow> (dicey_error \<times> dicey_registry) option result"
where
  "registry_add_aliases n ndebug alloc reg path aliases =
     (if aliases = None \<or> dicey_hashset_size aliases = 0 then Ok (Some (DICEY_OK, reg))
      else
        and_then (add_aliases_loop n ndebug alloc reg path (visited aliases (dicey_hashset_iter_start aliases)) None) (\<lambda>r.
          case r of
            None \<Rightarrow> Ok None
          | Some (err, reg1, inserted) \<Rightarrow>
              if err = DICEY_OK \<or> err = DICEY_EEXIST then Ok (Some (DICEY_OK, reg1))
              else
                and_then (drop_aliases ndebug reg1 (visited inserted (dicey_hashset_iter_start inserted))) (\<lambda>reg2.
                  Ok (Some (err, reg2)))))"

end
