(* ===== verification/Dicey_Server_Inbound.thy ===== *)
theory Dicey_Server_Inbound
  imports Dicey_Server_Loop
begin

text \<open>
  The requests submitted to the loop, in \<^verbatim>\<open>src/ipc/server/server.c\<close>: changes of the registry, kicks, signals,
  responses and the shutdown; and the steps of a server as libuv schedules them.
\<close>

section \<open>Removing objects\<close>

text \<open>
  The callback of the pruning gets the request and the server.  It compares the main path of the object with the
  path the request was sent to.
\<close>

definition request_should_prune_if_matching ::
  "server_env \<Rightarrow> nat \<Rightarrow> cstring \<Rightarrow> server_request \<Rightarrow> dicey_server \<Rightarrow> (bool \<times> dicey_server) result"
where
  "request_should_prune_if_matching env a path req server =
     and_then (dicey_registry_get_main_path (se_ndebug env) (sv_registry server) path) (\<lambda>key.
     and_then (key_str key) (\<lambda>main.
       case (rq_rest req, rq_message req) of
         (Some r, Some msg) \<Rightarrow>
           if main \<noteq> rs_real_path r then Ok (False, server)
           else
             and_then
               (send_made env server (Some a)
                  (make_error (se_ndebug env) (se_alloc env) (rq_packet_seq req) (msg_path msg) (msg_selector msg)
                     DICEY_EPATH_DELETED)) (\<lambda>(_, server1).
               Ok (True, server1))
       | _ \<Rightarrow> Undef))"

fun prune_clients :: "server_env \<Rightarrow> cstring \<Rightarrow> dicey_server \<Rightarrow> nat option list \<Rightarrow> dicey_server result" where
  "prune_clients env path server [] = Ok server"
| "prune_clients env path server (None # cells) = prune_clients env path server cells"
| "prune_clients env path server (Some a # cells) =
     and_then (client_at server a) (\<lambda>client.
     and_then
       (ended (dicey_pending_requests_prune (se_ndebug env) (se_rounds env) (request_should_prune_if_matching env a path)
          (cd_pending client) server)) (\<lambda>(pending, server1).
       prune_clients env path (put_client server1 a (client\<lparr>cd_pending := pending\<rparr>)) cells))"

definition server_remove_object :: "server_env \<Rightarrow> dicey_server \<Rightarrow> cstring \<Rightarrow> server_result" where
  "server_remove_object env server path =
     and_then (prune_clients env path server (slots (sv_clients server))) (\<lambda>server1.
     and_then (dicey_registry_delete_object (se_ndebug env) (sv_registry server1) path) (\<lambda>(err, reg).
       Ok (err, server1\<lparr>sv_registry := reg\<rparr>)))"

section \<open>Signals\<close>

fun raise_loop :: "server_env \<Rightarrow> dicey_server \<Rightarrow> nat \<Rightarrow> cstring \<Rightarrow> nat option list \<Rightarrow> dicey_server result" where
  "raise_loop env server s elemdescr [] = Ok server"
| "raise_loop env server s elemdescr (None # cells) = raise_loop env server s elemdescr cells"
| "raise_loop env server s elemdescr (Some a # cells) =
     and_then (client_at server a) (\<lambda>client.
     and_then (dicey_client_data_is_subscribed client elemdescr) (\<lambda>subscribed.
       if \<not> subscribed then raise_loop env server s elemdescr cells
       else
         and_then (dicey_shared_packet_ref (se_ndebug env) server s) (\<lambda>server1.
         and_then (server_sendpkt env server1 a (OutShared s)) (\<lambda>(err, server2).
           if err \<noteq> DICEY_OK then
             and_then (dicey_shared_packet_unref (se_ndebug env) server2 s) (\<lambda>server3.
               raise_loop env server3 s elemdescr cells)
           else raise_loop env server2 s elemdescr cells))))"

text \<open>The sequence number is written into the payload, which the shared packet points to.\<close>

definition dicey_server_raise_internal :: "server_env \<Rightarrow> dicey_server \<Rightarrow> dicey_packet \<Rightarrow> server_result" where
  "dicey_server_raise_internal env server packet =
     (case dicey_packet_as_message packet of
        Undef \<Rightarrow> Undef
      | Err e \<Rightarrow> Ok (e, server)
      | Ok msg \<Rightarrow>
          and_then (dicey_shared_packet_from (se_ndebug env) (se_alloc env) server packet 1) (\<lambda>(shared, server1).
            case shared of
              None \<Rightarrow> Ok (DICEY_ENOMEM, server1)
            | Some s \<Rightarrow>
                and_then (dicey_element_descriptor_format_to (se_ndebug env) (se_alloc env) (sv_scratchpad server1)
                    (msg_path msg) (msg_selector msg)) (\<lambda>(descr, scratchpad).
                  let server2 = server1\<lparr>sv_scratchpad := scratchpad\<rparr> in
                  case descr of
                    None \<Rightarrow>
                      and_then (dicey_shared_packet_unref (se_ndebug env) server2 s) (\<lambda>server3. Ok (DICEY_ENOMEM, server3))
                  | Some elemdescr \<Rightarrow>
                      and_then (dicey_shared_packet_borrow (se_ndebug env) server2 s) (\<lambda>borrowed.
                        case server_next_seq server2 of
                          (seq, server3) \<Rightarrow>
                            (case dicey_packet_set_seq borrowed seq of
                               Undef \<Rightarrow> Undef
                             | Err e \<Rightarrow>
                                 and_then (dicey_shared_packet_unref (se_ndebug env) server3 s) (\<lambda>server4. Ok (e, server4))
                             | Ok numbered \<Rightarrow>
                                 and_then (shared_at server3 s) (\<lambda>pkt.
                                 and_then
                                   (raise_loop env
                                      (server3\<lparr>sv_shared := (sv_shared server3)(s \<mapsto> pkt\<lparr>sp_packet := numbered\<rparr>)\<rparr>) s
                                      elemdescr (slots (sv_clients server3))) (\<lambda>server4.
                                 and_then (dicey_shared_packet_unref (se_ndebug env) server4 s) (\<lambda>server5.
                                   Ok (DICEY_OK, server5)))))))))"

section \<open>Loop requests\<close>

definition loop_request_send_response :: "server_env \<Rightarrow> dicey_server \<Rightarrow> nat option \<Rightarrow> dicey_packet \<Rightarrow> server_result" where
  "loop_request_send_response env server client packet =
     c_assert (se_ndebug env) (dicey_packet_is_valid packet)
       (case client of
          None \<Rightarrow> Ok (DICEY_EPEER_NOT_FOUND, server)
        | Some a \<Rightarrow>
            (case dicey_packet_as_message packet of
               Undef \<Rightarrow> Undef
             | Err e \<Rightarrow> Ok (e, server)
             | Ok msg \<Rightarrow> client_send_response env server a packet msg))"

definition with_registry :: "dicey_server \<Rightarrow> (dicey_error \<times> dicey_registry) result \<Rightarrow> server_result" where
  "with_registry server r = and_then r (\<lambda>(err, reg). Ok (err, server\<lparr>sv_registry := reg\<rparr>))"

text \<open>The callback of a loop request, run with the client it is for, if any.\<close>

definition run_callback :: "server_env \<Rightarrow> dicey_server \<Rightarrow> nat option \<Rightarrow> loop_callback \<Rightarrow> server_result" where
  "run_callback env server client cb =
     (let ndebug = se_ndebug env; alloc = se_alloc env; reg = sv_registry server in
      case cb of
        LoopAddObject name traits \<Rightarrow>
          c_assert ndebug (traits \<noteq> None)
            (with_registry server (dicey_registry_add_object_with_trait_set ndebug alloc reg name traits))
      | LoopAddAliases path aliases \<Rightarrow>
          c_assert ndebug (aliases \<noteq> None)
            (with_registry server (ended (registry_add_aliases (se_rounds env) ndebug alloc reg path aliases)))
      | LoopAddTrait trait \<Rightarrow> with_registry server (dicey_registry_add_trait ndebug alloc reg trait)
      | LoopDelAlias al \<Rightarrow> with_registry server (dicey_registry_unalias_object ndebug reg al)
      | LoopDelObject path \<Rightarrow> server_remove_object env server path
      | LoopDropAliases path \<Rightarrow> with_registry server (dicey_registry_remove_all_object_aliases ndebug reg path)
      | LoopKickClient reason \<Rightarrow>
          c_assert ndebug (reason \<noteq> DICEY_BYE_REASON_INVALID) (server_kick_client env server client reason)
      | LoopRaiseSignal packet \<Rightarrow>
          c_assert ndebug (dicey_packet_is_valid packet) (dicey_server_raise_internal env server packet)
      | LoopSendResponse packet \<Rightarrow> loop_request_send_response env server client packet
      | LoopShutdown \<Rightarrow> Ok (DICEY_EINVAL, server))"

text \<open>
  Draining the queue, at most \<open>n\<close> requests of it.  The client of a request with a target stays in the variable for the
  requests after it.  A shutdown that goes through ends the function.
\<close>

definition answer :: "dicey_server \<Rightarrow> dicey_server_loop_request \<Rightarrow> nat option \<Rightarrow> dicey_error \<Rightarrow> dicey_server result" where
  "answer server req client err =
     (case lr_sem req of
        Some sem \<Rightarrow> Ok (server\<lparr>sv_posted := sv_posted server @ [(sem, err)]\<rparr>)
      | None \<Rightarrow>
          (case client of
             None \<Rightarrow> Ok server
           | Some a \<Rightarrow>
               if err = DICEY_OK then Ok server
               else and_then (client_at server a) (\<lambda>c. Ok (record_event server (OnError err (Some (cd_id c)))))))"

fun loop_request_inbound :: "nat \<Rightarrow> server_env \<Rightarrow> dicey_server \<Rightarrow> nat option \<Rightarrow> dicey_server result" where
  "loop_request_inbound 0 env server client = Undef"
| "loop_request_inbound (Suc n) env server client =
     (case dicey_queue_pop (sv_queue server) DICEY_LOCKING_POLICY_NONBLOCKING of
        (Waits, q) \<Rightarrow> Undef
      | (Returned None, q) \<Rightarrow> Ok (server\<lparr>sv_queue := q\<rparr>)
      | (Returned (Some None), q) \<Rightarrow> Undef
      | (Returned (Some (Some req)), q) \<Rightarrow>
          (let server1 = server\<lparr>sv_queue := q\<rparr> in
           if lr_cb req = LoopShutdown then
             and_then (server_shutdown env server1) (\<lambda>(err, server2).
               if err = DICEY_OK then Ok (server2\<lparr>sv_shutdown_hook := lr_sem req\<rparr>)
               else
                 and_then (answer server2 req client err) (\<lambda>server3. loop_request_inbound n env server3 client))
           else
             (let client1 = (case lr_target req of
                    None \<Rightarrow> client
                  | Some t \<Rightarrow> dicey_client_list_get_client (sv_clients server1) t) in
              and_then (run_callback env server1 client1 (lr_cb req)) (\<lambda>(err, server2).
              and_then (answer server2 req client1 err) (\<lambda>server3. loop_request_inbound n env server3 client1)))))"

section \<open>Steps of the server\<close>

text \<open>
  What libuv runs on the loop thread, one callback at a time.  A write that completes is one of those accepted, a
  handle whose close completes is one being closed, and a read follows \<open>alloc_buffer\<close> for a client in the list that
  libuv reads from; requests of other threads arrive in the queue at any time.
\<close>

datatype loop_step =
  StepConnect dicey_error bool dicey_error "bool option" dicey_error
| StepRead nat read_report
| StepWritten write_request dicey_error
| StepClosed nat
| StepSubmit dicey_server_loop_request
| StepInbound

fun server_step :: "server_env \<Rightarrow> dicey_server \<Rightarrow> loop_step \<Rightarrow> dicey_server result" where
  "server_step env server (StepConnect status pipe_ok accept_err user read_err) =
     on_connect env server status pipe_ok accept_err user read_err"
| "server_step env server (StepRead n report) =
     (case dicey_client_list_get_client (sv_clients server) n of
        None \<Rightarrow> Ok server
      | Some a \<Rightarrow>
          and_then (alloc_buffer env server a) (\<lambda>(len, server1).
            case report of
              ReadBytes bytes \<Rightarrow> if length bytes \<le> len then on_read env server1 a report else Ok server1
            | _ \<Rightarrow> on_read env server1 a report))"
| "server_step env server (StepWritten req status) =
     (if req \<in> set (sv_writes server) then on_write env server req status else Ok server)"
| "server_step env server (StepClosed a) =
     (if a \<in> set (sv_closing server) then on_client_end server a else Ok server)"
| "server_step env server (StepSubmit req) = dicey_server_submit_request (se_ndebug env) server req"
| "server_step env server StepInbound = loop_request_inbound (Suc REQUEST_QUEUE_CAP) env server None"

fun server_run :: "server_env \<Rightarrow> dicey_server \<Rightarrow> loop_step list \<Rightarrow> dicey_server result" where
  "server_run env server [] = Ok server"
| "server_run env server (s # steps) = and_then (server_step env server s) (\<lambda>server1. server_run env server1 steps)"

text \<open>The server \<open>dicey_server_new\<close> makes, once \<open>dicey_server_start\<close> runs it.\<close>

definition started_server :: "dicey_registry \<Rightarrow> dicey_server" where
  "started_server reg =
     \<lparr>sv_state = SERVER_STATE_RUNNING, sv_seq_cnt = 1, sv_shutdown_hook = None, sv_queue = snd (dicey_queue_init 0 0),
      sv_clients = None, sv_registry = reg, sv_scratchpad = 0, sv_data = Map.empty, sv_shared = Map.empty, sv_next = 0,
      sv_writes = [], sv_closing = [], sv_finalized = False, sv_posted = [], sv_events = []\<rparr>"

end
