(* ===== verification/Dicey_Server_Facts.thy ===== *)
theory Dicey_Server_Facts
  imports Dicey_Server_Inbound
begin

text \<open>
  An invariant of the server: the slots of the client list lead to live clients of that id, handles being closed are
  live and no longer listed, and the count of a shared packet is the number of writes in flight that carry it.  The
  invariant only looks at the core of the state, which most handlers leave alone.
\<close>

section \<open>What holds of every result of a call\<close>

definition ensures :: "'a result \<Rightarrow> ('a \<Rightarrow> bool) \<Rightarrow> bool" where
  "ensures r P \<longleftrightarrow> (\<forall>x. r = Ok x \<longrightarrow> P x)"

lemma ensures_leaf [simp]: "ensures (Ok x) P \<longleftrightarrow> P x" "ensures (Err e) P" "ensures Undef P"
  by (simp_all add: ensures_def)

lemma ensures_and_then [simp]: "ensures (and_then r f) P \<longleftrightarrow> ensures r (\<lambda>x. ensures (f x) P)"
  by (cases r) (simp_all add: ensures_def)

lemma ensures_assert [simp]: "ensures (c_assert ndebug b r) P \<longleftrightarrow> (ndebug \<or> b \<longrightarrow> ensures r P)"
  by (auto simp: c_assert_def)

lemma ensures_cases [simp]:
  "ensures (if b then r1 else r2) P \<longleftrightarrow> (if b then ensures r1 P else ensures r2 P)"
  "ensures (case opt of None \<Rightarrow> r1 | Some x \<Rightarrow> f x) P \<longleftrightarrow> (case opt of None \<Rightarrow> ensures r1 P | Some x \<Rightarrow> ensures (f x) P)"
  "ensures (case out of Ok x \<Rightarrow> f x | Err e \<Rightarrow> g e | Undef \<Rightarrow> r1) P \<longleftrightarrow>
     (case out of Ok x \<Rightarrow> ensures (f x) P | Err e \<Rightarrow> ensures (g e) P | Undef \<Rightarrow> ensures r1 P)"
  "ensures (case sm of Inl x \<Rightarrow> h x | Inr y \<Rightarrow> k y) P \<longleftrightarrow> (case sm of Inl x \<Rightarrow> ensures (h x) P | Inr y \<Rightarrow> ensures (k y) P)"
  "ensures (case pr of (x, y) \<Rightarrow> l x y) P \<longleftrightarrow> (case pr of (x, y) \<Rightarrow> ensures (l x y) P)"
  "ensures (case att of Returned z \<Rightarrow> m z | Waits \<Rightarrow> r1) P \<longleftrightarrow> (case att of Returned z \<Rightarrow> ensures (m z) P | Waits \<Rightarrow> ensures r1 P)"
  by (simp_all split: option.split outcome.split sum.split prod.split attempt.split)

lemmas ensures_rules = ensures_leaf ensures_and_then ensures_assert ensures_cases

lemma ensuresI: "(\<And>x. r = Ok x \<Longrightarrow> P x) \<Longrightarrow> ensures r P"
  by (simp add: ensures_def)

lemma ensures_opaque: "(\<And>x. P x) \<Longrightarrow> ensures r P"
  by (simp add: ensures_def)

lemma ensuresD: "ensures r P \<Longrightarrow> r = Ok x \<Longrightarrow> P x"
  by (simp add: ensures_def)

lemma ensures_weaken: "ensures r Q \<Longrightarrow> (\<And>x. Q x \<Longrightarrow> P x) \<Longrightarrow> ensures r P"
  by (simp add: ensures_def)

section \<open>The core of the state\<close>

definition shared_refs :: "write_request list \<Rightarrow> nat \<Rightarrow> nat" where
  "shared_refs ws s = length (filter (\<lambda>w. wr_packet w = OutShared s) ws)"

definition client_ids :: "dicey_server \<Rightarrow> nat \<Rightarrow> nat option" where
  "client_ids server a = map_option cd_id (sv_data server a)"

definition server_core ::
  "dicey_server \<Rightarrow> dicey_client_list \<times> (nat \<Rightarrow> nat option) \<times> nat list \<times> (nat \<Rightarrow> dicey_shared_packet option) \<times> nat
     \<times> (nat \<Rightarrow> nat)"
where
  "server_core server =
     (sv_clients server, client_ids server, sv_closing server, sv_shared server, sv_next server,
      shared_refs (sv_writes server))"

named_theorems core_simps \<open>operations that leave the core of the server alone\<close>

lemma core_of_fields [core_simps]:
  "server_core (server\<lparr>sv_seq_cnt := w\<rparr>) = server_core server"
  "server_core (server\<lparr>sv_state := st\<rparr>) = server_core server"
  "server_core (server\<lparr>sv_shutdown_hook := h\<rparr>) = server_core server"
  "server_core (server\<lparr>sv_queue := q\<rparr>) = server_core server"
  "server_core (server\<lparr>sv_registry := reg\<rparr>) = server_core server"
  "server_core (server\<lparr>sv_scratchpad := n\<rparr>) = server_core server"
  "server_core (server\<lparr>sv_posted := ps\<rparr>) = server_core server"
  "server_core (server\<lparr>sv_events := es\<rparr>) = server_core server"
  "server_core (server\<lparr>sv_finalized := f\<rparr>) = server_core server"
  "server_core (record_event server e) = server_core server"
  by (simp_all add: server_core_def client_ids_def [abs_def] record_event_def)

lemma client_at_iff [simp]: "client_at server a = Ok client \<longleftrightarrow> sv_data server a = Some client"
  by (simp add: client_at_def split: option.splits)

lemma core_put_client [core_simps]:
  assumes "sv_data server a = Some client" "cd_id client1 = cd_id client"
  shows "server_core (put_client server a client1) = server_core server"
  using assms by (auto simp: server_core_def client_ids_def [abs_def] put_client_def fun_eq_iff)

lemma core_report_failure [core_simps]: "server_core (report_failure server err cln) = server_core server"
  by (simp add: report_failure_def core_simps)

lemma data_of_fields [simp]:
  "sv_data (record_event server e) = sv_data server"
  "sv_data (put_client server a client) = (sv_data server)(a \<mapsto> client)"
  "sv_data (report_failure server err cln) = sv_data server"
  by (simp_all add: record_event_def put_client_def report_failure_def)

section \<open>Handlers that leave the core alone\<close>

text \<open>A call that keeps the core, and the clients' data as well.\<close>

definition same_core :: "dicey_server \<Rightarrow> dicey_server \<Rightarrow> bool" where
  "same_core server server1 \<longleftrightarrow> server_core server1 = server_core server"

definition same_clients :: "dicey_server \<Rightarrow> dicey_server \<Rightarrow> bool" where
  "same_clients server server1 \<longleftrightarrow> server_core server1 = server_core server \<and> sv_data server1 = sv_data server"

lemma client_at_ensures: "ensures (client_at server a) P \<longleftrightarrow> (\<forall>client. sv_data server a = Some client \<longrightarrow> P client)"
  by (simp add: ensures_def)

lemma sendpkt_same: "ensures (server_sendpkt env server a (OutSingle packet)) (\<lambda>(err, server1). same_clients server server1)"
  by (auto simp: server_sendpkt_def outbound_packet_is_valid_def outbound_packet_borrow_def Let_def same_clients_def
      client_at_ensures server_core_def client_ids_def [abs_def] shared_refs_def [abs_def])

lemma send_made_same: "ensures (send_made env server a made) (\<lambda>(err, server1). same_clients server server1)"
  using sendpkt_same
  by (auto simp: send_made_def same_clients_def split: outcome.split option.split)

lemma kick_client_same: "ensures (server_kick_client env server a reason) (\<lambda>(err, server1). same_clients server server1)"
  using send_made_same [of env "snd (server_next_seq server)"]
  by (auto simp: server_kick_client_def server_next_seq_def same_clients_def core_simps)

lemma report_error_same:
  "ensures (server_report_error env server a packet report) (\<lambda>(err, server1). same_clients server server1)"
  unfolding server_report_error_def by (rule send_made_same)

lemma submit_request_same: "ensures (dicey_server_submit_request ndebug server req) (same_clients server)"
  unfolding dicey_server_submit_request_def ensures_rules
  by (auto simp: same_clients_def core_simps intro!: ensures_opaque split: attempt.split)

lemma submit_all_same: "ensures (submit_all ndebug server reqs) (same_clients server)"
proof (induction reqs arbitrary: server)
  case (Cons req reqs)
  show ?case
    using submit_request_same [of ndebug server req] Cons
    by (auto simp: same_clients_def ensures_def outcome_simps)
qed (simp add: same_clients_def)

lemma skip_and_report_core:
  "ensures (skip_and_report env server a packet seq report) (\<lambda>(res, server1). same_core server server1)"
  by (auto simp: skip_and_report_def client_at_ensures Let_def same_core_def same_clients_def core_simps
      intro!: ensures_weaken [OF report_error_same] split: prod.split)

text \<open>A builtin keeps the id of the client; the event manager does.\<close>

definition keeps_client_id :: "dicey_registry_builtin_op \<Rightarrow> bool" where
  "keeps_client_id handler \<longleftrightarrow>
     (\<forall>reg n client opcode source msg out. handler reg n client opcode source msg = Ok out \<longrightarrow>
        cd_id (bo_client out) = cd_id client)"

lemma server_operation_keeps_id:
  "ensures (handle_server_operation ndebug alloc reg scratchpad client opcode val)
     (\<lambda>(res, scratchpad1, client1). cd_id client1 = cd_id client)"
  unfolding handle_server_operation_def dicey_client_data_subscribe_def dicey_client_data_unsubscribe_def Let_def
    ensures_rules
  by (auto intro!: ensures_opaque split: outcome.split option.split)

lemma event_manager_keeps_id: "keeps_client_id (builtin_handler ndebug alloc)"
  unfolding keeps_client_id_def builtin_handler_def
  using server_operation_keeps_id
  by (auto simp: outcome_simps sum.case_eq_if ensures_def)

lemma same_core_trans:
  "same_core server server1 \<Longrightarrow> same_core server1 server2 \<Longrightarrow> same_core server server2"
  "same_core server server1 \<Longrightarrow> same_clients server1 server2 \<Longrightarrow> same_core server server2"
  by (simp_all add: same_core_def same_clients_def)

lemma run_builtin_core:
  assumes "keeps_client_id handler"
  shows "ensures (run_builtin env server a packet seq message handler opcode) (\<lambda>(res, server1). same_core server server1)"
proof -
  have handled: "ensures (handler reg n client1 opcode packet message) (\<lambda>out. cd_id (bo_client out) = cd_id client1)" for reg n client1
    using assms by (auto simp: keeps_client_id_def ensures_def)
  show ?thesis
    unfolding run_builtin_def Let_def ensures_rules client_at_ensures
    by (auto simp: same_core_def same_clients_def core_simps
        intro!: ensures_weaken [OF handled] ensures_weaken [OF report_error_same] ensures_weaken [OF sendpkt_same]
        split: prod.split sum.split outcome.split)
qed

lemmas opaque_calls =
  ensures_opaque [where r = "dicey_pending_requests_add nd al sz p req" for nd al sz p req]
  ensures_opaque [where r = "ended r" for r]
  ensures_opaque [where r = "dicey_request_deinit req" for req]
  ensures_opaque [where r = "dicey_registry_get_object_entry nd reg path" for nd reg path]
  ensures_opaque [where r = "sel_strings sel" for sel]
  ensures_opaque [where r = "dicey_registry_get_element_entry_from_sel nd reg path sel" for nd reg path sel]
  ensures_opaque [where r = "is_message_acceptable_for nd elem msg" for nd elem msg]
  ensures_opaque [where r = "DICEY_ASSUME r" for r]
  ensures_opaque [where r = "dicey_packet_get_kind p" for p]
  ensures_opaque [where r = "dicey_value_can_be_returned_from nd v sig" for nd v sig]

lemma hand_over_core: "ensures (hand_over env server a packet seq) (\<lambda>(res, server1). same_core server server1)"
  unfolding hand_over_def Let_def ensures_rules client_at_ensures
  by (auto simp: same_core_def same_clients_def core_simps
      intro!: opaque_calls ensures_weaken [OF submit_all_same] ensures_weaken [OF report_error_same]
      split: prod.split sum.split outcome.split option.split)

definition env_ok :: "server_env \<Rightarrow> bool" where
  "env_ok env \<longleftrightarrow> keeps_client_id (se_introspection env) \<and> (\<forall>n. se_alloc env n \<longrightarrow> n < 2 ^ 62)"

lemma builtin_found_keeps_id:
  assumes "env_ok env"
  shows "ensures (dicey_registry_get_builtin_info_for ndebug (default_builtins env) element)
    (\<lambda>info. case info of None \<Rightarrow> True | Some (handler, opcode) \<Rightarrow> keeps_client_id handler)"
  using assms event_manager_keeps_id
  by (auto simp: dicey_registry_get_builtin_info_for_def Let_def default_builtins_def env_ok_def less_Suc_eq nth_Cons')

lemma got_message_core:
  assumes "env_ok env"
  shows "ensures (client_got_message env server a packet) (\<lambda>(res, server1). same_core server server1)"
  unfolding client_got_message_def ensures_rules client_at_ensures
  by (auto simp: same_core_def [of server server]
      intro!: opaque_calls skip_and_report_core hand_over_core run_builtin_core ensures_weaken [OF builtin_found_keeps_id [OF assms]]
      split: prod.split outcome.split option.split)

lemma got_hello_core: "ensures (client_got_hello env server a seq version) (\<lambda>(res, server1). same_core server server1)"
  unfolding client_got_hello_def ensures_rules client_at_ensures
  by (auto simp: same_core_def same_clients_def core_simps intro!: ensures_weaken [OF send_made_same])

lemma raised_error_core: "ensures (dicey_server_client_raised_error env server a err) (\<lambda>(res, server1). same_core server server1)"
  unfolding dicey_server_client_raised_error_def dicey_client_data_set_state_def ensures_rules client_at_ensures
  by (auto simp: same_core_def same_clients_def core_simps intro!: ensures_weaken [OF kick_client_same])

end
