(* ===== verification/Dicey_Server_Invariant.thy ===== *)
theory Dicey_Server_Invariant
  imports Dicey_Server_Facts
begin

text \<open>
  Every step of the server keeps the invariant.  While a signal is being raised the function holds the shared packet
  too; \<open>held\<close> is that packet.
\<close>

section \<open>The invariant\<close>

definition clients_inv :: "dicey_client_list \<Rightarrow> (nat \<Rightarrow> nat option) \<Rightarrow> nat list \<Rightarrow> nat \<Rightarrow> bool" where
  "clients_inv clients ids closing next \<longleftrightarrow>
     client_list_ok clients \<and>
     (\<forall>n a. dicey_client_list_get_client clients n = Some a \<longrightarrow> ids a = Some n) \<and>
     distinct closing \<and>
     (\<forall>a \<in> set closing. ids a \<noteq> None \<and> (\<forall>n. dicey_client_list_get_client clients n \<noteq> Some a)) \<and>
     (\<forall>a. ids a \<noteq> None \<longrightarrow> a < next)"

definition share_ok :: "bool \<Rightarrow> nat \<Rightarrow> dicey_shared_packet option \<Rightarrow> bool" where
  "share_ok held refs shared =
     (case shared of
        None \<Rightarrow> refs = 0 \<and> \<not> held
      | Some pkt \<Rightarrow> sp_refc pkt = int refs + (if held then 1 else 0) \<and> 0 < sp_refc pkt \<and>
                    dicey_packet_is_valid (sp_packet pkt))"

definition shared_inv :: "nat option \<Rightarrow> (nat \<Rightarrow> dicey_shared_packet option) \<Rightarrow> nat \<Rightarrow> (nat \<Rightarrow> nat) \<Rightarrow> bool" where
  "shared_inv held shared next refs \<longleftrightarrow>
     (\<forall>x. share_ok (held = Some x) (refs x) (shared x)) \<and> (\<forall>x. shared x \<noteq> None \<longrightarrow> x < next)"

definition core_inv :: "nat option \<Rightarrow> dicey_server \<Rightarrow> bool" where
  "core_inv held server \<longleftrightarrow>
     clients_inv (sv_clients server) (client_ids server) (sv_closing server) (sv_next server) \<and>
     shared_inv held (sv_shared server) (sv_next server) (shared_refs (sv_writes server))"

abbreviation server_inv :: "dicey_server \<Rightarrow> bool" where
  "server_inv \<equiv> core_inv None"

definition inv_step :: "nat option \<Rightarrow> dicey_server \<Rightarrow> dicey_server \<Rightarrow> bool" where
  "inv_step held server server1 \<longleftrightarrow> (core_inv held server \<longrightarrow> core_inv held server1)"

lemma same_core_inv: "same_core server server1 \<Longrightarrow> core_inv held server1 = core_inv held server"
  by (auto simp: same_core_def server_core_def core_inv_def)

lemma same_core_step:
  "same_core server server1 \<Longrightarrow> inv_step held server server1"
  "same_clients server server1 \<Longrightarrow> inv_step held server server1"
  using same_core_inv [of server server1 held] by (simp_all add: inv_step_def same_core_def same_clients_def)

lemma inv_step_refl [simp]: "inv_step held server server"
  by (simp add: inv_step_def)

lemma inv_step_trans: "inv_step held server server1 \<Longrightarrow> inv_step held server1 server2 \<Longrightarrow> inv_step held server server2"
  by (simp add: inv_step_def)

text \<open>Registry, queue, log and the like may change at the end of a step.\<close>

lemma inv_step_core:
  "inv_step held server server1 \<Longrightarrow> server_core server2 = server_core server1 \<Longrightarrow> inv_step held server server2"
  using same_core_inv [of server1 server2 held] by (simp add: inv_step_def same_core_def)

lemma core_inv_log [simp]:
  "core_inv held (record_event server e) = core_inv held server"
  "core_inv held (report_failure server err cln) = core_inv held server"
  "core_inv held (server\<lparr>sv_registry := reg\<rparr>) = core_inv held server"
  "core_inv held (server\<lparr>sv_queue := q\<rparr>) = core_inv held server"
  "core_inv held (server\<lparr>sv_state := st\<rparr>) = core_inv held server"
  "core_inv held (server\<lparr>sv_posted := ps\<rparr>) = core_inv held server"
  "core_inv held (server\<lparr>sv_finalized := f\<rparr>) = core_inv held server"
  "core_inv held (server\<lparr>sv_shutdown_hook := h\<rparr>) = core_inv held server"
  "core_inv held (server\<lparr>sv_scratchpad := n\<rparr>) = core_inv held server"
  "core_inv held (server\<lparr>sv_seq_cnt := w\<rparr>) = core_inv held server"
  by (rule same_core_inv, simp add: same_core_def core_simps)+

section \<open>The list of clients\<close>

lemma drop_client_ok:
  "dicey_client_list_drop_client clients n = Ok (a, clients1) \<Longrightarrow> client_list_ok clients \<Longrightarrow> client_list_ok clients1"
  by (auto simp: dicey_client_list_drop_client_def client_list_ok_def split: option.splits if_splits)

lemma clients_inv_drop:
  assumes "clients_inv clients ids closing next" "dicey_client_list_drop_client clients n = Ok (bucket, clients1)"
  shows "clients_inv clients1 ids (closing @ (case bucket of None \<Rightarrow> [] | Some a \<Rightarrow> [a])) next"
proof -
  have get: "bucket = dicey_client_list_get_client clients n"
    "\<And>m. dicey_client_list_get_client clients1 m = (if m = n then None else dicey_client_list_get_client clients m)"
    using drop_client_exact [OF assms(2)] by simp_all
  have "client_list_ok clients1"
    using assms drop_client_ok by (auto simp: clients_inv_def)
  moreover have "a \<notin> set closing" "\<forall>m. dicey_client_list_get_client clients m = Some a \<longrightarrow> m = n" "ids a = Some n"
    if "bucket = Some a" for a
  proof -
    have ids: "\<And>m. dicey_client_list_get_client clients m = Some a \<Longrightarrow> ids a = Some m"
      and closing: "a \<in> set closing \<Longrightarrow> dicey_client_list_get_client clients n \<noteq> Some a"
      using assms(1) unfolding clients_inv_def by blast+
    have slot: "dicey_client_list_get_client clients n = Some a" using get(1) that by simp
    show "a \<notin> set closing" using closing slot by blast
    show "ids a = Some n" by (rule ids [OF slot])
    then show "\<forall>m. dicey_client_list_get_client clients m = Some a \<longrightarrow> m = n" using ids by fastforce
  qed
  ultimately show ?thesis
    using assms(1) unfolding clients_inv_def get(2)
    by (cases bucket) auto
qed

lemma remove_client_step:
  "ensures (dicey_server_remove_client server n) (\<lambda>(err, server1). inv_step held server server1 \<and> sv_data server1 = sv_data server)"
proof -
  have "inv_step held server (server\<lparr>sv_clients := clients1, sv_closing := sv_closing server @ (case bucket of None \<Rightarrow> [] | Some a \<Rightarrow> [a])\<rparr>)"
    if "dicey_client_list_drop_client (sv_clients server) n = Ok (bucket, clients1)" for bucket clients1
    using clients_inv_drop [OF _ that] by (auto simp: inv_step_def core_inv_def client_ids_def [abs_def])
  from this [of None] this [of "Some a" for a] show ?thesis
    unfolding dicey_server_remove_client_def dicey_server_release_id_def ensures_rules
    by (auto intro!: ensuresI split: option.split)
qed

lemma client_end_step:
  assumes "a \<in> set (sv_closing server)"
  shows "ensures (on_client_end server a) (inv_step held server)"
proof -
  let ?server = "server\<lparr>sv_closing := remove1 a (sv_closing server), sv_data := (sv_data server)(a := None)\<rparr>"
  have ids: "client_ids ?server = (client_ids server)(a := None)"
    by (auto simp: client_ids_def)
  have "inv_step held server ?server"
    using assms unfolding inv_step_def core_inv_def ids
    by (auto simp: clients_inv_def)
  then show ?thesis
    unfolding on_client_end_def ensures_rules client_at_ensures
    by (auto intro: inv_step_core simp: core_simps)
qed

lemma clients_inv_same_slots:
  assumes "clients_inv clients ids closing next" "next \<le> next1" "client_list_ok clients1"
    and "\<forall>m. dicey_client_list_get_client clients1 m = None \<or>
           dicey_client_list_get_client clients1 m = dicey_client_list_get_client clients m"
  shows "clients_inv clients1 ids closing next1"
proof -
  have sub: "dicey_client_list_get_client clients m = Some a" if "dicey_client_list_get_client clients1 m = Some a" for m a
    using assms(4) that by (metis option.distinct(1))
  have "\<forall>a. ids a \<noteq> None \<longrightarrow> a < next1"
    using assms(1,2) unfolding clients_inv_def by (meson order_less_le_trans)
  then show ?thesis
    using assms(1,3) sub unfolding clients_inv_def by blast
qed

lemma shared_inv_next: "shared_inv held shared next refs \<Longrightarrow> next \<le> next1 \<Longrightarrow> shared_inv held shared next1 refs"
  unfolding shared_inv_def by (meson order_less_le_trans)

lemma get_fill_slot:
  "n < length (slots clients) \<Longrightarrow>
   dicey_client_list_get_client (fill_slot clients n a) m = (if m = n then Some a else dicey_client_list_get_client clients m)"
  by (cases clients) (auto simp: fill_slot_def dicey_client_list_get_client_def slots_def)

lemma fill_slot_ok: "client_list_ok clients \<Longrightarrow> client_list_ok (fill_slot clients n a)"
  by (cases clients) (auto simp: client_list_ok_def fill_slot_def)

lemma clients_inv_fill:
  assumes inv: "clients_inv clients ids closing next" and n: "n < length (slots clients)"
  shows "clients_inv (fill_slot clients n next) (ids(next \<mapsto> n)) closing (Suc next)"
proof -
  have fresh: "ids next = None" "next \<notin> set closing" "\<And>m. dicey_client_list_get_client clients m \<noteq> Some next"
    using inv unfolding clients_inv_def by (blast, blast, fastforce)
  have "ids a \<noteq> None \<Longrightarrow> a < Suc next" for a
    using inv unfolding clients_inv_def by (meson less_SucI)
  then show ?thesis
    using inv fresh fill_slot_ok unfolding clients_inv_def get_fill_slot [OF n] by auto
qed

lemma release_id_drop:
  "dicey_server_release_id server n = Ok (bucket, server1) \<Longrightarrow>
   \<exists>clients1. dicey_client_list_drop_client (sv_clients server) n = Ok (bucket, clients1) \<and>
     server1 = server\<lparr>sv_clients := clients1\<rparr>"
  by (auto simp: dicey_server_release_id_def outcome_simps)

lemma with_same_slots:
  assumes "core_inv held server" "client_list_ok clients1"
    and "\<forall>m. dicey_client_list_get_client clients1 m = None \<or>
           dicey_client_list_get_client clients1 m = dicey_client_list_get_client (sv_clients server) m"
    and "sv_clients server1 = clients1" "client_ids server1 = client_ids server" "sv_closing server1 = sv_closing server"
    and "sv_next server \<le> sv_next server1" "sv_shared server1 = sv_shared server" "sv_writes server1 = sv_writes server"
  shows "core_inv held server1"
  using assms clients_inv_same_slots [of "sv_clients server"] shared_inv_next
  by (auto simp: core_inv_def)

text \<open>A slot was found: what \<open>server_new_peer\<close> does with it.\<close>

lemma peer_released:
  assumes "core_inv held server" "sv_clients server1 = fill_slot (sv_clients server) n a \<or> sv_clients server1 = sv_clients server"
    and "n < length (slots (sv_clients server))" "dicey_server_release_id server1 n = Ok (bucket, server2)"
    and "server3 = server2\<lparr>sv_data := f (sv_data server2)\<rparr>" "client_ids server3 = client_ids server"
    and "sv_closing server1 = sv_closing server" "sv_next server \<le> sv_next server1" "sv_shared server1 = sv_shared server"
    "sv_writes server1 = sv_writes server"
  shows "core_inv held server3"
proof -
  obtain clients2 where drop: "dicey_client_list_drop_client (sv_clients server1) n = Ok (bucket, clients2)"
    "server2 = server1\<lparr>sv_clients := clients2\<rparr>"
    using release_id_drop [OF assms(4)] by blast
  have "client_list_ok (sv_clients server)" using assms(1) by (simp add: core_inv_def clients_inv_def)
  then have "client_list_ok clients2"
    using assms(2) drop_client_ok [OF drop(1)] fill_slot_ok by auto
  moreover have "\<forall>m. dicey_client_list_get_client clients2 m = None \<or>
      dicey_client_list_get_client clients2 m = dicey_client_list_get_client (sv_clients server) m"
    using drop_client_exact [OF drop(1)] assms(2) get_fill_slot [OF assms(3)] by auto
  ultimately show ?thesis
    using assms(5-) drop(2) by (intro with_same_slots [OF assms(1), of clients2]) auto
qed

lemma peer_filled:
  assumes "core_inv held server" "n < length (slots (sv_clients server))"
  shows "core_inv held ((put_client server (sv_next server) (dicey_client_data_init n))\<lparr>sv_next := Suc (sv_next server),
      sv_clients := fill_slot (sv_clients server) n (sv_next server)\<rparr>)" (is "core_inv held ?server")
proof -
  have "client_ids ?server = (client_ids server)(sv_next server \<mapsto> n)"
    by (auto simp: client_ids_def put_client_def dicey_client_data_init_def)
  then show ?thesis
    using clients_inv_fill [OF _ assms(2)] assms(1) shared_inv_next [of held _ "sv_next server" _ "Suc (sv_next server)"]
    by (simp add: core_inv_def put_client_def)
qed

lemma new_peer_step:
  assumes "env_ok env" "core_inv held server"
  shows "ensures (server_new_peer env pipe_ok server) (\<lambda>(res, server1). core_inv held server1)"
proof -
  obtain r clients1 where bucket: "dicey_client_list_new_bucket (se_alloc env) (sv_clients server) = (r, clients1)"
    by fastforce
  have ok: "client_list_ok (sv_clients server)" "client_list_ok clients1"
    using assms new_bucket_ok [OF bucket] by (auto simp: core_inv_def clients_inv_def env_ok_def)
  show ?thesis
  proof (cases r)
    case None
    then have "clients1 = None"
      using bucket by (auto simp: dicey_client_list_new_bucket_def split: option.splits)
    then have "core_inv held (server\<lparr>sv_clients := clients1\<rparr>)"
      using ok by (intro with_same_slots [OF assms(2) ok(2)])
        (auto simp: client_ids_def [abs_def] dicey_client_list_get_client_def slots_def)
    then show ?thesis
      using bucket None by (simp add: server_new_peer_def dicey_server_reserve_id_def)
  next
    case (Some n)
    define server1 where "server1 = server\<lparr>sv_clients := clients1\<rparr>"
    have slot: "dicey_client_list_get_client clients1 n = None" "n < length (slots clients1)"
      and same: "\<forall>m. dicey_client_list_get_client clients1 m = dicey_client_list_get_client (sv_clients server) m"
      using new_bucket_exact [OF bucket [unfolded Some] ok(1)] by auto
    have inv1: "core_inv held server1"
      using same by (intro with_same_slots [OF assms(2) ok(2)]) (auto simp: server1_def client_ids_def [abs_def])
    have fresh: "sv_data server1 (sv_next server1) = None"
      using inv1 by (auto simp: core_inv_def clients_inv_def client_ids_def)
    have n: "n < length (slots (sv_clients server1))" using slot by (simp add: server1_def)
    have refused: "core_inv held server3" if "dicey_server_release_id server1 n = Ok (bucket, server3)" for bucket server3
      by (rule peer_released [OF inv1 disjI2 n that, where f = "\<lambda>d. d"])
        (use release_id_drop [OF that] in \<open>auto simp: client_ids_def [abs_def]\<close>)
    let ?filled = "(put_client server1 (sv_next server1) (dicey_client_data_init n))\<lparr>sv_next := Suc (sv_next server1),
      sv_clients := fill_slot (sv_clients server1) n (sv_next server1)\<rparr>"
    have unpiped: "core_inv held (server3\<lparr>sv_data := (sv_data server3)(sv_next server1 := None)\<rparr>)"
      if "dicey_server_release_id ?filled n = Ok (bucket, server3)" for bucket server3
      by (rule peer_released [OF inv1 disjI1 n that, where f = "\<lambda>d. d(sv_next server1 := None)"])
        (use release_id_drop [OF that] fresh in \<open>auto simp: client_ids_def [abs_def] put_client_def fun_eq_iff\<close>)
    show ?thesis
      using peer_filled [OF inv1 n] refused unpiped bucket Some
      by (auto simp: server_new_peer_def dicey_server_reserve_id_def server1_def [symmetric] dicey_client_data_new_def Let_def
          intro!: ensuresI)
  qed
qed

section \<open>Packets, reads and connections\<close>

lemma got_bye_step: "ensures (client_got_bye server a) (\<lambda>(res, server1). inv_step held server server1)"
  unfolding client_got_bye_def ensures_rules client_at_ensures
  by (auto intro!: ensures_weaken [OF remove_client_step [where held = held]])

lemma put_client_step:
  assumes "inv_step held server server1" "sv_data server1 a = Some client" "cd_id client1 = cd_id client"
  shows "inv_step held server (put_client server1 a client1)"
  using assms by (auto intro: inv_step_core core_put_client)

lemma raised_error_step:
  assumes "inv_step held server server1"
  shows "ensures (dicey_server_client_raised_error env server1 a err) (\<lambda>(res, server2). inv_step held server server2)"
  using raised_error_core
  by (rule ensures_weaken) (use assms in \<open>auto intro: inv_step_trans same_core_step\<close>)

lemma got_packet_step:
  assumes "env_ok env"
  shows "ensures (client_got_packet env server a packet) (\<lambda>(err, server1). inv_step held server server1)"
proof -
  have step: "inv_step held server server1" if "same_core server server1" for server1
    using that by (rule same_core_step)
  show ?thesis
    unfolding client_got_packet_def dicey_client_data_set_state_def ensures_rules client_at_ensures
    by (cases "dicey_packet_get_kind packet")
       (auto intro!: opaque_calls raised_error_step put_client_step ensures_weaken [OF got_bye_step [where held = held]]
          ensures_weaken [OF got_hello_core] ensures_weaken [OF got_message_core [OF assms]] dest: step
        split: dicey_packet_kind.split outcome.split sum.split)
qed

lemma alloc_buffer_step: "ensures (alloc_buffer env server a) (\<lambda>(len, server1). same_core server server1)"
  unfolding alloc_buffer_def ensures_rules client_at_ensures
  by (auto simp: same_core_def core_simps split: option.split)

lemma stream_ended_step: "ensures (client_stream_ended server a err) (inv_step held server)"
  unfolding client_stream_ended_def Let_def ensures_rules client_at_ensures
  by (auto simp: inv_step_def intro!: ensures_weaken [OF remove_client_step [where held = held]])

lemma parse_chunk_step:
  assumes "env_ok env" "inv_step held server server1"
  shows "ensures (parse_chunk env server1 a bytes) (inv_step held server)"
proof (cases "dicey_packet_load (se_rounds env) (se_alloc env) (Some bytes)")
  case (Some r)
  show ?thesis
  proof (cases r)
    case (Ok pr)
    then show ?thesis
      using Some assms(2)
      by (cases pr) (auto simp: parse_chunk_def client_at_ensures
          intro!: put_client_step ensures_weaken [OF got_packet_step [OF assms(1), where held = held]] intro: inv_step_trans)
  next
    case (Err e)
    then show ?thesis
      using Some assms(2) by (cases e) (auto simp: parse_chunk_def intro!: raised_error_step)
  qed (use Some in \<open>simp add: parse_chunk_def\<close>)
qed (simp add: parse_chunk_def)

lemma on_read_step:
  assumes "env_ok env"
  shows "ensures (on_read env server a nread) (inv_step held server)"
  unfolding on_read_def
  by (auto simp: client_at_ensures Let_def intro!: stream_ended_step parse_chunk_step [OF assms] put_client_step
      split: read_report.split option.split)

lemma on_connect_inv:
  assumes "env_ok env" "core_inv held server"
  shows "ensures (on_connect env server status pipe_ok accept_err user read_err) (core_inv held)"
proof -
  have drop: "ensures (dicey_server_remove_client server1 n) (\<lambda>(err, server2). core_inv held server2)"
    if "core_inv held server1" for server1 n
    using remove_client_step by (rule ensures_weaken) (use that in \<open>auto simp: inv_step_def\<close>)
  show ?thesis
    unfolding on_connect_def Let_def ensures_and_then
    by (auto simp: assms(2) intro!: ensures_weaken [OF new_peer_step [OF assms, of pipe_ok]] ensures_weaken [OF drop]
        split: sum.split)
qed

section \<open>Shared packets\<close>

lemma shared_at_ensures: "ensures (shared_at server x) P \<longleftrightarrow> (\<forall>pkt. sv_shared server x = Some pkt \<longrightarrow> P pkt)"
  by (simp add: ensures_def shared_at_def split: option.splits)

text \<open>The count and the number of writes in flight go together; letting go of the packet restores the balance.\<close>

lemma shared_inv_update:
  assumes "shared_inv held shared next refs" "x < next \<or> r = None"
    and "share_ok h (refs1 x) r" "h \<longleftrightarrow> held1 = Some x"
    and "\<forall>y. y \<noteq> x \<longrightarrow> refs1 y = refs y \<and> (held1 = Some y \<longleftrightarrow> held = Some y)"
  shows "shared_inv held1 (shared(x := r)) next refs1"
  using assms unfolding shared_inv_def by auto

lemma unref_releases:
  assumes "core_inv (Some x) server"
  shows "ensures (dicey_shared_packet_unref ndebug server x) (core_inv None)"
proof -
  have "core_inv None (server\<lparr>sv_shared := (sv_shared server)(x := if sp_refc pkt - 1 \<le> 0 then None else Some (pkt\<lparr>sp_refc := sp_refc pkt - 1\<rparr>))\<rparr>)"
    if pkt: "sv_shared server x = Some pkt" for pkt
  proof -
    have inv: "shared_inv (Some x) (sv_shared server) (sv_next server) (shared_refs (sv_writes server))"
      and clients: "clients_inv (sv_clients server) (client_ids server) (sv_closing server) (sv_next server)"
      using assms by (simp_all add: core_inv_def)
    have "share_ok True (shared_refs (sv_writes server) x) (Some pkt)" "x < sv_next server"
      using inv pkt unfolding shared_inv_def by (metis, fastforce)
    then show ?thesis
      using clients unfolding core_inv_def client_ids_def [abs_def]
      by (auto simp: share_ok_def intro!: shared_inv_update [OF inv])
  qed
  then show ?thesis
    unfolding dicey_shared_packet_unref_def Let_def ensures_rules shared_at_ensures by simp
qed

lemma sendpkt_shared:
  "ensures (server_sendpkt env server a (OutShared x))
     (\<lambda>(err, server1). \<exists>n. server1 = (if err \<noteq> DICEY_OK then server
        else server\<lparr>sv_writes := sv_writes server @ [\<lparr>wr_client = n, wr_packet = OutShared x\<rparr>]\<rparr>))"
  unfolding server_sendpkt_def Let_def ensures_rules client_at_ensures
  by (auto intro!: ensures_opaque)

lemma shared_refs_append: "shared_refs (ws @ [w]) y = shared_refs ws y + (if wr_packet w = OutShared y then 1 else 0)"
  by (simp add: shared_refs_def)

lemma shared_refs_remove1:
  "w \<in> set ws \<Longrightarrow> shared_refs ws y = shared_refs (remove1 w ws) y + (if wr_packet w = OutShared y then 1 else 0)"
  by (induction ws) (auto simp: shared_refs_def)

text \<open>A signal to one subscriber: the count goes up with the write, and back down when there is no write.\<close>

lemma signal_sent:
  assumes "core_inv (Some x) server" "dicey_shared_packet_ref ndebug server x = Ok server1"
  shows "core_inv (Some x) (server1\<lparr>sv_writes := sv_writes server1 @ [\<lparr>wr_client = n, wr_packet = OutShared x\<rparr>]\<rparr>)"
    and "ensures (dicey_shared_packet_unref ndebug server1 x) (core_inv (Some x))"
proof -
  obtain pkt where pkt: "sv_shared server x = Some pkt"
    and server1: "server1 = server\<lparr>sv_shared := (sv_shared server)(x \<mapsto> pkt\<lparr>sp_refc := sp_refc pkt + 1\<rparr>)\<rparr>"
    using assms(2) by (auto simp: dicey_shared_packet_ref_def outcome_simps shared_at_def c_assert_def split: option.splits if_splits)
  have inv: "shared_inv (Some x) (sv_shared server) (sv_next server) (shared_refs (sv_writes server))"
    and clients: "clients_inv (sv_clients server) (client_ids server) (sv_closing server) (sv_next server)"
    using assms(1) by (simp_all add: core_inv_def)
  have ok: "share_ok True (shared_refs (sv_writes server) x) (Some pkt)" "x < sv_next server"
    using inv pkt unfolding shared_inv_def by (metis, fastforce)
  show "core_inv (Some x) (server1\<lparr>sv_writes := sv_writes server1 @ [\<lparr>wr_client = n, wr_packet = OutShared x\<rparr>]\<rparr>)"
    using clients ok unfolding core_inv_def server1 client_ids_def [abs_def]
    by (auto simp: share_ok_def shared_refs_append intro!: shared_inv_update [OF inv])
  have pos: "0 < sp_refc pkt" using ok by (simp add: share_ok_def)
  have "(sv_shared server)(x \<mapsto> pkt) = sv_shared server" using pkt by auto
  then have undone: "server\<lparr>sv_shared := (sv_shared server)(x \<mapsto> pkt)\<rparr> = server" by simp
  show "ensures (dicey_shared_packet_unref ndebug server1 x) (core_inv (Some x))"
    using assms(1) pos undone
    unfolding dicey_shared_packet_unref_def Let_def ensures_rules shared_at_ensures
    by (simp add: server1)
qed

lemma signal_step:
  assumes "core_inv (Some x) server" "\<And>server3. core_inv (Some x) server3 \<Longrightarrow> ensures (f server3) P"
  shows "ensures (and_then (dicey_shared_packet_ref ndebug server x) (\<lambda>server1.
    and_then (server_sendpkt env server1 a (OutShared x)) (\<lambda>(err, server2).
      if err \<noteq> DICEY_OK then and_then (dicey_shared_packet_unref ndebug server2 x) f else f server2))) P"
proof -
  have sent: "ensures (server_sendpkt env server1 a (OutShared x)) (\<lambda>(err, server2).
      ensures (if err \<noteq> DICEY_OK then and_then (dicey_shared_packet_unref ndebug server2 x) f else f server2) P)"
    if ref: "dicey_shared_packet_ref ndebug server x = Ok server1" for server1
    using sendpkt_shared
    by (rule ensures_weaken)
       (use signal_sent [OF assms(1) ref] assms(2) in
         \<open>auto intro!: ensures_weaken [OF signal_sent(2) [OF assms(1) ref]]\<close>)
  show ?thesis
    unfolding ensures_rules by (rule ensuresI, rule sent [unfolded ensures_rules])
qed

lemma raise_loop_inv:
  "core_inv (Some x) server \<Longrightarrow> ensures (raise_loop env server x descr cells) (core_inv (Some x))"
proof (induction cells arbitrary: server)
  case (Cons cell cells)
  show ?case
  proof (cases cell)
    case (Some a)
    have one: "ensures (if \<not> subscribed then raise_loop env server x descr cells
        else and_then (dicey_shared_packet_ref (se_ndebug env) server x) (\<lambda>server1.
          and_then (server_sendpkt env server1 a (OutShared x)) (\<lambda>(err, server2).
            if err \<noteq> DICEY_OK then
              and_then (dicey_shared_packet_unref (se_ndebug env) server2 x) (\<lambda>server3. raise_loop env server3 x descr cells)
            else raise_loop env server2 x descr cells))) (core_inv (Some x))" for subscribed
      using signal_step [OF Cons.prems, where f = "\<lambda>server3. raise_loop env server3 x descr cells", OF Cons.IH] Cons by simp
    show ?thesis
      unfolding Some raise_loop.simps ensures_and_then [of "client_at server a"] ensures_and_then [of "dicey_client_data_is_subscribed c d" for c d]
      by (rule ensures_opaque, rule ensures_opaque, rule one)
  qed (use Cons in simp)
qed simp

end
