(* ===== verification/Dicey_Server_Steps.thy ===== *)
theory Dicey_Server_Steps
  imports Dicey_Server_Invariant
begin

text \<open>The invariant through signals, writes, loop requests and whole runs of the server.\<close>

section \<open>Signals\<close>

lemma as_message_length: "dicey_packet_as_message packet = Ok msg \<Longrightarrow> 12 \<le> length packet"
  by (auto simp: dicey_packet_as_message_def dtf_message_get_content_def message_get_trailer_size_def Let_def outcome_simps
      split: if_splits)

text \<open>The state after the shared packet is made, with the given contents.\<close>

definition with_shared :: "dicey_server \<Rightarrow> dicey_packet \<Rightarrow> dicey_server" where
  "with_shared server packet =
     server\<lparr>sv_next := Suc (sv_next server),
       sv_shared := (sv_shared server)(sv_next server \<mapsto> \<lparr>sp_refc = 1, sp_packet = packet\<rparr>)\<rparr>"

lemma with_shared_inv:
  assumes "core_inv None server" "packet \<noteq> []"
  shows "core_inv (Some (sv_next server)) (with_shared server packet)"
proof -
  let ?x = "sv_next server"
  have clients: "clients_inv (sv_clients server) (client_ids server) (sv_closing server) (Suc ?x)"
    using assms(1) clients_inv_same_slots [of "sv_clients server" "client_ids server" "sv_closing server" ?x "Suc ?x"]
    by (auto simp: core_inv_def clients_inv_def)
  have inv: "shared_inv None (sv_shared server) ?x (shared_refs (sv_writes server))"
    using assms(1) by (simp add: core_inv_def)
  then have "sv_shared server ?x = None" by (auto simp: shared_inv_def)
  then have "shared_refs (sv_writes server) ?x = 0"
    using spec [OF conjunct1 [OF inv [unfolded shared_inv_def]], of ?x] by (simp add: share_ok_def)
  then have "shared_inv (Some ?x) ((sv_shared server)(?x \<mapsto> \<lparr>sp_refc = 1, sp_packet = packet\<rparr>)) (Suc ?x)
      (shared_refs (sv_writes server))"
    using assms(2)
    by (intro shared_inv_update [OF shared_inv_next [OF inv], where h = True])
       (auto simp: share_ok_def dicey_packet_is_valid_def)
  then show ?thesis
    using clients by (simp add: core_inv_def with_shared_def client_ids_def [abs_def])
qed

lemma raise_internal_inv:
  assumes "core_inv None server"
  shows "ensures (dicey_server_raise_internal env server packet) (\<lambda>(err, server1). core_inv None server1)"
proof (cases "dicey_packet_as_message packet")
  case (Ok msg)
  let ?x = "sv_next server"
  have len: "12 \<le> length packet" using Ok by (rule as_message_length)
  then have ne: "packet \<noteq> []" by auto
  define numbered where "numbered = (\<lambda>seq::32 word. take 4 packet @ le_enc 4 (unat seq) @ drop 8 packet)"
  have numbered: "dicey_packet_set_seq packet seq = Ok (numbered seq)" "numbered seq \<noteq> []" for seq
    using set_seq_eq [of packet seq] len by (auto simp: numbered_def)
  have last: "ensures (raise_loop env ((with_shared server (numbered seq))\<lparr>sv_scratchpad := n, sv_seq_cnt := w\<rparr>) ?x descr cells)
      (\<lambda>server4. ensures (dicey_shared_packet_unref nd server4 ?x) (core_inv None))" for n w descr cells seq nd
    by (rule ensures_weaken [OF raise_loop_inv])
       (use with_shared_inv [OF assms numbered(2)] unref_releases in auto)
  have early: "ensures (dicey_shared_packet_unref nd ((with_shared server packet)\<lparr>sv_scratchpad := n\<rparr>) ?x) (core_inv None)" for nd n
    using with_shared_inv [OF assms ne] by (intro unref_releases) simp
  have made: "dicey_shared_packet_from nd al server packet 1 =
      (if al 24 then Ok (Some ?x, with_shared server packet) else Ok (None, server))" for nd al
    using ne by (simp add: dicey_shared_packet_from_def with_shared_def c_assert_def dicey_packet_is_valid_def)
  have at: "shared_at ((with_shared server p)\<lparr>sv_scratchpad := n, sv_seq_cnt := w\<rparr>) ?x = Ok \<lparr>sp_refc = 1, sp_packet = p\<rparr>"
    "shared_at ((with_shared server p)\<lparr>sv_scratchpad := n\<rparr>) ?x = Ok \<lparr>sp_refc = 1, sp_packet = p\<rparr>" for p n w
    by (simp_all add: shared_at_def with_shared_def)
  have borrow: "dicey_shared_packet_borrow nd ((with_shared server packet)\<lparr>sv_scratchpad := n\<rparr>) ?x = Ok packet" for nd n
    using ne by (simp add: dicey_shared_packet_borrow_def at c_assert_def dicey_shared_packet_is_valid_def dicey_packet_is_valid_def)
  have renumber: "(with_shared server packet)\<lparr>sv_scratchpad := n, sv_seq_cnt := w,
      sv_shared := (sv_shared (with_shared server packet))(?x \<mapsto> \<lparr>sp_refc = 1, sp_packet = p\<rparr>)\<rparr>
      = (with_shared server p)\<lparr>sv_scratchpad := n, sv_seq_cnt := w\<rparr>" for n w p
    by (simp add: with_shared_def)
  show ?thesis
    using assms
    unfolding dicey_server_raise_internal_def Ok made
    by (auto simp: Let_def server_next_seq_def borrow numbered(1) at renumber
        simp del: fun_upd_apply
        intro!: ensures_opaque [where r = "dicey_element_descriptor_format_to nd al n path sel" for nd al n path sel] last early
        split: option.split)
qed (use assms in \<open>simp_all add: dicey_server_raise_internal_def\<close>)

section \<open>Writes and the shutdown\<close>

lemma kick_all_inv: "core_inv held server \<Longrightarrow> ensures (kick_all env server cells err) (\<lambda>(res, server1). core_inv held server1)"
proof (induction cells arbitrary: server err)
  case (Cons cell cells)
  show ?case
  proof (cases cell)
    case (Some a)
    have "ensures (kick_all env server1 cells e) (\<lambda>(res, server2). core_inv held server2)" if "same_clients server server1" for server1 e
      using Cons same_core_step(2) [OF that, of held] by (simp add: inv_step_def)
    then show ?thesis
      by (auto simp: Some intro!: ensures_weaken [OF kick_client_same])
  qed (use Cons in simp)
qed simp

lemma core_inv_delete: "core_inv held (fold (\<lambda>req server. loop_request_delete server req) reqs server) = core_inv held server"
  by (induction reqs arbitrary: server) (auto simp: loop_request_delete_def split: option.split)

lemma finalize_inv: "core_inv held server \<Longrightarrow> ensures (server_finalize_shutdown nd server) (\<lambda>(err, server1). core_inv held server1)"
  unfolding server_finalize_shutdown_def ensures_rules
  by (auto simp: core_inv_delete split: option.split)

lemma shutdown_inv: "core_inv held server \<Longrightarrow> ensures (server_shutdown env server) (\<lambda>(err, server1). core_inv held server1)"
  unfolding server_shutdown_def ensures_rules
  by (auto intro!: ensures_weaken [OF kick_all_inv [where held = held]] finalize_inv)

lemma share_ok_written: "share_ok False (refs + (if held then 1 else 0)) shared \<Longrightarrow> share_ok held refs shared"
  by (cases shared) (auto simp: share_ok_def split: if_splits)

lemma written_inv:
  assumes "core_inv None server" "req \<in> set (sv_writes server)"
  shows "core_inv (case wr_packet req of OutSingle p \<Rightarrow> None | OutShared x \<Rightarrow> Some x)
    (server\<lparr>sv_writes := remove1 req (sv_writes server)\<rparr>)"
proof -
  let ?held = "case wr_packet req of OutSingle p \<Rightarrow> None | OutShared x \<Rightarrow> Some x"
  have held: "?held = Some y \<longleftrightarrow> wr_packet req = OutShared y" for y
    by (simp split: outbound_packet.split)
  have inv: "share_ok False (shared_refs (sv_writes server) y) (sv_shared server y)" for y
    using assms(1) by (simp add: core_inv_def shared_inv_def)
  have "share_ok (?held = Some y) (shared_refs (remove1 req (sv_writes server)) y) (sv_shared server y)" for y
    using inv [of y] unfolding shared_refs_remove1 [OF assms(2), of y] held by (rule share_ok_written)
  then have "shared_inv ?held (sv_shared server) (sv_next server) (shared_refs (remove1 req (sv_writes server)))"
    using assms(1) by (simp add: core_inv_def shared_inv_def)
  then show ?thesis
    using assms(1) by (simp add: core_inv_def client_ids_def [abs_def])
qed

lemma cleanup_inv:
  assumes "core_inv (case packet of OutSingle p \<Rightarrow> None | OutShared x \<Rightarrow> Some x) server"
  shows "ensures (outbound_packet_cleanup nd server packet) (core_inv None)"
  using assms unref_releases by (auto simp: outbound_packet_cleanup_def split: outbound_packet.splits)

lemma on_write_inv:
  assumes "core_inv None server" "req \<in> set (sv_writes server)"
  shows "ensures (on_write env server req status) (core_inv None)"
proof -
  let ?held = "case wr_packet req of OutSingle p \<Rightarrow> None | OutShared x \<Rightarrow> Some x"
  have drop: "ensures (dicey_server_remove_client server1 n) (\<lambda>(err, server2). core_inv ?held server2)"
    if "core_inv ?held server1" for server1 n
    using remove_client_step [where held = ?held] by (rule ensures_weaken) (use that in \<open>auto simp: inv_step_def\<close>)
  have last: "ensures (outbound_packet_cleanup (se_ndebug env) server2 (wr_packet req)) (\<lambda>server3.
      (sv_state server3 = SERVER_STATE_QUITTING \<and> dicey_client_list_is_empty (sv_clients server3) \<longrightarrow>
        ensures (server_finalize_shutdown (se_ndebug env) server3) (\<lambda>(_, server4). core_inv None server4)) \<and>
      ((sv_state server3 = SERVER_STATE_QUITTING \<longrightarrow> \<not> dicey_client_list_is_empty (sv_clients server3)) \<longrightarrow>
        core_inv None server3))"
    if "core_inv ?held server2" for server2
    using cleanup_inv [OF that] by (rule ensures_weaken) (use finalize_inv [where held = None] in simp)
  show ?thesis
    using written_inv [OF assms]
    unfolding on_write_def Let_def ensures_rules client_at_ensures
    by (auto intro!: last ensures_weaken [OF drop] opaque_calls
          ensures_opaque [where r = "outbound_packet_borrow nd s p" for nd s p]
        split: option.split)
qed

section \<open>Loop requests\<close>

lemma ensures_ended: "ensures (ended r) P \<longleftrightarrow> ensures r (\<lambda>x. case x of None \<Rightarrow> True | Some y \<Rightarrow> P y)"
  unfolding ended_def ensures_rules by (simp add: option.case_eq_if)

lemma send_response_core: "ensures (client_send_response env server a packet msg) (\<lambda>(err, server1). same_core server server1)"
  unfolding client_send_response_def Let_def ensures_rules client_at_ensures
  by (auto simp: same_core_def same_clients_def core_simps intro!: opaque_calls ensures_weaken [OF sendpkt_same]
      split: outcome.split sum.split option.split)

lemma prune_callback_same: "ensures (request_should_prune_if_matching env a path req server) (\<lambda>(prune, server1). same_clients server server1)"
  unfolding request_should_prune_if_matching_def ensures_rules
  by (auto simp: same_clients_def [of server server]
      intro!: ensures_weaken [OF send_made_same] ensures_opaque [where r = "dicey_registry_get_main_path nd reg p" for nd reg p]
        ensures_opaque [where r = "key_str k" for k]
      split: option.split prod.split)

lemma same_clients_trans: "same_clients server server1 \<Longrightarrow> same_clients server1 server2 \<Longrightarrow> same_clients server server2"
  by (simp add: same_clients_def)

lemma prune_loop_same:
  assumes "\<And>req ctx. ensures (prune_fn req ctx) (\<lambda>(prune, ctx1). same_clients ctx ctx1)"
  shows "ensures (prune_loop n nd prune_fn reqs i server) (\<lambda>r. case r of None \<Rightarrow> True | Some (reqs1, server1) \<Rightarrow> same_clients server server1)"
proof (induction n arbitrary: reqs i server)
  case (Suc n)
  have rest: "ensures (prune_loop n nd prune_fn reqs1 j server1) (\<lambda>r. case r of None \<Rightarrow> True | Some (reqs2, server2) \<Rightarrow> same_clients server server2)"
    if "same_clients server server1" for reqs1 j server1
    using Suc.IH by (rule ensures_weaken) (use that in \<open>auto intro: same_clients_trans split: option.splits\<close>)
  show ?case
    unfolding prune_loop.simps ensures_rules
    by (auto simp: same_clients_def [of server server] intro!: rest ensures_weaken [OF assms]
        ensures_opaque [where r = "pending_request_invalidate nd reqs i" for nd reqs i])
qed simp

lemma prune_clients_core: "ensures (prune_clients env path server cells) (same_core server)"
proof (induction cells arbitrary: server)
  case (Cons cell cells)
  have rest: "ensures (prune_clients env path server1 cells) (same_core server)" if "same_core server server1" for server1
    using Cons by (rule ensures_weaken) (use that in \<open>auto intro: same_core_trans\<close>)
  show ?case
  proof (cases cell)
    case (Some a)
    show ?thesis
      unfolding Some prune_clients.simps dicey_pending_requests_prune_def ensures_rules client_at_ensures ensures_ended
      by (auto simp: same_core_def same_clients_def core_simps intro!: rest ensures_weaken [OF prune_loop_same [OF prune_callback_same]]
          split: option.splits)
  qed (use Cons in simp)
qed (simp add: same_core_def)

text \<open>A loop request keeps the invariant, whatever client it finds.\<close>

lemma with_registry_inv: "core_inv held server \<Longrightarrow> ensures (with_registry server r) (\<lambda>(err, server1). core_inv held server1)"
  unfolding with_registry_def ensures_rules by (auto intro!: ensures_opaque)

lemma core_ensures_inv:
  assumes "ensures r (\<lambda>(err, server1). same_core server server1)" "core_inv held server"
  shows "ensures r (\<lambda>(err, server1). core_inv held server1)"
  using assms(1) by (rule ensures_weaken) (use assms(2) same_core_inv in \<open>auto\<close>)

lemma remove_object_core: "ensures (server_remove_object env server path) (\<lambda>(err, server1). same_core server server1)"
  unfolding server_remove_object_def ensures_rules
  by (auto simp: same_core_def core_simps intro!: ensures_weaken [OF prune_clients_core]
      ensures_opaque [where r = "dicey_registry_delete_object nd reg p" for nd reg p])

lemma kick_client_core: "ensures (server_kick_client env server a reason) (\<lambda>(err, server1). same_core server server1)"
  using kick_client_same by (rule ensures_weaken) (auto simp: same_core_def same_clients_def)

lemma loop_send_response_core: "ensures (loop_request_send_response env server client packet) (\<lambda>(err, server1). same_core server server1)"
  unfolding loop_request_send_response_def ensures_rules
  by (auto simp: same_core_def [of server server] intro!: send_response_core split: option.split outcome.split)

lemma run_callback_inv:
  assumes "core_inv None server"
  shows "ensures (run_callback env server client cb) (\<lambda>(err, server1). core_inv None server1)"
  unfolding run_callback_def Let_def
  by (cases cb)
     (auto simp: assms intro!: with_registry_inv core_ensures_inv [OF remove_object_core] core_ensures_inv [OF kick_client_core]
       core_ensures_inv [OF loop_send_response_core] raise_internal_inv)

lemma answer_inv: "core_inv None server \<Longrightarrow> ensures (answer server req client err) (core_inv None)"
  unfolding answer_def ensures_rules client_at_ensures by (auto split: option.split)

lemma inbound_inv: "core_inv None server \<Longrightarrow> ensures (loop_request_inbound n env server client) (core_inv None)"
proof (induction n arbitrary: server client)
  case (Suc n)
  show ?case
    using Suc.prems
    by (auto simp: Let_def
        intro!: ensures_weaken [OF shutdown_inv [where held = None]] ensures_weaken [OF run_callback_inv]
          ensures_weaken [OF answer_inv] Suc.IH
        split: prod.split attempt.split option.split)
qed simp

section \<open>Steps and runs\<close>

lemma server_step_inv:
  assumes "env_ok env" "core_inv None server"
  shows "ensures (server_step env server s) (core_inv None)"
proof -
  have step: "core_inv None server2" if "same_core server server1" "inv_step None server1 server2" for server1 server2
    using that assms(2) same_core_inv [of server server1] by (simp add: inv_step_def)
  show ?thesis
  proof (cases s)
    case (StepRead n report)
    then show ?thesis
      using assms(2)
      by (auto intro!: ensures_weaken [OF alloc_buffer_step] ensures_weaken [OF on_read_step [OF assms(1), where held = None]]
          dest: step step [OF _ inv_step_refl] split: option.split read_report.split)
  next
    case (StepSubmit req)
    then show ?thesis
      using submit_request_same [of "se_ndebug env" server req] assms(2) same_core_step(2)
      by (auto simp: ensures_def inv_step_def)
  next
    case (StepClosed a)
    then show ?thesis
      using assms(2)
      by (auto simp: inv_step_def intro!: ensures_weaken [OF client_end_step [where held = None]])
  next
    case StepInbound
    then show ?thesis
      unfolding StepInbound server_step.simps using assms(2) by (intro inbound_inv)
  qed (use assms on_connect_inv on_write_inv in auto)
qed

lemma started_inv: "core_inv None (started_server reg)"
  by (simp add: core_inv_def started_server_def clients_inv_def shared_inv_def share_ok_def client_list_ok_def
      dicey_client_list_get_client_def slots_def shared_refs_def client_ids_def)

lemma server_run_inv: "env_ok env \<Longrightarrow> core_inv None server \<Longrightarrow> ensures (server_run env server steps) (core_inv None)"
proof (induction steps arbitrary: server)
  case (Cons s steps)
  then show ?case by (auto intro!: ensures_weaken [OF server_step_inv])
qed simp

end
