(* ===== verification/Dicey_Server_Signals.thy ===== *)
theory Dicey_Server_Signals
  imports Dicey_Server_Steps
begin

text \<open>Whom a signal reaches.\<close>

text \<open>
  The ids of the clients in a list of slots that subscribed to a descriptor and whose pipe takes the packet, in the
  order of the slots.
\<close>

definition is_target :: "server_env \<Rightarrow> cstring \<Rightarrow> dicey_packet \<Rightarrow> dicey_client_data \<Rightarrow> bool" where
  "is_target env descr bytes client \<longleftrightarrow>
     descr \<in> members (cd_subscriptions client) \<and> se_write env (cd_id client) bytes = DICEY_OK"

fun signal_targets :: "server_env \<Rightarrow> dicey_server \<Rightarrow> cstring \<Rightarrow> dicey_packet \<Rightarrow> nat option list \<Rightarrow> nat list" where
  "signal_targets env server descr bytes [] = []"
| "signal_targets env server descr bytes (None # cells) = signal_targets env server descr bytes cells"
| "signal_targets env server descr bytes (Some a # cells) =
     (case sv_data server a of
        None \<Rightarrow> []
      | Some client \<Rightarrow> if is_target env descr bytes client then [cd_id client] else [])
     @ signal_targets env server descr bytes cells"

definition signal_write :: "nat \<Rightarrow> nat \<Rightarrow> write_request" where
  "signal_write x n = \<lparr>wr_client = n, wr_packet = OutShared x\<rparr>"

definition subscriptions_ok :: "dicey_server \<Rightarrow> nat option list \<Rightarrow> bool" where
  "subscriptions_ok server cells \<longleftrightarrow>
     (\<forall>a. Some a \<in> set cells \<longrightarrow> (\<exists>client. sv_data server a = Some client \<and> objects_ok (cd_subscriptions client)))"

text \<open>One slot: a subscriber gets a write and a reference, unless its pipe refuses.\<close>

lemma signal_one:
  assumes "sv_shared server x = Some \<lparr>sp_refc = k, sp_packet = p\<rparr>" "0 < k" "p \<noteq> []" "length p \<le> UINT32_MAX" "se_alloc env 240"
    and "sv_data server a = Some client" "objects_ok (cd_subscriptions client)"
  shows "raise_loop env server x descr (Some a # cells) =
    (let t = (if is_target env descr p client then [cd_id client] else []) in
     raise_loop env (server\<lparr>sv_writes := sv_writes server @ map (signal_write x) t,
       sv_shared := (sv_shared server)(x \<mapsto> \<lparr>sp_refc = k + int (length t), sp_packet = p\<rparr>)\<rparr>) x descr cells)"
proof -
  have contains: "dicey_client_data_is_subscribed client descr = Ok (descr \<in> members (cd_subscriptions client))"
    using hashset_contains_members [OF assms(7)] by (simp add: dicey_client_data_is_subscribed_def)
  have same: "server\<lparr>sv_shared := (sv_shared server)(x \<mapsto> \<lparr>sp_refc = k, sp_packet = p\<rparr>)\<rparr> = server"
    using assms(1) by (simp add: fun_upd_idem)
  let ?up = "server\<lparr>sv_shared := (sv_shared server)(x \<mapsto> \<lparr>sp_refc = k + 1, sp_packet = p\<rparr>)\<rparr>"
  have ref: "dicey_shared_packet_ref nd server x = Ok ?up" for nd
    using assms(1-3)
    by (simp add: dicey_shared_packet_ref_def shared_at_def c_assert_def dicey_shared_packet_is_valid_def dicey_packet_is_valid_def)
  have send: "server_sendpkt env ?up a (OutShared x) =
      Ok (if se_write env (cd_id client) p \<noteq> DICEY_OK then (se_write env (cd_id client) p, ?up)
          else (DICEY_OK, ?up\<lparr>sv_writes := sv_writes server @ [signal_write x (cd_id client)]\<rparr>))"
    using assms(2-6)
    by (simp add: server_sendpkt_def outbound_packet_is_valid_def outbound_packet_borrow_def dicey_shared_packet_borrow_def
        shared_at_def c_assert_def dicey_shared_packet_is_valid_def dicey_packet_is_valid_def client_at_def signal_write_def Let_def)
  have unref: "dicey_shared_packet_unref nd ?up x = Ok server" for nd
    using assms(1-3) same
    by (simp add: dicey_shared_packet_unref_def shared_at_def c_assert_def dicey_shared_packet_is_valid_def dicey_packet_is_valid_def)
  have swap: "server\<lparr>sv_shared := f, sv_writes := w\<rparr> = server\<lparr>sv_writes := w, sv_shared := f\<rparr>" for f w
    by simp
  show ?thesis
    using assms(6) same
    by (simp add: client_at_def contains ref send unref is_target_def Let_def swap)
qed

lemma signal_targets_data:
  assumes "sv_data server1 = sv_data server"
  shows "signal_targets env server1 descr p cells = signal_targets env server descr p cells"
proof (induction cells)
  case (Cons c cells)
  then show ?case using assms by (cases c) simp_all
qed simp

lemma raise_loop_exact:
  assumes "sv_shared server x = Some \<lparr>sp_refc = k, sp_packet = p\<rparr>" "0 < k" "p \<noteq> []" "length p \<le> UINT32_MAX" "se_alloc env 240"
    and "subscriptions_ok server cells"
  shows "raise_loop env server x descr cells =
    Ok (server\<lparr>sv_writes := sv_writes server @ map (signal_write x) (signal_targets env server descr p cells),
      sv_shared := (sv_shared server)(x \<mapsto>
        \<lparr>sp_refc = k + int (length (signal_targets env server descr p cells)), sp_packet = p\<rparr>)\<rparr>)"
  using assms
proof (induction cells arbitrary: server k)
  case Nil
  then show ?case by (simp add: fun_upd_idem)
next
  case (Cons cell cells)
  have rest: "subscriptions_ok server cells" using Cons.prems(6) by (simp add: subscriptions_ok_def)
  show ?case
  proof (cases cell)
    case None
    then show ?thesis using Cons rest by simp
  next
    case (Some a)
    then obtain client where client: "sv_data server a = Some client" "objects_ok (cd_subscriptions client)"
      using Cons.prems(6) by (auto simp: subscriptions_ok_def)
    define t where "t = (if is_target env descr p client then [cd_id client] else [])"
    define server1 where "server1 = server\<lparr>sv_writes := sv_writes server @ map (signal_write x) t,
       sv_shared := (sv_shared server)(x \<mapsto> \<lparr>sp_refc = k + int (length t), sp_packet = p\<rparr>)\<rparr>"
    have one: "raise_loop env server x descr (Some a # cells) = raise_loop env server1 x descr cells"
      using signal_one [OF Cons.prems(1-5) client] by (simp add: t_def server1_def Let_def)
    have data: "sv_data server1 = sv_data server" by (simp add: server1_def)
    have targets: "signal_targets env server1 descr p cells = signal_targets env server descr p cells"
      by (rule signal_targets_data [OF data])
    have subs: "subscriptions_ok server1 cells" using rest by (simp add: subscriptions_ok_def data)
    have shared: "sv_shared server1 x = Some \<lparr>sp_refc = k + int (length t), sp_packet = p\<rparr>" "0 < k + int (length t)"
      using Cons.prems(2) by (simp_all add: server1_def)
    have all: "signal_targets env server descr p (Some a # cells) = t @ signal_targets env server descr p cells"
      using client by (simp add: t_def)
    show ?thesis
      unfolding Some one all Cons.IH [OF shared Cons.prems(3-5) subs] targets
      by (simp add: server1_def add.assoc) (simp add: fun_upd_def)
  qed
qed

text \<open>The whole call, when there is memory.\<close>

lemma raise_internal_exact:
  fixes server :: dicey_server
  defines "x \<equiv> sv_next server"
  assumes "dicey_packet_as_message packet = Ok msg" "msg_selector msg = \<lparr>sel_trait = Some trait, sel_elem = Some elem\<rparr>"
    and "descr = element_descriptor (msg_path msg) trait elem" "se_ndebug env \<or> length descr > 5" "\<forall>n. se_alloc env n"
    and "length packet \<le> UINT32_MAX" "subscriptions_ok server (slots (sv_clients server))"
    and "dicey_packet_set_seq packet (sv_seq_cnt server) = Ok numbered"
    and "targets = signal_targets env server descr numbered (slots (sv_clients server))"
  shows "\<exists>server1. dicey_server_raise_internal env server packet = Ok (DICEY_OK, server1) \<and>
    sv_writes server1 = sv_writes server @ map (signal_write x) targets \<and>
    sv_shared server1 = (sv_shared server)(x := if targets = [] then None
      else Some \<lparr>sp_refc = int (length targets), sp_packet = numbered\<rparr>) \<and>
    sv_seq_cnt server1 = sv_seq_cnt server + 2 \<and> sv_clients server1 = sv_clients server \<and> sv_data server1 = sv_data server"
proof -
  have len: "12 \<le> length packet" using assms(2) by (rule as_message_length)
  then have numbered: "numbered = take 4 packet @ le_enc 4 (unat (sv_seq_cnt server)) @ drop 8 packet"
    using set_seq_eq [OF len] assms(9) by simp
  then have num: "numbered \<noteq> []" "length numbered \<le> UINT32_MAX" using len assms(7) by auto
  have ne: "packet \<noteq> []" using len by auto
  have "\<exists>n. dicey_element_descriptor_format_to (se_ndebug env) (se_alloc env) (sv_scratchpad server) (msg_path msg)
      (msg_selector msg) = Ok (Some descr, n)"
    using assms(3-6)
    by (auto simp: dicey_element_descriptor_format_to_def dicey_selector_is_valid_def sel_strings_def c_assert_def Let_def)
  then obtain n where format: "dicey_element_descriptor_format_to (se_ndebug env) (se_alloc env) (sv_scratchpad server)
      (msg_path msg) (msg_selector msg) = Ok (Some descr, n)" ..
  define server2 where "server2 = server\<lparr>sv_next := Suc x, sv_scratchpad := n, sv_seq_cnt := sv_seq_cnt server + 2,
      sv_shared := (sv_shared server)(x \<mapsto> \<lparr>sp_refc = 1, sp_packet = numbered\<rparr>)\<rparr>"
  have same: "sv_data server2 = sv_data server" "sv_clients server2 = sv_clients server" "sv_writes server2 = sv_writes server"
    "sv_shared server2 x = Some \<lparr>sp_refc = 1, sp_packet = numbered\<rparr>"
    by (simp_all add: server2_def)
  have subs: "subscriptions_ok server2 (slots (sv_clients server2))"
    using assms(8) by (simp add: subscriptions_ok_def same)
  note loop = raise_loop_exact [OF same(4) _ num _ subs, of env descr, unfolded same signal_targets_data [OF same(1)], folded assms(10)]
  let ?server4 = "server2\<lparr>sv_writes := sv_writes server @ map (signal_write x) targets,
      sv_shared := (sv_shared server2)(x \<mapsto> \<lparr>sp_refc = 1 + int (length targets), sp_packet = numbered\<rparr>)\<rparr>"
  have unref: "dicey_shared_packet_unref nd ?server4 x = Ok (?server4\<lparr>sv_shared := (sv_shared server)(x := if targets = [] then None
      else Some \<lparr>sp_refc = int (length targets), sp_packet = numbered\<rparr>)\<rparr>)" for nd
    using num by (simp add: dicey_shared_packet_unref_def shared_at_def c_assert_def dicey_shared_packet_is_valid_def
        dicey_packet_is_valid_def server2_def)
  have "dicey_server_raise_internal env server packet = and_then (raise_loop env server2 x descr (slots (sv_clients server2)))
      (\<lambda>server4. and_then (dicey_shared_packet_unref (se_ndebug env) server4 x) (\<lambda>server5. Ok (DICEY_OK, server5)))"
    using assms(2,6,9) ne format
    by (simp add: dicey_server_raise_internal_def dicey_shared_packet_from_def c_assert_def dicey_packet_is_valid_def
        dicey_shared_packet_borrow_def shared_at_def dicey_shared_packet_is_valid_def server_next_seq_def Let_def x_def server2_def)
  then show ?thesis
    using loop assms(6) unref same by (simp add: server2_def)
qed

text \<open>Each of the targets is reached once.\<close>

lemma signal_targets_enumerate:
  assumes "\<forall>n a. (n, Some a) \<in> set (enumerate k cells) \<longrightarrow> (\<exists>client. sv_data server a = Some client \<and> cd_id client = n)"
  shows "set (signal_targets env server descr p cells) =
    {n. \<exists>a client. (n, Some a) \<in> set (enumerate k cells) \<and> sv_data server a = Some client \<and> is_target env descr p client}"
  using assms
proof (induction cells arbitrary: k)
  case (Cons cell cells)
  have "set (signal_targets env server descr p cells) =
    {n. \<exists>a client. (n, Some a) \<in> set (enumerate (Suc k) cells) \<and> sv_data server a = Some client \<and> is_target env descr p client}"
    using Cons.prems by (intro Cons.IH) simp
  moreover have "\<exists>client. sv_data server a = Some client \<and> cd_id client = k" if "cell = Some a" for a
    using Cons.prems that by simp
  ultimately show ?case by (cases cell) auto
qed simp

lemma signal_targets_distinct:
  assumes "\<forall>n a. (n, Some a) \<in> set (enumerate k cells) \<longrightarrow> (\<exists>client. sv_data server a = Some client \<and> cd_id client = n)"
  shows "distinct (signal_targets env server descr p cells)"
  using assms
proof (induction cells arbitrary: k)
  case (Cons cell cells)
  have rest: "\<forall>n a. (n, Some a) \<in> set (enumerate (Suc k) cells) \<longrightarrow> (\<exists>client. sv_data server a = Some client \<and> cd_id client = n)"
    using Cons.prems by simp
  have "k \<notin> set (signal_targets env server descr p cells)"
    unfolding signal_targets_enumerate [OF rest] by (simp add: in_set_enumerate_eq)
  moreover have "\<exists>client. sv_data server a = Some client \<and> cd_id client = k" if "cell = Some a" for a
    using Cons.prems that by simp
  ultimately show ?case
    using Cons.IH [OF rest] by (cases cell) auto
qed simp

lemma in_slots: "(n, Some a) \<in> set (enumerate 0 (slots clients)) \<longleftrightarrow> dicey_client_list_get_client clients n = Some a"
  by (auto simp: in_set_enumerate_eq dicey_client_list_get_client_def)

end
