(* ===== verification/Dicey_Request_Facts.thy ===== *)
theory Dicey_Request_Facts
  imports Dicey_Request
begin

text \<open>
  Replying to a request: what the reply is, and that there is at most one.
\<close>

section \<open>The reply to a fresh request\<close>

lemma case_DICEY_OK: "(case err of DICEY_OK \<Rightarrow> x | _ \<Rightarrow> y) = (if err = DICEY_OK then x else y)"
  by (cases err) simp_all

lemma fresh_builder:
  "then_ok (dicey_message_builder_begin empty_builder_mem DICEY_OP_RESPONSE) (\<lambda>st.
   then_ok (dicey_message_builder_set_seq st seq) (\<lambda>st.
   then_ok (dicey_message_builder_set_path st path) (\<lambda>st.
     dicey_message_builder_set_selector st sel))) = Ok (DICEY_OK, addressed seq DICEY_OP_RESPONSE path sel)"
  by (simp add: then_ok_def builder_defs empty_builder_mem_def zero_message_builder_def addressed_def)

text \<open>The value is set in the builder that \<open>dicey_message_builder_value_start\<close> leaves.\<close>

lemma reply_value_set:
  assumes "\<forall>n. alloc n" "arg_type arg \<noteq> DICEY_TYPE_INVALID"
    and "dicey_message_builder_value_start alloc (addressed seq op path sel) 0 = Ok (DICEY_OK, st)"
  shows "\<exists>st1 st2. dicey_value_builder_set alloc st 0 arg = Ok (DICEY_OK, st1) \<and>
    dicey_message_builder_value_end st1 0 = Ok (DICEY_OK, st2) \<and>
    mb st2 = (mb (addressed seq op path sel))\<lparr>mb_root := Some 0\<rparr> \<and> blocks st2 0 = Some [Held arg]"
  using assms value_start_eq [of alloc seq op path sel 0] arg_dup_succeeds(1) [of alloc arg]
  by (auto simp: dicey_value_builder_set_def get_cell_def set_cell_def dicey_arg_free_contents_def set_vb_def
      dicey_message_builder_value_end_def set_mb_def addressed_def)

lemma reply_to_fresh:
  assumes "message_ok DICEY_OP_RESPONSE path sel (Some arg)" "\<forall>n. alloc n"
    and "rs_state req = DICEY_REQUEST_STATE_PENDING" "rs_builder req = addressed seq DICEY_OP_RESPONSE path sel"
  shows "\<exists>st. send_reply ndebug alloc send req q arg =
    and_then (send (rs_cln req) (enc_message DTF_PAYLOAD_RESPONSE seq path sel (body_of (Some arg))) q) (\<lambda>(err, q1).
      Ok (err, req\<lparr>rs_builder := st, rs_state :=
        (if err \<noteq> DICEY_OK then DICEY_REQUEST_STATE_ABORTED else DICEY_REQUEST_STATE_COMPLETED)\<rparr>, q1))"
proof -
  let ?st = "addressed seq DICEY_OP_RESPONSE path sel"
  have ty: "arg_type arg \<noteq> DICEY_TYPE_INVALID"
    using assms(1) arg_wf_type by (auto simp: message_ok_def)
  have vb: "set_vb ?st 0 zero_value_builder = ?st"
    by (simp add: set_vb_def addressed_def empty_builder_mem_def fun_upd_idem)
  obtain st where start: "dicey_message_builder_value_start alloc ?st 0 = Ok (DICEY_OK, st)"
    using value_start_eq [of alloc] assms(2) by blast
  obtain st1 st2 where vals: "dicey_value_builder_set alloc st 0 arg = Ok (DICEY_OK, st1)"
    "dicey_message_builder_value_end st1 0 = Ok (DICEY_OK, st2)"
    "mb st2 = (mb ?st)\<lparr>mb_root := Some 0\<rparr>" "blocks st2 0 = Some [Held arg]"
    using reply_value_set [OF assms(2) ty start] by blast
  obtain st3 where build: "dicey_message_builder_build alloc st2 =
      Ok (DICEY_OK, Some (enc_message DTF_PAYLOAD_RESPONSE seq path sel (body_of (Some arg))), st3)"
    using build_message [OF vals(3), of "Some arg" alloc] vals(4) assms(1,2) by auto
  have pending: "dicey_message_builder_is_pending ?st" "dicey_message_builder_is_pending st2"
    "\<not> dicey_value_builder_is_pending ?st 0"
    by (simp_all add: dicey_message_builder_is_pending_def vals(3) addressed_def dicey_value_builder_is_pending_def
        dicey_value_builder_is_list_def empty_builder_mem_def zero_value_builder_def)
  have "dicey_request_response_start ndebug alloc (req\<lparr>rs_builder := set_vb (rs_builder req) 0 zero_value_builder\<rparr>) 0 =
      Ok (DICEY_OK, req\<lparr>rs_builder := st, rs_state := DICEY_REQUEST_STATE_CONSTRUCTING\<rparr>)"
    using pending(1,3) start by (simp add: dicey_request_response_start_def assms(3,4) vb c_assert_def)
  then show ?thesis
    using vals(1,2) build pending(2)
    by (intro exI [of _ st3], cases "send (rs_cln req) (enc_message DTF_PAYLOAD_RESPONSE seq path sel (body_of (Some arg))) q")
       (auto simp: send_reply_def dicey_request_response_send_def finalize_request_def c_assert_def aborted_def Let_def)
qed

section \<open>At most one reply\<close>

text \<open>
  The calls user code makes on a request, with anything it does to the builders in between, and an outbox that takes
  the packets it accepts.
\<close>

datatype request_call =
  CallStart nat
| CallReset nat
| CallSend nat
| CallReply dicey_arg
| CallReplyExisting dicey_value
| CallBuild "builder_mem \<Rightarrow> builder_mem"

definition outbox :: "(dicey_packet \<Rightarrow> bool) \<Rightarrow> (nat \<times> dicey_packet) list send_fn" where
  "outbox accepts cln packet q =
     Ok (if accepts packet then (DICEY_OK, q @ [(cln, packet)]) else (DICEY_ENOMEM, q))"

fun request_do ::
  "bool \<Rightarrow> (nat \<Rightarrow> bool) \<Rightarrow> 'q send_fn \<Rightarrow> request_rest \<Rightarrow> 'q \<Rightarrow> request_call \<Rightarrow> (request_rest \<times> 'q) result"
where
  "request_do nd alloc send req q (CallStart v) =
     and_then (dicey_request_response_start nd alloc req v) (\<lambda>(_, req1). Ok (req1, q))"
| "request_do nd alloc send req q (CallReset v) =
     and_then (dicey_request_response_reset nd req v) (\<lambda>(_, req1). Ok (req1, q))"
| "request_do nd alloc send req q (CallSend v) =
     and_then (dicey_request_response_send nd alloc send req q v) (\<lambda>(_, req1, q1). Ok (req1, q1))"
| "request_do nd alloc send req q (CallReply arg) =
     and_then (send_reply nd alloc send req q arg) (\<lambda>(_, req1, q1). Ok (req1, q1))"
| "request_do nd alloc send req q (CallReplyExisting val) =
     and_then (reply_with_existing nd alloc send req q val) (\<lambda>(_, req1, q1). Ok (req1, q1))"
| "request_do nd alloc send req q (CallBuild f) = Ok (req\<lparr>rs_builder := f (rs_builder req)\<rparr>, q)"

fun request_run ::
  "bool \<Rightarrow> (nat \<Rightarrow> bool) \<Rightarrow> 'q send_fn \<Rightarrow> request_rest \<Rightarrow> 'q \<Rightarrow> request_call list \<Rightarrow> (request_rest \<times> 'q) result"
where
  "request_run nd alloc send req q [] = Ok (req, q)"
| "request_run nd alloc send req q (call # calls) =
     and_then (request_do nd alloc send req q call) (\<lambda>(req1, q1). request_run nd alloc send req1 q1 calls)"

definition replied_inv :: "request_rest \<times> (nat \<times> dicey_packet) list \<Rightarrow> bool" where
  "replied_inv s \<longleftrightarrow> snd s = [] \<or> (length (snd s) = 1 \<and> rs_state (fst s) = DICEY_REQUEST_STATE_COMPLETED)"

lemma finalize_replied:
  assumes "finalize_request nd alloc (outbox accepts) req q v = Ok (err, req1, q1)" "replied_inv (req, q)"
  shows "replied_inv (req1, q1)"
proof (cases "rs_state req = DICEY_REQUEST_STATE_CONSTRUCTING")
  case True
  then have q: "q = []"
    using assms(2) by (auto simp: replied_inv_def)
  obtain e1 st where fin: "dicey_message_builder_value_end (rs_builder req) v = Ok (e1, st)"
    using assms(1) True by (auto simp: finalize_request_def outcome_simps)
  show ?thesis
  proof (cases "e1 = DICEY_OK")
    case e1: True
    obtain e2 reply st1 where build: "dicey_message_builder_build alloc st = Ok (e2, reply, st1)"
      using assms(1) True fin e1 by (auto simp: finalize_request_def outcome_simps c_assert_def split: if_splits)
    show ?thesis
      using assms(1) True fin e1 build q
      by (cases "e2 = DICEY_OK"; cases reply)
         (auto simp: finalize_request_def c_assert_def case_DICEY_OK outbox_def replied_inv_def split: if_splits)
  next
    case False
    then show ?thesis
      using assms(1) True fin q by (simp add: finalize_request_def replied_inv_def)
  qed
qed (use assms in \<open>simp add: finalize_request_def\<close>)

lemma start_replied:
  assumes "dicey_request_response_start nd alloc req v = Ok (err, req1)" "replied_inv (req, q)"
  shows "replied_inv (req1, q)"
  using assms
  by (auto simp: dicey_request_response_start_def outcome_simps replied_inv_def c_assert_def split: if_splits)

lemma reset_replied:
  assumes "dicey_request_response_reset nd req v = Ok (err, req1)" "replied_inv (req, q)"
  shows "replied_inv (req1, q)"
  using assms
  by (auto simp: dicey_request_response_reset_def outcome_simps replied_inv_def c_assert_def split: if_splits)

lemma builder_replied: "replied_inv (req, q) \<Longrightarrow> replied_inv (req\<lparr>rs_builder := st\<rparr>, q)"
  by (simp add: replied_inv_def)

lemma send_reply_replied:
  assumes "send_reply nd alloc (outbox accepts) req q arg = Ok (err, req1, q1)" "replied_inv (req, q)"
  shows "replied_inv (req1, q1)"
proof -
  obtain err2 req2 where start: "dicey_request_response_start nd alloc
      (req\<lparr>rs_builder := set_vb (rs_builder req) 0 zero_value_builder\<rparr>) 0 = Ok (err2, req2)"
    using assms(1) by (auto simp: send_reply_def outcome_simps)
  have inv: "replied_inv (req2, q)"
    using start_replied [OF start builder_replied [OF assms(2)]] .
  show ?thesis
    using assms(1) start inv
    by (auto simp: send_reply_def outcome_simps Let_def dicey_request_response_send_def
        intro: finalize_replied reset_replied builder_replied split: if_splits)
qed

lemma request_do_replied:
  assumes "request_do nd alloc (outbox accepts) req q call = Ok (req1, q1)" "replied_inv (req, q)"
  shows "replied_inv (req1, q1)"
  using assms
  by (cases call)
     (auto simp: outcome_simps dicey_request_response_send_def reply_with_existing_def
       intro: finalize_replied start_replied reset_replied send_reply_replied builder_replied split: outcome.splits)

lemma request_run_replied:
  "request_run nd alloc (outbox accepts) req q calls = Ok (req1, q1) \<Longrightarrow> replied_inv (req, q) \<Longrightarrow> replied_inv (req1, q1)"
proof (induction calls arbitrary: req q)
  case (Cons call calls)
  then show ?case by (auto simp: outcome_simps dest: request_do_replied)
qed simp

end
