(* ===== verification/Server_Properties.thy ===== *)
theory Server_Properties
  imports Dicey_Server_Signals Dicey_Request_Facts Core_Properties Wire_Properties Registry_Properties Table_Properties Dicey_Pending_Facts
begin

text \<open>
  What the server guarantees to its clients and to user code, and where it fails.
\<close>

section \<open>A sample environment\<close>

definition sample_env :: "(nat \<Rightarrow> bool) \<Rightarrow> server_env" where
  "sample_env alloc =
     \<lparr>se_ndebug = False, se_alloc = alloc, se_rounds = 100, se_write = (\<lambda>_ _. DICEY_OK), se_on_request = None,
      se_introspection = (\<lambda>_ _ _ _ _ _. Undef)\<rparr>"

lemma sample_env_fields [simp]:
  "se_ndebug (sample_env alloc) = False" "se_alloc (sample_env alloc) = alloc" "se_rounds (sample_env alloc) = 100"
  "se_write (sample_env alloc) n p = DICEY_OK" "se_on_request (sample_env alloc) = None"
  by (simp_all add: sample_env_def)

lemma sample_env_ok: "(\<forall>n. alloc n \<longrightarrow> n < 2 ^ 62) \<Longrightarrow> env_ok (sample_env alloc)"
  by (simp add: env_ok_def keeps_client_id_def sample_env_def)

section \<open>Clients and shared packets\<close>

text \<open>
  C3: Whatever connects, reads, writes, closes and requests the loop of a server handles, a slot of the
  client list leads to a live client with that id, a client being closed is live and not in the list any
  more, no handle is closed twice, and the count of a shared packet is the number of writes in flight that
  carry it, so that the packet lives exactly as long as one of them does.
\<close>

theorem clients_and_packets_stay_alive:
  assumes "env_ok env" and "server_run env (started_server reg) steps = Ok server"
  shows "(\<forall>n a. dicey_client_list_get_client (sv_clients server) n = Some a \<longrightarrow>
      (\<exists>client. sv_data server a = Some client \<and> cd_id client = n)) \<and>
    distinct (sv_closing server) \<and>
    (\<forall>a \<in> set (sv_closing server). sv_data server a \<noteq> None \<and>
       (\<forall>n. dicey_client_list_get_client (sv_clients server) n \<noteq> Some a)) \<and>
    (\<forall>x. case sv_shared server x of
       None \<Rightarrow> shared_refs (sv_writes server) x = 0
     | Some pkt \<Rightarrow> sp_refc pkt = int (shared_refs (sv_writes server) x) \<and> 0 < shared_refs (sv_writes server) x)"
proof -
  have inv: "core_inv None server"
    using ensuresD [OF server_run_inv [OF assms(1) started_inv] assms(2)] .
  have clients: "clients_inv (sv_clients server) (client_ids server) (sv_closing server) (sv_next server)"
    using inv by (simp add: core_inv_def)
  have share: "share_ok False (shared_refs (sv_writes server) x) (sv_shared server x)" for x
    using inv by (simp add: core_inv_def shared_inv_def)
  have "case sv_shared server x of
       None \<Rightarrow> shared_refs (sv_writes server) x = 0
     | Some pkt \<Rightarrow> sp_refc pkt = int (shared_refs (sv_writes server) x) \<and> 0 < shared_refs (sv_writes server) x" for x
    using share [of x] by (cases "sv_shared server x") (simp_all add: share_ok_def)
  then show ?thesis
    using clients by (auto simp: clients_inv_def client_ids_def)
qed

theorem clients_and_packets_stay_alive_witness:
  "\<exists>server client. server_run (sample_env (\<lambda>n. n < 10000)) (started_server empty_registry)
      [StepConnect DICEY_OK True DICEY_OK None DICEY_OK] = Ok server \<and>
    dicey_client_list_get_client (sv_clients server) 0 = Some 0 \<and> sv_data server 0 = Some client \<and> cd_id client = 0"
proof -
  let ?env = "sample_env (\<lambda>n. n < 10000)"
  have "\<exists>server. server_run ?env (started_server empty_registry) [StepConnect DICEY_OK True DICEY_OK None DICEY_OK] = Ok server \<and>
    dicey_client_list_get_client (sv_clients server) 0 = Some 0"
    by (simp add: on_connect_def server_new_peer_def dicey_server_reserve_id_def started_server_def
        dicey_client_list_new_bucket_def slots_def client_list_grow_def CLIENTS_BASE_CAP_def PTRDIFF_MAX_def
        dicey_client_data_new_def sizeof_client_data_def Let_def fill_slot_def dicey_client_list_get_client_def)
  then obtain server where run: "server_run ?env (started_server empty_registry)
      [StepConnect DICEY_OK True DICEY_OK None DICEY_OK] = Ok server" "dicey_client_list_get_client (sv_clients server) 0 = Some 0"
    by blast
  have "env_ok ?env" by (rule sample_env_ok) auto
  from clients_and_packets_stay_alive [OF this run(1)] run show ?thesis by blast
qed

section \<open>Replies\<close>

text \<open>
  C31: However user code uses a request (building a response, starting over, sending, replying at once, and
  anything it does to the builders in between), at most one response leaves it, and once one has left the
  request is complete.
\<close>

theorem a_request_is_answered_at_most_once:
  assumes "request_run ndebug alloc (outbox accepts) req [] calls = Ok (req1, sent)"
  shows "length sent \<le> 1 \<and> (sent \<noteq> [] \<longrightarrow> rs_state req1 = DICEY_REQUEST_STATE_COMPLETED)"
proof -
  have "replied_inv (req1, sent)"
    by (rule request_run_replied [OF assms]) (simp add: replied_inv_def)
  then show ?thesis by (auto simp: replied_inv_def)
qed

text \<open>A request for \<open>/a\<close>, with its response builder.\<close>

definition sample_rest :: request_rest where
  "sample_rest = \<lparr>rs_cln = 3, rs_state = DICEY_REQUEST_STATE_PENDING, rs_packet = [], rs_real_path = sample_path,
     rs_builder = addressed 4 DICEY_OP_RESPONSE sample_path sample_selector, rs_signature = cs ''$ -> $''\<rparr>"

lemma sample_unit [simp]: "message_ok DICEY_OP_RESPONSE sample_path sample_selector (Some ArgUnit)"
  by (simp add: message_ok_def dicey_op_is_valid_def dicey_op_requires_payload_def body_of_def enc_variant_def Let_def)

lemma sample_reply:
  "\<exists>st. send_reply False (\<lambda>_. True) (outbox accepts) sample_rest q ArgUnit =
     Ok (if accepts (enc_message DTF_PAYLOAD_RESPONSE 4 sample_path sample_selector (body_of (Some ArgUnit)))
         then (DICEY_OK, sample_rest\<lparr>rs_builder := st, rs_state := DICEY_REQUEST_STATE_COMPLETED\<rparr>,
               q @ [(3, enc_message DTF_PAYLOAD_RESPONSE 4 sample_path sample_selector (body_of (Some ArgUnit)))])
         else (DICEY_ENOMEM, sample_rest\<lparr>rs_builder := st, rs_state := DICEY_REQUEST_STATE_ABORTED\<rparr>, q))"
  using reply_to_fresh [OF sample_unit, of "\<lambda>_. True" sample_rest 4 False "outbox accepts" q]
  by (auto simp: sample_rest_def outbox_def)

theorem a_request_is_answered_at_most_once_witness:
  "\<exists>req1 sent. request_run False (\<lambda>_. True) (outbox (\<lambda>_. True)) sample_rest [] [CallReply ArgUnit, CallReply ArgUnit] =
      Ok (req1, sent) \<and> length sent \<le> 1 \<and> sent \<noteq> [] \<and> rs_state req1 = DICEY_REQUEST_STATE_COMPLETED"
proof -
  obtain st where first: "send_reply False (\<lambda>_. True) (outbox (\<lambda>_. True)) sample_rest [] ArgUnit =
      Ok (DICEY_OK, sample_rest\<lparr>rs_builder := st, rs_state := DICEY_REQUEST_STATE_COMPLETED\<rparr>,
        [(3, enc_message DTF_PAYLOAD_RESPONSE 4 sample_path sample_selector (body_of (Some ArgUnit)))])"
    using sample_reply [of "\<lambda>_. True" "[]"] by auto
  then obtain req1 sent where run: "request_run False (\<lambda>_. True) (outbox (\<lambda>_. True)) sample_rest [] [CallReply ArgUnit, CallReply ArgUnit] =
      Ok (req1, sent)" "sent \<noteq> []"
    by (simp add: send_reply_def [of _ _ _ "sample_rest\<lparr>rs_builder := st, rs_state := s\<rparr>" for s] dicey_request_response_start_def)
  from a_request_is_answered_at_most_once [OF run(1)] run show ?thesis by blast
qed

text \<open>
  C12: The reply to a request that was made from a packet is addressed to the client that sent it and is the
  response with the sequence number, the path and the selector of the request and the value given; the client
  decodes it to exactly that.  The request is complete when the response could be handed over and aborted
  otherwise.
\<close>

theorem replies_answer_their_request:
  assumes "dicey_server_request_for ndebug reg cln packet = Ok req" and "rq_rest req = Some rest"
    and "dicey_packet_as_message packet = Ok msg"
    and "message_ok DICEY_OP_RESPONSE (msg_path msg) (msg_selector msg) (Some arg)" and "\<forall>n. alloc n"
  shows "\<exists>reply. dicey_packet_get_seq reply = dicey_packet_get_seq packet \<and>
    dicey_packet_as_message reply = Ok (message_of DICEY_OP_RESPONSE (msg_path msg) (msg_selector msg) (Some arg)) \<and>
    (\<exists>st. send_reply ndebug alloc send rest q arg = and_then (send cln reply q) (\<lambda>(err, q1).
      Ok (err, rest\<lparr>rs_builder := st, rs_state :=
        (if err \<noteq> DICEY_OK then DICEY_REQUEST_STATE_ABORTED else DICEY_REQUEST_STATE_COMPLETED)\<rparr>, q1)))"
proof -
  obtain seq where made: "dicey_packet_get_seq packet = Ok seq" "rs_state rest = DICEY_REQUEST_STATE_PENDING"
    "rs_builder rest = addressed seq DICEY_OP_RESPONSE (msg_path msg) (msg_selector msg)" "rs_cln rest = cln"
    using assms(1-3) unfolding dicey_server_request_for_def fresh_builder
    by (auto simp: outcome_simps split: option.splits)
  let ?reply = "enc_message DTF_PAYLOAD_RESPONSE seq (msg_path msg) (msg_selector msg) (body_of (Some arg))"
  show ?thesis
    using as_message_enc [OF assms(4), of seq] reply_to_fresh [OF assms(4,5) made(2,3), of ndebug send q] made(1,4)
    by (intro exI [of _ ?reply] conjI) (simp_all add: dicey_packet_get_seq_def)
qed

text \<open>A registry that has one object at a path, with one trait of one element.\<close>

lemma single_table: "\<exists>t. objects_ok t \<and> t \<noteq> None \<and> objects t = [k \<mapsto> v]"
proof -
  obtain t where t: "set_object (\<lambda>_. True) None k v = Ok (DICEY_HASH_SET_ADDED, t)"
    using store_has_room [of None k "\<lambda>_. True" 0 v] by auto
  have "objects_ok t" "objects t = [k \<mapsto> v]"
    using ht.store_OkD(1,2) [OF _ t] by (simp_all add: fun_eq_iff)
  moreover have "t \<noteq> None"
    using fun_cong [OF calculation(2), of k] by (cases t) (simp_all add: objects_def)
  ultimately show ?thesis by blast
qed

lemma served_registry:
  assumes "path_is_valid p" "e \<noteq> []" "element_ok el"
  obtains reg where "registry_inv reg" "dicey_registry_get_element False reg p t e = Ok (Some el)"
    "dicey_registry_get_main_path False reg p = Ok (Key p)"
proof -
  obtain paths where paths: "objects_ok paths" "objects paths = [p \<mapsto> (0 :: nat)]"
    using single_table [of p "0 :: nat"] by blast
  obtain traits where traits: "objects_ok traits" "objects traits = [t \<mapsto> (1 :: nat)]"
    using single_table [of t "1 :: nat"] by blast
  obtain elems where elems: "objects_ok elems" "objects elems = [e \<mapsto> el]"
    using single_table [of e el] by blast
  obtain names :: dicey_hashset where names: "objects_ok names" "names \<noteq> None" "objects names = [t \<mapsto> ()]"
    using single_table [of t "()"] by blast
  let ?ob = "\<lparr>ob_traits = names, ob_main_path = Key p, ob_aliases = None, ob_cached_xml = None, ob_refcount = 1\<rparr>"
  define reg where "reg = empty_registry\<lparr>rg_paths := paths, rg_traits := traits, rg_next := 2,
    rg_objects := [0 \<mapsto> ?ob], rg_trait_mem := [1 \<mapsto> \<lparr>trait_name = t, trait_elems = elems\<rparr>]\<rparr>"
  have map: "paths_map reg = [p \<mapsto> 0]" "rg_objects reg 0 = Some ?ob" "objects (rg_traits reg) t = Some 1"
    "rg_trait_mem reg 1 = Some \<lparr>trait_name = t, trait_elems = elems\<rparr>"
    using paths(2) traits(2) by (simp_all add: reg_def)
  have of: "paths_of reg 0 = {p}" "o1 \<noteq> 0 \<Longrightarrow> paths_of reg o1 = {}" for o1
    using map(1) by (auto simp: paths_of_def split: if_splits)
  have "object_inv reg 0 ?ob"
    using names of(1) by (simp add: object_inv_def members_def fun_eq_iff objects_def [of None])
  then have "live reg o1" for o1
    using of(2) [of o1] map(2) by (cases "o1 = 0") (simp_all add: live_def)
  moreover have "traits_inv reg"
    using traits elems assms(3) by (auto simp: traits_inv_def trait_ok_def reg_def split: if_splits)
  then have "base_inv reg"
    using paths assms(1) map(1) by (auto simp: base_inv_def reg_def empty_registry_def split: if_splits)
  ultimately have inv: "registry_inv reg" by (simp add: registry_inv_def)
  have "element_of reg p t e = Some el"
    using map names(3) elems(2) by (simp add: element_of_def members_def)
  then have "dicey_registry_get_element False reg p t e = Ok (Some el)"
    using element_entry_spec [OF inv assms(2)] by (simp add: dicey_registry_get_element_def)
  moreover have "dicey_registry_get_main_path False reg p = Ok (Key p)"
    using get_main_path_inv [OF inv] map by simp
  ultimately show thesis using inv that by blast
qed

lemma sample_get [simp]: "message_ok DICEY_OP_GET sample_path sample_selector None"
  by (simp add: message_ok_def dicey_op_is_valid_def dicey_op_requires_payload_def body_of_def)

definition sample_element :: dicey_element where
  "sample_element = \<lparr>el_type = DICEY_ELEMENT_TYPE_PROPERTY, el_signature = cs ''$'', el_flags = 0, el_tag = 0\<rparr>"

lemma sample_element_ok: "element_ok sample_element"
proof -
  have "el_signature sample_element = td_str (TdType DICEY_TYPE_UNIT)"
    by (simp add: sample_element_def cs_def type_id_def)
  moreover have "td_wf (TdType DICEY_TYPE_UNIT)" by (simp add: dicey_type_is_container_def)
  ultimately show ?thesis
    using word_parses [of "TdType DICEY_TYPE_UNIT"] by (simp add: element_ok_def is_functional_def sample_element_def)
qed

theorem replies_answer_their_request_witness:
  "\<exists>reg req rest reply st. dicey_server_request_for False reg 3 (enc_message DTF_PAYLOAD_GET 4 sample_path sample_selector []) = Ok req \<and>
    rq_rest req = Some rest \<and> dicey_packet_get_seq reply = Ok 4 \<and>
    dicey_packet_as_message reply = Ok (message_of DICEY_OP_RESPONSE sample_path sample_selector (Some ArgUnit)) \<and>
    send_reply False (\<lambda>_. True) (outbox (\<lambda>_. True)) rest [] ArgUnit =
      Ok (DICEY_OK, rest\<lparr>rs_builder := st, rs_state := DICEY_REQUEST_STATE_COMPLETED\<rparr>, [(3, reply)])"
proof -
  let ?p = "enc_message DTF_PAYLOAD_GET 4 sample_path sample_selector []"
  have "path_is_valid sample_path" "cs ''e'' \<noteq> []"
    by (simp_all add: path_is_valid_def sample_path_def cs_def)
  then obtain reg where reg: "dicey_registry_get_element False reg sample_path (cs ''t'') (cs ''e'') = Ok (Some sample_element)"
    "dicey_registry_get_main_path False reg sample_path = Ok (Key sample_path)"
    by (rule served_registry [OF _ _ sample_element_ok, of sample_path "cs ''e''" "cs ''t''"])
  have msg: "dicey_packet_as_message ?p = Ok (message_of DICEY_OP_GET sample_path sample_selector None)"
    using as_message_enc [OF sample_get, of 4] by (simp add: body_of_def)
  obtain req rest where req: "dicey_server_request_for False reg 3 ?p = Ok req" "rq_rest req = Some rest"
    using msg reg unfolding dicey_server_request_for_def fresh_builder
    by (simp add: dicey_packet_get_seq_def message_of_def sample_selector_def sel_strings_def key_str_def)
  from replies_answer_their_request [OF req msg, of ArgUnit "\<lambda>_. True" "outbox (\<lambda>_. True)" "[]"]
  obtain reply st where "dicey_packet_get_seq reply = Ok 4"
    "dicey_packet_as_message reply = Ok (message_of DICEY_OP_RESPONSE sample_path sample_selector (Some ArgUnit))"
    "send_reply False (\<lambda>_. True) (outbox (\<lambda>_. True)) rest [] ArgUnit =
      Ok (DICEY_OK, rest\<lparr>rs_builder := st, rs_state := DICEY_REQUEST_STATE_COMPLETED\<rparr>, [(3, reply)])"
    by (auto simp: message_of_def outbox_def dicey_packet_get_seq_def)
  with req show ?thesis by blast
qed


text \<open>One operation is pending, with its number 2.\<close>

definition sample_pending :: "request_rest dicey_pending_requests" where
  "sample_pending = \<lparr>pr_last_seq = 2, pr_start = 0, pr_end = 1, pr_len = 1, pr_cap = 12, pr_reqs =
     \<lparr>rq_packet_seq = 2, rq_op = DICEY_OP_EXEC, rq_message = Some (message_of DICEY_OP_EXEC sample_path sample_selector (Some ArgUnit)),
      rq_rest = Some sample_rest\<rparr> # replicate 11 zero_request\<rparr>"

lemma sample_pending_facts:
  "total_len sample_pending = 1" "request_at sample_pending 0 = pr_reqs sample_pending ! 0" "pending_inv sample_pending"
  "pending_request_is_valid (request_at sample_pending 0)"
proof -
  show t: "total_len sample_pending = 1" and r: "request_at sample_pending 0 = pr_reqs sample_pending ! 0"
    by (simp_all add: sample_pending_def total_len_def request_at_def index_of_def)
  have w: "window sample_pending = [pr_reqs sample_pending ! 0]"
    using r by (simp add: window_def t)
  show "pending_inv sample_pending"
    by (simp add: pending_inv_def w ring_ok_def) (simp add: sample_pending_def is_hole_def)
  show "pending_request_is_valid (request_at sample_pending 0)"
    unfolding r
    by (simp add: sample_pending_def pending_request_is_valid_def dicey_selector_is_valid_def message_of_def sample_selector_def)
qed

definition sample_waiting :: dicey_server where
  "sample_waiting = (started_server empty_registry)\<lparr>
     sv_data := [7 \<mapsto> (dicey_client_data_init 3)\<lparr>cd_pending := Some sample_pending\<rparr>]\<rparr>"


section \<open>Signals\<close>

text \<open>
  C9: While memory lasts, a signal is handed to the pipe of each client that subscribed to its element, once and
  whatever else the client does, and to nobody else.  It carries the next number of the server, and the shared packet
  counts its writes; it is released at once if nobody is to get it.
\<close>

theorem signals_reach_exactly_the_subscribers:
  assumes "dicey_packet_as_message packet = Ok msg" and "msg_selector msg = \<lparr>sel_trait = Some trait, sel_elem = Some elem\<rparr>"
    and "descr = element_descriptor (msg_path msg) trait elem" and "se_ndebug env \<or> length descr > 5" and "\<forall>n. se_alloc env n"
    and "length packet \<le> UINT32_MAX"
    and "\<forall>n a. dicey_client_list_get_client (sv_clients server) n = Some a \<longrightarrow>
      (\<exists>client. sv_data server a = Some client \<and> cd_id client = n \<and> objects_ok (cd_subscriptions client))"
    and "dicey_packet_set_seq packet (sv_seq_cnt server) = Ok numbered"
  shows "\<exists>targets server1. dicey_server_raise_internal env server packet = Ok (DICEY_OK, server1) \<and>
    sv_writes server1 = sv_writes server @ map (\<lambda>n. \<lparr>wr_client = n, wr_packet = OutShared (sv_next server)\<rparr>) targets \<and>
    distinct targets \<and>
    (\<forall>n. n \<in> set targets \<longleftrightarrow> (\<exists>a client. dicey_client_list_get_client (sv_clients server) n = Some a \<and>
       sv_data server a = Some client \<and> descr \<in> members (cd_subscriptions client) \<and> se_write env n numbered = DICEY_OK)) \<and>
    sv_shared server1 = (sv_shared server)(sv_next server := if targets = [] then None
      else Some \<lparr>sp_refc = int (length targets), sp_packet = numbered\<rparr>) \<and>
    sv_seq_cnt server1 = sv_seq_cnt server + 2"
proof -
  define targets where "targets = signal_targets env server descr numbered (slots (sv_clients server))"
  have ids: "\<forall>n a. (n, Some a) \<in> set (enumerate 0 (slots (sv_clients server))) \<longrightarrow>
      (\<exists>client. sv_data server a = Some client \<and> cd_id client = n)"
    using assms(7) unfolding in_slots by blast
  have "Some a \<in> set (slots (sv_clients server)) \<Longrightarrow> \<exists>n. dicey_client_list_get_client (sv_clients server) n = Some a" for a
    by (auto simp: in_set_conv_nth dicey_client_list_get_client_def)
  then have subs: "subscriptions_ok server (slots (sv_clients server))"
    using assms(7) unfolding subscriptions_ok_def by blast
  obtain server1 where raised: "dicey_server_raise_internal env server packet = Ok (DICEY_OK, server1)"
    "sv_writes server1 = sv_writes server @ map (signal_write (sv_next server)) targets"
    "sv_shared server1 = (sv_shared server)(sv_next server := if targets = [] then None
      else Some \<lparr>sp_refc = int (length targets), sp_packet = numbered\<rparr>)" "sv_seq_cnt server1 = sv_seq_cnt server + 2"
    using raise_internal_exact [OF assms(1-6) subs assms(8) targets_def] by blast
  have "n \<in> set targets \<longleftrightarrow> (\<exists>a client. dicey_client_list_get_client (sv_clients server) n = Some a \<and>
       sv_data server a = Some client \<and> descr \<in> members (cd_subscriptions client) \<and> se_write env n numbered = DICEY_OK)" for n
    unfolding targets_def signal_targets_enumerate [OF ids] in_slots is_target_def mem_Collect_eq
    using assms(7) by fastforce
  moreover have "distinct targets"
    unfolding targets_def using ids by (rule signal_targets_distinct)
  moreover have "signal_write (sv_next server) = (\<lambda>n. \<lparr>wr_client = n, wr_packet = OutShared (sv_next server)\<rparr>)"
    by (simp add: fun_eq_iff signal_write_def)
  ultimately show ?thesis
    using raised by metis
qed

lemma sample_signal [simp]: "message_ok DICEY_OP_SIGNAL sample_path sample_selector (Some ArgUnit)"
  by (simp add: message_ok_def dicey_op_is_valid_def dicey_op_requires_payload_def body_of_def enc_variant_def Let_def)

text \<open>Two clients, of which the second subscribed.\<close>

definition two_clients :: "dicey_hashset \<Rightarrow> dicey_server" where
  "two_clients subs = (started_server empty_registry)\<lparr>sv_clients := Some [Some 7, Some 8], sv_next := 9,
     sv_data := [7 \<mapsto> dicey_client_data_init 0, 8 \<mapsto> (dicey_client_data_init 1)\<lparr>cd_subscriptions := subs\<rparr>]\<rparr>"

lemma two_clients_slots:
  "dicey_client_list_get_client (sv_clients (two_clients subs)) n = (if n = 0 then Some 7 else if n = 1 then Some 8 else None)"
  by (auto simp: dicey_client_list_get_client_def two_clients_def slots_def less_Suc_eq nth_Cons split: nat.splits)

theorem signals_reach_exactly_the_subscribers_witness:
  "\<exists>subs server1. dicey_server_raise_internal (sample_env (\<lambda>_. True)) (two_clients subs)
      (enc_message DTF_PAYLOAD_EVENT 0 sample_path sample_selector (body_of (Some ArgUnit))) = Ok (DICEY_OK, server1) \<and>
    map wr_client (sv_writes server1) = [1]"
proof -
  let ?p = "enc_message DTF_PAYLOAD_EVENT 0 sample_path sample_selector (body_of (Some ArgUnit))"
  define descr where "descr = element_descriptor sample_path (cs ''t'') (cs ''e'')"
  obtain subs :: dicey_hashset where subs: "objects_ok subs" "objects subs = [descr \<mapsto> ()]"
    using single_table [of descr "()"] by blast
  have msg: "dicey_packet_as_message ?p = Ok (message_of DICEY_OP_SIGNAL sample_path sample_selector (Some ArgUnit))"
    using as_message_enc [OF sample_signal, of 0] by simp
  have len: "12 \<le> length ?p" using msg by (rule as_message_length)
  have small: "length ?p \<le> UINT32_MAX"
    by (simp add: length_enc_message body_of_def enc_variant_def Let_def)
       (simp add: sample_defs cs_def selector_bytes_def opt_str_def UINT32_MAX_def)
  have none: "members None = {}" by (auto simp: members_def objects_def)
  have data: "sv_data (two_clients subs) 7 = Some (dicey_client_data_init 0)"
    "sv_data (two_clients subs) 8 = Some ((dicey_client_data_init 1)\<lparr>cd_subscriptions := subs\<rparr>)"
    "sv_writes (two_clients subs) = []"
    by (simp_all add: two_clients_def started_server_def)
  have memory: "\<forall>n. se_alloc (sample_env (\<lambda>_. True)) n" by simp
  have len6: "length descr > 5" by (simp add: descr_def element_descriptor_def sample_path_def cs_def)
  have clients: "\<forall>n a. dicey_client_list_get_client (sv_clients (two_clients subs)) n = Some a \<longrightarrow>
      (\<exists>client. sv_data (two_clients subs) a = Some client \<and> cd_id client = n \<and> objects_ok (cd_subscriptions client))"
    using subs(1) unfolding two_clients_slots by (simp add: data dicey_client_data_init_def)
  have hit: "(\<exists>a client. dicey_client_list_get_client (sv_clients (two_clients subs)) n = Some a \<and>
      sv_data (two_clients subs) a = Some client \<and> descr \<in> members (cd_subscriptions client) \<and>
      se_write (sample_env (\<lambda>_. True)) n q = DICEY_OK) \<longleftrightarrow> n = 1" for n q
    using subs(2) unfolding two_clients_slots
    by (cases "n = 0"; cases "n = 1") (simp_all add: data dicey_client_data_init_def none members_def [of subs])
  have sel: "msg_selector (message_of DICEY_OP_SIGNAL sample_path sample_selector (Some ArgUnit)) =
      \<lparr>sel_trait = Some (cs ''t''), sel_elem = Some (cs ''e'')\<rparr>"
    "descr = element_descriptor (msg_path (message_of DICEY_OP_SIGNAL sample_path sample_selector (Some ArgUnit))) (cs ''t'') (cs ''e'')"
    by (simp_all add: message_of_def sample_selector_def descr_def)
  obtain targets server1 where r: "dicey_server_raise_internal (sample_env (\<lambda>_. True)) (two_clients subs) ?p = Ok (DICEY_OK, server1)"
    "sv_writes server1 = map (\<lambda>n. \<lparr>wr_client = n, wr_packet = OutShared (sv_next (two_clients subs))\<rparr>) targets" "distinct targets"
    "\<forall>n. n \<in> set targets \<longleftrightarrow> n = 1"
    using signals_reach_exactly_the_subscribers [OF msg sel disjI2 [OF len6] memory small clients set_seq_eq [OF len],
        unfolded hit data append_Nil]
    by blast
  have "set targets = {1}" using r(4) by blast
  then have "targets = [1]"
    using r(3) by (cases targets) (auto simp: subset_singleton_iff)
  with r(1,2) show ?thesis by (intro exI [of _ subs] exI [of _ server1]) simp
qed

section \<open>Where the server fails\<close>

lemma kicked_is_dead:
  assumes "dicey_server_client_raised_error env server a err = Ok (e, server1)"
  shows "\<exists>client. sv_data server1 a = Some client \<and> cd_state client = CLIENT_DATA_STATE_DEAD"
proof -
  obtain client client1 where client: "sv_data server a = Some client"
    "dicey_client_data_set_state (se_ndebug env) client CLIENT_DATA_STATE_DEAD = Ok client1"
    "server_kick_client env (record_event (put_client server a client1) (OnError err (Some (cd_id client)))) (Some a)
       DICEY_BYE_REASON_ERROR = Ok (e, server1)"
    using assms by (auto simp: dicey_server_client_raised_error_def outcome_simps)
  have "sv_data server1 = (sv_data server)(a \<mapsto> client1)"
    using ensuresD [OF kick_client_same client(3)] by (simp add: same_clients_def)
  moreover have "cd_state client1 = CLIENT_DATA_STATE_DEAD"
    using client(2) by (auto simp: dicey_client_data_set_state_def c_assert_def split: if_splits)
  ultimately show ?thesis by simp
qed

lemma dead_client_undefined:
  assumes "sv_data server a = Some client" "cd_state client = CLIENT_DATA_STATE_DEAD" "\<not> se_ndebug env"
  shows "dicey_server_client_raised_error env server a err = Undef" "dicey_client_data_set_state (se_ndebug env) client st = Undef"
  using assms by (simp_all add: dicey_server_client_raised_error_def client_at_def dicey_client_data_set_state_def c_assert_def)

lemma dead_client_messages:
  assumes "sv_data server a = Some client" "cd_state client = CLIENT_DATA_STATE_DEAD"
  shows "client_got_message env server a packet \<in> {Undef, Ok (Inl DICEY_EINVAL, server)}"
  using assms by (auto simp: client_got_message_def client_at_def split: outcome.split)

lemma dead_client_bye:
  assumes "sv_data server a = Some client" "cd_state client = CLIENT_DATA_STATE_DEAD"
  shows "client_got_bye server a = Undef \<or>
    (\<exists>server1. client_got_bye server a = Ok (Inr CLIENT_DATA_STATE_DEAD, server1) \<and> sv_data server1 a = Some client)"
  using assms
  by (auto simp: client_got_bye_def client_at_def dicey_server_remove_client_def dicey_server_release_id_def
      dicey_client_list_drop_client_def outcome_simps split: option.split outcome.split)

text \<open>
  C40: Once an error of a client was reported, the next packet of that client stops a build with assertions: the
  client is dead by then, and its state is set again whatever the packet is.
\<close>

theorem kicked_client_aborts_the_server:
  assumes "dicey_server_client_raised_error env server a err = Ok (e, server1)" and "\<not> se_ndebug env"
    and "dicey_packet_load fuel alloc (Some bytes) = Some (Ok (packet, rest))"
  shows "client_got_packet env server1 a packet = Undef"
proof -
  obtain client where client: "sv_data server1 a = Some client" "cd_state client = CLIENT_DATA_STATE_DEAD"
    using kicked_is_dead [OF assms(1)] by blast
  note dead = dead_client_undefined [OF client assms(2)]
  have len: "12 \<le> length packet"
    using packet_load_OkD(2) [OF assms(3)] by (simp add: payload_ok_def)
  obtain kind where kind: "dicey_packet_get_kind packet = Ok kind" using get_kind_payload [OF len] by blast
  have hello: "client_got_hello env server1 a seq version = Ok (Inl DICEY_EINVAL, server1)" for seq version
    using client by (simp add: client_got_hello_def client_at_def)
  show ?thesis
  proof (cases kind)
    case DICEY_PACKET_KIND_HELLO
    then show ?thesis
      using kind dead(1) hello
      by (cases "dicey_packet_get_seq packet"; cases "dicey_packet_as_hello packet")
         (simp_all add: client_got_packet_def c_assert_def DICEY_ASSUME_def)
  next
    case DICEY_PACKET_KIND_BYE
    then show ?thesis
      using kind dead dead_client_bye [OF client]
      by (cases "dicey_packet_as_bye packet")
         (auto simp: client_got_packet_def c_assert_def DICEY_ASSUME_def client_at_def)
  next
    case DICEY_PACKET_KIND_MESSAGE
    then show ?thesis
      using kind dead(1) dead_client_messages [OF client, of env packet] by (auto simp: client_got_packet_def c_assert_def)
  qed (use kind in \<open>simp_all add: client_got_packet_def c_assert_def\<close>)
qed

lemma message_header_nonempty: "message_header k seq n \<noteq> []"
  by (simp flip: length_greater_0_conv)

theorem kicked_client_aborts_the_server_witness:
  "\<exists>e server1. dicey_server_client_raised_error (sample_env (\<lambda>_. True)) (two_clients None) 7 DICEY_EBADMSG = Ok (e, server1) \<and>
    client_got_packet (sample_env (\<lambda>_. True)) server1 7
      (enc_message DTF_PAYLOAD_SET 4 sample_path sample_selector (enc_variant sample_arg)) = Undef"
proof -
  have made: "\<exists>e server1. dicey_server_client_raised_error (sample_env (\<lambda>_. True)) (two_clients None) 7 DICEY_EBADMSG = Ok (e, server1)"
    by (simp add: dicey_server_client_raised_error_def client_at_def two_clients_def dicey_client_data_init_def
        dicey_client_data_set_state_def c_assert_def server_kick_client_def server_next_seq_def send_made_def packet_bye_eq
        server_sendpkt_def outbound_packet_is_valid_def outbound_packet_borrow_def dicey_packet_is_valid_def UINT32_MAX_def Let_def
        message_header_nonempty put_client_def record_event_def)
  then obtain e server1 where kicked:
    "dicey_server_client_raised_error (sample_env (\<lambda>_. True)) (two_clients None) 7 DICEY_EBADMSG = Ok (e, server1)"
    by blast
  from kicked_client_aborts_the_server [OF this _ sample_packet_load] this show ?thesis
    by simp
qed

lemma alias_again:
  assumes inv: "registry_inv reg" and "paths_map reg path = Some o1" "paths_map reg al = Some o1" "path \<noteq> al"
    and "rg_objects reg o1 = Some ob" "ob_main_path ob = Key main" "al \<noteq> main"
  shows "dicey_registry_alias_object ndebug alloc reg path al = Ok (DICEY_EEXIST, reg)"
  using assms registry_invD [OF inv] get_main_path_inv [OF inv, of ndebug al]
  by (simp add: dicey_registry_alias_object_def lookup_objects key_str_def obj_at_def)

lemma add_alias_again:
  assumes "dicey_registry_alias_object ndebug alloc reg path al = Ok (DICEY_EEXIST, reg)"
  shows "add_aliases_loop n ndebug alloc reg path (al # als) inserted = Ok None"
  using assms by (induction n) simp_all



lemma send_puts_client:
  assumes "cd_id cl = cd_id cl0"
  shows "send_made env (put_client server a cl) (Some a) made =
    and_then (send_made env (put_client server a cl0) (Some a) made) (\<lambda>(err, s). Ok (err, put_client s a cl))"
  using assms
  by (cases made) (simp_all add: send_made_def server_sendpkt_def outbound_packet_is_valid_def outbound_packet_borrow_def
      client_at_def c_assert_def put_client_def Let_def)

lemma put_client_fields:
  "record_event (put_client server a cl) e = put_client (record_event server e) a cl"
  "(put_client server a cl)\<lparr>sv_seq_cnt := n\<rparr> = put_client (server\<lparr>sv_seq_cnt := n\<rparr>) a cl"
  "sv_seq_cnt (put_client server a cl) = sv_seq_cnt server" "put_client (put_client server a cl) a cl1 = put_client server a cl1"
  "client_at (put_client server a cl) a = Ok cl"
  by (simp_all add: record_event_def put_client_def client_at_def)

text \<open>The chunk is emptied last, so only its capacity is left of it.\<close>

definition cleared :: "nat \<Rightarrow> server_result \<Rightarrow> dicey_server result" where
  "cleared a r = and_then r (\<lambda>(_, server1). and_then (client_at server1 a) (\<lambda>client.
     Ok (put_client server1 a (client\<lparr>cd_chunk := map_option dicey_chunk_clear (cd_chunk client)\<rparr>))))"

lemma cleared_put:
  assumes "dicey_chunk_clear c = dicey_chunk_clear c1"
  shows "cleared a (and_then r (\<lambda>(err, s). Ok (err, put_client s a (client\<lparr>cd_chunk := Some c\<rparr>)))) =
    cleared a (and_then r (\<lambda>(err, s). Ok (err, put_client s a (client\<lparr>cd_chunk := Some c1\<rparr>))))"
  using assms by (cases r) (auto simp: cleared_def put_client_fields)

lemma send_ignores_chunk:
  assumes "dicey_chunk_clear c = dicey_chunk_clear c1"
  shows "cleared a (send_made env (put_client server a (client\<lparr>cd_chunk := Some c\<rparr>)) (Some a) made) =
    cleared a (send_made env (put_client server a (client\<lparr>cd_chunk := Some c1\<rparr>)) (Some a) made)"
  using cleared_put [OF assms] send_puts_client [of "client\<lparr>cd_chunk := Some x\<rparr>" client for x] by simp

lemma set_state_last: "client\<lparr>cd_chunk := x, cd_state := st\<rparr> = client\<lparr>cd_state := st\<rparr>\<lparr>cd_chunk := x\<rparr>"
  by simp

lemma error_ignores_chunk:
  assumes "dicey_chunk_clear c = dicey_chunk_clear c1"
  shows "cleared a (dicey_server_client_raised_error env (put_client server a (client\<lparr>cd_chunk := Some c\<rparr>)) a err) =
    cleared a (dicey_server_client_raised_error env (put_client server a (client\<lparr>cd_chunk := Some c1\<rparr>)) a err)"
  by (simp add: dicey_server_client_raised_error_def dicey_client_data_set_state_def c_assert_def set_state_last put_client_fields
      server_kick_client_def server_next_seq_def send_ignores_chunk [OF assms])

text \<open>How \<open>client_got_packet\<close> ends: the client is thrown out, or gets its new state.\<close>

definition concluded :: "server_env \<Rightarrow> nat \<Rightarrow> handler_result \<Rightarrow> server_result" where
  "concluded env a r = and_then r (\<lambda>(res, server1).
     case res of
       Inl err \<Rightarrow> dicey_server_client_raised_error env server1 a err
     | Inr state \<Rightarrow>
         and_then (client_at server1 a) (\<lambda>client.
         and_then (dicey_client_data_set_state (se_ndebug env) client state) (\<lambda>client1.
           Ok (DICEY_OK, put_client server1 a client1))))"

lemma reply_ignores_chunk:
  assumes "dicey_chunk_clear c = dicey_chunk_clear c1"
  shows "cleared a (concluded env a (and_then r (\<lambda>(err, s).
      Ok (outcome_of err state, put_client s a (client\<lparr>cd_chunk := Some c\<rparr>))))) =
    cleared a (concluded env a (and_then r (\<lambda>(err, s).
      Ok (outcome_of err state, put_client s a (client\<lparr>cd_chunk := Some c1\<rparr>)))))"
  using assms error_ignores_chunk [OF assms]
  by (cases r) (auto simp: concluded_def outcome_of_def put_client_fields dicey_client_data_set_state_def c_assert_def cleared_def)

lemma hello_ignores_chunk:
  assumes "dicey_packet_get_kind p = Ok DICEY_PACKET_KIND_HELLO" "dicey_chunk_clear c = dicey_chunk_clear c1"
  shows "cleared a (client_got_packet env (put_client server a (client\<lparr>cd_chunk := Some c\<rparr>)) a p) =
    cleared a (client_got_packet env (put_client server a (client\<lparr>cd_chunk := Some c1\<rparr>)) a p)"
proof -
  have got: "client_got_packet env s a p = c_assert (se_ndebug env) (dicey_packet_is_valid p)
      (case dicey_packet_get_seq p of
         Undef \<Rightarrow> Undef
       | Err e \<Rightarrow> dicey_server_client_raised_error env s a e
       | Ok seq \<Rightarrow> and_then (DICEY_ASSUME (dicey_packet_as_hello p)) (\<lambda>version.
           concluded env a (client_got_hello env s a seq version)))" for s
    using assms(1)
    by (cases "dicey_packet_get_seq p"; cases "DICEY_ASSUME (dicey_packet_as_hello p)")
       (simp_all add: client_got_packet_def concluded_def)
  have hello: "cleared a (concluded env a (client_got_hello env (put_client server a (client\<lparr>cd_chunk := Some c\<rparr>)) a seq version)) =
      cleared a (concluded env a (client_got_hello env (put_client server a (client\<lparr>cd_chunk := Some c1\<rparr>)) a seq version))" for seq version
  proof -
    have err: "cleared a (concluded env a (Ok (Inl e, put_client s a (client\<lparr>cd_chunk := Some c\<rparr>)))) =
        cleared a (concluded env a (Ok (Inl e, put_client s a (client\<lparr>cd_chunk := Some c1\<rparr>))))" for e s
      using error_ignores_chunk [OF assms(2)] by (simp add: concluded_def)
    let ?send = "send_made env (put_client server a client) (Some a)"
    have made: "and_then (send_made env (put_client server a (client\<lparr>cd_chunk := Some x\<rparr>)) (Some a)
          made) (\<lambda>(err, server1). Ok (outcome_of err CLIENT_DATA_STATE_RUNNING, server1)) =
        and_then (?send made) (\<lambda>(err, s). Ok (outcome_of err CLIENT_DATA_STATE_RUNNING, put_client s a (client\<lparr>cd_chunk := Some x\<rparr>)))" for x made
      using send_puts_client [of "client\<lparr>cd_chunk := Some x\<rparr>" client] by (cases "?send made") auto
    show ?thesis
      by (simp add: client_got_hello_def put_client_fields made err reply_ignores_chunk [OF assms(2)])
  qed
  show ?thesis
    unfolding got using error_ignores_chunk [OF assms(2)] hello
    by (cases "dicey_packet_get_seq p"; cases "DICEY_ASSUME (dicey_packet_as_hello p)")
       (simp_all add: c_assert_def cleared_def)
qed

text \<open>
  C38: Whatever a client sends right behind its greeting is lost when the server reads both at once: the read has
  exactly the effect that reading the greeting alone has.
\<close>

theorem bytes_after_the_greeting_are_lost:
  assumes "sv_data server a = Some client" and "cd_chunk client = Some chunk" and "ck_bytes chunk = []"
    and "dicey_packet_load (se_rounds env) (se_alloc env) (Some p) = Some (Ok (p, Some []))"
    and "dicey_packet_get_kind p = Ok DICEY_PACKET_KIND_HELLO"
  shows "on_read env server a (ReadBytes (p @ rest)) = on_read env server a (ReadBytes p)"
proof -
  have load: "dicey_packet_load (se_rounds env) (se_alloc env) (Some (p @ ys)) = Some (Ok (p, Some ys))" for ys
    using packet_load_intro packet_load_OkD(2-4) [OF assms(4)] by blast
  have clear: "dicey_chunk_clear (chunk\<lparr>ck_bytes := p @ rest\<rparr>) = dicey_chunk_clear (chunk\<lparr>ck_bytes := p\<rparr>)"
    by (simp add: dicey_chunk_clear_def)
  show ?thesis
    using assms(1-3) load [of rest] load [of "[]"] 
      hello_ignores_chunk [OF assms(5) clear, where server = server and a = a and client = client and env = env]
    by (simp add: on_read_def parse_chunk_def client_at_def [of server a] Let_def cleared_def)
qed

theorem bytes_after_the_greeting_are_lost_witness:
  "\<exists>p. dicey_packet_hello (\<lambda>_. True) 0 DICEY_PROTO_VERSION_CURRENT = Ok p \<and>
     on_read (sample_env (\<lambda>_. True)) ((two_clients None)\<lparr>sv_data := [7 \<mapsto>
         (dicey_client_data_init 0)\<lparr>cd_chunk := Some \<lparr>ck_cap = 256, ck_bytes = []\<rparr>\<rparr>]\<rparr>) 7 (ReadBytes (p @ p)) =
     on_read (sample_env (\<lambda>_. True)) ((two_clients None)\<lparr>sv_data := [7 \<mapsto>
         (dicey_client_data_init 0)\<lparr>cd_chunk := Some \<lparr>ck_cap = 256, ck_bytes = []\<rparr>\<rparr>]\<rparr>) 7 (ReadBytes p)"
proof -
  obtain p where p: "dicey_packet_hello (\<lambda>_. True) 0 DICEY_PROTO_VERSION_CURRENT = Ok p"
    "dicey_packet_load 100 (\<lambda>_. True) (Some (p @ [])) = Some (Ok (p, Some []))"
    "dicey_packet_as_hello p = Ok DICEY_PROTO_VERSION_CURRENT"
    using hello_bye_facts(1) [of "\<lambda>_. True" 0 DICEY_PROTO_VERSION_CURRENT 100 "[]"] by blast
  have kind: "dicey_packet_get_kind p = Ok DICEY_PACKET_KIND_HELLO"
    using p(1) packet_hello_eq [of "\<lambda>_. True"] by (auto simp: dicey_packet_get_kind_def)
  show ?thesis
    using bytes_after_the_greeting_are_lost [of _ 7 "(dicey_client_data_init 0)\<lparr>cd_chunk := Some \<lparr>ck_cap = 256, ck_bytes = []\<rparr>\<rparr>" _
        "sample_env (\<lambda>_. True)", OF _ _ _ _ kind, of "(two_clients None)\<lparr>sv_data := [7 \<mapsto>
         (dicey_client_data_init 0)\<lparr>cd_chunk := Some \<lparr>ck_cap = 256, ck_bytes = []\<rparr>\<rparr>]\<rparr>" "\<lparr>ck_cap = 256, ck_bytes = []\<rparr>" p] p(1,2)
    by simp
qed

end
