(* ===== verification/Spec2Isabelle.thy ===== *)
theory Spec2Isabelle
  imports Wire_Properties Core_Properties Builder_Properties Table_Properties Queue_Properties Task_Properties Pending_Properties Registry_Properties Server_Properties
begin

text \<open>
  A verification development for dicey, a message bus library in C: a wire format (DTF), a registry of objects with
  traits and elements, and an asynchronous server that lets clients get, set, execute and subscribe to elements.

  \<^bold>\<open>The program.\<close>  Values are encoded by \<^verbatim>\<open>src/wirefmt/dtf\<close> into payloads, which \<^verbatim>\<open>src/wirefmt\<close> wraps into
  packets: greetings, farewells and messages with an operation, a path, a selector and a value.  The server
  (\<^verbatim>\<open>src/ipc/server\<close>) reads packets from its clients into chunks, looks the element up in the registry, checks the
  value against the signature of the element, and either runs a builtin or hands a request to user code, which builds
  a response; other threads reach the loop through a queue of requests.  Signals are shared packets written to every
  subscriber.  The client runs its work as tasks on a loop of its own (\<^verbatim>\<open>src/ipc/tasks\<close>).

  \<^bold>\<open>How code is modelled.\<close>  A function of the source is a function of the same name.  Its result is \<open>Ok\<close>, \<open>Err\<close> (an error
  code) or \<open>Undef\<close>: a failed assertion, an access outside a buffer, a use of released memory.  Assertions depend on an
  argument \<open>ndebug\<close>, allocation on a predicate \<open>alloc\<close> on sizes.  Operations that change state and also report an error
  return both.  Integers whose width matters are words, or naturals with the modulus written out.  Pointers that are
  shared or may dangle are addresses into an explicit memory that is part of the state.  Loops that may not end take
  a number of rounds and answer \<open>None\<close> when it is used up; which bound is enough is a theorem
  (twice the length of the packet for validation, the cells of the window for the search of a pending request), and
  where none is, that is one, for every number of rounds (arrays of units, full rings, existing aliases).

  \<^bold>\<open>The theories.\<close>
  \<^item> \<open>Dicey_Prelude\<close>, \<open>Dicey_Errors\<close>, \<open>Dicey_Views\<close>, \<open>Dicey_Types\<close>: outcomes, errors, views over bytes, types and arguments.
  \<^item> \<open>Dtf_Writer\<close>, \<open>Dtf_Encoding\<close>, \<open>Dtf_Probe\<close>, \<open>Dtf_Roundtrip\<close>, \<open>Dtf_Payload\<close>: the encoder as the source writes it, what it
    writes as a function on lists of bytes, the decoder, their round trip, and payloads.
  \<^item> \<open>Dicey_Packet\<close>, \<open>Dicey_Validation\<close>, \<open>Dicey_Packet_Facts\<close>: packets and messages, the validation on reception and its end.
  \<^item> \<open>Dicey_Typedescr\<close>, \<open>Dicey_Signatures\<close>, \<open>Dicey_Uuid\<close>: type descriptors, the check of values against them, UUIDs.
  \<^item> \<open>Dicey_Args\<close>, \<open>Dicey_Builders\<close>: arguments and the message and value builders, with the cells they share.
  \<^item> \<open>String_Table\<close>, \<open>Dicey_Hashtable\<close>, \<open>Dicey_Hashtable_Facts\<close>, \<open>Dicey_Hashset\<close>, \<open>Dicey_Table_Room\<close>: the locale
    \<open>string_table\<close>, the coalesced hash table that interprets it, and sets of strings.
  \<^item> \<open>Bounded_Fifo\<close>, \<open>Dicey_Queue\<close>: the locale \<open>bounded_fifo\<close> and the ring buffer between threads that interprets it.
  \<^item> \<open>Dicey_Array\<close>, \<open>Dicey_Task_List\<close>, \<open>Dicey_Task_Loop\<close>, \<open>Dicey_Task_Facts\<close>: growing arrays, tasks with deadlines, the task loop.
  \<^item> \<open>Dicey_Pending\<close>, \<open>Dicey_Pending_Facts\<close>: the ring of requests that wait for a response.
  \<^item> \<open>Dicey_Traits\<close>, \<open>Dicey_Registry\<close>, \<open>Dicey_Registry_Facts\<close>, \<open>Dicey_Registry_Ops\<close>: traits, and the registry of objects,
    main paths and aliases, with the memory of objects and traits.
  \<^item> \<open>Dicey_Chunk\<close>, \<open>Dicey_Clients\<close>, \<open>Dicey_Request\<close>, \<open>Dicey_Request_Facts\<close>: the receive buffer, the data and the list of
    clients, and requests as user code sees them.
  \<^item> \<open>Dicey_Server\<close> (state, shared packets, sending), \<open>Dicey_Server_Handlers\<close> (checks, errors, responses, the event manager),
    \<open>Dicey_Server_Packets\<close> (messages, greetings, farewells), \<open>Dicey_Server_Loop\<close> (callbacks of libuv, shutdown, aliases),
    \<open>Dicey_Server_Inbound\<close> (requests of other threads, and runs of the loop).
  \<^item> \<open>Dicey_Server_Facts\<close>, \<open>Dicey_Server_Invariant\<close>, \<open>Dicey_Server_Steps\<close>, \<open>Dicey_Server_Signals\<close>: a calculus for what a call ensures
    if it returns, the invariant of the server, that every step keeps it, and whom a signal reaches.

  \<^bold>\<open>The server.\<close>  The record \<open>dicey_server\<close> holds the fields of the struct of that name together with what it points to: the
  clients and the shared packets in memory, the writes libuv has in flight, the handles being closed, and what was
  posted and reported.  The record \<open>server_env\<close> holds what the server does not determine: the allocator, whether a pipe
  takes a write, the callback of user code, the introspection builtins, and the number of rounds of inner loops.
  \<open>server_step\<close> runs one callback of the loop and \<open>server_run\<close> any sequence of them.  The invariant is about the runs in
  which every callback returns: failed assertions that the code does reach are stated as such in
  \<open>Server_Properties\<close>.  The hypothesis \<open>env_ok\<close> says that the introspection builtins leave the id of the
  client alone and that no allocation reaches \<open>2 ^ 62\<close> bytes.

  \<^bold>\<open>What is shown.\<close>  \<open>Wire_Properties\<close>: messages, greetings and lists survive the wire; framing is exact; reception of
  arbitrary bytes is defined and ends.  \<open>Core_Properties\<close>: the grammar of signatures, exactness of the signature check,
  UUIDs.  \<open>Builder_Properties\<close>: builders and one-shot construction give the same packets.  \<open>Table_Properties\<close>: the hash
  table is a finite map, and its iteration visits each entry once.  \<open>Queue_Properties\<close>, \<open>Task_Properties\<close>,
  \<open>Pending_Properties\<close>: order, at most one end of each task, exact completion of requests.  \<open>Registry_Properties\<close>: runs
  without dangling names, exact lookups.  \<open>Server_Properties\<close>: live clients and exact counts of shared packets, typed
  responses, signals to exactly the subscribers, replies that answer their request, at most once.  Each of these
  theories also states where the code fails.

  \<^bold>\<open>Not modelled.\<close>  libuv, threads and semaphores (their effects are steps, results and lists in the state); the client's
  tasks and the plugins on both sides, which are sequences of libuv and process calls around the modelled queue, task
  list and waiting list; the introspection builtins, which render the registry with libxml2 (a parameter of the
  server); creating, starting, stopping and deleting a server, and the entry points that only pack a request for the
  loop; tracing, formatting and addresses; plain getters of requests and arguments; samples, Python bindings and
  documentation.
\<close>

end
